(* ===== verification/Prelude.thy ===== *)
theory Prelude
  imports Complex_Main "HOL-Library.Word" "HOL-Library.AList"
begin

text \<open>
  Shared vocabulary of the development: the error values that stand for the exceptions of
  \<^verbatim>\<open>include/bg/core.hpp\<close>, results as sums, the model of the C++ containers, and the
  generic lemmas the component theories rest on.

  A \<^verbatim>\<open>std::unordered_map\<close> is an association list. The position of an entry in the list is
  its position in the iteration order of the container, which the C++ standard leaves open:
  theorems about operations are stated for an arbitrary list, that is for every iteration
  order. \<^verbatim>\<open>m[k] = v\<close> overwrites in place or adds at the end (\<^term>\<open>AList.update\<close>).
\<close>

named_theorems fp_simps \<open>evaluation rules of the floating-point layer\<close>
named_theorems codec_simps \<open>round-trip rules of the binary codecs\<close>
named_theorems frame_simps \<open>fields an operation leaves alone\<close>

section \<open>Errors and results\<close>

text \<open>
  The exception classes of \<^verbatim>\<open>core.hpp\<close>: \<^verbatim>\<open>bg::error\<close> and its three subclasses, each with
  its message. An operation that may throw returns the sum of an error and a value.
\<close>

datatype error =
    plain_error string
  | value_error string
  | authority_error string
  | transition_error string

type_synonym 'a result = "error + 'a"

definition rbind :: "'a result \<Rightarrow> ('a \<Rightarrow> 'b result) \<Rightarrow> 'b result" where
  "rbind r f = (case r of Inl e \<Rightarrow> Inl e | Inr x \<Rightarrow> f x)"

lemma rbind_simps [simp]:
  "rbind (Inl e) f = Inl e"
  "rbind (Inr x) f = f x"
  by (simp_all add: rbind_def)

lemma rbind_eq_Inr_iff: "rbind r f = Inr y \<longleftrightarrow> (\<exists>x. r = Inr x \<and> f x = Inr y)"
  by (cases r) auto

lemma rbind_eq_Inl_iff:
  "rbind r f = Inl e \<longleftrightarrow> r = Inl e \<or> (\<exists>x. r = Inr x \<and> f x = Inl e)"
  by (cases r) auto

section \<open>Associative containers\<close>

type_synonym ('k, 'v) umap = "('k \<times> 'v) list"

abbreviation keys :: "('k, 'v) umap \<Rightarrow> 'k list" where
  "keys m \<equiv> map fst m"

text \<open>\<^verbatim>\<open>m[k]\<close> as an lvalue: a missing key gets a default-constructed entry.\<close>

definition umap_entry :: "'v \<Rightarrow> 'k \<Rightarrow> ('k, 'v) umap \<Rightarrow> 'v" where
  "umap_entry d k m = (case map_of m k of None \<Rightarrow> d | Some v \<Rightarrow> v)"

text \<open>A loop \<^verbatim>\<open>for (auto& [k, v] : m)\<close> whose body rewrites each value on its own.\<close>

definition map_vals :: "('v \<Rightarrow> 'w) \<Rightarrow> ('k, 'v) umap \<Rightarrow> ('k, 'w) umap" where
  "map_vals f m = map (\<lambda>(k, v). (k, f v)) m"

lemma keys_map_vals [simp]: "keys (map_vals f m) = keys m"
  by (induction m) (auto simp: map_vals_def)

lemma map_of_map_vals [simp]: "map_of (map_vals f m) k = map_option f (map_of m k)"
  by (induction m) (auto simp: map_vals_def)

lemma map_vals_simps [simp]:
  "map_vals f [] = []"
  "map_vals f ((k, v) # m) = (k, f v) # map_vals f m"
  by (simp_all add: map_vals_def)

lemma map_vals_map_vals [simp]: "map_vals f (map_vals g m) = map_vals (f \<circ> g) m"
  by (induction m) auto

lemma map_vals_cong [cong]:
  "m = m' \<Longrightarrow> (\<And>k v. (k, v) \<in> set m' \<Longrightarrow> f v = g v) \<Longrightarrow> map_vals f m = map_vals g m'"
  by (auto simp: map_vals_def)

lemma set_map_vals: "set (map_vals f m) = (\<lambda>(k, v). (k, f v)) ` set m"
  by (simp add: map_vals_def)

lemma set_keys_update [simp]: "set (keys (AList.update k v m)) = insert k (set (keys m))"
  using dom_update [of k v m] by (simp add: dom_map_of_conv_image_fst)

lemma fst_set_update [simp]: "fst ` set (AList.update k v m) = insert k (fst ` set m)"
  using set_keys_update [of k v m] by simp

lemma map_of_update [simp]: "map_of (AList.update k v m) = (map_of m)(k \<mapsto> v)"
  by (rule update_conv')

lemma distinct_keys_update [simp]: "distinct (keys m) \<Longrightarrow> distinct (keys (AList.update k v m))"
  by (rule distinct_update)

lemma set_update_subset: "set (AList.update k v m) \<subseteq> insert (k, v) (set m)"
  by (induction m) auto

lemma set_update_keys_distinct:
  "distinct (keys m) \<Longrightarrow>
     set (AList.update k v m) = insert (k, v) {(k', v') \<in> set m. k' \<noteq> k}"
  by (induction m) (auto simp: image_iff)

lemma in_set_update_iff:
  "distinct (keys m) \<Longrightarrow>
     (k', v') \<in> set (AList.update k v m) \<longleftrightarrow>
       (if k' = k then v' = v else (k', v') \<in> set m)"
  by (auto simp: set_update_keys_distinct)

lemma map_of_in_set: "map_of m k = Some v \<Longrightarrow> (k, v) \<in> set m"
  by (rule map_of_SomeD)

lemma map_of_eq_Some_iff_set:
  "distinct (keys m) \<Longrightarrow> map_of m k = Some v \<longleftrightarrow> (k, v) \<in> set m"
  by (rule map_of_eq_Some_iff)

section \<open>Machine integers\<close>

type_synonym u8 = "8 word"
type_synonym u16 = "16 word"
type_synonym u32 = "32 word"
type_synonym u64 = "64 word"
type_synonym byte = u8

text \<open>
  \<^verbatim>\<open>f.retries++\<close> and the other counters are unsigned and wrap; \<^term>\<open>x + 1\<close> on words is
  that increment. \<^verbatim>\<open>std::max\<close> on unsigned integers is \<^term>\<open>max\<close>.
\<close>

lemma max_word_ge: "(x :: 'a::len word) \<le> max x y" "y \<le> max x y"
  by auto

end
