(* ===== verification/F64.thy ===== *)
theory F64
  imports Prelude
begin

text \<open>
  The C++ type \<^verbatim>\<open>double\<close>. A value is NaN, an infinity or a rational number; the comparison
  operators follow IEEE 754 (every ordered comparison with NaN is false). The two zeros are one
  value: no comparison, minimum, maximum or clamp of the program tells them apart.

  Arithmetic is the exact rational operation followed by a rounding function \<open>R\<close> and the
  overflow test against the largest finite double. The rounding is an argument of every
  definition that computes with doubles, since C++ leaves the floating-point format to the
  implementation. The laws the proofs rely on are the locale \<open>rounding\<close>. Two instances are
  given: \<open>rne64\<close>, the binary64 round-to-nearest-even of IEEE 754, which is the arithmetic
  of the machines the program targets, and the identity, which is exact arithmetic.
\<close>

section \<open>Values and comparisons\<close>

datatype f64 = NaN | PInf | NInf | Fin rat

instantiation f64 :: ord
begin

fun less_f64 :: "f64 \<Rightarrow> f64 \<Rightarrow> bool" where
  "less_f64 (Fin a) (Fin b) = (a < b)"
| "less_f64 (Fin a) PInf = True"
| "less_f64 NInf (Fin b) = True"
| "less_f64 NInf PInf = True"
| "less_f64 x y = False"

fun less_eq_f64 :: "f64 \<Rightarrow> f64 \<Rightarrow> bool" where
  "less_eq_f64 (Fin a) (Fin b) = (a \<le> b)"
| "less_eq_f64 (Fin a) PInf = True"
| "less_eq_f64 PInf PInf = True"
| "less_eq_f64 NInf (Fin b) = True"
| "less_eq_f64 NInf PInf = True"
| "less_eq_f64 NInf NInf = True"
| "less_eq_f64 x y = False"

instance ..

end

text \<open>\<^verbatim>\<open>==\<close> of doubles: NaN differs from itself.\<close>

definition feq :: "f64 \<Rightarrow> f64 \<Rightarrow> bool" where
  "feq x y \<longleftrightarrow> x = y \<and> x \<noteq> NaN"

abbreviation is_nan :: "f64 \<Rightarrow> bool" where
  "is_nan x \<equiv> \<not> feq x x"

abbreviation f0 :: f64 where "f0 \<equiv> Fin 0"
abbreviation f1 :: f64 where "f1 \<equiv> Fin 1"

lemma f64_less_Fin_iff:
  "x < Fin b \<longleftrightarrow> x = NInf \<or> (\<exists>a. x = Fin a \<and> a < b)"
  "Fin a < y \<longleftrightarrow> y = PInf \<or> (\<exists>b. y = Fin b \<and> a < b)"
  by (cases x; auto) (cases y; auto)

lemma f64_less_eq_Fin_iff:
  "x \<le> Fin b \<longleftrightarrow> x = NInf \<or> (\<exists>a. x = Fin a \<and> a \<le> b)"
  "Fin a \<le> y \<longleftrightarrow> y = PInf \<or> (\<exists>b. y = Fin b \<and> a \<le> b)"
  by (cases x; auto) (cases y; auto)

lemma f64_less_irrefl [simp]: "\<not> (x :: f64) < x"
  by (cases x) auto

lemma f64_le_refl_iff [simp]: "(x :: f64) \<le> x \<longleftrightarrow> x \<noteq> NaN"
  by (cases x) auto

lemma f64_less_NaN [simp]: "\<not> x < NaN" "\<not> NaN < x" "\<not> x \<le> NaN" "\<not> NaN \<le> x"
  by (cases x; simp)+

lemma f64_le_iff: "(x :: f64) \<le> y \<longleftrightarrow> x < y \<or> (x = y \<and> x \<noteq> NaN)"
  by (cases x; cases y) auto

lemma f64_less_trans: "(x :: f64) < y \<Longrightarrow> y < z \<Longrightarrow> x < z"
  by (cases x; cases y; cases z) auto

lemma f64_le_trans: "(x :: f64) \<le> y \<Longrightarrow> y \<le> z \<Longrightarrow> x \<le> z"
  by (cases x; cases y; cases z) auto

lemma f64_le_less_trans: "(x :: f64) \<le> y \<Longrightarrow> y < z \<Longrightarrow> x < z"
  by (cases x; cases y; cases z) auto

lemma f64_less_le_trans: "(x :: f64) < y \<Longrightarrow> y \<le> z \<Longrightarrow> x < z"
  by (cases x; cases y; cases z) auto

lemma f64_antisym: "(x :: f64) \<le> y \<Longrightarrow> y \<le> x \<Longrightarrow> x = y"
  by (cases x; cases y) auto

lemma f64_not_less: "x \<noteq> NaN \<Longrightarrow> y \<noteq> NaN \<Longrightarrow> \<not> (x :: f64) < y \<longleftrightarrow> y \<le> x"
  by (cases x; cases y) auto

section \<open>Library functions on doubles\<close>

text \<open>\<^verbatim>\<open>std::max\<close>, \<^verbatim>\<open>std::min\<close> and \<^verbatim>\<open>std::clamp\<close> as the standard defines them, by \<^verbatim>\<open><\<close>.\<close>

definition fmax :: "f64 \<Rightarrow> f64 \<Rightarrow> f64" where
  "fmax a b = (if a < b then b else a)"

definition fmin :: "f64 \<Rightarrow> f64 \<Rightarrow> f64" where
  "fmin a b = (if b < a then b else a)"

definition fmin3 :: "f64 \<Rightarrow> f64 \<Rightarrow> f64 \<Rightarrow> f64" where
  "fmin3 a b c = fmin (fmin a b) c"

definition fclamp :: "f64 \<Rightarrow> f64 \<Rightarrow> f64 \<Rightarrow> f64" where
  "fclamp v lo hi = (if v < lo then lo else if hi < v then hi else v)"

lemma fclamp_bounds:
  assumes "lo \<le> hi" "v \<noteq> NaN"
  shows "lo \<le> fclamp v lo hi" and "fclamp v lo hi \<le> hi"
  using assms by (cases v; cases lo; cases hi; auto simp: fclamp_def)+

lemma fclamp_id: "\<not> v < lo \<Longrightarrow> \<not> hi < v \<Longrightarrow> fclamp v lo hi = v"
  by (simp add: fclamp_def)

lemma fclamp_Fin: "fclamp (Fin v) (Fin lo) (Fin hi) = Fin (if v < lo then lo else if hi < v then hi else v)"
  by (simp add: fclamp_def)

lemma fmin_Fin [simp]: "fmin (Fin a) (Fin b) = Fin (min a b)"
  by (simp add: fmin_def min_def)

lemma fmax_Fin [simp]: "fmax (Fin a) (Fin b) = Fin (max a b)"
  by (simp add: fmax_def max_def)

lemma fmax_zero_nonneg [simp]: "f0 \<le> fmax f0 x"
  by (cases x) (auto simp: fmax_def)

section \<open>Arithmetic\<close>

text \<open>\<^verbatim>\<open>std::numeric_limits<double>::max()\<close>.\<close>

definition dbl_max :: rat where
  "dbl_max = (2 ^ 53 - 1) * 2 ^ 971"

definition fl :: "(rat \<Rightarrow> rat) \<Rightarrow> rat \<Rightarrow> f64" where
  "fl R x = (let y = R x in if dbl_max < y then PInf else if y < - dbl_max then NInf else Fin y)"

fun fneg :: "f64 \<Rightarrow> f64" where
  "fneg NaN = NaN"
| "fneg PInf = NInf"
| "fneg NInf = PInf"
| "fneg (Fin a) = Fin (- a)"

fun fadd :: "(rat \<Rightarrow> rat) \<Rightarrow> f64 \<Rightarrow> f64 \<Rightarrow> f64" where
  "fadd R (Fin a) (Fin b) = fl R (a + b)"
| "fadd R NaN y = NaN"
| "fadd R x NaN = NaN"
| "fadd R PInf NInf = NaN"
| "fadd R NInf PInf = NaN"
| "fadd R PInf y = PInf"
| "fadd R x PInf = PInf"
| "fadd R NInf y = NInf"
| "fadd R x NInf = NInf"

definition fsub :: "(rat \<Rightarrow> rat) \<Rightarrow> f64 \<Rightarrow> f64 \<Rightarrow> f64" where
  "fsub R x y = fadd R x (fneg y)"

fun fmul :: "(rat \<Rightarrow> rat) \<Rightarrow> f64 \<Rightarrow> f64 \<Rightarrow> f64" where
  "fmul R (Fin a) (Fin b) = fl R (a * b)"
| "fmul R NaN y = NaN"
| "fmul R x NaN = NaN"
| "fmul R (Fin a) y = (if a = 0 then NaN else if 0 < a then y else fneg y)"
| "fmul R x (Fin b) = (if b = 0 then NaN else if 0 < b then x else fneg x)"
| "fmul R PInf y = y"
| "fmul R NInf y = fneg y"

fun fdiv :: "(rat \<Rightarrow> rat) \<Rightarrow> f64 \<Rightarrow> f64 \<Rightarrow> f64" where
  "fdiv R (Fin a) (Fin b) =
     (if b = 0 then (if a = 0 then NaN else if 0 < a then PInf else NInf) else fl R (a / b))"
| "fdiv R NaN y = NaN"
| "fdiv R x NaN = NaN"
| "fdiv R (Fin a) y = Fin 0"
| "fdiv R x (Fin b) = (if 0 \<le> b then x else fneg x)"
| "fdiv R x y = NaN"

text \<open>A floating-point literal and the conversion \<^verbatim>\<open>static_cast<double>(uint64_t)\<close>.\<close>

definition flit :: "(rat \<Rightarrow> rat) \<Rightarrow> rat \<Rightarrow> f64" where
  "flit R q = fl R q"

definition f64_of_u64 :: "(rat \<Rightarrow> rat) \<Rightarrow> u64 \<Rightarrow> f64" where
  "f64_of_u64 R w = fl R (of_nat (unat w))"

definition finite64 :: "f64 \<Rightarrow> bool" where
  "finite64 x \<longleftrightarrow> (\<exists>a. x = Fin a)"

fun fval :: "f64 \<Rightarrow> rat" where
  "fval (Fin a) = a"
| "fval x = 0"

lemma dbl_max_pos [simp]: "0 < dbl_max" "\<not> dbl_max < 0" "0 \<le> dbl_max" "\<not> 0 < - dbl_max"
  by (simp_all add: dbl_max_def)

section \<open>Rounding\<close>

text \<open>
  What the proofs use of the rounding: it is monotone, every number on the binary64 grid
  (an integer of at most 53 bits times a power of two in the exponent range) is a fixed point,
  and so is every result.
\<close>

definition grid64 :: "int \<Rightarrow> int \<Rightarrow> bool" where
  "grid64 i k \<longleftrightarrow> \<bar>i\<bar> \<le> 2 ^ 53 \<and> - 1074 \<le> k \<and> k \<le> 971"

locale rounding =
  fixes R :: "rat \<Rightarrow> rat"
  assumes R_mono: "x \<le> y \<Longrightarrow> R x \<le> R y"
    and R_grid: "grid64 i k \<Longrightarrow> R (of_int i * 2 powi k) = of_int i * 2 powi k"
    and R_idem: "R (R x) = R x"
begin

lemma R_int: "\<bar>i\<bar> \<le> 2 ^ 53 \<Longrightarrow> R (of_int i) = of_int i"
  using R_grid [of i 0] by (simp add: grid64_def)

lemma R_0: "R 0 = 0"
  using R_int [of 0] by simp

lemma R_1: "R 1 = 1"
  using R_int [of 1] by simp

lemma R_numeral: "numeral n \<le> (2 ^ 53 :: int) \<Longrightarrow> R (numeral n) = numeral n"
  using R_int [of "numeral n"] by simp

lemma R_nonneg: "0 \<le> x \<Longrightarrow> 0 \<le> R x"
  using R_mono [of 0 x] by (simp add: R_0)

lemma R_nonpos: "x \<le> 0 \<Longrightarrow> R x \<le> 0"
  using R_mono [of x 0] by (simp add: R_0)

lemma R_dbl_max: "R dbl_max = dbl_max" "R (- dbl_max) = - dbl_max"
  using R_grid [of "2 ^ 53 - 1" 971] R_grid [of "- (2 ^ 53 - 1)" 971]
  by (simp_all add: grid64_def dbl_max_def)

lemma fl_finite: "\<bar>x\<bar> \<le> dbl_max \<Longrightarrow> fl R x = Fin (R x)"
  using R_mono [of x dbl_max] R_mono [of "- dbl_max" x] R_dbl_max
  by (simp add: fl_def Let_def abs_le_iff minus_le_iff not_less [symmetric])

lemma fl_not_NaN [simp]: "fl R x \<noteq> NaN"
  by (simp add: fl_def Let_def)

lemma fl_nonneg: "0 \<le> x \<Longrightarrow> f0 \<le> fl R x"
  using R_nonneg [of x] by (auto simp: fl_def Let_def)

lemma fl_mono: "x \<le> y \<Longrightarrow> fl R x \<le> fl R y"
  using R_mono [of x y] by (auto simp: fl_def Let_def)

lemma fl_0 [simp]: "fl R 0 = f0"
  by (simp add: fl_def R_0)

lemma fadd_nonneg: "f0 \<le> x \<Longrightarrow> f0 \<le> y \<Longrightarrow> f0 \<le> fadd R x y"
  by (cases x; cases y) (auto intro: fl_nonneg)

lemma fmul_nonneg:
  assumes "f0 \<le> x" "f0 \<le> y" "fmul R x y \<noteq> NaN"
  shows "f0 \<le> fmul R x y"
  using assms by (cases x; cases y) (auto intro: fl_nonneg split: if_splits)

lemma fdiv_nonneg:
  assumes "f0 \<le> x" "f0 \<le> y" "fdiv R x y \<noteq> NaN"
  shows "f0 \<le> fdiv R x y"
  using assms by (cases x; cases y) (auto intro: fl_nonneg split: if_splits)

lemma fadd_0:
  assumes "fl R a = Fin a"
  shows "fadd R f0 (Fin a) = Fin a" "fadd R (Fin a) f0 = Fin a"
  using assms by simp_all

end

subsection \<open>Exact arithmetic\<close>

interpretation exact: rounding "\<lambda>x. x"
  by unfold_locales auto

subsection \<open>IEEE 754 binary64, round to nearest, ties to even\<close>

fun blen :: "nat \<Rightarrow> nat" where
  "blen n = (if n = 0 then 0 else Suc (blen (n div 2)))"

declare blen.simps [simp del]

text \<open>The exponent of a positive rational: the largest power of two not above it.\<close>

definition flog2 :: "rat \<Rightarrow> int" where
  "flog2 q = (let (n, d) = quotient_of q; k = int (blen (nat n)) - int (blen (nat d))
              in if 2 powi k \<le> q then k else k - 1)"

definition round_even :: "rat \<Rightarrow> int" where
  "round_even q = (let f = \<lfloor>q\<rfloor>; d = q - of_int f
     in if d < 1 / 2 then f else if 1 / 2 < d then f + 1 else if even f then f else f + 1)"

definition ulp_exp :: "rat \<Rightarrow> int" where
  "ulp_exp q = max (flog2 q - 52) (- 1074)"

definition rne64 :: "rat \<Rightarrow> rat" where
  "rne64 x = (if x = 0 then 0
              else let u = 2 powi (ulp_exp \<bar>x\<bar>) in of_int (round_even (x / u)) * u)"

lemma blen_pos: "0 < n \<Longrightarrow> 0 < blen n"
  by (subst blen.simps) simp

lemma blen_bounds: "0 < n \<Longrightarrow> 2 ^ (blen n - 1) \<le> n \<and> n < 2 ^ blen n"
proof (induction n rule: blen.induct)
  case (1 n)
  show ?case
  proof (cases "n div 2 = 0")
    case True
    with "1.prems" have "n = 1" by auto
    moreover have "blen 1 = 1" by (subst blen.simps, subst blen.simps) simp
    ultimately show ?thesis by simp
  next
    case False
    with "1" have IH: "2 ^ (blen (n div 2) - 1) \<le> n div 2" "n div 2 < 2 ^ blen (n div 2)" by auto
    from False obtain m where m: "blen (n div 2) = Suc m"
      using blen_pos [of "n div 2"] gr0_implies_Suc by auto
    have n: "blen n = Suc (Suc m)"
      using "1.prems" m by (subst blen.simps) simp
    from IH m have "2 ^ m \<le> n div 2" "n div 2 < 2 * 2 ^ m" by simp_all
    then show ?thesis by (auto simp: n)
  qed
qed

lemma powi2_pos [simp]: "0 < (2 :: rat) powi k"
  by simp

lemma powi2_mono: "a \<le> b \<Longrightarrow> (2 :: rat) powi a \<le> 2 powi b"
  by (rule power_int_increasing) simp_all

lemma powi2_less: "a < b \<Longrightarrow> (2 :: rat) powi a < 2 powi b"
  by (rule power_int_strict_increasing) simp_all

lemma powi2_add: "(2 :: rat) powi (a + b) = 2 powi a * 2 powi b"
  by (simp add: power_int_add)

lemma blen_powi:
  assumes "0 < m"
  shows "(2 :: rat) powi (int (blen (nat m)) - 1) \<le> of_int m"
    and "of_int m < (2 :: rat) powi int (blen (nat m))"
proof -
  have b: "2 ^ (blen (nat m) - 1) \<le> nat m" "nat m < 2 ^ blen (nat m)"
    using blen_bounds [of "nat m"] assms by auto
  have e: "int (blen (nat m)) - 1 = int (blen (nat m) - 1)"
    using blen_pos [of "nat m"] assms by simp
  have i: "(of_int m :: rat) = of_nat (nat m)" using assms by simp
  have "(of_nat (2 ^ (blen (nat m) - 1)) :: rat) \<le> of_nat (nat m)"
    using b(1) by (simp only: of_nat_le_iff)
  then show "(2 :: rat) powi (int (blen (nat m)) - 1) \<le> of_int m"
    unfolding e i power_int_of_nat by simp
  have "(of_nat (nat m) :: rat) < of_nat (2 ^ blen (nat m))"
    using b(2) by (simp only: of_nat_less_iff)
  then show "of_int m < (2 :: rat) powi int (blen (nat m))"
    unfolding i power_int_of_nat by simp
qed

lemma flog2_bounds:
  assumes "0 < q"
  shows "2 powi flog2 q \<le> q" and "q < 2 powi (flog2 q + 1)"
proof -
  obtain n d where nd: "quotient_of q = (n, d)" by fastforce
  have d: "0 < d" using nd by (rule quotient_of_denom_pos)
  have q: "q = of_int n / of_int d" using nd by (rule quotient_of_div)
  with assms d have n: "0 < n" by (simp add: zero_less_divide_iff)
  define a b where "a = int (blen (nat n))" and "b = int (blen (nat d))"
  have A: "(2 :: rat) powi (a - 1) \<le> of_int n" "of_int n < (2 :: rat) powi a"
    using blen_powi [OF n] by (simp_all add: a_def)
  have B: "(2 :: rat) powi (b - 1) \<le> of_int d" "of_int d < (2 :: rat) powi b"
    using blen_powi [OF d] by (simp_all add: b_def)
  have "(2 :: rat) powi (a - b - 1) * of_int d \<le> 2 powi (a - b - 1) * 2 powi b"
    using B(2) by (intro mult_left_mono) auto
  also have "\<dots> = 2 powi (a - 1)" by (simp only: powi2_add [symmetric]) simp
  finally have lower: "2 powi (a - b - 1) \<le> q"
    using A(1) d by (simp add: q pos_le_divide_eq)
  have "of_int n < (2 :: rat) powi a" by (rule A(2))
  also have "\<dots> = 2 powi (a - b + 1) * 2 powi (b - 1)"
    by (simp only: powi2_add [symmetric]) simp
  also have "\<dots> \<le> 2 powi (a - b + 1) * of_int d"
    using B(1) by (intro mult_left_mono) auto
  finally have upper: "q < 2 powi (a - b + 1)"
    using d by (simp add: q pos_divide_less_eq)
  have fl: "flog2 q = (if 2 powi (a - b) \<le> q then a - b else a - b - 1)"
    using nd by (simp add: flog2_def a_def b_def)
  show "2 powi flog2 q \<le> q" using lower by (simp only: fl split: if_splits) auto
  show "q < 2 powi (flog2 q + 1)"
    unfolding fl using upper by (cases "2 powi (a - b) \<le> q") simp_all
qed

lemma flog2_unique:
  assumes "2 powi k \<le> q" "q < 2 powi (k + 1)"
  shows "flog2 q = k"
proof -
  have q: "0 < q" using assms(1) powi2_pos [of k] by linarith
  have "\<not> flog2 q + 1 \<le> k"
    using powi2_mono [of "flog2 q + 1" k] flog2_bounds(2) [OF q] assms(1) by auto
  moreover have "\<not> k + 1 \<le> flog2 q"
    using powi2_mono [of "k + 1" "flog2 q"] flog2_bounds(1) [OF q] assms(2) by auto
  ultimately show ?thesis by simp
qed

lemma flog2_mono: "0 < x \<Longrightarrow> x \<le> y \<Longrightarrow> flog2 x \<le> flog2 y"
proof (rule ccontr)
  assume xy: "0 < x" "x \<le> y" and "\<not> flog2 x \<le> flog2 y"
  then have "(2 :: rat) powi (flog2 y + 1) \<le> 2 powi flog2 x" by (intro powi2_mono) simp
  then show False using flog2_bounds(1) [of x] flog2_bounds(2) [of y] xy by linarith
qed

lemma round_even_int [simp]: "round_even (of_int i) = i"
  by (simp add: round_even_def)

lemma round_even_floor: "\<lfloor>q\<rfloor> \<le> round_even q" "round_even q \<le> \<lfloor>q\<rfloor> + 1"
  by (auto simp: round_even_def Let_def)

lemma round_even_mono: "x \<le> y \<Longrightarrow> round_even x \<le> round_even y"
proof (cases "\<lfloor>x\<rfloor> = \<lfloor>y\<rfloor>")
  case True
  then show "x \<le> y \<Longrightarrow> ?thesis" by (auto simp: round_even_def Let_def)
next
  case False
  assume "x \<le> y"
  then have "\<lfloor>x\<rfloor> + 1 \<le> \<lfloor>y\<rfloor>" using False floor_mono [of x y] by simp
  then show ?thesis using round_even_floor(2) [of x] round_even_floor(1) [of y] by linarith
qed

lemma round_even_minus: "round_even (- q) = - round_even q"
proof (cases "q = of_int \<lfloor>q\<rfloor>")
  case True
  then show ?thesis
    by (metis of_int_minus round_even_int)
next
  case False
  have "\<lfloor>- q\<rfloor> = - \<lfloor>q\<rfloor> - 1"
  proof (rule floor_unique)
    show "of_int (- \<lfloor>q\<rfloor> - 1) \<le> - q" using floor_correct [of q] by simp
    show "- q < of_int (- \<lfloor>q\<rfloor> - 1) + 1" using of_int_floor_le [of q] False by (simp add: less_le)
  qed
  then show ?thesis by (simp add: round_even_def Let_def)
qed

lemma rne64_minus: "rne64 (- x) = - rne64 x"
  by (simp add: rne64_def Let_def round_even_minus)

lemma rne64_pos: "0 < x \<Longrightarrow> 0 \<le> rne64 x"
  using round_even_mono [of 0 "x / 2 powi ulp_exp x"] round_even_int [of 0]
  by (simp add: rne64_def Let_def)

text \<open>A number that is an integer multiple of the unit of a larger one bounds its rounding.\<close>

lemma powi2_multiple: "e \<le> k \<Longrightarrow> \<exists>j. of_int i * (2 :: rat) powi k / 2 powi e = of_int j"
proof -
  assume "e \<le> k"
  then obtain n where n: "k = int n + e" by (metis add.commute zle_iff_zadd)
  have "of_int i * (2 :: rat) powi k / 2 powi e = of_int (i * 2 ^ n)"
    by (simp add: n powi2_add)
  then show ?thesis by blast
qed

lemma rne64_le_boundary:
  assumes "0 < x" "x \<le> 2 powi k" "ulp_exp x \<le> k"
  shows "rne64 x \<le> 2 powi k"
proof -
  let ?u = "(2 :: rat) powi ulp_exp x"
  obtain j where j: "2 powi k / ?u = of_int j" using powi2_multiple [OF assms(3), of 1] by auto
  have "x / ?u \<le> 2 powi k / ?u" using assms(2) by (simp add: divide_right_mono)
  then have "round_even (x / ?u) \<le> j" using round_even_mono j round_even_int by metis
  then have "of_int (round_even (x / ?u)) * ?u \<le> of_int j * ?u" by simp
  also have "\<dots> = 2 powi k" by (simp flip: j)
  finally show ?thesis using assms(1) by (simp add: rne64_def Let_def)
qed

lemma rne64_ge_boundary:
  assumes "2 powi k \<le> y" "ulp_exp y \<le> k"
  shows "2 powi k \<le> rne64 y"
proof -
  let ?u = "(2 :: rat) powi ulp_exp y"
  have y: "0 < y" using assms(1) powi2_pos [of k] by linarith
  obtain j where j: "2 powi k / ?u = of_int j" using powi2_multiple [OF assms(2), of 1] by auto
  have "2 powi k / ?u \<le> y / ?u" using assms(1) by (simp add: divide_right_mono)
  then have "j \<le> round_even (y / ?u)" using round_even_mono j round_even_int by metis
  then have "of_int j * ?u \<le> of_int (round_even (y / ?u)) * ?u" by simp
  moreover have "of_int j * ?u = 2 powi k" by (simp flip: j)
  ultimately show ?thesis using y by (simp add: rne64_def Let_def)
qed

lemma rne64_mono_pos:
  assumes "0 < x" "x \<le> y"
  shows "rne64 x \<le> rne64 y"
proof (cases "ulp_exp x = ulp_exp y")
  case True
  have "round_even (x / 2 powi ulp_exp x) \<le> round_even (y / 2 powi ulp_exp x)"
    using assms by (intro round_even_mono divide_right_mono) auto
  with True assms show ?thesis by (simp add: rne64_def Let_def)
next
  case False
  have m: "flog2 x \<le> flog2 y" using assms by (intro flog2_mono)
  with False have lt: "flog2 x < flog2 y" and e: "ulp_exp y = flog2 y - 52" "ulp_exp x \<le> flog2 y"
    by (auto simp: ulp_exp_def max_def split: if_splits)
  have "x \<le> 2 powi flog2 y"
    using flog2_bounds(2) [OF assms(1)] powi2_mono [of "flog2 x + 1" "flog2 y"] lt by simp
  then have "rne64 x \<le> 2 powi flog2 y" using assms(1) e(2) by (intro rne64_le_boundary)
  also have "\<dots> \<le> rne64 y"
    using assms e(1) flog2_bounds(1) [of y] by (intro rne64_ge_boundary) auto
  finally show ?thesis .
qed

lemma rne64_mono: "x \<le> y \<Longrightarrow> rne64 x \<le> rne64 y"
proof -
  assume xy: "x \<le> y"
  consider "0 < x" | "x = 0" | "x < 0" "0 < y" | "x < 0" "y = 0" | "x < 0" "y < 0" by linarith
  then show ?thesis
  proof cases
    case 1 then show ?thesis using xy by (rule rne64_mono_pos)
  next
    case 2 then show ?thesis using xy rne64_pos [of y] by (cases "y = 0") (auto simp: rne64_def)
  next
    case 3 then show ?thesis using rne64_pos [of y] rne64_pos [of "- x"] by (simp add: rne64_minus)
  next
    case 4 then show ?thesis using rne64_pos [of "- x"] by (simp add: rne64_minus) (simp add: rne64_def)
  next
    case 5 then show ?thesis using rne64_mono_pos [of "- y" "- x"] xy by (simp add: rne64_minus)
  qed
qed

lemma rne64_fix_pos:
  assumes "0 < i" "i \<le> 2 ^ 53" "- 1074 \<le> k"
  shows "rne64 (of_int i * 2 powi k) = of_int i * 2 powi k"
proof -
  let ?x = "of_int i * (2 :: rat) powi k"
  have x: "0 < ?x" using assms by simp
  have "\<exists>j. ?x / 2 powi ulp_exp ?x = of_int j"
  proof (cases "i = 2 ^ 53")
    case True
    then have x2: "?x = 2 powi (53 + k)" by (simp add: powi2_add)
    have "flog2 ?x = 53 + k" unfolding x2 by (rule flog2_unique) (auto intro: powi2_less)
    then have "ulp_exp ?x \<le> 53 + k" using assms by (simp add: ulp_exp_def)
    then show ?thesis unfolding x2 using powi2_multiple [of "ulp_exp (2 powi (53 + k))" "53 + k" 1] by simp
  next
    case False
    then have "i < 2 ^ 53" using assms by simp
    then have "(of_int i :: rat) < 2 ^ 53" by (metis of_int_less_iff of_int_numeral of_int_power)
    then have "?x < 2 ^ 53 * 2 powi k" by simp
    also have "\<dots> = 2 powi (53 + k)" by (simp add: powi2_add)
    finally have "\<not> 53 + k \<le> flog2 ?x"
      using flog2_bounds(1) [OF x] powi2_mono [of "53 + k" "flog2 ?x"] by linarith
    then have "ulp_exp ?x \<le> k" using assms by (simp add: ulp_exp_def)
    then show ?thesis by (rule powi2_multiple)
  qed
  then obtain j where "?x / 2 powi ulp_exp ?x = of_int j" ..
  moreover from this have "of_int j * 2 powi ulp_exp ?x = ?x" by (simp add: field_simps)
  ultimately show ?thesis using x by (simp add: rne64_def Let_def)
qed

lemma rne64_fix:
  assumes "\<bar>i\<bar> \<le> 2 ^ 53" "- 1074 \<le> k"
  shows "rne64 (of_int i * 2 powi k) = of_int i * 2 powi k"
proof -
  consider "0 < i" | "i = 0" | "0 < - i" by linarith
  then show ?thesis
  proof cases
    case 1 then show ?thesis using assms by (intro rne64_fix_pos) auto
  next
    case 2 then show ?thesis by (simp add: rne64_def)
  next
    case 3
    with assms have "rne64 (of_int (- i) * 2 powi k) = of_int (- i) * 2 powi k"
      by (intro rne64_fix_pos) auto
    then show ?thesis using rne64_minus [of "of_int i * 2 powi k"] by simp
  qed
qed

lemma rne64_on_grid: "\<exists>j e. rne64 x = of_int j * 2 powi e \<and> \<bar>j\<bar> \<le> 2 ^ 53 \<and> - 1074 \<le> e"
proof (cases "x = 0")
  case True
  then show ?thesis by (intro exI [of _ 0]) (auto simp: rne64_def)
next
  case False
  define e where "e = ulp_exp \<bar>x\<bar>"
  define j where "j = round_even (x / 2 powi e)"
  have "\<bar>x\<bar> \<le> 2 powi (flog2 \<bar>x\<bar> + 1)" using flog2_bounds(2) [of "\<bar>x\<bar>"] False by simp
  also have "\<dots> \<le> 2 powi (53 + e)" by (rule powi2_mono) (simp add: e_def ulp_exp_def)
  finally have "\<bar>x\<bar> \<le> 2 ^ 53 * 2 powi e" by (simp add: powi2_add)
  then have ub: "x / 2 powi e \<le> of_int (2 ^ 53)" "of_int (- (2 ^ 53)) \<le> x / 2 powi e"
    by (simp_all add: pos_divide_le_eq pos_le_divide_eq abs_le_iff)
  have "j \<le> 2 ^ 53" "- (2 ^ 53) \<le> j"
    using round_even_mono [OF ub(1)] round_even_mono [OF ub(2)] unfolding j_def
    by (simp_all only: round_even_int)
  then have "\<bar>j\<bar> \<le> 2 ^ 53" by simp
  moreover have "rne64 x = of_int j * 2 powi e" using False by (simp add: rne64_def Let_def j_def e_def)
  moreover have "- 1074 \<le> e" by (simp add: e_def ulp_exp_def)
  ultimately show ?thesis by blast
qed

lemma rne64_idem: "rne64 (rne64 x) = rne64 x"
  using rne64_on_grid [of x] rne64_fix by auto

interpretation ieee: rounding rne64
proof unfold_locales
  show "x \<le> y \<Longrightarrow> rne64 x \<le> rne64 y" for x y by (rule rne64_mono)
  show "grid64 i k \<Longrightarrow> rne64 (of_int i * 2 powi k) = of_int i * 2 powi k" for i k
    by (rule rne64_fix) (auto simp: grid64_def)
  show "rne64 (rne64 x) = rne64 x" for x by (rule rne64_idem)
qed

text \<open>
  A value held in a variable of type \<^verbatim>\<open>double\<close>: a fixed point of the rounding, not above the
  largest finite double.
\<close>

definition is_double :: "(rat \<Rightarrow> rat) \<Rightarrow> f64 \<Rightarrow> bool" where
  "is_double R x \<longleftrightarrow> (\<forall>a. x = Fin a \<longrightarrow> R a = a \<and> \<bar>a\<bar> \<le> dbl_max)"

context rounding
begin

lemma is_double_fl [simp]: "is_double R (fl R x)"
  by (auto simp: is_double_def fl_def Let_def R_idem split: if_splits)

lemma is_double_f0 [simp]: "is_double R f0"
  by (simp add: is_double_def R_0)

lemma fl_double: "is_double R (Fin a) \<Longrightarrow> fl R a = Fin a"
  using fl_finite by (simp add: is_double_def)

lemma fadd_ge_left:
  assumes "is_double R x" "x \<noteq> NaN" "f0 \<le> y" "f0 \<le> x"
  shows "x \<le> fadd R x y"
proof (cases x; cases y)
  fix a b assume ab: "x = Fin a" "y = Fin b"
  then have "fl R a \<le> fl R (a + b)" using assms by (intro fl_mono) simp
  then show ?thesis using ab assms(1) by (simp add: fl_double)
qed (use assms in auto)

end

lemma dbl_max_large: "10 ^ 300 \<le> dbl_max"
  by (simp add: dbl_max_def)

end
