(* ===== verification/Core_Types.thy ===== *)
theory Core_Types
  imports F64
begin

text \<open>
  \<^verbatim>\<open>include/bg/core.hpp\<close>, \<^verbatim>\<open>include/bg/ids.hpp\<close> and \<^verbatim>\<open>src/core.cpp\<close>: the bounded
  \<^verbatim>\<open>Capacity\<close> value, the strongly typed 128-bit identities with their order, hexadecimal
  form and hash, the identity generator and the generation bump.
\<close>

unbundle bit_operations_syntax

section \<open>Numeric bounds\<close>

text \<open>\<^verbatim>\<open>kMaxRate\<close> and \<^verbatim>\<open>kMaxBytes\<close> are exact doubles; \<^verbatim>\<open>kEpsilon\<close> is the double nearest 1e-9.\<close>

definition kMaxRate :: f64 where "kMaxRate = Fin (10 ^ 18)"
definition kMaxBytes :: f64 where "kMaxBytes = Fin (10 ^ 18)"
definition kEpsilon :: "(rat \<Rightarrow> rat) \<Rightarrow> f64" where "kEpsilon R = flit R (1 / 10 ^ 9)"

definition bg_clamp :: "f64 \<Rightarrow> f64 \<Rightarrow> f64 \<Rightarrow> f64" where
  "bg_clamp v lo hi = (if v < lo then lo else if hi < v then hi else v)"

definition finite_positive :: "f64 \<Rightarrow> bool" where
  "finite_positive v \<longleftrightarrow> f0 < v \<and> v < kMaxRate"

section \<open>Capacity\<close>

datatype Capacity = Capacity (cap_value: f64)

definition Capacity_zero :: Capacity where
  "Capacity_zero = Capacity f0"

definition is_valid_rate :: "f64 \<Rightarrow> bool" where
  "is_valid_rate v \<longleftrightarrow> \<not> v < f0 \<and> \<not> kMaxRate < v \<and> \<not> is_nan v \<and> \<not> feq v PInf"

definition Capacity_make :: "f64 \<Rightarrow> Capacity result" where
  "Capacity_make v =
     (if \<not> is_valid_rate v
      then Inl (value_error ''capacity value invalid: negative, NaN, Inf, or above bound'')
      else Inr (Capacity v))"

definition Capacity_try_make :: "f64 \<Rightarrow> Capacity option" where
  "Capacity_try_make v = (if \<not> is_valid_rate v then None else Some (Capacity v))"

definition Capacity_set_value :: "f64 \<Rightarrow> Capacity" where
  "Capacity_set_value v = Capacity (if is_valid_rate v then v else f0)"

definition Capacity_is_zero :: "Capacity \<Rightarrow> bool" where
  "Capacity_is_zero c \<longleftrightarrow> feq (cap_value c) f0"

definition Capacity_plus_eq :: "(rat \<Rightarrow> rat) \<Rightarrow> Capacity \<Rightarrow> Capacity \<Rightarrow> Capacity" where
  "Capacity_plus_eq R a b = Capacity_set_value (fadd R (cap_value a) (cap_value b))"

definition Capacity_minus_eq :: "(rat \<Rightarrow> rat) \<Rightarrow> Capacity \<Rightarrow> Capacity \<Rightarrow> Capacity" where
  "Capacity_minus_eq R a b = Capacity_set_value (fsub R (cap_value a) (cap_value b))"

section \<open>Identities\<close>

text \<open>
  \<^verbatim>\<open>Id128<Tag>\<close>: the phantom argument keeps the identity domains apart as the C++ tags do.
\<close>

datatype 't Id128 = Id128 (id_hi: u64) (id_lo: u64)

definition is_null :: "'t Id128 \<Rightarrow> bool" where
  "is_null i \<longleftrightarrow> id_hi i = 0 \<and> id_lo i = 0"

definition null_id :: "'t Id128" where
  "null_id = Id128 0 0"

definition id_less :: "'a Id128 \<Rightarrow> 'a Id128 \<Rightarrow> bool" where
  "id_less a b \<longleftrightarrow> (if id_hi a \<noteq> id_hi b then id_hi a < id_hi b else id_lo a < id_lo b)"

definition id_less_eq :: "'a Id128 \<Rightarrow> 'a Id128 \<Rightarrow> bool" where
  "id_less_eq a b \<longleftrightarrow> \<not> id_less b a"

instantiation Id128 :: (type) linorder
begin

definition less_Id128_inst: "a < b \<longleftrightarrow> id_less a (b :: 'a Id128)"

definition less_eq_Id128_inst: "a \<le> b \<longleftrightarrow> id_less_eq a (b :: 'a Id128)"

lemmas less_Id128_def = less_Id128_inst id_less_def

lemmas less_eq_Id128_def = less_eq_Id128_inst id_less_eq_def id_less_def

instance
proof
  fix x y z :: "'a Id128"
  show "x < y \<longleftrightarrow> x \<le> y \<and> \<not> y \<le> x"
    by (cases x; cases y) (auto simp: less_Id128_def less_eq_Id128_def)
  show "x \<le> x" by (simp add: less_Id128_def less_eq_Id128_def)
  show "x \<le> y \<Longrightarrow> y \<le> z \<Longrightarrow> x \<le> z"
    by (cases x; cases y; cases z) (auto simp: less_Id128_def less_eq_Id128_def split: if_splits)
  show "x \<le> y \<Longrightarrow> y \<le> x \<Longrightarrow> x = y"
    by (cases x; cases y) (auto simp: less_Id128_def less_eq_Id128_def split: if_splits)
  show "x \<le> y \<or> y \<le> x"
    by (cases x; cases y) (auto simp: less_Id128_def less_eq_Id128_def)
qed

end

datatype FlowIdTag = FlowIdTag
datatype TenantIdTag = TenantIdTag
datatype WorkloadIdTag = WorkloadIdTag
datatype LinkIdTag = LinkIdTag
datatype PathIdTag = PathIdTag
datatype ReservationIdTag = ReservationIdTag
datatype AttemptIdTag = AttemptIdTag
datatype WorkerIdTag = WorkerIdTag
datatype WorkerBootIdTag = WorkerBootIdTag
datatype CoordinatorEpochTag = CoordinatorEpochTag
datatype CapacityGenerationTag = CapacityGenerationTag
datatype FlowGenerationTag = FlowGenerationTag
datatype ResourceIdTag = ResourceIdTag
datatype CoordinatorIdTag = CoordinatorIdTag

type_synonym FlowId = "FlowIdTag Id128"
type_synonym TenantId = "TenantIdTag Id128"
type_synonym WorkloadId = "WorkloadIdTag Id128"
type_synonym LinkId = "LinkIdTag Id128"
type_synonym PathId = "PathIdTag Id128"
type_synonym ReservationId = "ReservationIdTag Id128"
type_synonym AttemptId = "AttemptIdTag Id128"
type_synonym WorkerId = "WorkerIdTag Id128"
type_synonym WorkerBootId = "WorkerBootIdTag Id128"
type_synonym CoordinatorEpoch = "CoordinatorEpochTag Id128"
type_synonym CapacityGeneration = "CapacityGenerationTag Id128"
type_synonym FlowGeneration = "FlowGenerationTag Id128"
type_synonym ResourceId = "ResourceIdTag Id128"
type_synonym CoordinatorId = "CoordinatorIdTag Id128"

text \<open>
  \<^verbatim>\<open>append_hex16\<close> fills a 16-character buffer from the last position down, four bits at a
  time; \<open>hex16 n v\<close> is the last \<open>n\<close> characters of the buffer after \<open>n\<close> rounds.
\<close>

definition hex_digit :: "u64 \<Rightarrow> char" where
  "hex_digit v = ''0123456789abcdef'' ! unat (v AND 0xF)"

fun hex_rounds :: "nat \<Rightarrow> u64 \<Rightarrow> string \<Rightarrow> string" where
  "hex_rounds 0 v buf = buf"
| "hex_rounds (Suc n) v buf = hex_rounds n (drop_bit 4 v) (hex_digit v # buf)"

definition append_hex16 :: "string \<Rightarrow> u64 \<Rightarrow> string" where
  "append_hex16 out v = out @ hex_rounds 16 v []"

definition id_to_string :: "'t Id128 \<Rightarrow> string" where
  "id_to_string i = append_hex16 (append_hex16 [] (id_hi i)) (id_lo i)"

text \<open>\<^verbatim>\<open>std::hash<Id128<Tag>>\<close>, with a 64-bit \<^verbatim>\<open>size_t\<close>.\<close>

definition id_hash :: "'t Id128 \<Rightarrow> u64" where
  "id_hash i =
     (let h = id_hi i XOR (id_lo i * 0x9E3779B97F4A7C15);
          h = h XOR drop_bit 33 h;
          h = h * 0xFF51AFD7ED558CCD
      in h XOR drop_bit 33 h)"

section \<open>Identity generator\<close>

text \<open>
  \<^verbatim>\<open>IdGen\<close>: the salt, the counter, and the \<^verbatim>\<open>std::mt19937_64\<close> engine as the sequence of
  its outputs together with the number of draws made. When the salt is 0 the engine is
  seeded from the clock and the object's address, so its outputs are the environment's.
\<close>

record IdGen =
  gen_salt :: u64
  gen_counter :: u64
  gen_rng :: "nat \<Rightarrow> u64"
  gen_draws :: nat

definition IdGen_seed :: "u64 \<Rightarrow> (nat \<Rightarrow> u64) \<Rightarrow> IdGen" where
  "IdGen_seed salt rng = \<lparr>gen_salt = salt, gen_counter = 0, gen_rng = rng, gen_draws = 0\<rparr>"

definition IdGen_next :: "IdGen \<Rightarrow> 't Id128 \<times> IdGen" where
  "IdGen_next g =
     (let h = gen_rng g (gen_draws g);
          l = (gen_salt g XOR push_bit 1 h) XOR gen_counter g
      in (Id128 h l, g\<lparr>gen_counter := gen_counter g + 1, gen_draws := Suc (gen_draws g)\<rparr>))"

definition IdGen_next64 :: "IdGen \<Rightarrow> u64 \<times> IdGen" where
  "IdGen_next64 g =
     (let h = gen_rng g (gen_draws g);
          l = (gen_salt g XOR push_bit 1 h) XOR gen_counter g
      in (push_bit 32 h XOR (l AND 0xFFFFFFFF),
          g\<lparr>gen_counter := gen_counter g + 1, gen_draws := Suc (gen_draws g)\<rparr>))"

section \<open>Generations\<close>

definition next_generation :: "'t Id128 \<Rightarrow> 't Id128" where
  "next_generation g =
     (let l = id_lo g + 1; h = (if l = 0 then id_hi g + 1 else id_hi g)
      in Id128 h (l OR 1))"

definition fresh_generation :: "u64 \<Rightarrow> 't Id128" where
  "fresh_generation nonce = Id128 nonce 1"

section \<open>Lemmas: capacities\<close>

lemma is_valid_rate_iff: "is_valid_rate v \<longleftrightarrow> (\<exists>a. v = Fin a \<and> 0 \<le> a \<and> a \<le> 10 ^ 18)"
  by (cases v) (auto simp: is_valid_rate_def feq_def kMaxRate_def)

lemma is_valid_rate_Fin [simp]: "is_valid_rate (Fin a) \<longleftrightarrow> 0 \<le> a \<and> a \<le> 10 ^ 18"
  by (simp add: is_valid_rate_iff)

lemma is_valid_rate_nonneg: "is_valid_rate v \<Longrightarrow> f0 \<le> v"
  by (auto simp: is_valid_rate_iff)

lemma is_valid_rate_between: "is_valid_rate b \<Longrightarrow> f0 \<le> v \<Longrightarrow> v \<le> b \<Longrightarrow> is_valid_rate v"
  by (cases v) (auto simp: is_valid_rate_iff)

definition valid_cap :: "Capacity \<Rightarrow> bool" where
  "valid_cap c \<longleftrightarrow> is_valid_rate (cap_value c)"

lemma valid_cap_zero [simp]: "valid_cap Capacity_zero"
  by (simp add: valid_cap_def Capacity_zero_def)

lemma Capacity_make_ok [simp]: "is_valid_rate v \<Longrightarrow> Capacity_make v = Inr (Capacity v)"
  by (simp add: Capacity_make_def)

lemma Capacity_make_Inr: "Capacity_make v = Inr c \<longleftrightarrow> is_valid_rate v \<and> c = Capacity v"
  by (auto simp: Capacity_make_def)

lemma Capacity_set_value_valid [simp]: "valid_cap (Capacity_set_value v)"
  by (simp add: valid_cap_def Capacity_set_value_def)

section \<open>Lemmas: identities\<close>

lemma length_hex_rounds: "length (hex_rounds n v buf) = n + length buf"
  by (induction n arbitrary: v buf) auto

lemma hex_rounds_eq: "hex_rounds n v buf = rev (map (\<lambda>i. hex_digit (drop_bit (4 * i) v)) [0..<n]) @ buf"
proof (induction n arbitrary: v buf)
  case (Suc n)
  have "map (\<lambda>i. hex_digit (drop_bit (4 * i) v)) [0..<Suc n] =
      hex_digit v # map (\<lambda>i. hex_digit (drop_bit (4 * i) (drop_bit 4 v))) [0..<n]"
    by (simp add: map_upt_Suc algebra_simps del: upt_Suc)
  then show ?case using Suc.IH [of "drop_bit 4 v"] by simp
qed simp

lemma nibble_bound: "unat (v AND 0xF :: u64) < 16"
proof -
  have "v AND 0xF \<le> (0xF :: u64)" by (rule word_and_le1)
  then have "unat (v AND 0xF) \<le> unat (0xF :: u64)" by (simp only: word_le_nat_alt)
  then show ?thesis by simp
qed

lemma hex_digit_inject: "hex_digit v = hex_digit w \<longleftrightarrow> v AND 0xF = w AND 0xF"
proof
  assume h: "hex_digit v = hex_digit w"
  have d: "distinct ''0123456789abcdef''" by simp
  have "unat (v AND 0xF) = unat (w AND 0xF)"
    using h nibble_bound [of v] nibble_bound [of w] nth_eq_iff_index_eq [OF d]
    by (simp add: hex_digit_def)
  then show "v AND 0xF = w AND 0xF" by (simp only: word_unat_eq_iff)
qed (simp add: hex_digit_def)

lemma hex16_inject: "hex_rounds 16 v [] = hex_rounds 16 w [] \<Longrightarrow> v = w"
proof (rule bit_word_eqI)
  fix n assume h: "hex_rounds 16 v [] = hex_rounds 16 w []" and n: "n < LENGTH(64)"
  have "map (\<lambda>i. hex_digit (drop_bit (4 * i) v)) [0..<16] = map (\<lambda>i. hex_digit (drop_bit (4 * i) w)) [0..<16]"
    using h by (simp only: hex_rounds_eq append_Nil2 rev_is_rev_conv)
  then have "\<forall>i<16. hex_digit (drop_bit (4 * i) v) = hex_digit (drop_bit (4 * i) w)"
    by (simp only: list_eq_iff_nth_eq length_map length_upt) simp
  then have "drop_bit (4 * (n div 4)) v AND 0xF = drop_bit (4 * (n div 4)) w AND 0xF"
    using n by (simp add: hex_digit_inject)
  then have "bit (drop_bit (4 * (n div 4)) v AND mask 4) (n mod 4) = bit (drop_bit (4 * (n div 4)) w AND mask 4) (n mod 4)"
    by (simp add: mask_eq_exp_minus_1)
  moreover have "4 * (n div 4) + n mod 4 = n" "n mod 4 < LENGTH(64)" using n by auto
  ultimately show "bit v n = bit w n"
    by (simp only: bit_and_iff bit_mask_iff bit_drop_bit_eq o_def) simp
qed

section \<open>Lemmas: the generator\<close>

text \<open>The identity drawn \<open>k\<close>-th from a generator that started at counter 0.\<close>

definition nth_id :: "IdGen \<Rightarrow> nat \<Rightarrow> 't Id128" where
  "nth_id g k = Id128 (gen_rng g k) ((gen_salt g XOR push_bit 1 (gen_rng g k)) XOR of_nat k)"

definition gen_wf :: "IdGen \<Rightarrow> bool" where
  "gen_wf g \<longleftrightarrow> gen_counter g = of_nat (gen_draws g)"

lemma nth_id_inject:
  assumes "nth_id g i = (nth_id g j :: 't Id128)" "i < 2 ^ 64" "j < 2 ^ 64"
  shows "i = j"
proof -
  from assms(1) have h: "gen_rng g i = gen_rng g j"
    and l: "(gen_salt g XOR push_bit 1 (gen_rng g i)) XOR of_nat i =
            (gen_salt g XOR push_bit 1 (gen_rng g j)) XOR of_nat j"
    by (auto simp: nth_id_def)
  let ?m = "gen_salt g XOR push_bit 1 (gen_rng g j)"
  from h l have "?m XOR (?m XOR of_nat i) = ?m XOR (?m XOR (of_nat j :: u64))" by simp
  then have "(of_nat i :: u64) = of_nat j" by (simp flip: xor.assoc)
  then show ?thesis using assms(2,3) by (simp add: word_of_nat_eq_iff take_bit_eq_mod)
qed

lemma nth_id_update [simp]: "nth_id (g\<lparr>gen_counter := c, gen_draws := d\<rparr>) = nth_id g"
  by (simp add: nth_id_def fun_eq_iff)

text \<open>The identities of \<open>n\<close> successive calls of \<^verbatim>\<open>IdGen::next\<close>.\<close>

fun mint :: "nat \<Rightarrow> IdGen \<Rightarrow> 't Id128 list" where
  "mint 0 g = []"
| "mint (Suc n) g = (case IdGen_next g of (i, g') \<Rightarrow> i # mint n g')"

lemma IdGen_next_nth:
  "gen_wf g \<Longrightarrow> IdGen_next g =
     (nth_id g (gen_draws g), g\<lparr>gen_counter := gen_counter g + 1, gen_draws := Suc (gen_draws g)\<rparr>)"
  by (simp add: IdGen_next_def gen_wf_def nth_id_def Let_def)

lemma mint_eq: "gen_wf g \<Longrightarrow> mint n g = map (nth_id g) [gen_draws g..<gen_draws g + n]"
proof (induction n arbitrary: g)
  case (Suc n)
  let ?g = "g\<lparr>gen_counter := gen_counter g + 1, gen_draws := Suc (gen_draws g)\<rparr>"
  have "gen_wf ?g" using Suc.prems by (simp add: gen_wf_def)
  then have "mint n ?g = (map (nth_id g) [Suc (gen_draws g)..<Suc (gen_draws g) + n] :: 'a Id128 list)"
    using Suc.IH [of ?g] by simp
  then show ?case using Suc.prems by (simp add: IdGen_next_nth upt_conv_Cons del: upt_Suc)
qed simp

lemma IdGen_next_wf:
  "gen_wf g \<Longrightarrow> IdGen_next g = (i, g') \<Longrightarrow>
     i = nth_id g (gen_draws g) \<and> gen_wf g' \<and> gen_draws g' = Suc (gen_draws g) \<and>
     gen_rng g' = gen_rng g \<and> gen_salt g' = gen_salt g"
  by (auto simp: IdGen_next_nth) (simp add: gen_wf_def)

lemma IdGen_next64_wf:
  "gen_wf g \<Longrightarrow> IdGen_next64 g = (x, g') \<Longrightarrow>
     gen_wf g' \<and> gen_draws g' = Suc (gen_draws g) \<and> gen_rng g' = gen_rng g \<and> gen_salt g' = gen_salt g"
  by (auto simp: IdGen_next64_def gen_wf_def Let_def algebra_simps)

lemma IdGen_seed_wf [simp]: "gen_wf (IdGen_seed salt rng)"
  by (simp add: gen_wf_def IdGen_seed_def)

section \<open>Lemmas: generations\<close>

definition id_nat :: "'t Id128 \<Rightarrow> nat" where
  "id_nat i = unat (id_hi i) * 2 ^ 64 + unat (id_lo i)"

lemma id_nat_less_iff: "id_nat a < id_nat b \<longleftrightarrow> a < b"
proof -
  have *: "h * 2 ^ 64 + l < h' * 2 ^ 64 + (l' :: nat)" if "h < h'" "l < 2 ^ 64" for h h' l l' :: nat
  proof -
    have "h * 2 ^ 64 + l < (h + 1) * 2 ^ 64" using that by simp
    also have "\<dots> \<le> h' * 2 ^ 64" using that by (intro mult_le_mono1) simp
    finally show ?thesis by simp
  qed
  have lt: "unat (x :: u64) < 2 ^ 64" for x using unsigned_less [of x] by simp
  show ?thesis
    using * [OF _ lt [of "id_lo a"], of "unat (id_hi a)" "unat (id_hi b)" "unat (id_lo b)"]
      * [OF _ lt [of "id_lo b"], of "unat (id_hi b)" "unat (id_hi a)" "unat (id_lo a)"]
    by (cases "id_hi a" "id_hi b" rule: linorder_cases)
       (auto simp: id_nat_def less_Id128_def word_less_nat_alt)
qed

lemma next_generation_not_null [simp]: "\<not> is_null (next_generation g)"
proof -
  have "bit (x OR 1 :: u64) 0" for x by (simp add: bit_or_iff)
  then have "(x OR 1 :: u64) \<noteq> 0" for x by (metis bit_0_eq bot_apply bot_bool_def)
  then show ?thesis by (simp add: is_null_def next_generation_def Let_def)
qed

lemma word_less_inc: "(x :: u64) + 1 \<noteq> 0 \<Longrightarrow> x < x + 1"
proof (rule ccontr)
  assume "x + 1 \<noteq> 0" "\<not> x < x + 1"
  then have "x = - 1" using inc_less_eq_triv_imp [of x] by (simp only: not_less)
  with \<open>x + 1 \<noteq> 0\<close> show False by simp
qed

lemma word_or_1_ge: "(x :: u64) \<le> x OR 1"
proof (cases "even x")
  case True
  then have "x + 1 \<noteq> 0" by (metis even_plus_one_iff even_zero)
  then have "x < x + 1" by (rule word_less_inc)
  with True show ?thesis by (simp add: or_one_eq)
qed (simp add: or_one_eq)

lemma next_generation_less:
  assumes "\<not> (id_hi g = - 1 \<and> id_lo g = - 1)"
  shows "g < next_generation g"
proof (cases "id_lo g + 1 = 0")
  case True
  then have "id_lo g = - 1" by (simp add: add_eq_0_iff2)
  with assms have "id_hi g + 1 \<noteq> 0" by (auto simp: add_eq_0_iff2)
  then have "id_hi g < id_hi g + 1" by (rule word_less_inc)
  with True show ?thesis by (simp add: next_generation_def less_Id128_def Let_def)
next
  case False
  then have "id_lo g < (id_lo g + 1) OR 1"
    using word_less_inc word_or_1_ge less_le_trans by blast
  with False show ?thesis by (simp add: next_generation_def less_Id128_def Let_def)
qed

lemma next_generation_fresh_funpow:
  "n < 2 ^ 63 \<Longrightarrow> (next_generation ^^ n) (fresh_generation nonce) = Id128 nonce (of_nat (2 * n + 1))"
proof (induction n)
  case 0
  show ?case by (simp add: fresh_generation_def)
next
  case (Suc n)
  have even: "even (of_nat (2 * n + 2) :: u64)"
    by (metis add_mult_distrib2 dvd_triv_left mult_2 of_nat_mult of_nat_numeral one_add_one mult.right_neutral)
  have "2 * n + 2 < 2 ^ 64" using Suc.prems by simp
  then have nz: "(of_nat (2 * n + 2) :: u64) \<noteq> 0"
    by (simp only: word_of_nat_eq_0_iff) (auto dest: dvd_imp_le)
  have inc: "of_nat (2 * n + 1) + 1 = (of_nat (2 * n + 2) :: u64)" by simp
  have "(next_generation ^^ Suc n) (fresh_generation nonce) =
      next_generation (Id128 nonce (of_nat (2 * n + 1)) :: 'a Id128)" using Suc by simp
  also have "\<dots> = Id128 nonce (of_nat (2 * n + 2) OR 1)"
    using nz by (simp only: next_generation_def Let_def id_lo_def id_hi_def Id128.sel inc) simp
  also have "\<dots> = Id128 nonce (of_nat (2 * n + 2) + 1)"
    using even by (simp add: or_one_eq)
  finally show ?case by simp
qed

section \<open>Properties\<close>

text \<open>Property C40. Type invariant of \<^verbatim>\<open>Capacity\<close>: \<^verbatim>\<open>make\<close> accepts exactly the numbers in
  [0, 1e18] (NaN, infinities, negative and larger values throw \<^verbatim>\<open>value_error\<close>), \<^verbatim>\<open>try_make\<close>
  accepts the same values, and whatever the rounding and the operands, \<^verbatim>\<open>set_value\<close>, \<^verbatim>\<open>+=\<close> and
  \<^verbatim>\<open>-=\<close> leave a value in that range.\<close>

theorem capacity_invariant:
  "(Capacity_make v = Inr c \<longleftrightarrow> (\<exists>a. v = Fin a \<and> 0 \<le> a \<and> a \<le> 10 ^ 18 \<and> c = Capacity v)) \<and>
   (Capacity_try_make v = Some c \<longleftrightarrow> Capacity_make v = Inr c) \<and>
   (\<exists>x. cap_value (Capacity_plus_eq R a b) = Fin x \<and> 0 \<le> x \<and> x \<le> 10 ^ 18) \<and>
   (\<exists>x. cap_value (Capacity_minus_eq R a b) = Fin x \<and> 0 \<le> x \<and> x \<le> 10 ^ 18)"
proof -
  have *: "\<exists>x. cap_value (Capacity_set_value y) = Fin x \<and> 0 \<le> x \<and> x \<le> 10 ^ 18" for y
    using Capacity_set_value_valid [of y] by (simp add: valid_cap_def is_valid_rate_iff)
  show ?thesis
    using * by (auto simp: Capacity_make_Inr Capacity_try_make_def is_valid_rate_iff
        Capacity_plus_eq_def Capacity_minus_eq_def)
qed

text \<open>The hexadecimal form of an identity has 32 characters and determines it.\<close>

lemma id_to_string_injective:
  "length (id_to_string a) = 32 \<and> (id_to_string a = id_to_string b \<longleftrightarrow> a = b)"
proof (intro conjI iffI)
  show "length (id_to_string a) = 32"
    by (simp add: id_to_string_def append_hex16_def length_hex_rounds)
next
  assume "id_to_string a = id_to_string b"
  then have "hex_rounds 16 (id_hi a) [] = hex_rounds 16 (id_hi b) []"
    "hex_rounds 16 (id_lo a) [] = hex_rounds 16 (id_lo b) []"
    by (simp_all add: id_to_string_def append_hex16_def length_hex_rounds)
  then show "a = b" using hex16_inject by (metis Id128.expand)
qed simp

text \<open>A generator that was seeded never repeats an identity within 2^64 draws, whatever
  the random engine returns: two draws with the same high word have different counters, and the
  counter enters the low word by exclusive or.\<close>

lemma idgen_never_repeats:
  "n \<le> 2 ^ 64 \<Longrightarrow> distinct (mint n (IdGen_seed salt rng))"
  using nth_id_inject
  by (fastforce simp: mint_eq distinct_map IdGen_seed_def [of salt rng, THEN arg_cong [where f = gen_draws]]
      intro: inj_onI)

text \<open>Generation bumps: the result is never the null identity; it is strictly greater than
  its argument in the order of identities, except at the single value with all 128 bits set; and
  from a fresh generation the first 2^63 generations are pairwise distinct, counting 1, 3, 5, ...
  in the low word.\<close>

lemma next_generation_monotone:
  "\<not> is_null (next_generation g) \<and>
   (g < next_generation g \<longleftrightarrow> g \<noteq> Id128 (- 1) (- 1)) \<and>
   inj_on (\<lambda>n. (next_generation ^^ n) (fresh_generation nonce :: 't Id128)) {n. n < 2 ^ 63}"
proof (intro conjI)
  show "g < next_generation g \<longleftrightarrow> g \<noteq> Id128 (- 1) (- 1)"
  proof
    show "g < next_generation g \<Longrightarrow> g \<noteq> Id128 (- 1) (- 1)"
      by (auto simp: next_generation_def less_Id128_def)
    show "g \<noteq> Id128 (- 1) (- 1) \<Longrightarrow> g < next_generation g"
      by (rule next_generation_less) (metis Id128.exhaust_sel)
  qed
  show "inj_on (\<lambda>n. (next_generation ^^ n) (fresh_generation nonce :: 't Id128)) {n. n < 2 ^ 63}"
  proof (rule inj_onI)
    fix x y :: nat
    assume xy: "x \<in> {n. n < 2 ^ 63}" "y \<in> {n. n < 2 ^ 63}"
      and "(next_generation ^^ x) (fresh_generation nonce :: 't Id128) = (next_generation ^^ y) (fresh_generation nonce)"
    then have "(of_nat (2 * x + 1) :: u64) = of_nat (2 * y + 1)"
      by (simp only: next_generation_fresh_funpow mem_Collect_eq Id128.inject)
    then show "x = y" using xy
      by (simp add: word_of_nat_eq_iff take_bit_eq_mod del: of_nat_Suc of_nat_add of_nat_mult)
  qed
qed simp

end
