(* ===== verification/Resource.thy ===== *)
theory Resource
  imports Core_Types
begin

text \<open>
  \<^verbatim>\<open>include/bg/resource.hpp\<close> and \<^verbatim>\<open>src/resource.cpp\<close>: resource classes with their names,
  directionality, health, the resource records, and the validation of capacity and utilisation
  reports.

  The enumerations of the program are \<^verbatim>\<open>enum class : uint32_t\<close>, and \<^verbatim>\<open>static_cast\<close> makes a
  value of such a type from any 32-bit word. Each is a datatype of its enumerators and one
  more constructor for the words that name none of them.
\<close>

datatype ResourceClass =
    Pcie | Nvlink | HostMemory | PinnedMemory | StorageRead | StorageWrite
  | InterNodeTcp | GenericTransport | ResourceClass_raw u32

datatype Directionality = Unidirectional | Bidirectional | Directionality_raw u32

datatype ResourceHealth = Healthy | Degraded | Unhealthy | ResourceHealth_raw u32

fun ResourceClass_code :: "ResourceClass \<Rightarrow> u32" where
  "ResourceClass_code Pcie = 0"
| "ResourceClass_code Nvlink = 1"
| "ResourceClass_code HostMemory = 2"
| "ResourceClass_code PinnedMemory = 3"
| "ResourceClass_code StorageRead = 4"
| "ResourceClass_code StorageWrite = 5"
| "ResourceClass_code InterNodeTcp = 6"
| "ResourceClass_code GenericTransport = 7"
| "ResourceClass_code (ResourceClass_raw w) = w"

definition ResourceClass_cast :: "u32 \<Rightarrow> ResourceClass" where
  "ResourceClass_cast w =
     (if w = 0 then Pcie else if w = 1 then Nvlink else if w = 2 then HostMemory
      else if w = 3 then PinnedMemory else if w = 4 then StorageRead else if w = 5 then StorageWrite
      else if w = 6 then InterNodeTcp else if w = 7 then GenericTransport else ResourceClass_raw w)"

fun Directionality_code :: "Directionality \<Rightarrow> u32" where
  "Directionality_code Unidirectional = 0"
| "Directionality_code Bidirectional = 1"
| "Directionality_code (Directionality_raw w) = w"

definition Directionality_cast :: "u32 \<Rightarrow> Directionality" where
  "Directionality_cast w =
     (if w = 0 then Unidirectional else if w = 1 then Bidirectional else Directionality_raw w)"

fun ResourceHealth_code :: "ResourceHealth \<Rightarrow> u32" where
  "ResourceHealth_code Healthy = 0"
| "ResourceHealth_code Degraded = 1"
| "ResourceHealth_code Unhealthy = 2"
| "ResourceHealth_code (ResourceHealth_raw w) = w"

definition ResourceHealth_cast :: "u32 \<Rightarrow> ResourceHealth" where
  "ResourceHealth_cast w =
     (if w = 0 then Healthy else if w = 1 then Degraded else if w = 2 then Unhealthy
      else ResourceHealth_raw w)"

fun resource_health_name :: "ResourceHealth \<Rightarrow> string" where
  "resource_health_name Healthy = ''healthy''"
| "resource_health_name Degraded = ''degraded''"
| "resource_health_name Unhealthy = ''unhealthy''"
| "resource_health_name (ResourceHealth_raw w) = ''unknown''"

text \<open>\<^verbatim>\<open>std::tolower\<close> on one byte, in the C locale the program runs in.\<close>

definition tolower :: "char \<Rightarrow> char" where
  "tolower c = (let n = of_char c :: nat in if 65 \<le> n \<and> n \<le> 90 then char_of (n + 32) else c)"

definition resource_class_from_string :: "string \<Rightarrow> ResourceClass option" where
  "resource_class_from_string s =
     (let low = map tolower s in
      if low = ''pcie'' then Some Pcie
      else if low = ''nvlink'' then Some Nvlink
      else if low = ''hostmemory'' \<or> low = ''host-memory'' \<or> low = ''host_memory'' then Some HostMemory
      else if low = ''pinnedmemory'' \<or> low = ''pinned-memory'' \<or> low = ''pinned_memory'' then Some PinnedMemory
      else if low = ''storageread'' \<or> low = ''storage-read'' \<or> low = ''storage_read'' then Some StorageRead
      else if low = ''storagewrite'' \<or> low = ''storage-write'' \<or> low = ''storage_write'' then Some StorageWrite
      else if low = ''internodetcp'' \<or> low = ''inter-node'' \<or> low = ''inter_node'' \<or> low = ''internode''
        then Some InterNodeTcp
      else if low = ''generic'' \<or> low = ''generictransport'' \<or> low = ''generic-transport''
        then Some GenericTransport
      else None)"

fun resource_class_name :: "ResourceClass \<Rightarrow> string" where
  "resource_class_name Pcie = ''pcie''"
| "resource_class_name Nvlink = ''nvlink''"
| "resource_class_name HostMemory = ''host_memory''"
| "resource_class_name PinnedMemory = ''pinned_memory''"
| "resource_class_name StorageRead = ''storage_read''"
| "resource_class_name StorageWrite = ''storage_write''"
| "resource_class_name InterNodeTcp = ''inter_node_tcp''"
| "resource_class_name GenericTransport = ''generic_transport''"
| "resource_class_name (ResourceClass_raw w) = ''unknown''"

record ResourceSpec =
  rs_id :: ResourceId
  rs_class :: ResourceClass
  rs_source :: string
  rs_destination :: string
  rs_direction :: Directionality
  rs_nominal :: Capacity
  rs_generation :: CapacityGeneration
  rs_enabled :: bool

record ResourceSnapshot =
  rn_id :: ResourceId
  rn_class :: ResourceClass
  rn_source :: string
  rn_destination :: string
  rn_direction :: Directionality
  rn_nominal :: Capacity
  rn_measured :: Capacity
  rn_governed :: Capacity
  rn_reserved :: Capacity
  rn_allocated :: Capacity
  rn_instantaneous_util :: f64
  rn_moving_average_util :: f64
  rn_queue_depth :: u64
  rn_saturated :: bool
  rn_measured_latency_ms :: f64
  rn_confidence :: f64
  rn_provenance :: string
  rn_staleness_ms :: f64
  rn_staleness_threshold_ms :: f64
  rn_capacity_generation :: CapacityGeneration
  rn_health :: ResourceHealth
  rn_enabled :: bool

definition validate_capacity :: "f64 \<Rightarrow> Capacity result" where
  "validate_capacity raw =
     (if \<not> is_valid_rate raw
      then Inl (value_error ''impossible capacity value: negative, NaN, Inf, or above bound'')
      else Capacity_make raw)"

definition validate_utilization :: "f64 \<Rightarrow> f64 result" where
  "validate_utilization u =
     (if \<not> f0 \<le> u \<or> \<not> u \<le> f1 \<or> is_nan u
      then Inl (value_error ''utilisation value must be in [0,1] and finite'') else Inr u)"

section \<open>Lemmas\<close>

definition ResourceClass_wf :: "ResourceClass \<Rightarrow> bool" where
  "ResourceClass_wf c \<longleftrightarrow> ResourceClass_cast (ResourceClass_code c) = c"

definition Directionality_wf :: "Directionality \<Rightarrow> bool" where
  "Directionality_wf c \<longleftrightarrow> Directionality_cast (Directionality_code c) = c"

definition ResourceHealth_wf :: "ResourceHealth \<Rightarrow> bool" where
  "ResourceHealth_wf c \<longleftrightarrow> ResourceHealth_cast (ResourceHealth_code c) = c"

lemma enum_cast_code [simp]:
  "ResourceClass_code (ResourceClass_cast w) = w"
  "Directionality_code (Directionality_cast w) = w"
  "ResourceHealth_code (ResourceHealth_cast w) = w"
  by (simp_all add: ResourceClass_cast_def Directionality_cast_def ResourceHealth_cast_def)

section \<open>Properties\<close>

text \<open>Class names and parsing: the parser reads the canonical name of a resource class
  back to the class, in any mixture of upper and lower case, for six of the eight classes. The
  canonical names of the inter-node TCP and the generic transport class are not among the
  spellings the parser accepts, so these two do not round-trip.\<close>

lemma resource_class_name_roundtrip:
  assumes "map tolower s = resource_class_name c" "\<forall>w. c \<noteq> ResourceClass_raw w"
  shows "resource_class_from_string s =
     (if c = InterNodeTcp \<or> c = GenericTransport then None else Some c)"
  using assms by (cases c) (simp_all add: resource_class_from_string_def)

end
