(* ===== verification/Flow.thy ===== *)
theory Flow
  imports Resource
begin

text \<open>
  \<^verbatim>\<open>include/bg/flow.hpp\<close> and \<^verbatim>\<open>src/flow.cpp\<close>: the flow life cycle as a guarded transition
  table, the flow specification a client submits, and its validation.
\<close>

datatype FlowState =
    Created | Queued | Reserved | Running | Throttled | Preempted | Completed | Cancelled | Failed
  | FlowState_raw u32

fun FlowState_code :: "FlowState \<Rightarrow> u32" where
  "FlowState_code Created = 0"
| "FlowState_code Queued = 1"
| "FlowState_code Reserved = 2"
| "FlowState_code Running = 3"
| "FlowState_code Throttled = 4"
| "FlowState_code Preempted = 5"
| "FlowState_code Completed = 6"
| "FlowState_code Cancelled = 7"
| "FlowState_code Failed = 8"
| "FlowState_code (FlowState_raw w) = w"

definition FlowState_cast :: "u32 \<Rightarrow> FlowState" where
  "FlowState_cast w =
     (if w = 0 then Created else if w = 1 then Queued else if w = 2 then Reserved
      else if w = 3 then Running else if w = 4 then Throttled else if w = 5 then Preempted
      else if w = 6 then Completed else if w = 7 then Cancelled else if w = 8 then Failed
      else FlowState_raw w)"

fun flow_state_name :: "FlowState \<Rightarrow> string" where
  "flow_state_name Created = ''created''"
| "flow_state_name Queued = ''queued''"
| "flow_state_name Reserved = ''reserved''"
| "flow_state_name Running = ''running''"
| "flow_state_name Throttled = ''throttled''"
| "flow_state_name Preempted = ''preempted''"
| "flow_state_name Completed = ''completed''"
| "flow_state_name Cancelled = ''cancelled''"
| "flow_state_name Failed = ''failed''"
| "flow_state_name (FlowState_raw w) = ''unknown''"

text \<open>The transition table; \<^const>\<open>None\<close> is \<^verbatim>\<open>std::nullopt\<close>, a transition that is not permitted.\<close>

definition flow_transition :: "FlowState \<Rightarrow> FlowState \<Rightarrow> FlowState option" where
  "flow_transition from to =
     (if from = to then Some to
      else case from of
        Created \<Rightarrow> if to \<in> {Queued, Cancelled, Failed} then Some to else None
      | Queued \<Rightarrow> if to \<in> {Reserved, Preempted, Cancelled, Failed, Running} then Some to else None
      | Reserved \<Rightarrow>
          if to \<in> {Running, Preempted, Cancelled, Failed, Completed} then Some to else None
      | Running \<Rightarrow>
          if to \<in> {Throttled, Preempted, Completed, Cancelled, Failed, Reserved} then Some to else None
      | Throttled \<Rightarrow>
          if to \<in> {Running, Preempted, Completed, Cancelled, Failed, Reserved} then Some to else None
      | Preempted \<Rightarrow>
          if to \<in> {Queued, Running, Cancelled, Failed, Reserved} then Some to else None
      | Completed \<Rightarrow> None
      | Cancelled \<Rightarrow> None
      | Failed \<Rightarrow> None
      | FlowState_raw w \<Rightarrow> None)"

datatype LatencyClass = LatencySensitive | ThroughputOriented | BestEffort | LatencyClass_raw u32

fun LatencyClass_code :: "LatencyClass \<Rightarrow> u32" where
  "LatencyClass_code LatencySensitive = 0"
| "LatencyClass_code ThroughputOriented = 1"
| "LatencyClass_code BestEffort = 2"
| "LatencyClass_code (LatencyClass_raw w) = w"

definition LatencyClass_cast :: "u32 \<Rightarrow> LatencyClass" where
  "LatencyClass_cast w =
     (if w = 0 then LatencySensitive else if w = 1 then ThroughputOriented
      else if w = 2 then BestEffort else LatencyClass_raw w)"

fun latency_class_name :: "LatencyClass \<Rightarrow> string" where
  "latency_class_name LatencySensitive = ''latency_sensitive''"
| "latency_class_name ThroughputOriented = ''throughput_oriented''"
| "latency_class_name BestEffort = ''best_effort''"
| "latency_class_name (LatencyClass_raw w) = ''unknown''"

text \<open>\<^verbatim>\<open>int priority\<close> is a 32-bit word read by \<^const>\<open>sint\<close>.\<close>

record FlowSpec =
  fs_id :: FlowId
  fs_tenant :: TenantId
  fs_workload :: WorkloadId
  fs_attempt :: AttemptId
  fs_generation :: FlowGeneration
  fs_source :: string
  fs_destination :: string
  fs_path :: PathId
  fs_byte_count :: u64
  fs_direction :: Directionality
  fs_priority :: u32
  fs_latency_class :: LatencyClass
  fs_deadline_seconds :: f64
  fs_requested_min :: Capacity
  fs_requested_preferred :: Capacity
  fs_requested_max :: Capacity
  fs_burst_bytes :: u64
  fs_preemptible :: bool
  fs_resumable :: bool

definition validate_flow_spec :: "FlowSpec \<Rightarrow> string option" where
  "validate_flow_spec f =
     (if is_null (fs_id f) then Some ''flow id is null''
      else if is_null (fs_tenant f) then Some ''tenant id is null''
      else if is_null (fs_attempt f) then Some ''attempt id is null''
      else if is_null (fs_generation f)
        then Some ''flow generation is null (flow must be generation fenced)''
      else if fs_byte_count f = 0 then Some ''byte_count must be positive''
      else if fs_byte_count f > 10 ^ 18 then Some ''byte_count exceeds the absolute bound''
      else if cap_value (fs_requested_max f) < cap_value (fs_requested_min f)
        then Some ''requested_max is below requested_min''
      else if cap_value (fs_requested_preferred f) < cap_value (fs_requested_min f)
        then Some ''requested_preferred is below requested_min''
      else if cap_value (fs_requested_max f) < cap_value (fs_requested_preferred f)
        then Some ''requested_preferred exceeds requested_max''
      else if fs_deadline_seconds f < f0 then Some ''deadline_seconds must be non-negative''
      else None)"

text \<open>
  The flow of the program's own test fixture: one tenant, one workload, path 1, one mebibyte.
\<close>

definition fixture_flow :: "u64 \<Rightarrow> rat \<Rightarrow> rat \<Rightarrow> rat \<Rightarrow> FlowSpec" where
  "fixture_flow n mi pref ma =
     \<lparr>fs_id = Id128 0 n, fs_tenant = Id128 0 10, fs_workload = Id128 0 20, fs_attempt = Id128 0 n,
      fs_generation = fresh_generation n, fs_source = ''a'', fs_destination = ''b'',
      fs_path = Id128 0 1, fs_byte_count = 1048576, fs_direction = Unidirectional, fs_priority = 0,
      fs_latency_class = BestEffort, fs_deadline_seconds = f0, fs_requested_min = Capacity (Fin mi),
      fs_requested_preferred = Capacity (Fin pref), fs_requested_max = Capacity (Fin ma),
      fs_burst_bytes = 0, fs_preemptible = True, fs_resumable = True\<rparr>"

section \<open>Lemmas\<close>

definition flow_terminal :: "FlowState \<Rightarrow> bool" where
  "flow_terminal s \<longleftrightarrow> s \<in> {Completed, Cancelled, Failed}"

abbreviation scheduled :: "FlowState \<Rightarrow> bool" where
  "scheduled s \<equiv> s = Running \<or> s = Throttled \<or> s = Reserved"

lemma flow_transition_cases:
  "flow_transition s t = Some u \<Longrightarrow> u = t"
  by (cases s) (auto simp: flow_transition_def split: if_splits)

lemma flow_transition_refl [simp]: "flow_transition s s = Some s"
  by (simp add: flow_transition_def)

lemma flow_transition_cancel:
  "\<not> flow_terminal s \<Longrightarrow> (\<forall>w. s \<noteq> FlowState_raw w) \<Longrightarrow> flow_transition s Cancelled = Some Cancelled"
  by (cases s) (auto simp: flow_transition_def flow_terminal_def)

lemma flow_transition_dispatch:
  "flow_transition Reserved Running = Some Running"
  "s = Running \<or> s = Throttled \<Longrightarrow> t \<in> {Running, Throttled, Preempted} \<Longrightarrow> flow_transition s t = Some t"
  "flow_transition Queued Reserved = Some Reserved"
  "s = Running \<or> s = Throttled \<or> s = Preempted \<Longrightarrow> flow_transition s Reserved = Some Reserved"
  "flow_transition Running Completed = Some Completed"
  by (auto simp: flow_transition_def)

text \<open>
  A life cycle is a sequence of permitted transitions. \<open>flow_reaches\<close> is reachability.
\<close>

inductive flow_reaches :: "FlowState \<Rightarrow> FlowState \<Rightarrow> bool" where
  stay: "flow_reaches s s"
| move: "flow_reaches s t \<Longrightarrow> flow_transition t u = Some v \<Longrightarrow> flow_reaches s v"

lemma flow_reaches_trans: "flow_reaches t u \<Longrightarrow> flow_reaches s t \<Longrightarrow> flow_reaches s u"
  by (induction rule: flow_reaches.induct) (auto intro: flow_reaches.move)

lemma flow_reaches_one: "flow_transition s t = Some u \<Longrightarrow> flow_reaches s u"
  by (rule flow_reaches.move [OF flow_reaches.stay])

lemma flow_reaches_terminal: "flow_reaches s t \<Longrightarrow> flow_terminal s \<Longrightarrow> t = s"
  by (induction rule: flow_reaches.induct)
     (auto simp: flow_terminal_def flow_transition_def split: if_splits)

definition FlowSpec_wf :: "FlowSpec \<Rightarrow> bool" where
  "FlowSpec_wf f \<longleftrightarrow>
     valid_cap (fs_requested_min f) \<and> valid_cap (fs_requested_preferred f) \<and> valid_cap (fs_requested_max f)"

definition spec_ordered :: "FlowSpec \<Rightarrow> bool" where
  "spec_ordered f \<longleftrightarrow> FlowSpec_wf f \<and>
     cap_value (fs_requested_min f) \<le> cap_value (fs_requested_preferred f) \<and>
     cap_value (fs_requested_preferred f) \<le> cap_value (fs_requested_max f)"

lemma validate_flow_spec_ordered:
  "validate_flow_spec f = None \<Longrightarrow> FlowSpec_wf f \<Longrightarrow> spec_ordered f"
  by (auto simp: validate_flow_spec_def spec_ordered_def FlowSpec_wf_def valid_cap_def is_valid_rate_iff
      split: if_splits)

section \<open>Properties\<close>

text \<open>Flow life cycle: a transition, when permitted, leads to the state asked for; the
  states Completed, Cancelled and Failed are left by no transition, so a life cycle that has
  reached one of them stays there; and from every state the client can see that is not terminal,
  cancellation and failure are permitted.\<close>

lemma flow_lifecycle_terminal:
  "(flow_transition s t = Some u \<longrightarrow> u = t) \<and>
   (flow_terminal s \<longrightarrow> (flow_reaches s t \<longleftrightarrow> t = s)) \<and>
   (\<not> flow_terminal s \<and> (\<forall>w. s \<noteq> FlowState_raw w) \<longrightarrow>
      flow_transition s Cancelled = Some Cancelled \<and> flow_transition s Failed = Some Failed)"
proof (intro conjI impI)
  show "flow_transition s t = Some u \<Longrightarrow> u = t" by (rule flow_transition_cases)
next
  assume fin: "flow_terminal s"
  then show "flow_reaches s t \<longleftrightarrow> t = s"
    using flow_reaches_terminal by (auto intro: flow_reaches.stay)
next
  assume "\<not> flow_terminal s \<and> (\<forall>w. s \<noteq> FlowState_raw w)"
  then show "flow_transition s Cancelled = Some Cancelled" "flow_transition s Failed = Some Failed"
    by (cases s; auto simp: flow_transition_def flow_terminal_def)+
qed

text \<open>Specification check: a specification whose three rates are valid capacities passes
  \<^verbatim>\<open>validate_flow_spec\<close> exactly when its flow, tenant, attempt and generation identities are not
  null, its byte count is between 1 and 10^18, its rates are ordered minimum, preferred, maximum,
  and its deadline is not a negative number; a NaN deadline passes.\<close>

lemma validate_flow_spec_exact:
  assumes "valid_cap (fs_requested_min f)" "valid_cap (fs_requested_preferred f)"
    "valid_cap (fs_requested_max f)"
  shows "validate_flow_spec f = None \<longleftrightarrow>
     \<not> is_null (fs_id f) \<and> \<not> is_null (fs_tenant f) \<and> \<not> is_null (fs_attempt f) \<and>
     \<not> is_null (fs_generation f) \<and> 0 < fs_byte_count f \<and> fs_byte_count f \<le> 10 ^ 18 \<and>
     cap_value (fs_requested_min f) \<le> cap_value (fs_requested_preferred f) \<and>
     cap_value (fs_requested_preferred f) \<le> cap_value (fs_requested_max f) \<and>
     (fs_deadline_seconds f = NaN \<or> f0 \<le> fs_deadline_seconds f)"
proof -
  obtain a b c where "cap_value (fs_requested_min f) = Fin a"
    "cap_value (fs_requested_preferred f) = Fin b" "cap_value (fs_requested_max f) = Fin c"
    using assms by (auto simp: valid_cap_def is_valid_rate_iff)
  then show ?thesis
    by (cases "fs_deadline_seconds f")
       (auto simp: validate_flow_spec_def word_neq_0_conv)
qed

end
