(* ===== verification/Explain.thy ===== *)
theory Explain
  imports Flow
begin

text \<open>
  \<^verbatim>\<open>include/bg/explain.hpp\<close> and \<^verbatim>\<open>src/explain.cpp\<close>: the structured explanation every
  admission, scheduling and allocation decision carries.
\<close>

datatype DecisionKind =
    Admit | Defer | Reject | Throttle | Preempt | Grant | Release | DecisionKind_raw u32

fun DecisionKind_code :: "DecisionKind \<Rightarrow> u32" where
  "DecisionKind_code Admit = 0"
| "DecisionKind_code Defer = 1"
| "DecisionKind_code Reject = 2"
| "DecisionKind_code Throttle = 3"
| "DecisionKind_code Preempt = 4"
| "DecisionKind_code Grant = 5"
| "DecisionKind_code Release = 6"
| "DecisionKind_code (DecisionKind_raw w) = w"

definition DecisionKind_cast :: "u32 \<Rightarrow> DecisionKind" where
  "DecisionKind_cast w =
     (if w = 0 then Admit else if w = 1 then Defer else if w = 2 then Reject else if w = 3 then Throttle
      else if w = 4 then Preempt else if w = 5 then Grant else if w = 6 then Release
      else DecisionKind_raw w)"

fun decision_kind_name :: "DecisionKind \<Rightarrow> string" where
  "decision_kind_name Admit = ''admit''"
| "decision_kind_name Defer = ''defer''"
| "decision_kind_name Reject = ''reject''"
| "decision_kind_name Throttle = ''throttle''"
| "decision_kind_name Preempt = ''preempt''"
| "decision_kind_name Grant = ''grant''"
| "decision_kind_name Release = ''release''"
| "decision_kind_name (DecisionKind_raw w) = ''unknown''"

record DecisionFactor =
  df_name :: string
  df_value :: f64
  df_weight :: f64
  df_rationale :: string

record Decision =
  d_flow :: FlowId
  d_tenant :: TenantId
  d_workload :: WorkloadId
  d_kind :: DecisionKind
  d_requested :: Capacity
  d_granted :: Capacity
  d_minimum_guarantee :: Capacity
  d_preferred :: Capacity
  d_maximum :: Capacity
  d_bottleneck :: "ResourceId option"
  d_path :: PathId
  d_priority :: u32
  d_latency_class :: LatencyClass
  d_deadline_pressure :: f64
  d_tenant_fairness :: f64
  d_workload_fairness :: f64
  d_starvation_age :: f64
  d_burst_remaining :: u64
  d_saturated :: bool
  d_competing_flows :: "FlowId list"
  d_reservation_pressure :: f64
  d_resource_generation :: CapacityGeneration
  d_capacity_generation :: CapacityGeneration
  d_kind_reason :: string
  d_defer_reason :: string
  d_reject_reason :: string
  d_throttle_reason :: string
  d_preemption_reason :: string
  d_factors :: "DecisionFactor list"

text \<open>A default-constructed \<^verbatim>\<open>Decision\<close>.\<close>

definition Decision_default :: Decision where
  "Decision_default =
     \<lparr>d_flow = null_id, d_tenant = null_id, d_workload = null_id, d_kind = Defer,
      d_requested = Capacity_zero, d_granted = Capacity_zero, d_minimum_guarantee = Capacity_zero,
      d_preferred = Capacity_zero, d_maximum = Capacity_zero, d_bottleneck = None, d_path = null_id,
      d_priority = 0, d_latency_class = BestEffort, d_deadline_pressure = f0, d_tenant_fairness = f0,
      d_workload_fairness = f0, d_starvation_age = f0, d_burst_remaining = 0, d_saturated = False,
      d_competing_flows = [], d_reservation_pressure = f0, d_resource_generation = null_id,
      d_capacity_generation = null_id, d_kind_reason = [], d_defer_reason = [], d_reject_reason = [],
      d_throttle_reason = [], d_preemption_reason = [], d_factors = []\<rparr>"

end
