(* ===== verification/Policy.thy ===== *)
theory Policy
  imports Explain "HOL-Library.While_Combinator" "HOL-Library.Product_Lexorder"
begin

text \<open>
  \<^verbatim>\<open>include/bg/policy.hpp\<close> and \<^verbatim>\<open>src/policy.cpp\<close>: the policy configuration and the weighted
  water-fill allocator \<^verbatim>\<open>allocate_weighted\<close>.

  The slots are a list in index order. The vector of pointers to the active slots is the list
  of their indices. The loop is \<^const>\<open>while_option\<close>, so that a call that never returned would be
  \<^const>\<open>None\<close>; that it returns is a theorem.
\<close>

section \<open>Model\<close>

record PolicyConfig =
  base_priority_weight :: f64
  latency_sensitive_weight :: f64
  throughput_weight :: f64
  best_effort_weight :: f64
  deadline_weight :: f64
  deadline_slack_seconds :: f64
  starvation_weight :: f64
  starvation_slow_seconds :: f64
  fairness_gain :: f64
  reservation_honour :: f64
  max_retries :: u32
  defer_if_min_infeasible :: bool
  reject_if_no_slack :: bool
  max_admitted :: u32
  deterministic_ties :: bool
  fairness_window_ms :: f64

text \<open>The default member initialisers of the struct.\<close>

definition PolicyConfig_default :: PolicyConfig where
  "PolicyConfig_default =
     \<lparr>base_priority_weight = Fin 2, latency_sensitive_weight = Fin 4, throughput_weight = Fin 2,
      best_effort_weight = Fin 1, deadline_weight = Fin (3 / 2), deadline_slack_seconds = Fin 30,
      starvation_weight = Fin (3 / 2), starvation_slow_seconds = Fin 60, fairness_gain = Fin 1,
      reservation_honour = Fin 1, max_retries = 3, defer_if_min_infeasible = True,
      reject_if_no_slack = False, max_admitted = 0, deterministic_ties = True,
      fairness_window_ms = Fin 2000\<rparr>"

record AllocEntry =
  ae_flow :: FlowId
  ae_weight :: f64
  ae_min :: f64
  ae_want :: f64
  ae_max :: f64

record AllocResult =
  ar_granted :: "f64 list"
  ar_total_requested :: f64
  ar_total_granted :: f64
  ar_unserved :: f64
  ar_saturated :: bool
  ar_deadline_pressure :: f64

record Slot =
  sl_index :: nat
  sl_weight :: f64
  sl_min :: f64
  sl_want :: f64
  sl_max :: f64
  sl_granted :: f64

abbreviation kEps :: "(rat \<Rightarrow> rat) \<Rightarrow> f64" where "kEps R \<equiv> flit R (1 / 1000000000)"

text \<open>\<^verbatim>\<open>double sum = 0.0; for (...) sum += x;\<close>\<close>

definition fsum :: "(rat \<Rightarrow> rat) \<Rightarrow> f64 list \<Rightarrow> f64" where
  "fsum R xs = foldl (fadd R) f0 xs"

definition sanitise_weight :: "f64 \<Rightarrow> f64" where
  "sanitise_weight w = (if \<not> f0 < w \<or> \<not> w < kMaxRate then f1 else w)"

definition make_slot :: "nat \<Rightarrow> AllocEntry \<Rightarrow> Slot" where
  "make_slot i e =
     (let mi = fclamp (ae_min e) f0 (ae_max e)
      in \<lparr>sl_index = i, sl_weight = sanitise_weight (ae_weight e), sl_min = mi,
          sl_want = fclamp (ae_want e) mi (ae_max e), sl_max = ae_max e, sl_granted = mi\<rparr>)"

definition make_slots :: "AllocEntry list \<Rightarrow> Slot list" where
  "make_slots es = map (\<lambda>i. make_slot i (es ! i)) [0..<length es]"

text \<open>The minima do not fit: scale them down and spread what rounding left over by weight.\<close>

definition scale_minima :: "(rat \<Rightarrow> rat) \<Rightarrow> Slot list \<Rightarrow> f64 \<Rightarrow> f64 \<Rightarrow> f64 list" where
  "scale_minima R slots capacity min_sum =
     (let scale = fdiv R capacity min_sum;
          vals = map (\<lambda>s. fmul R (sl_min s) scale) slots;
          leftover = fsub R capacity (fsum R vals);
          wsum = fsum R (map sl_weight slots)
      in if kEps R < leftover \<and> f0 < wsum
         then map (\<lambda>(v, s). fadd R v (fmul R leftover (fdiv R (sl_weight s) wsum))) (zip vals slots)
         else vals)"

text \<open>The active slots, ordered by flow identity and then index.\<close>

definition initial_active :: "(rat \<Rightarrow> rat) \<Rightarrow> AllocEntry list \<Rightarrow> Slot list \<Rightarrow> nat list" where
  "initial_active R es slots =
     sort_key (\<lambda>i. (ae_flow (es ! i), i))
       (filter (\<lambda>i. fadd R (sl_granted (slots ! i)) (kEps R) < sl_want (slots ! i)) [0..<length slots])"

type_synonym fill_state = "Slot list \<times> nat list \<times> f64"

definition active_wsum :: "(rat \<Rightarrow> rat) \<Rightarrow> Slot list \<Rightarrow> nat list \<Rightarrow> f64" where
  "active_wsum R slots active = fsum R (map (\<lambda>i. sl_weight (slots ! i)) active)"

definition slot_room :: "(rat \<Rightarrow> rat) \<Rightarrow> Slot \<Rightarrow> f64" where
  "slot_room R s = fdiv R (fsub R (sl_want s) (sl_granted s)) (sl_weight s)"

definition least_room :: "(rat \<Rightarrow> rat) \<Rightarrow> Slot list \<Rightarrow> nat list \<Rightarrow> f64" where
  "least_room R slots active =
     foldl (\<lambda>m i. if slot_room R (slots ! i) < m then slot_room R (slots ! i) else m) PInf active"

definition raise_slot :: "(rat \<Rightarrow> rat) \<Rightarrow> nat list \<Rightarrow> f64 \<Rightarrow> Slot \<Rightarrow> Slot" where
  "raise_slot R active step s =
     (if sl_index s \<in> set active
      then s\<lparr>sl_granted := fadd R (sl_granted s) (fmul R step (sl_weight s))\<rparr> else s)"

definition fill_cond :: "(rat \<Rightarrow> rat) \<Rightarrow> fill_state \<Rightarrow> bool" where
  "fill_cond R = (\<lambda>(slots, active, remaining).
     kEps R < remaining \<and> active \<noteq> [] \<and> \<not> active_wsum R slots active \<le> f0)"

definition fill_step :: "(rat \<Rightarrow> rat) \<Rightarrow> fill_state \<Rightarrow> fill_state" where
  "fill_step R = (\<lambda>(slots, active, remaining).
     let wsum = active_wsum R slots active;
         inc_units = fdiv R remaining wsum;
         min_room = least_room R slots active;
         step = (if min_room < inc_units then min_room else inc_units);
         slots' = map (raise_slot R active step) slots;
         left = fsub R remaining (fmul R step wsum);
         remaining' = (if left < f0 then f0 else left);
         active' = filter (\<lambda>i. \<not> fsub R (sl_want (slots' ! i)) (kEps R) \<le> sl_granted (slots' ! i)) active
     in (slots', active', remaining'))"

definition allocate_weighted :: "(rat \<Rightarrow> rat) \<Rightarrow> AllocEntry list \<Rightarrow> f64 \<Rightarrow> AllocResult option" where
  "allocate_weighted R entries capacity =
     (if entries = [] \<or> capacity \<le> f0
      then Some \<lparr>ar_granted = replicate (length entries) f0, ar_total_requested = f0,
                 ar_total_granted = f0, ar_unserved = f0, ar_saturated = False,
                 ar_deadline_pressure = f0\<rparr>
      else
        let slots = make_slots entries;
            total_requested = fsum R (map sl_want slots);
            min_sum = fsum R (map sl_min slots);
            saturated = (fadd R capacity (kEps R) < total_requested)
        in if fadd R capacity (kEps R) < min_sum
           then
             let vals = scale_minima R slots capacity min_sum;
                 total_granted = fsum R vals
             in Some \<lparr>ar_granted = map (\<lambda>(v, e). fclamp v f0 (ae_max e)) (zip vals entries),
                      ar_total_requested = total_requested, ar_total_granted = total_granted,
                      ar_unserved = fmax f0 (fsub R total_requested total_granted),
                      ar_saturated = saturated, ar_deadline_pressure = f0\<rparr>
           else
             case while_option (fill_cond R) (fill_step R)
                    (slots, initial_active R entries slots, fsub R capacity min_sum) of
               None \<Rightarrow> None
             | Some (slots', _, _) \<Rightarrow>
                 let granted = map (\<lambda>s. fclamp (sl_granted s) f0 (sl_max s)) slots';
                     total_granted = fsum R granted
                 in Some \<lparr>ar_granted = granted, ar_total_requested = total_requested,
                          ar_total_granted = total_granted,
                          ar_unserved = fmax f0 (fsub R total_requested total_granted),
                          ar_saturated = saturated, ar_deadline_pressure = f0\<rparr>)"

section \<open>Bounds under any rounding\<close>

text \<open>The three ways through \<^const>\<open>allocate_weighted\<close>.\<close>

lemma f64_pos_not_le: "f0 < x \<Longrightarrow> \<not> x \<le> f0"
  by (cases x) auto

lemma allocate_trivial:
  "es = [] \<or> capacity \<le> f0 \<Longrightarrow> allocate_weighted R es capacity = Some res \<Longrightarrow>
     ar_granted res = replicate (length es) f0"
  by (auto simp: allocate_weighted_def)

lemma allocate_scaled:
  assumes "es \<noteq> []" "f0 < capacity" "M = fsum R (map sl_min (make_slots es))"
    "fadd R capacity (kEps R) < M" "allocate_weighted R es capacity = Some res"
  shows "ar_granted res =
    map (\<lambda>(v, e). fclamp v f0 (ae_max e)) (zip (scale_minima R (make_slots es) capacity M) es)"
proof -
  have "Some (ar_granted res) = map_option ar_granted (allocate_weighted R es capacity)"
    using assms(5) by simp
  also have "\<dots> = Some (map (\<lambda>(v, e). fclamp v f0 (ae_max e))
      (zip (scale_minima R (make_slots es) capacity M) es))"
    using assms(1-4) f64_pos_not_le [OF assms(2)] by (simp add: allocate_weighted_def Let_def)
  finally show ?thesis by simp
qed

lemma allocate_filled_eq:
  assumes "es \<noteq> []" "f0 < capacity" "M = fsum R (map sl_min (make_slots es))"
    "\<not> fadd R capacity (kEps R) < M"
  shows "map_option ar_granted (allocate_weighted R es capacity) =
    map_option (\<lambda>(slots', _, _). map (\<lambda>s. fclamp (sl_granted s) f0 (sl_max s)) slots')
      (while_option (fill_cond R) (fill_step R)
         (make_slots es, initial_active R es (make_slots es), fsub R capacity M))"
  using assms f64_pos_not_le [OF assms(2)]
  by (simp add: allocate_weighted_def Let_def split: option.splits prod.splits)

lemma allocate_filled:
  assumes "es \<noteq> []" "f0 < capacity" "M = fsum R (map sl_min (make_slots es))"
    "\<not> fadd R capacity (kEps R) < M" "allocate_weighted R es capacity = Some res"
  obtains slots' active' r' where
    "while_option (fill_cond R) (fill_step R)
       (make_slots es, initial_active R es (make_slots es), fsub R capacity M) = Some (slots', active', r')"
    "ar_granted res = map (\<lambda>s. fclamp (sl_granted s) f0 (sl_max s)) slots'"
proof -
  have "map_option (\<lambda>(slots', _, _). map (\<lambda>s. fclamp (sl_granted s) f0 (sl_max s)) slots')
      (while_option (fill_cond R) (fill_step R)
         (make_slots es, initial_active R es (make_slots es), fsub R capacity M)) = Some (ar_granted res)"
    unfolding allocate_filled_eq [OF assms(1-4), symmetric] assms(5) by simp
  then show thesis using that by (auto simp only: map_option_eq_Some prod.case split_paired_Ex)
qed

lemma make_slots_length [simp]: "length (make_slots es) = length es"
  by (simp add: make_slots_def)

lemma make_slots_nth [simp]: "i < length es \<Longrightarrow> make_slots es ! i = make_slot i (es ! i)"
  by (simp add: make_slots_def)

lemma sanitise_weight_pos: "\<exists>w. sanitise_weight x = Fin w \<and> 0 < w \<and> w < 10 ^ 18"
  by (cases x) (auto simp: sanitise_weight_def kMaxRate_def)

text \<open>The rates of an entry are doubles in the capacity range.\<close>

definition rate_ok :: "(rat \<Rightarrow> rat) \<Rightarrow> f64 \<Rightarrow> bool" where
  "rate_ok R x \<longleftrightarrow> is_valid_rate x \<and> is_double R x"

definition entry_ok :: "(rat \<Rightarrow> rat) \<Rightarrow> AllocEntry \<Rightarrow> bool" where
  "entry_ok R e \<longleftrightarrow> rate_ok R (ae_min e) \<and> rate_ok R (ae_want e) \<and> rate_ok R (ae_max e)"

lemma rate_ok_Fin:
  assumes "rate_ok R x"
  obtains a where "x = Fin a" "0 \<le> a" "a \<le> 10 ^ 18" "R a = a" "\<bar>a\<bar> \<le> dbl_max"
  using assms by (auto simp: rate_ok_def is_valid_rate_iff is_double_def)

lemma make_slot_Fin:
  assumes "ae_min e = Fin a" "ae_want e = Fin b" "ae_max e = Fin c" "0 \<le> a" "0 \<le> c"
  shows "make_slot i e = \<lparr>sl_index = i, sl_weight = sanitise_weight (ae_weight e),
    sl_min = Fin (min a c), sl_want = Fin (min (max b (min a c)) c), sl_max = Fin c,
    sl_granted = Fin (min a c)\<rparr>"
proof -
  have m: "fclamp (ae_min e) f0 (ae_max e) = Fin (min a c)"
    using assms by (simp add: fclamp_Fin min_def)
  have "fclamp (ae_want e) (Fin (min a c)) (ae_max e) = Fin (min (max b (min a c)) c)"
    using assms by (auto simp: fclamp_Fin min_def max_def)
  then show ?thesis using m assms(3) by (simp add: make_slot_def Let_def)
qed

text \<open>
  What every slot keeps through the loop: its constants are those of its entry, and its grant
  is a double that is at least the minimum (possibly \<^verbatim>\<open>+inf\<close>, never NaN).
\<close>

definition slot_ok :: "(rat \<Rightarrow> rat) \<Rightarrow> AllocEntry \<Rightarrow> nat \<Rightarrow> Slot \<Rightarrow> bool" where
  "slot_ok R e i s \<longleftrightarrow> s = (make_slot i e)\<lparr>sl_granted := sl_granted s\<rparr> \<and>
     sl_min (make_slot i e) \<le> sl_granted s \<and> is_double R (sl_granted s)"

definition loop_ok :: "(rat \<Rightarrow> rat) \<Rightarrow> AllocEntry list \<Rightarrow> fill_state \<Rightarrow> bool" where
  "loop_ok R es = (\<lambda>(slots, active, remaining).
     length slots = length es \<and> (\<forall>i < length es. slot_ok R (es ! i) i (slots ! i)) \<and>
     (\<forall>i \<in> set active. i < length es \<and> sl_granted (slots ! i) \<le> sl_want (slots ! i)) \<and>
     remaining \<noteq> PInf \<and> is_double R remaining)"

lemma make_slot_range:
  assumes "entry_ok R e"
  obtains m t where "sl_min (make_slot i e) = Fin m" "sl_want (make_slot i e) = Fin t"
    "0 \<le> m" "m \<le> t" "Fin t \<le> ae_max e" "Fin m = fmin (ae_min e) (ae_max e)" "R t = t" "R m = m"
    "t \<le> 10 ^ 18"
proof -
  from assms obtain a b c where "ae_min e = Fin a" "ae_want e = Fin b" "ae_max e = Fin c"
    "0 \<le> a" "0 \<le> c" "c \<le> 10 ^ 18" "R a = a" "R b = b" "R c = c"
    unfolding entry_ok_def by (auto elim!: rate_ok_Fin)
  moreover from this have "R (min a c) = min a c" "R (min (max b (min a c)) c) = min (max b (min a c)) c"
    by (simp_all add: min_def max_def)
  ultimately show thesis
    by (intro that [of "min a c" "min (max b (min a c)) c"]) (simp_all add: make_slot_Fin min_le_iff_disj)
qed

text \<open>The increment of one round.\<close>

definition fill_units :: "(rat \<Rightarrow> rat) \<Rightarrow> Slot list \<Rightarrow> nat list \<Rightarrow> f64 \<Rightarrow> f64" where
  "fill_units R slots active r =
     (let inc = fdiv R r (active_wsum R slots active); room = least_room R slots active
      in if room < inc then room else inc)"

lemma fill_step_eq:
  "fill_step R (slots, active, r) =
     (let st = fill_units R slots active r;
          slots' = map (raise_slot R active st) slots;
          left = fsub R r (fmul R st (active_wsum R slots active))
      in (slots', filter (\<lambda>i. \<not> fsub R (sl_want (slots' ! i)) (kEps R) \<le> sl_granted (slots' ! i)) active,
          if left < f0 then f0 else left))"
  by (simp add: fill_step_def fill_units_def Let_def)

context rounding
begin

lemma fsum_nonneg: "list_all (\<lambda>x. f0 \<le> x) xs \<Longrightarrow> f0 \<le> fsum R xs"
proof -
  have "f0 \<le> a \<Longrightarrow> list_all (\<lambda>x. f0 \<le> x) xs \<Longrightarrow> f0 \<le> foldl (fadd R) a xs" for a
    by (induction xs arbitrary: a) (auto intro: fadd_nonneg)
  then show "list_all (\<lambda>x. f0 \<le> x) xs \<Longrightarrow> f0 \<le> fsum R xs" by (simp add: fsum_def)
qed

lemma fdiv_pos_not_NaN: "f0 \<le> x \<Longrightarrow> x \<noteq> PInf \<Longrightarrow> f0 < y \<Longrightarrow> f0 \<le> fdiv R x y"
  by (cases x; cases y) (auto intro: fl_nonneg)

lemma fmul_weight: "f0 \<le> x \<Longrightarrow> 0 < w \<Longrightarrow> f0 \<le> fmul R x (Fin w)"
  by (cases x) (auto intro: fl_nonneg)

lemma is_double_fadd [simp]: "is_double R (fadd R x y)"
  by (cases x; cases y) (auto simp: is_double_def fl_def Let_def R_idem split: if_splits)

lemma kEps_nonneg: "f0 \<le> kEps R"
  by (simp add: flit_def fl_nonneg)

lemma not_less_f0: "\<not> x < f0 \<Longrightarrow> x \<noteq> NaN \<Longrightarrow> f0 \<le> x"
  by (cases x) auto

lemma least_room_nonneg:
  assumes "\<And>i. i \<in> set active \<Longrightarrow> \<not> slot_room R (slots ! i) < f0"
  shows "f0 \<le> least_room R slots active"
proof -
  have step: "f0 \<le> (if slot_room R (slots ! i) < m then slot_room R (slots ! i) else m)"
    if "f0 \<le> m" "\<not> slot_room R (slots ! i) < f0" for m i
    using that by (cases "slot_room R (slots ! i)") auto
  have "f0 \<le> m \<Longrightarrow> (\<And>i. i \<in> set active \<Longrightarrow> \<not> slot_room R (slots ! i) < f0) \<Longrightarrow>
    f0 \<le> foldl (\<lambda>m i. if slot_room R (slots ! i) < m then slot_room R (slots ! i) else m) m active" for m
  proof (induction active arbitrary: m)
    case (Cons i active)
    show ?case using Cons.IH [OF step] Cons.prems by simp
  qed simp
  then show ?thesis using assms by (simp add: least_room_def)
qed

lemma fsub_nonneg: "f0 \<le> fsub R (Fin a) y" if "y \<le> Fin a"
  using that by (cases y) (auto simp: fsub_def intro: fl_nonneg)

lemma fsub_not_PInf:
  assumes "is_double R (Fin a)" "f0 \<le> y \<or> y = NaN"
  shows "fsub R (Fin a) y \<noteq> PInf"
proof (cases y)
  case (Fin b)
  then have "fl R (a - b) \<le> fl R a" using assms(2) by (intro fl_mono) simp
  then show ?thesis using Fin assms(1) by (auto simp: fsub_def fl_double)
qed (use assms in \<open>auto simp: fsub_def\<close>)

lemma fsub_kEps_le:
  assumes "is_double R (Fin t)" "\<not> fsub R (Fin t) (kEps R) \<le> g" "g \<noteq> NaN"
  shows "g \<le> Fin t"
proof (cases "kEps R")
  case (Fin e)
  then have "0 \<le> e" using kEps_nonneg by simp
  then have "fl R (t - e) \<le> fl R t" by (intro fl_mono) simp
  then have "fsub R (Fin t) (kEps R) \<le> Fin t" using Fin assms(1) by (simp add: fsub_def fl_double)
  then show ?thesis using assms(2, 3) by (cases g; cases "fsub R (Fin t) (kEps R)") auto
qed (use assms kEps_nonneg in \<open>cases g; auto simp: fsub_def\<close>)+

lemma fadd_kEps_le:
  assumes "is_double R g" "f0 \<le> g" "fadd R g (kEps R) < t"
  shows "g \<le> t"
proof -
  have "g \<le> fadd R g (kEps R)" using assms kEps_nonneg by (intro fadd_ge_left) auto
  then show ?thesis using assms(3) by (cases g; cases t; cases "fadd R g (kEps R)") auto
qed

lemma slot_okD:
  assumes "slot_ok R e i s" "entry_ok R e"
  obtains m t w where "sl_index s = i" "sl_weight s = Fin w" "0 < w" "sl_want s = Fin t"
    "is_double R (Fin t)" "sl_min (make_slot i e) = Fin m" "0 \<le> m" "Fin m \<le> sl_granted s"
    "f0 \<le> sl_granted s" "is_double R (sl_granted s)" "sl_max s = ae_max e"
proof -
  obtain m t where mt: "sl_min (make_slot i e) = Fin m" "sl_want (make_slot i e) = Fin t" "0 \<le> m"
    "m \<le> t" "R t = t" "t \<le> 10 ^ 18"
    using make_slot_range [OF assms(2), of i] by metis
  obtain w where w: "sanitise_weight (ae_weight e) = Fin w" "0 < w"
    using sanitise_weight_pos [of "ae_weight e"] by auto
  have s: "s = (make_slot i e)\<lparr>sl_granted := sl_granted s\<rparr>" "Fin m \<le> sl_granted s"
    "is_double R (sl_granted s)"
    using assms(1) mt(1) by (simp_all add: slot_ok_def)
  have t: "is_double R (Fin t)" using mt dbl_max_large by (simp add: is_double_def)
  have "sl_index s = sl_index (make_slot i e)" "sl_weight s = sl_weight (make_slot i e)"
    "sl_want s = sl_want (make_slot i e)" "sl_max s = sl_max (make_slot i e)"
    using arg_cong [OF s(1), of sl_index] arg_cong [OF s(1), of sl_weight]
      arg_cong [OF s(1), of sl_want] arg_cong [OF s(1), of sl_max] by simp_all
  moreover have "f0 \<le> sl_granted s" using s(2) mt(3) by (cases "sl_granted s") auto
  ultimately show thesis using that mt w s(2,3) t by (simp add: make_slot_def Let_def)
qed

lemma active_wsum_nonneg:
  assumes "loop_ok R es (slots, active, r)" "list_all (entry_ok R) es"
  shows "f0 \<le> active_wsum R slots active"
proof -
  have "f0 \<le> sl_weight (slots ! i)" if "i \<in> set active" for i
  proof -
    have "slot_ok R (es ! i) i (slots ! i)" "entry_ok R (es ! i)"
      using assms that by (auto simp: loop_ok_def list_all_length)
    then show ?thesis by (rule slot_okD) simp
  qed
  then show ?thesis by (auto simp: active_wsum_def list_all_iff intro: fsum_nonneg)
qed

lemma slot_room_nonneg:
  assumes "slot_ok R e i s" "entry_ok R e" "sl_granted s \<le> sl_want s"
  shows "\<not> slot_room R s < f0"
proof -
  obtain w t where *: "sl_weight s = Fin w" "0 < w" "sl_want s = Fin t"
    using assms(1,2) by (rule slot_okD)
  have "f0 \<le> fsub R (sl_want s) (sl_granted s)" using assms(3) * fsub_nonneg by simp
  then have "f0 \<le> slot_room R s \<or> slot_room R s = PInf"
    using * fl_nonneg by (cases "fsub R (sl_want s) (sl_granted s)") (auto simp: slot_room_def)
  then show ?thesis by (cases "slot_room R s") auto
qed

lemma fill_units_nonneg:
  assumes "loop_ok R es (slots, active, r)" "list_all (entry_ok R) es" "fill_cond R (slots, active, r)"
  shows "f0 \<le> fill_units R slots active r"
proof -
  have "\<not> slot_room R (slots ! i) < f0" if "i \<in> set active" for i
    using assms(1,2) that by (intro slot_room_nonneg [of "es ! i" i])
      (auto simp: loop_ok_def list_all_length)
  then have "f0 \<le> least_room R slots active" by (rule least_room_nonneg)
  moreover have "f0 \<le> fdiv R r (active_wsum R slots active)"
  proof (rule fdiv_pos_not_NaN)
    have "kEps R < r" using assms(3) by (simp add: fill_cond_def)
    then show "f0 \<le> r" using kEps_nonneg by (cases r; cases "kEps R") auto
    show "r \<noteq> PInf" using assms(1) by (simp add: loop_ok_def)
    show "f0 < active_wsum R slots active"
      using active_wsum_nonneg [OF assms(1,2)] assms(3)
      by (cases "active_wsum R slots active") (auto simp: fill_cond_def)
  qed
  ultimately show ?thesis by (simp add: fill_units_def Let_def)
qed

lemma fill_step_slot_ok:
  assumes "slot_ok R e i s" "entry_ok R e" "f0 \<le> st"
  shows "slot_ok R e i (raise_slot R active st s)"
proof -
  obtain m w where s: "sl_weight s = Fin w" "0 < w" "sl_min (make_slot i e) = Fin m"
    "Fin m \<le> sl_granted s" "f0 \<le> sl_granted s" "is_double R (sl_granted s)"
    using assms(1,2) by (rule slot_okD)
  have "sl_granted s \<le> fadd R (sl_granted s) (fmul R st (sl_weight s))"
    using s assms(3) by (intro fadd_ge_left) (auto intro: fmul_weight)
  then have "Fin m \<le> fadd R (sl_granted s) (fmul R st (sl_weight s))"
    using s(4) f64_le_trans by blast
  moreover have "(make_slot i e)\<lparr>sl_granted := x\<rparr> = s\<lparr>sl_granted := x\<rparr>" for x
    using assms(1) unfolding slot_ok_def by (metis Slot.unfold_congs(6) Slot.surjective Slot.update_convs(6))
  ultimately show ?thesis using assms(1) s(3) by (auto simp: slot_ok_def raise_slot_def)
qed

lemma fill_step_ok:
  assumes "loop_ok R es st" "list_all (entry_ok R) es" "fill_cond R st"
  shows "loop_ok R es (fill_step R st)"
proof -
  obtain slots active r where st: "st = (slots, active, r)" by (cases st)
  define u where "u = fill_units R slots active r"
  define slots' where "slots' = map (raise_slot R active u) slots"
  define left where "left = fsub R r (fmul R u (active_wsum R slots active))"
  have step: "fill_step R st = (slots', filter (\<lambda>i. \<not> fsub R (sl_want (slots' ! i)) (kEps R) \<le>
      sl_granted (slots' ! i)) active, if left < f0 then f0 else left)"
    unfolding st fill_step_eq Let_def slots'_def left_def u_def by simp
  have ok: "loop_ok R es (slots, active, r)" "fill_cond R (slots, active, r)" using assms st by simp_all
  have u: "f0 \<le> u" unfolding u_def using ok(1) assms(2) ok(2) by (rule fill_units_nonneg)
  have W: "f0 \<le> active_wsum R slots active" using ok(1) assms(2) by (rule active_wsum_nonneg)
  have len: "length slots = length es" using ok(1) by (simp add: loop_ok_def)
  have slot: "slot_ok R (es ! i) i (slots' ! i)" if "i < length es" for i
    using fill_step_slot_ok [of "es ! i" i "slots ! i" u active] ok(1) assms(2) u that len
    by (simp add: slots'_def loop_ok_def list_all_length)
  have act: "sl_granted (slots' ! i) \<le> sl_want (slots' ! i)"
    if i: "i < length es" and na: "\<not> fsub R (sl_want (slots' ! i)) (kEps R) \<le> sl_granted (slots' ! i)" for i
  proof -
    have "entry_ok R (es ! i)" using assms(2) i by (simp add: list_all_length)
    then obtain t where t: "sl_want (slots' ! i) = Fin t" "is_double R (Fin t)" "f0 \<le> sl_granted (slots' ! i)"
      by (rule slot_okD [OF slot [OF i]])
    then show ?thesis using na fsub_kEps_le [of t "sl_granted (slots' ! i)"] by fastforce
  qed
  obtain a where a: "r = Fin a" "is_double R (Fin a)"
    using ok by (cases r) (auto simp: loop_ok_def fill_cond_def)
  have "f0 \<le> fmul R u (active_wsum R slots active) \<or> fmul R u (active_wsum R slots active) = NaN"
    using u W by (cases u; cases "active_wsum R slots active") (auto intro: fl_nonneg)
  then have "left \<noteq> PInf" unfolding left_def a(1) using a(2) by (intro fsub_not_PInf)
  moreover have "is_double R left" by (simp add: left_def fsub_def)
  moreover have "i \<in> set active \<Longrightarrow> i < length es" for i using ok(1) by (simp add: loop_ok_def)
  moreover have "length slots' = length es" using len by (simp add: slots'_def)
  ultimately show ?thesis using slot act unfolding step by (simp add: loop_ok_def)
qed

lemma make_slots_ok:
  assumes "entry_ok R e"
  shows "slot_ok R e i (make_slot i e)"
proof -
  obtain m t where mt: "sl_min (make_slot i e) = Fin m" "0 \<le> m" "m \<le> t" "R m = m" "t \<le> 10 ^ 18"
    using make_slot_range [OF assms, of i] by metis
  moreover have "sl_granted (make_slot i e) = sl_min (make_slot i e)"
    by (simp add: make_slot_def Let_def)
  ultimately show ?thesis using dbl_max_large by (simp add: slot_ok_def is_double_def)
qed

lemma min_sum_nonneg:
  assumes "list_all (entry_ok R) es"
  shows "f0 \<le> fsum R (map sl_min (make_slots es))"
proof (rule fsum_nonneg)
  have "f0 \<le> sl_min (make_slot i (es ! i))" if "i < length es" for i
    using make_slot_range [of R "es ! i" i] assms that by (metis f64.inject less_eq_f64.simps(1) list_all_length)
  then show "list_all (\<lambda>x. f0 \<le> x) (map sl_min (make_slots es))"
    by (auto simp: list_all_length)
qed

lemma initial_loop_ok:
  assumes "list_all (entry_ok R) es" "rate_ok R capacity"
  shows "loop_ok R es (make_slots es, initial_active R es (make_slots es),
    fsub R capacity (fsum R (map sl_min (make_slots es))))"
proof -
  obtain c where c: "capacity = Fin c" "is_double R (Fin c)"
    using assms(2) by (auto simp: rate_ok_def is_valid_rate_iff)
  have "fsub R capacity (fsum R (map sl_min (make_slots es))) \<noteq> PInf"
    unfolding c(1) using c(2) min_sum_nonneg [OF assms(1)] by (intro fsub_not_PInf) auto
  moreover have "sl_granted (make_slot i (es ! i)) \<le> sl_want (make_slot i (es ! i))"
    if "i < length es" "fadd R (sl_granted (make_slot i (es ! i))) (kEps R) < sl_want (make_slot i (es ! i))" for i
  proof -
    have "entry_ok R (es ! i)" using assms(1) that(1) by (simp add: list_all_length)
    then have "f0 \<le> sl_granted (make_slot i (es ! i))" "is_double R (sl_granted (make_slot i (es ! i)))"
      using slot_okD [OF make_slots_ok] by metis+
    then show ?thesis using that(2) fadd_kEps_le by blast
  qed
  ultimately show ?thesis
    using assms(1) by (auto simp: loop_ok_def initial_active_def fsub_def list_all_length make_slots_ok)
qed

lemma while_loop_ok:
  assumes "while_option (fill_cond R) (fill_step R) st = Some st'" "loop_ok R es st"
    "list_all (entry_ok R) es"
  shows "loop_ok R es st'"
  using assms(1,2) by (rule while_option_rule [rotated]) (use assms(3) fill_step_ok in blast)

lemma fclamp_granted:
  assumes "slot_ok R e i s" "entry_ok R e"
  shows "f0 \<le> fclamp (sl_granted s) f0 (sl_max s)" "fclamp (sl_granted s) f0 (sl_max s) \<le> ae_max e"
    "fmin (ae_min e) (ae_max e) \<le> fclamp (sl_granted s) f0 (sl_max s)"
proof -
  obtain m where s: "sl_min (make_slot i e) = Fin m" "Fin m \<le> sl_granted s" "f0 \<le> sl_granted s"
    "sl_max s = ae_max e"
    using assms by (rule slot_okD)
  obtain t where t: "Fin m = fmin (ae_min e) (ae_max e)" "m \<le> t" "Fin t \<le> ae_max e" "0 \<le> m"
    using make_slot_range [OF assms(2), of i] s(1) by (metis f64.inject)
  show "f0 \<le> fclamp (sl_granted s) f0 (sl_max s)" "fclamp (sl_granted s) f0 (sl_max s) \<le> ae_max e"
    "fmin (ae_min e) (ae_max e) \<le> fclamp (sl_granted s) f0 (sl_max s)"
    unfolding t(1) [symmetric] s(4) using s(2,3) t(2-4)
    by (cases "sl_granted s"; cases "ae_max e"; simp add: fclamp_def)+
qed

lemma scale_factor:
  assumes "is_double R (Fin c)" "0 < c" "fadd R (Fin c) (kEps R) < M"
  shows "f0 \<le> fdiv R (Fin c) M" "fdiv R (Fin c) M \<le> f1"
proof -
  have "Fin c \<le> fadd R (Fin c) (kEps R)" using assms(1,2) kEps_nonneg by (intro fadd_ge_left) auto
  then have M: "Fin c < M" using assms(3) f64_le_less_trans by blast
  show "f0 \<le> fdiv R (Fin c) M"
    using assms(2) M by (intro fdiv_pos_not_NaN) (auto intro: f64_less_trans [of f0 "Fin c"])
  show "fdiv R (Fin c) M \<le> f1"
  proof (cases M)
    case (Fin b)
    then have "fl R (c / b) \<le> fl R 1" using M assms(2) by (intro fl_mono) simp
    moreover have "fl R 1 = f1" using fl_finite [of 1] dbl_max_large R_1 by simp
    ultimately show ?thesis using Fin M assms(2) by simp
  qed (use M in auto)
qed

lemma scale_minima_nonneg:
  assumes "list_all (entry_ok R) es" "rate_ok R capacity" "f0 < capacity"
    "fadd R capacity (kEps R) < M" "i < length es"
  shows "f0 \<le> scale_minima R (make_slots es) capacity M ! i"
proof -
  obtain c where c: "capacity = Fin c" "is_double R (Fin c)" "0 < c"
    using assms(2,3) by (auto simp: rate_ok_def is_valid_rate_iff)
  have scale: "f0 \<le> fdiv R capacity M" "fdiv R capacity M \<le> f1"
    using scale_factor [OF c(2,3)] assms(4) by (simp_all add: c(1))
  define vals where "vals = map (\<lambda>s. fmul R (sl_min s) (fdiv R capacity M)) (make_slots es)"
  have val: "f0 \<le> vals ! j" if "j < length es" for j
  proof -
    have "entry_ok R (es ! j)" using assms(1) that by (simp add: list_all_length)
    then obtain m where m: "sl_min (make_slot j (es ! j)) = Fin m" "0 \<le> m"
      by (rule make_slot_range [where i = j])
    obtain s where "fdiv R capacity M = Fin s" "0 \<le> s" using scale by (cases "fdiv R capacity M") auto
    then show ?thesis using m that by (simp add: vals_def fl_nonneg)
  qed
  define leftover where "leftover = fsub R capacity (fsum R vals)"
  have "leftover \<noteq> PInf" unfolding leftover_def c(1)
    using c(2) val by (intro fsub_not_PInf disjI1 fsum_nonneg) (auto simp: list_all_length vals_def)
  then have bonus: "f0 \<le> fadd R (vals ! i) (fmul R leftover (fdiv R (sl_weight (make_slot i (es ! i))) W))"
    if pos: "kEps R < leftover" and W: "f0 < W" for W
  proof -
    obtain w where "sl_weight (make_slot i (es ! i)) = Fin w" "0 < w"
      using sanitise_weight_pos [of "ae_weight (es ! i)"] by (auto simp: make_slot_def Let_def)
    then have "f0 \<le> fdiv R (sl_weight (make_slot i (es ! i))) W"
      using W by (intro fdiv_pos_not_NaN) auto
    moreover obtain l where "leftover = Fin l" "0 < l"
      using pos kEps_nonneg \<open>leftover \<noteq> PInf\<close> by (cases leftover; cases "kEps R") auto
    ultimately have "f0 \<le> fmul R leftover (fdiv R (sl_weight (make_slot i (es ! i))) W)"
      by (cases "fdiv R (sl_weight (make_slot i (es ! i))) W") (auto intro: fl_nonneg)
    then show ?thesis using val [OF assms(5)] by (intro fadd_nonneg)
  qed
  show ?thesis
    using val [OF assms(5)] bonus assms(5)
    unfolding scale_minima_def Let_def vals_def [symmetric] leftover_def [symmetric]
    by (simp add: vals_def)
qed

lemma scale_minima_length [simp]: "length (scale_minima R slots capacity M) = length slots"
  by (simp add: scale_minima_def Let_def)

lemma allocate_weighted_limits:
  assumes es: "list_all (entry_ok R) es" and c: "rate_ok R capacity"
    and res: "allocate_weighted R es capacity = Some res" and i: "i < length es"
  shows "length (ar_granted res) = length es" "f0 \<le> ar_granted res ! i"
    "ar_granted res ! i \<le> ae_max (es ! i)"
    "f0 < capacity \<Longrightarrow> \<not> fadd R capacity (kEps R) < fsum R (map sl_min (make_slots es)) \<Longrightarrow>
       fmin (ae_min (es ! i)) (ae_max (es ! i)) \<le> ar_granted res ! i"
proof -
  have e: "entry_ok R (es ! i)" using es i by (simp add: list_all_length)
  then obtain x where x: "ae_max (es ! i) = Fin x" "0 \<le> x" by (auto simp: entry_ok_def elim: rate_ok_Fin)
  let ?M = "fsum R (map sl_min (make_slots es))"
  consider (trivial) "capacity \<le> f0" | (scaled) "f0 < capacity" "fadd R capacity (kEps R) < ?M"
    | (filled) "f0 < capacity" "\<not> fadd R capacity (kEps R) < ?M"
    using c rate_ok_Fin [OF c] by (metis f64_less_eq_Fin_iff(1) f64_not_less f64.distinct(5) f64_less_NaN(1))
  then have "length (ar_granted res) = length es \<and> f0 \<le> ar_granted res ! i \<and>
    ar_granted res ! i \<le> ae_max (es ! i) \<and>
    (f0 < capacity \<and> \<not> fadd R capacity (kEps R) < ?M \<longrightarrow>
       fmin (ae_min (es ! i)) (ae_max (es ! i)) \<le> ar_granted res ! i)"
  proof cases
    case trivial
    then show ?thesis using allocate_trivial [OF _ res] i x f64_pos_not_le [of capacity] by auto
  next
    case scaled
    let ?v = "scale_minima R (make_slots es) capacity ?M"
    have "ar_granted res = map (\<lambda>(v, e). fclamp v f0 (ae_max e)) (zip ?v es)"
      using i by (intro allocate_scaled scaled res refl) auto
    moreover have "f0 \<le> ?v ! i" using es c scaled i by (rule scale_minima_nonneg)
    ultimately show ?thesis using i x scaled(2) by (cases "?v ! i") (auto simp: fclamp_def)
  next
    case filled
    have ne: "es \<noteq> []" using i by auto
    obtain slots' active' r' where w: "while_option (fill_cond R) (fill_step R)
        (make_slots es, initial_active R es (make_slots es), fsub R capacity ?M) = Some (slots', active', r')"
      and g: "ar_granted res = map (\<lambda>s. fclamp (sl_granted s) f0 (sl_max s)) slots'"
      by (rule allocate_filled [OF ne filled(1) HOL.refl filled(2) res])
    have "loop_ok R es (slots', active', r')"
      using w initial_loop_ok [OF es c] es by (rule while_loop_ok)
    then have "length slots' = length es" "slot_ok R (es ! i) i (slots' ! i)"
      using i by (simp_all add: loop_ok_def)
    then show ?thesis using fclamp_granted [OF _ e] g i by simp
  qed
  then show "length (ar_granted res) = length es" "f0 \<le> ar_granted res ! i"
    "ar_granted res ! i \<le> ae_max (es ! i)"
    "f0 < capacity \<Longrightarrow> \<not> fadd R capacity (kEps R) < ?M \<Longrightarrow>
       fmin (ae_min (es ! i)) (ae_max (es ! i)) \<le> ar_granted res ! i"
    by blast+
qed

end

section \<open>A worked example in exact arithmetic\<close>

lemma fl_exact: "\<bar>a\<bar> \<le> 10 ^ 300 \<Longrightarrow> fl (\<lambda>x. x) a = Fin a"
  using exact.fl_finite [of a] dbl_max_large by simp

lemma fl_small: "\<bar>a\<bar> \<le> 10 ^ 20 \<Longrightarrow> fl (\<lambda>x. x) a = Fin a"
  by (rule fl_exact) (erule order_trans, simp)

text \<open>Two competing flows: minima 10 and 20, wants of 1000, weights 1 and 3, on a capacity of 100.\<close>

definition sample_entry :: "u64 \<Rightarrow> rat \<Rightarrow> rat \<Rightarrow> AllocEntry" where
  "sample_entry n w m =
     \<lparr>ae_flow = Id128 0 n, ae_weight = Fin w, ae_min = Fin m, ae_want = Fin 1000, ae_max = Fin 1000\<rparr>"

definition sample_entries :: "AllocEntry list" where
  "sample_entries = [sample_entry 1 1 10, sample_entry 2 3 20]"

definition sample_slots :: "rat \<Rightarrow> rat \<Rightarrow> Slot list" where
  "sample_slots a b =
     [\<lparr>sl_index = 0, sl_weight = f1, sl_min = Fin 10, sl_want = Fin 1000, sl_max = Fin 1000, sl_granted = Fin a\<rparr>,
      \<lparr>sl_index = 1, sl_weight = Fin 3, sl_min = Fin 20, sl_want = Fin 1000, sl_max = Fin 1000, sl_granted = Fin b\<rparr>]"

lemma sample_make: "make_slots sample_entries = sample_slots 10 20"
  by (simp add: make_slots_def sample_entries_def sample_entry_def make_slot_def Let_def fclamp_def
      upt_rec sanitise_weight_def kMaxRate_def sample_slots_def)

lemma sample_active: "initial_active (\<lambda>x. x) sample_entries (sample_slots 10 20) = [0, Suc 0]"
  by (simp add: initial_active_def sample_slots_def sample_entries_def sample_entry_def upt_rec flit_def fl_small
       less_eq_Id128_def less_Id128_def)

lemma sample_wsum: "active_wsum (\<lambda>x. x) (sample_slots a b) [0, Suc 0] = Fin 4"
  by (simp add: active_wsum_def sample_slots_def fsum_def fl_small)

lemma sample_room: "least_room (\<lambda>x. x) (sample_slots 10 20) [0, Suc 0] = Fin (980 / 3)"
  by (simp add: least_room_def slot_room_def sample_slots_def fsub_def fl_small)

lemma sample_slots_nth: "sample_slots a b ! 0 = \<lparr>sl_index = 0, sl_weight = f1, sl_min = Fin 10, sl_want = Fin 1000, sl_max = Fin 1000, sl_granted = Fin a\<rparr>"
  "sample_slots a b ! Suc 0 =  \<lparr>sl_index = 1, sl_weight = Fin 3, sl_min = Fin 20, sl_want = Fin 1000, sl_max = Fin 1000, sl_granted = Fin b\<rparr>"
 by (simp_all add: sample_slots_def)

lemma sample_fill:
  "map (raise_slot (\<lambda>x. x) [0, Suc 0] (Fin (35 / 2))) (sample_slots 10 20) =
     sample_slots (55 / 2) (145 / 2)"
  by (simp add: sample_slots_def raise_slot_def fl_small)

lemma sample_step: "fill_step (\<lambda>x. x) (sample_slots 10 20, [0, Suc 0], Fin 70) = (sample_slots (55 / 2) (145 / 2), [0, Suc 0], f0)"
proof -
  have u: "(if Fin (980 / 3) < fdiv (\<lambda>x. x) (Fin 70) (Fin 4) then Fin (980 / 3) else fdiv (\<lambda>x. x) (Fin 70) (Fin 4)) = Fin (35 / 2)"
    by (simp add: fl_small)
  have l: "fsub (\<lambda>x. x) (Fin 70) (fmul (\<lambda>x. x) (Fin (35 / 2)) (Fin 4)) = f0" by (simp add: fsub_def fl_small)
  show ?thesis
  unfolding fill_step_def prod.case sample_wsum sample_room Let_def u l sample_fill
  by (simp add: sample_slots_nth fsub_def flit_def fl_small)
qed

lemma sample_loop: "while_option (fill_cond (\<lambda>x. x)) (fill_step (\<lambda>x. x)) (sample_slots 10 20, [0, Suc 0], Fin 70) =
   Some (sample_slots (55 / 2) (145 / 2), [0, Suc 0], f0)"
  by (subst while_option_unfold, simp only: sample_step, subst while_option_unfold)
    (simp add: fill_cond_def flit_def fl_small sample_wsum)

definition sample_result :: AllocResult where
  "sample_result = \<lparr>ar_granted = [Fin (55 / 2), Fin (145 / 2)], ar_total_requested = Fin 2000,
     ar_total_granted = Fin 100, ar_unserved = Fin 1900, ar_saturated = True,
     ar_deadline_pressure = f0\<rparr>"

lemma sample_allocation:
  "allocate_weighted (\<lambda>x. x) sample_entries (Fin 100) = Some sample_result"
proof -
  have m: "fsum (\<lambda>x. x) (map sl_min (sample_slots 10 20)) = Fin 30"
   "fsum (\<lambda>x. x) (map sl_want (sample_slots 10 20)) = Fin 2000"
    by (simp_all add: fsum_def sample_slots_def fl_small)
  have g: "map (\<lambda>s. fclamp (sl_granted s) f0 (sl_max s)) (sample_slots (55 / 2) (145 / 2)) = [Fin (55 / 2), Fin (145 / 2)]"
    by (simp add: sample_slots_def fclamp_def)
  have "sample_entries \<noteq> []" by (simp add: sample_entries_def)
  then show ?thesis
    by (simp add: allocate_weighted_def sample_make m flit_def fl_small Let_def fsub_def sample_active sample_loop g sample_result_def)
     (simp add: fsum_def fl_small)
qed

lemma sample_entries_ok:
  "list_all (entry_ok (\<lambda>x. x)) sample_entries" "0 \<le> c \<Longrightarrow> c \<le> 10 ^ 18 \<Longrightarrow> rate_ok (\<lambda>x. x) (Fin c)"
  using dbl_max_large by (simp_all add: sample_entries_def sample_entry_def entry_ok_def rate_ok_def is_double_def)

section \<open>Properties\<close>

text \<open>
  Property C36. Whatever the rounding of the machine, an allocation has one grant per entry,
  every grant is a number (never NaN or an infinity below or above) between zero and the entry's
  maximum, and when the minima fit the capacity every entry gets at least its minimum (or its
  maximum if that is smaller).
\<close>

theorem allocation_within_limits:
  assumes "rounding R" "list_all (entry_ok R) es" "rate_ok R capacity"
    "allocate_weighted R es capacity = Some res"
  shows "length (ar_granted res) = length es \<and>
    (\<forall>i < length es. f0 \<le> ar_granted res ! i \<and> ar_granted res ! i \<le> ae_max (es ! i)) \<and>
    (f0 < capacity \<and> \<not> fadd R capacity (kEps R) < fsum R (map sl_min (make_slots es)) \<longrightarrow>
       (\<forall>i < length es. fmin (ae_min (es ! i)) (ae_max (es ! i)) \<le> ar_granted res ! i))"
proof (cases "es = []")
  case True
  then show ?thesis using allocate_trivial [OF _ assms(4)] by simp
next
  case False
  then show ?thesis using rounding.allocate_weighted_limits [OF assms] by (metis length_greater_0_conv)
qed

theorem allocation_within_limits_witness:
  "list_all (entry_ok (\<lambda>x. x)) sample_entries \<and> rate_ok (\<lambda>x. x) (Fin 100) \<and>
   (\<exists>res. allocate_weighted (\<lambda>x. x) sample_entries (Fin 100) = Some res \<and>
     length (ar_granted res) = 2 \<and> ar_granted res ! 0 \<le> Fin 1000 \<and> Fin 10 \<le> ar_granted res ! 0)"
proof -
  have ok: "list_all (entry_ok (\<lambda>x. x)) sample_entries" "rate_ok (\<lambda>x. x) (Fin 100)"
    by (simp_all add: sample_entries_ok)
  have "\<not> fadd (\<lambda>x. x) (Fin 100) (kEps (\<lambda>x. x)) < fsum (\<lambda>x. x) (map sl_min (make_slots sample_entries))"
    by (simp add: sample_make sample_slots_def fsum_def flit_def fl_small)
  moreover have "length sample_entries = 2" "ae_min (sample_entries ! 0) = Fin 10"
    "ae_max (sample_entries ! 0) = Fin 1000"
    by (simp_all add: sample_entries_def sample_entry_def)
  ultimately show ?thesis
    using allocation_within_limits [OF exact.rounding_axioms ok sample_allocation] ok sample_allocation
    by (auto simp: sample_result_def)
qed

end
