(* ===== verification/Water_Fill.thy ===== *)
theory Water_Fill
  imports Policy
begin

text \<open>
  The water-fill allocator of \<^verbatim>\<open>src/policy.cpp\<close> in exact arithmetic: the loop ends, the grants
  sum up to at most the capacity, no capacity is left while somebody wants it, and the
  allocation is the weighted max-min fair one.

  The entries are \<open>tame\<close>: valid rates and weights that are not vanishingly small, so that no
  quotient overflows. The weights the governor computes are at least its smallest configured
  weight times a power of two.
\<close>

section \<open>Exact entries\<close>

definition e_min :: "AllocEntry \<Rightarrow> rat" where
  "e_min e = min (fval (ae_min e)) (fval (ae_max e))"

definition e_want :: "AllocEntry \<Rightarrow> rat" where
  "e_want e = min (max (fval (ae_want e)) (e_min e)) (fval (ae_max e))"

definition e_weight :: "AllocEntry \<Rightarrow> rat" where
  "e_weight e = fval (sanitise_weight (ae_weight e))"

definition eps :: rat where "eps = 1 / 1000000000"

lemma eps_pos: "0 < eps" "eps \<le> 1"
  by (simp_all add: eps_def)

text \<open>The smallest weight and the largest magnitude the proofs work with.\<close>

definition tiny :: rat where "tiny = 1 / 10 ^ 100"

definition big :: rat where "big = 10 ^ 300"

lemma tiny_pos: "0 < tiny"
  by (simp add: tiny_def)

lemma le_big: "a \<le> 10 ^ 40 \<Longrightarrow> a \<le> big"
  unfolding big_def by (erule order_trans) (rule power_increasing, simp_all)

lemma div_tiny_le_big: "a \<le> 10 ^ 40 \<Longrightarrow> a / tiny \<le> big"
proof -
  assume "a \<le> 10 ^ 40"
  then have "a * 10 ^ 100 \<le> 10 ^ 40 * 10 ^ 100" by (rule mult_right_mono) simp
  also have "\<dots> \<le> 10 ^ 300" unfolding power_add [symmetric] by (rule power_increasing) simp_all
  finally show ?thesis by (simp only: tiny_def big_def divide_divide_eq_right mult_1_right)
qed

lemma fl_big: "\<bar>a\<bar> \<le> big \<Longrightarrow> fl (\<lambda>x. x) a = Fin a"
  unfolding big_def by (rule fl_exact)

text \<open>
  Tame entries: the rates are valid and the weight, as the code sanitises it, is at least \<open>10 ^ -100\<close>. The code has no
  such bound; below it the quotient of the capacity and the weight may leave the range of the doubles.
\<close>

definition tame :: "AllocEntry \<Rightarrow> bool" where
  "tame e \<longleftrightarrow> is_valid_rate (ae_min e) \<and> is_valid_rate (ae_want e) \<and> is_valid_rate (ae_max e) \<and>
     tiny \<le> e_weight e"

definition tame_list :: "AllocEntry list \<Rightarrow> bool" where
  "tame_list es \<longleftrightarrow> list_all tame es \<and> length es < 2 ^ 64"

lemma tame_slot:
  assumes "tame e"
  shows "make_slot i e = \<lparr>sl_index = i, sl_weight = Fin (e_weight e), sl_min = Fin (e_min e),
    sl_want = Fin (e_want e), sl_max = ae_max e, sl_granted = Fin (e_min e)\<rparr>"
proof -
  obtain a b c where *: "ae_min e = Fin a" "ae_want e = Fin b" "ae_max e = Fin c" "0 \<le> a" "0 \<le> c"
    using assms by (auto simp: tame_def is_valid_rate_iff)
  obtain w where "sanitise_weight (ae_weight e) = Fin w" using sanitise_weight_pos by blast
  then show ?thesis using make_slot_Fin [OF *] * by (simp add: e_min_def e_want_def e_weight_def)
qed

lemma tame_range:
  assumes "tame e"
  shows "0 \<le> e_min e" "e_min e \<le> e_want e" "e_want e \<le> 10 ^ 18" "e_want e \<le> fval (ae_max e)"
    "ae_max e = Fin (fval (ae_max e))"
    "tiny \<le> e_weight e" "0 < e_weight e" "e_weight e \<le> 10 ^ 18"
proof -
  obtain a b c where *: "ae_min e = Fin a" "ae_want e = Fin b" "ae_max e = Fin c" "0 \<le> a" "0 \<le> c" "c \<le> 10 ^ 18"
    using assms by (auto simp: tame_def is_valid_rate_iff)
  obtain w where w: "sanitise_weight (ae_weight e) = Fin w" "0 < w" "w < 10 ^ 18"
    using sanitise_weight_pos by blast
  show "0 \<le> e_min e" "e_min e \<le> e_want e" "e_want e \<le> fval (ae_max e)" "ae_max e = Fin (fval (ae_max e))"
    "e_want e \<le> 10 ^ 18"
    using * by (simp_all add: e_min_def e_want_def min_le_iff_disj)
  show "tiny \<le> e_weight e" "0 < e_weight e" "e_weight e \<le> 10 ^ 18"
    using assms w by (simp_all add: tame_def e_weight_def)
qed

lemma fsum_exact:
  assumes "\<And>x. x \<in> set xs \<Longrightarrow> \<exists>a. x = Fin a \<and> 0 \<le> a" "sum_list (map fval xs) \<le> big"
  shows "fsum (\<lambda>x. x) xs = Fin (sum_list (map fval xs))"
proof -
  have "foldl (fadd (\<lambda>x. x)) (Fin a) xs = Fin (a + sum_list (map fval xs))"
    if "0 \<le> a" "a + sum_list (map fval xs) \<le> big" for a
    using that assms(1)
  proof (induction xs arbitrary: a)
    case (Cons x xs)
    then obtain b where b: "x = Fin b" "0 \<le> b" by (metis list.set_intros(1))
    have "0 \<le> sum_list (map fval xs)"
      using Cons.prems(3) by (intro sum_list_nonneg) force
    then have "fl (\<lambda>x. x) (a + b) = Fin (a + b)"
      using b Cons.prems(1,2) by (intro fl_big) simp
    then show ?case using Cons.IH [of "a + b"] Cons.prems b by (simp add: add.assoc)
  qed simp
  from this [of 0] show ?thesis using assms(2) by (simp add: fsum_def)
qed

lemma sum_list_upt: "sum_list (map f [0..<n]) = (\<Sum>i<n. f i)" for f :: "nat \<Rightarrow> rat"
  by (simp add: interv_sum_list_conv_sum_set_nat atLeast0LessThan)

lemma sum_list_le_bound:
  assumes "\<And>x. x \<in> set xs \<Longrightarrow> f x \<le> (10 ^ 18 :: rat)" "length xs < 2 ^ 64"
  shows "sum_list (map f xs) \<le> 10 ^ 40"
proof -
  have "sum_list (map f xs) \<le> of_nat (length xs) * 10 ^ 18"
    using assms(1) by (induction xs) (auto simp: algebra_simps intro: add_mono)
  also have "\<dots> \<le> of_nat (2 ^ 64) * 10 ^ 18"
    using assms(2) by (intro mult_right_mono) (simp_all only: of_nat_le_iff, simp_all)
  also have "\<dots> \<le> 10 ^ 40" by simp
  finally show ?thesis .
qed

section \<open>One round of the loop\<close>

definition grant_slots :: "AllocEntry list \<Rightarrow> (nat \<Rightarrow> rat) \<Rightarrow> Slot list" where
  "grant_slots es g = map (\<lambda>i. (make_slot i (es ! i))\<lparr>sl_granted := Fin (g i)\<rparr>) [0..<length es]"

lemma grant_slots_nth:
  "tame_list es \<Longrightarrow> i < length es \<Longrightarrow>
     grant_slots es g ! i = \<lparr>sl_index = i, sl_weight = Fin (e_weight (es ! i)), sl_min = Fin (e_min (es ! i)),
       sl_want = Fin (e_want (es ! i)), sl_max = ae_max (es ! i), sl_granted = Fin (g i)\<rparr>"
  by (simp add: grant_slots_def tame_slot tame_list_def list_all_length)

lemma grant_slots_length [simp]: "length (grant_slots es g) = length es"
  by (simp add: grant_slots_def)

lemma make_slots_grant: "tame_list es \<Longrightarrow> make_slots es = grant_slots es (\<lambda>i. e_min (es ! i))"
  by (rule nth_equalityI) (simp_all add: grant_slots_nth tame_slot tame_list_def list_all_length)

text \<open>
  The loop invariant: the grants and what remains make up the capacity; there is a water level
  \<open>L\<close> such that every active slot is filled to its minimum plus \<open>L\<close> times its weight, and every
  other slot has what it wants and would not reach higher at that level.
\<close>

definition level_ok :: "AllocEntry list \<Rightarrow> (nat \<Rightarrow> rat) \<Rightarrow> nat set \<Rightarrow> rat \<Rightarrow> bool" where
  "level_ok es g A L \<longleftrightarrow> 0 \<le> L \<and> A \<subseteq> {..<length es} \<and> (\<forall>i < length es.
     e_min (es ! i) \<le> g i \<and> g i \<le> e_want (es ! i) \<and>
     (if i \<in> A then g i = e_min (es ! i) + L * e_weight (es ! i) \<and> g i < e_want (es ! i) - eps
      else g i \<le> e_min (es ! i) + L * e_weight (es ! i) \<and> e_want (es ! i) - eps \<le> g i))"

definition fill_inv :: "AllocEntry list \<Rightarrow> rat \<Rightarrow> fill_state \<Rightarrow> bool" where
  "fill_inv es c = (\<lambda>(slots, active, remaining). \<exists>g r L.
     slots = grant_slots es g \<and> remaining = Fin r \<and> distinct active \<and>
     level_ok es g (set active) L \<and> (\<Sum>i<length es. g i) + r = c \<and> - eps \<le> r \<and> r \<le> 10 ^ 18)"

lemma tame_nth: "tame_list es \<Longrightarrow> i < length es \<Longrightarrow> tame (es ! i)"
  by (simp add: tame_list_def list_all_length)

lemma distinct_length_le:
  assumes "distinct A" "set A \<subseteq> {..<n}"
  shows "length A \<le> n"
  using card_mono [OF _ assms(2)] distinct_card [OF assms(1)] by simp

lemma active_wsum_exact:
  assumes "tame_list es" "distinct A" "set A \<subseteq> {..<length es}"
  shows "active_wsum (\<lambda>x. x) (grant_slots es g) A = Fin (\<Sum>i\<in>set A. e_weight (es ! i))"
    "(\<Sum>i\<in>set A. e_weight (es ! i)) \<le> 10 ^ 40"
proof -
  have w: "0 < e_weight (es ! i)" "e_weight (es ! i) \<le> 10 ^ 18" if "i \<in> set A" for i
    using tame_range(7,8) [OF tame_nth [OF assms(1), of i]] that assms(3) by auto
  have m: "map (\<lambda>i. sl_weight (grant_slots es g ! i)) A = map (\<lambda>i. Fin (e_weight (es ! i))) A"
    using assms(1,3) by (auto simp: grant_slots_nth)
  have s: "sum_list (map (\<lambda>i. e_weight (es ! i)) A) = (\<Sum>i\<in>set A. e_weight (es ! i))"
    using assms(2) by (rule sum_list_distinct_conv_sum_set)
  have "length A < 2 ^ 64" using distinct_length_le [OF assms(2,3)] assms(1) by (simp add: tame_list_def)
  then have "sum_list (map (\<lambda>i. e_weight (es ! i)) A) \<le> 10 ^ 40" using w by (intro sum_list_le_bound) auto
  then show "(\<Sum>i\<in>set A. e_weight (es ! i)) \<le> 10 ^ 40" unfolding s .
  then have "sum_list (map fval (map (\<lambda>i. Fin (e_weight (es ! i))) A)) \<le> big"
    using le_big s by (simp add: comp_def)
  then have "fsum (\<lambda>x. x) (map (\<lambda>i. Fin (e_weight (es ! i))) A) =
      Fin (sum_list (map fval (map (\<lambda>i. Fin (e_weight (es ! i))) A)))"
    using w by (intro fsum_exact) (auto intro: less_imp_le)
  then show "active_wsum (\<lambda>x. x) (grant_slots es g) A = Fin (\<Sum>i\<in>set A. e_weight (es ! i))"
    unfolding active_wsum_def m using s by (simp add: comp_def)
qed

lemma foldl_min:
  "\<exists>x \<in> insert m (f ` set xs). foldl (\<lambda>m i. if Fin (f i) < m then Fin (f i) else m) (Fin m) xs = Fin x \<and>
     (\<forall>y \<in> insert m (f ` set xs). x \<le> y)" for f :: "nat \<Rightarrow> rat"
proof (induction xs arbitrary: m)
  case (Cons a xs)
  show ?case
  proof (cases "f a < m")
    case True
    then show ?thesis using Cons.IH [of "f a"] by fastforce
  next
    case False
    then show ?thesis using Cons.IH [of m] by fastforce
  qed
qed simp

definition room :: "AllocEntry list \<Rightarrow> (nat \<Rightarrow> rat) \<Rightarrow> nat \<Rightarrow> rat" where
  "room es g i = (e_want (es ! i) - g i) / e_weight (es ! i)"

lemma least_room_exact:
  assumes "tame_list es" "level_ok es g (set A) L" "A \<noteq> []"
  obtains j where "j \<in> set A" "least_room (\<lambda>x. x) (grant_slots es g) A = Fin (room es g j)"
    "\<And>i. i \<in> set A \<Longrightarrow> room es g j \<le> room es g i"
proof -
  have slot: "slot_room (\<lambda>x. x) (grant_slots es g ! i) = Fin (room es g i)" if "i \<in> set A" for i
  proof -
    have i: "i < length es" "e_min (es ! i) \<le> g i" "g i \<le> e_want (es ! i)"
      using assms(2) that by (auto simp: level_ok_def)
    note r = tame_range [OF tame_nth [OF assms(1) i(1)]]
    have d: "0 \<le> e_want (es ! i) - g i" "e_want (es ! i) - g i \<le> 10 ^ 18" using i r by linarith+
    have "room es g i \<le> (e_want (es ! i) - g i) / tiny"
      unfolding room_def using d(1) r(6) tiny_pos by (intro divide_left_mono) auto
    also have "\<dots> \<le> big" using d(2) by (intro div_tiny_le_big) simp
    finally have "fl (\<lambda>x. x) (room es g i) = Fin (room es g i)"
      using d(1) r(7) by (intro fl_big) (simp add: room_def)
    moreover have "fl (\<lambda>x. x) (e_want (es ! i) - g i) = Fin (e_want (es ! i) - g i)"
      using d by (intro fl_big) (simp add: le_big)
    ultimately show ?thesis using r(7) by (simp add: slot_room_def grant_slots_nth assms(1) i fsub_def room_def)
  qed
  obtain a A' where A: "A = a # A'" using assms(3) by (cases A) auto
  have "least_room (\<lambda>x. x) (grant_slots es g) A =
      foldl (\<lambda>m i. if Fin (room es g i) < m then Fin (room es g i) else m) PInf A"
    unfolding least_room_def by (rule foldl_cong) (auto simp: slot)
  also have "\<dots> = foldl (\<lambda>m i. if Fin (room es g i) < m then Fin (room es g i) else m) (Fin (room es g a)) A'"
    by (simp add: A)
  finally show thesis using that foldl_min [of "room es g a" "room es g" A'] by (auto simp: A)
qed

lemma kEps_exact: "kEps (\<lambda>x. x) = Fin eps"
  by (simp add: flit_def fl_small eps_def)

text \<open>The level rises by the largest amount that overfills no slot and does not exceed what remains.\<close>

lemma fill_units_exact:
  assumes "tame_list es" "distinct A" "level_ok es g (set A) L" "A \<noteq> []" "0 < r" "r \<le> 10 ^ 18"
  defines "W \<equiv> \<Sum>i\<in>set A. e_weight (es ! i)"
  obtains u j where "fill_units (\<lambda>x. x) (grant_slots es g) A (Fin r) = Fin u" "0 \<le> u" "u * W \<le> r" "0 < W"
    "j \<in> set A" "\<And>i. i \<in> set A \<Longrightarrow> u \<le> room es g i" "u * W = r \<or> u = room es g j"
proof -
  have sub: "set A \<subseteq> {..<length es}" using assms(3) by (simp add: level_ok_def)
  have wt: "tiny \<le> e_weight (es ! i)" "0 < e_weight (es ! i)" if "i \<in> set A" for i
    using tame_range(6,7) [OF tame_nth [OF assms(1), of i]] that sub by auto
  obtain k where k: "k \<in> set A" using assms(4) by (cases A) auto
  have "e_weight (es ! k) \<le> W" unfolding W_def
    using k wt(2) by (intro member_le_sum) (auto intro: less_imp_le)
  then have W: "tiny \<le> W" "0 < W" using wt(1) [OF k] tiny_pos by linarith+
  have "r / W \<le> r / tiny" using W tiny_pos assms(5) by (intro divide_left_mono) auto
  also have "\<dots> \<le> big" using assms(6) by (intro div_tiny_le_big) simp
  finally have q: "fl (\<lambda>x. x) (r / W) = Fin (r / W)" using W assms(5) by (intro fl_big) simp
  obtain j where j: "j \<in> set A" "least_room (\<lambda>x. x) (grant_slots es g) A = Fin (room es g j)"
    "\<And>i. i \<in> set A \<Longrightarrow> room es g j \<le> room es g i"
    using least_room_exact [OF assms(1,3,4)] by blast
  define u where "u = min (room es g j) (r / W)"
  have rj: "0 \<le> room es g j"
    using j(1) assms(3) wt(2) [of j] sub by (auto simp: room_def level_ok_def)
  have wsum: "active_wsum (\<lambda>x. x) (grant_slots es g) A = Fin W"
    unfolding W_def by (rule active_wsum_exact(1) [OF assms(1,2) sub])
  show thesis
  proof (rule that [of u j])
    show "fill_units (\<lambda>x. x) (grant_slots es g) A (Fin r) = Fin u"
      using W(2) by (simp add: fill_units_def Let_def wsum j(2) q u_def min_def)
    show "0 \<le> u" using rj W(2) assms(5) by (simp add: u_def)
    have "u \<le> r / W" by (simp add: u_def)
    then show "u * W \<le> r" using W(2) by (simp add: pos_le_divide_eq)
    show "u \<le> room es g i" if "i \<in> set A" for i using j(3) [OF that] by (simp add: u_def)
    show "u * W = r \<or> u = room es g j" using W(2) by (auto simp: u_def min_def)
  qed (use W j in auto)
qed

definition raise :: "AllocEntry list \<Rightarrow> (nat \<Rightarrow> rat) \<Rightarrow> nat set \<Rightarrow> rat \<Rightarrow> nat \<Rightarrow> rat" where
  "raise es g A u i = (if i \<in> A then g i + u * e_weight (es ! i) else g i)"

lemma raise_le_want:
  assumes "tame_list es" "level_ok es g A L" "i \<in> A" "u \<le> room es g i" "0 \<le> u"
  shows "g i + u * e_weight (es ! i) \<le> e_want (es ! i)" "0 \<le> u * e_weight (es ! i)"
    "u * e_weight (es ! i) \<le> 10 ^ 18"
proof -
  have i: "i < length es" "e_min (es ! i) \<le> g i" using assms(2,3) by (auto simp: level_ok_def)
  note r = tame_range [OF tame_nth [OF assms(1) i(1)]]
  show le: "g i + u * e_weight (es ! i) \<le> e_want (es ! i)"
    using assms(4) r(7) by (simp add: room_def pos_le_divide_eq)
  show "0 \<le> u * e_weight (es ! i)" using assms(5) r(7) by simp
  show "u * e_weight (es ! i) \<le> 10 ^ 18" using le r(1,3) i(2) by linarith
qed

lemma raise_slots:
  assumes "tame_list es" "level_ok es g (set A) L" "\<And>i. i \<in> set A \<Longrightarrow> u \<le> room es g i" "0 \<le> u"
  shows "map (raise_slot (\<lambda>x. x) A (Fin u)) (grant_slots es g) = grant_slots es (raise es g (set A) u)"
proof (rule nth_equalityI)
  fix i assume "i < length (map (raise_slot (\<lambda>x. x) A (Fin u)) (grant_slots es g))"
  then have i: "i < length es" by simp
  note r = tame_range [OF tame_nth [OF assms(1) i]]
  show "map (raise_slot (\<lambda>x. x) A (Fin u)) (grant_slots es g) ! i = grant_slots es (raise es g (set A) u) ! i"
  proof (cases "i \<in> set A")
    case True
    note w = raise_le_want [OF assms(1,2) True assms(3) [OF True] assms(4)]
    have "0 \<le> g i" using assms(2) i r(1) unfolding level_ok_def by (meson order_trans)
    then have "fl (\<lambda>x. x) (u * e_weight (es ! i)) = Fin (u * e_weight (es ! i))"
      "fl (\<lambda>x. x) (g i + u * e_weight (es ! i)) = Fin (g i + u * e_weight (es ! i))"
      using w r(3) by (intro fl_big; simp add: le_big)+
    then show ?thesis using i True by (simp add: grant_slots_nth assms(1) raise_def raise_slot_def)
  next
    case False
    then show ?thesis using i by (simp add: grant_slots_nth assms(1) raise_def raise_slot_def)
  qed
qed simp

lemma raise_level:
  assumes "tame_list es" "level_ok es g A L" "\<And>i. i \<in> A \<Longrightarrow> u \<le> room es g i" "0 \<le> u"
  shows "level_ok es (raise es g A u) {i \<in> A. raise es g A u i < e_want (es ! i) - eps} (L + u)"
proof -
  have "e_min (es ! i) \<le> raise es g A u i \<and> raise es g A u i \<le> e_want (es ! i) \<and>
     (if i \<in> {i \<in> A. raise es g A u i < e_want (es ! i) - eps}
      then raise es g A u i = e_min (es ! i) + (L + u) * e_weight (es ! i) \<and>
        raise es g A u i < e_want (es ! i) - eps
      else raise es g A u i \<le> e_min (es ! i) + (L + u) * e_weight (es ! i) \<and>
        e_want (es ! i) - eps \<le> raise es g A u i)" if i: "i < length es" for i
  proof -
    have w: "0 \<le> u * e_weight (es ! i)"
      using assms(4) tame_range(7) [OF tame_nth [OF assms(1) i]] by simp
    show ?thesis
    proof (cases "i \<in> A")
      case True
      then have "g i + u * e_weight (es ! i) \<le> e_want (es ! i)"
        by (intro raise_le_want(1) [OF assms(1,2)] assms(3,4))
      moreover have "e_min (es ! i) \<le> g i" "g i = e_min (es ! i) + L * e_weight (es ! i)"
        using assms(2) i True by (auto simp: level_ok_def)
      ultimately show ?thesis using True w by (auto simp: raise_def ring_distribs)
    next
      case False
      then have "e_min (es ! i) \<le> g i" "g i \<le> e_want (es ! i)"
        "g i \<le> e_min (es ! i) + L * e_weight (es ! i)" "e_want (es ! i) - eps \<le> g i"
        using assms(2) i by (auto simp: level_ok_def)
      then show ?thesis using False w by (auto simp: raise_def ring_distribs)
    qed
  qed
  moreover have "0 \<le> L" "A \<subseteq> {..<length es}" using assms(2) by (simp_all add: level_ok_def)
  ultimately show ?thesis using assms(4) unfolding level_ok_def by (intro conjI allI impI) auto
qed

lemma raise_sum:
  assumes "A \<subseteq> {..<n}"
  shows "(\<Sum>i<n. raise es g A u i) = (\<Sum>i<n. g i) + u * (\<Sum>i\<in>A. e_weight (es ! i))"
proof -
  have "(\<Sum>i<n. raise es g A u i) = (\<Sum>i<n. g i + (if i \<in> A then u * e_weight (es ! i) else 0))"
    by (rule sum.cong) (auto simp: raise_def)
  also have "\<dots> = (\<Sum>i<n. g i) + (\<Sum>i<n. if i \<in> A then u * e_weight (es ! i) else 0)"
    by (simp add: sum.distrib)
  also have "(\<Sum>i<n. if i \<in> A then u * e_weight (es ! i) else 0) = (\<Sum>i\<in>A. u * e_weight (es ! i))"
    using assms by (simp add: sum.inter_restrict [symmetric] Int_absorb1)
  finally show ?thesis by (simp add: sum_distrib_left)
qed

lemma fill_step_exact:
  assumes es: "tame_list es" and inv: "fill_inv es c st" and cond: "fill_cond (\<lambda>x. x) st"
  shows "fill_inv es c (fill_step (\<lambda>x. x) st)"
    "snd (snd (fill_step (\<lambda>x. x) st)) = f0 \<or>
       length (fst (snd (fill_step (\<lambda>x. x) st))) < length (fst (snd st))"
proof -
  obtain g A r L where st: "st = (grant_slots es g, A, Fin r)" "distinct A" "level_ok es g (set A) L"
    "(\<Sum>i<length es. g i) + r = c" "r \<le> 10 ^ 18"
    using inv by (auto simp: fill_inv_def)
  have r: "0 < r" and A: "A \<noteq> []" using cond eps_pos by (simp_all add: st fill_cond_def kEps_exact)
  define W where "W = (\<Sum>i\<in>set A. e_weight (es ! i))"
  obtain u j where u: "fill_units (\<lambda>x. x) (grant_slots es g) A (Fin r) = Fin u" "0 \<le> u" "u * W \<le> r" "0 < W"
    "j \<in> set A" "\<And>i. i \<in> set A \<Longrightarrow> u \<le> room es g i" "u * W = r \<or> u = room es g j"
    unfolding W_def using fill_units_exact [OF es st(2,3) A r st(5)] by blast
  have sub: "set A \<subseteq> {..<length es}" using st(3) by (simp add: level_ok_def)
  let ?g = "raise es g (set A) u"
  have uW: "0 \<le> u * W" using u(2,4) by simp
  have fl: "fl (\<lambda>x. x) (u * W) = Fin (u * W)" "fl (\<lambda>x. x) (r - u * W) = Fin (r - u * W)"
    using uW u(3) st(5) r by (intro fl_big; simp add: le_big)+
  have keep: "(\<not> fsub (\<lambda>x. x) (sl_want (grant_slots es ?g ! i)) (kEps (\<lambda>x. x)) \<le>
      sl_granted (grant_slots es ?g ! i)) \<longleftrightarrow> ?g i < e_want (es ! i) - eps" if "i \<in> set A" for i
  proof -
    have i: "i < length es" using that sub by auto
    note w = tame_range [OF tame_nth [OF es i]]
    have "fl (\<lambda>x. x) (e_want (es ! i) - eps) = Fin (e_want (es ! i) - eps)"
      using w(1-3) eps_pos by (intro fl_small) simp
    then show ?thesis using i unfolding kEps_exact by (simp add: grant_slots_nth es fsub_def not_le)
  qed
  have raised: "map (raise_slot (\<lambda>x. x) A (Fin u)) (grant_slots es g) = grant_slots es ?g"
    using raise_slots [OF es st(3) _ u(2)] u(6) by blast
  have step: "fill_step (\<lambda>x. x) st =
      (grant_slots es ?g, filter (\<lambda>i. ?g i < e_want (es ! i) - eps) A, Fin (r - u * W))"
    using u(3) unfolding st(1) fill_step_eq u(1) Let_def raised
      active_wsum_exact(1) [OF es st(2) sub] W_def [symmetric]
    by (simp add: fl fsub_def keep [unfolded fsub_def] cong: filter_cong)
  have "level_ok es ?g (set (filter (\<lambda>i. ?g i < e_want (es ! i) - eps) A)) (L + u)"
    using raise_level [OF es st(3) u(6,2)] by simp
  moreover have "(\<Sum>i<length es. ?g i) + (r - u * W) = c"
    using raise_sum [OF sub, of es g u] st(4) by (simp add: W_def)
  ultimately show "fill_inv es c (fill_step (\<lambda>x. x) st)"
    unfolding step fill_inv_def prod.case using st(2,5) u(3) uW eps_pos
    by - (rule exI [of _ ?g], rule exI [of _ "r - u * W"], rule exI [of _ "L + u"], auto)
  show "snd (snd (fill_step (\<lambda>x. x) st)) = f0 \<or>
      length (fst (snd (fill_step (\<lambda>x. x) st))) < length (fst (snd st))"
    using u(7)
  proof
    assume "u = room es g j"
    moreover have "0 < e_weight (es ! j)" using tame_range(7) [OF tame_nth [OF es, of j]] u(5) sub by auto
    ultimately have "\<not> ?g j < e_want (es ! j) - eps" using u(5) eps_pos by (simp add: raise_def room_def)
    then have "length (filter (\<lambda>i. ?g i < e_want (es ! i) - eps) A) < length A"
      using u(5) by (intro length_filter_less)
    then show ?thesis by (simp add: step) (simp add: st(1))
  qed (simp add: step)
qed

section \<open>The whole allocation\<close>

lemma fill_terminates:
  assumes "tame_list es" "fill_inv es c st"
  obtains st' where "while_option (fill_cond (\<lambda>x. x)) (fill_step (\<lambda>x. x)) st = Some st'"
    "fill_inv es c st'" "\<not> fill_cond (\<lambda>x. x) st'"
proof -
  let ?m = "\<lambda>(slots :: Slot list, active :: nat list, r). if Fin eps < r then Suc (length active) else 0"
  have "\<exists>t. while_option (fill_cond (\<lambda>x. x)) (fill_step (\<lambda>x. x)) st = Some t"
  proof (rule measure_while_option_Some [where P = "fill_inv es c" and f = ?m])
    fix s assume s: "fill_inv es c s" "fill_cond (\<lambda>x. x) s"
    obtain sl A r where t: "fill_step (\<lambda>x. x) s = (sl, A, r)" by (cases "fill_step (\<lambda>x. x) s")
    obtain sl0 A0 r0 where t0: "s = (sl0, A0, r0)" by (cases s)
    have "Fin eps < r0" using s(2) by (simp add: t0 fill_cond_def kEps_exact)
    moreover have "r = f0 \<or> length A < length A0"
      using fill_step_exact(2) [OF assms(1) s] by (simp add: t) (simp add: t0)
    ultimately show "fill_inv es c (fill_step (\<lambda>x. x) s) \<and> ?m (fill_step (\<lambda>x. x) s) < ?m s"
      using fill_step_exact(1) [OF assms(1) s] eps_pos by (auto simp: t) (auto simp: t0)
  qed (rule assms(2))
  then obtain t where t: "while_option (fill_cond (\<lambda>x. x)) (fill_step (\<lambda>x. x)) st = Some t" ..
  show thesis
  proof (rule that [OF t])
    show "fill_inv es c t"
      using t assms(2) by (rule while_option_rule [rotated]) (rule fill_step_exact(1) [OF assms(1)])
    show "\<not> fill_cond (\<lambda>x. x) t" using t by (rule while_option_stop)
  qed
qed

lemma min_sum_exact:
  assumes "tame_list es"
  shows "fsum (\<lambda>x. x) (map sl_min (make_slots es)) = Fin (\<Sum>i<length es. e_min (es ! i))"
    "(\<Sum>i<length es. e_min (es ! i)) \<le> 10 ^ 40"
proof -
  have e: "0 \<le> e_min (es ! i)" "e_min (es ! i) \<le> 10 ^ 18" if "i < length es" for i
    using tame_range(1-3) [OF tame_nth [OF assms that]] by simp_all
  have m: "map sl_min (make_slots es) = map (\<lambda>i. Fin (e_min (es ! i))) [0..<length es]"
    by (rule nth_equalityI) (simp_all add: tame_slot tame_nth [OF assms])
  have s: "sum_list (map (\<lambda>i. e_min (es ! i)) [0..<length es]) \<le> 10 ^ 40"
    using e assms by (intro sum_list_le_bound) (auto simp: tame_list_def)
  then show "(\<Sum>i<length es. e_min (es ! i)) \<le> 10 ^ 40" by (simp add: sum_list_upt)
  have "fsum (\<lambda>x. x) (map (\<lambda>i. Fin (e_min (es ! i))) [0..<length es]) =
      Fin (sum_list (map fval (map (\<lambda>i. Fin (e_min (es ! i))) [0..<length es])))"
    using e s by (intro fsum_exact) (auto simp: comp_def intro: le_big)
  then show "fsum (\<lambda>x. x) (map sl_min (make_slots es)) = Fin (\<Sum>i<length es. e_min (es ! i))"
    by (simp add: m comp_def sum_list_upt)
qed

lemma initial_fill_inv:
  assumes "tame_list es" "0 \<le> c" "c \<le> 10 ^ 18" "(\<Sum>i<length es. e_min (es ! i)) \<le> c + eps"
  shows "fill_inv es c (make_slots es, initial_active (\<lambda>x. x) es (make_slots es),
    fsub (\<lambda>x. x) (Fin c) (fsum (\<lambda>x. x) (map sl_min (make_slots es))))"
proof -
  let ?g = "\<lambda>i. e_min (es ! i)" and ?M = "\<Sum>i<length es. e_min (es ! i)"
  have M: "0 \<le> ?M" using tame_range(1) [OF tame_nth [OF assms(1)]] by (intro sum_nonneg) simp
  then have r: "fsub (\<lambda>x. x) (Fin c) (fsum (\<lambda>x. x) (map sl_min (make_slots es))) = Fin (c - ?M)"
    using assms(2-4) eps_pos by (simp add: min_sum_exact(1) [OF assms(1)] fsub_def fl_small)
  have act: "(fadd (\<lambda>x. x) (sl_granted (grant_slots es ?g ! i)) (kEps (\<lambda>x. x)) < sl_want (grant_slots es ?g ! i))
      \<longleftrightarrow> ?g i < e_want (es ! i) - eps" if "i < length es" for i
  proof -
    have "fl (\<lambda>x. x) (?g i + eps) = Fin (?g i + eps)"
      using tame_range(1-3) [OF tame_nth [OF assms(1) that]] eps_pos by (intro fl_small) simp
    then show ?thesis unfolding kEps_exact using that by (simp add: grant_slots_nth assms(1)) linarith
  qed
  define A where "A = initial_active (\<lambda>x. x) es (make_slots es)"
  have "A = sort_key (\<lambda>i. (ae_flow (es ! i), i)) (filter (\<lambda>i. ?g i < e_want (es ! i) - eps) [0..<length es])"
    unfolding A_def initial_active_def make_slots_grant [OF assms(1)]
    by (rule arg_cong [where f = "sort_key _"]) (auto intro!: filter_cong simp: act)
  then have A: "distinct A" "set A = {i. i < length es \<and> ?g i < e_want (es ! i) - eps}" by auto
  have "level_ok es ?g (set A) 0"
    unfolding level_ok_def A(2) using tame_range(2) [OF tame_nth [OF assms(1)]] by auto
  moreover have "(\<Sum>i<length es. ?g i) + (c - ?M) = c" "- eps \<le> c - ?M" "c - ?M \<le> 10 ^ 18"
    using assms(3,4) M by auto
  ultimately show ?thesis
    unfolding A_def [symmetric] fill_inv_def r prod.case using A(1) make_slots_grant [OF assms(1)]
    by - (rule exI [of _ ?g], rule exI [of _ "c - ?M"], rule exI [of _ 0], simp)
qed

text \<open>When the minima fit, the grants are those of the final state of the loop.\<close>

lemma allocate_filled_exact:
  assumes "tame_list es" "es \<noteq> []" "0 < c" "c \<le> 10 ^ 18" "(\<Sum>i<length es. e_min (es ! i)) \<le> c + eps"
  obtains res g A L r where "allocate_weighted (\<lambda>x. x) es (Fin c) = Some res"
    "length (ar_granted res) = length es" "\<And>i. i < length es \<Longrightarrow> ar_granted res ! i = Fin (g i)"
    "level_ok es g A L" "(\<Sum>i<length es. g i) + r = c" "- eps \<le> r" "r \<le> eps \<or> A = {}"
proof -
  let ?M = "fsum (\<lambda>x. x) (map sl_min (make_slots es))"
  obtain st' where st': "while_option (fill_cond (\<lambda>x. x)) (fill_step (\<lambda>x. x))
      (make_slots es, initial_active (\<lambda>x. x) es (make_slots es), fsub (\<lambda>x. x) (Fin c) ?M) = Some st'"
    "fill_inv es c st'" "\<not> fill_cond (\<lambda>x. x) st'"
    using initial_fill_inv [OF assms(1) less_imp_le [OF assms(3)] assms(4,5)] assms(1)
    by (auto elim: fill_terminates)
  then obtain g A r L where s: "st' = (grant_slots es g, A, Fin r)" "distinct A" "level_ok es g (set A) L"
    "(\<Sum>i<length es. g i) + r = c" "- eps \<le> r"
    by (auto simp: fill_inv_def)
  have fit: "\<not> fadd (\<lambda>x. x) (Fin c) (kEps (\<lambda>x. x)) < ?M"
    using assms(3-5) eps_pos by (simp add: kEps_exact min_sum_exact(1) [OF assms(1)] fl_small)
  have "map_option ar_granted (allocate_weighted (\<lambda>x. x) es (Fin c)) =
      Some (map (\<lambda>s. fclamp (sl_granted s) f0 (sl_max s)) (grant_slots es g))"
    unfolding allocate_filled_eq [OF assms(2) _ HOL.refl fit, simplified, OF assms(3)] st'(1) s(1) by simp
  then obtain res where res: "allocate_weighted (\<lambda>x. x) es (Fin c) = Some res"
    "ar_granted res = map (\<lambda>s. fclamp (sl_granted s) f0 (sl_max s)) (grant_slots es g)"
    by blast
  show thesis
  proof (rule that [OF res(1)])
    show "length (ar_granted res) = length es" by (simp add: res(2))
    show "ar_granted res ! i = Fin (g i)" if i: "i < length es" for i
    proof -
      note r = tame_range [OF tame_nth [OF assms(1) i]]
      have "0 \<le> g i" "g i \<le> fval (ae_max (es ! i))"
        using s(3) i r(1,4) unfolding level_ok_def by (meson order_trans)+
      then have "fclamp (Fin (g i)) f0 (Fin (fval (ae_max (es ! i)))) = Fin (g i)"
        by (intro fclamp_id) auto
      then show ?thesis using i r(5) by (simp add: res(2) grant_slots_nth assms(1))
    qed
    show "r \<le> eps \<or> set A = {}"
    proof (rule ccontr)
      assume *: "\<not> (r \<le> eps \<or> set A = {})"
      have sub: "set A \<subseteq> {..<length es}" using s(3) by (simp add: level_ok_def)
      have "0 < (\<Sum>i\<in>set A. e_weight (es ! i))"
        using * sub by (intro sum_pos tame_range(7) tame_nth [OF assms(1)]) auto
      then show False using st'(3) *
        by (simp add: s(1) fill_cond_def kEps_exact active_wsum_exact(1) [OF assms(1) s(2) sub])
    qed
  qed (use s in auto)
qed

text \<open>When they do not, the minima are scaled down proportionally.\<close>

lemma allocate_scaled_exact:
  assumes "tame_list es" "es \<noteq> []" "0 < c" "c \<le> 10 ^ 18"
  defines "M \<equiv> \<Sum>i<length es. e_min (es ! i)"
  assumes "c + eps < M"
  obtains res where "allocate_weighted (\<lambda>x. x) es (Fin c) = Some res"
    "length (ar_granted res) = length es"
    "\<And>i. i < length es \<Longrightarrow> ar_granted res ! i = Fin (c / M * e_min (es ! i))"
proof -
  let ?n = "length es"
  define s where "s = c / M"
  have s: "0 \<le> s" "s \<le> 1" "s * M = c" using assms(3,6) eps_pos by (simp_all add: s_def divide_le_eq)
  have v: "0 \<le> s * e_min (es ! i)" "s * e_min (es ! i) \<le> e_min (es ! i)" "e_min (es ! i) \<le> 10 ^ 18"
    "e_min (es ! i) \<le> fval (ae_max (es ! i))" if "i < ?n" for i
    using tame_range(1-4) [OF tame_nth [OF assms(1) that]] s(1) mult_right_mono [OF s(2), of "e_min (es ! i)"]
    by simp_all
  define vals where "vals = map (\<lambda>i. Fin (s * e_min (es ! i))) [0..<?n]"
  have vals: "map (\<lambda>x. fmul (\<lambda>x. x) (sl_min x) (Fin s)) (make_slots es) = vals"
  proof (rule nth_equalityI)
    fix i assume "i < length (map (\<lambda>x. fmul (\<lambda>x. x) (sl_min x) (Fin s)) (make_slots es))"
    then have i: "i < ?n" by simp
    have "fl (\<lambda>x. x) (e_min (es ! i) * s) = Fin (s * e_min (es ! i))"
      using v [OF i] by (subst fl_small) (simp_all add: mult.commute)
    then show "map (\<lambda>x. fmul (\<lambda>x. x) (sl_min x) (Fin s)) (make_slots es) ! i = vals ! i"
      using i by (simp add: vals_def tame_slot tame_nth [OF assms(1)])
  qed (simp add: vals_def)
  have sum: "sum_list (map fval vals) = c"
    using s(3) by (simp add: vals_def comp_def sum_list_upt M_def sum_distrib_left)
  have left: "fsub (\<lambda>x. x) (Fin c) (fsum (\<lambda>x. x) vals) = f0"
  proof -
    have "\<exists>a. x = Fin a \<and> 0 \<le> a" if "x \<in> set vals" for x using that v(1) by (auto simp: vals_def)
    then have "fsum (\<lambda>x. x) vals = Fin c"
      using fsum_exact [of vals] sum assms(4) le_big [of c] by simp
    then show ?thesis by (simp add: fsub_def fl_small)
  qed
  have "fdiv (\<lambda>x. x) (Fin c) (Fin M) = Fin s" using s assms(3,6) eps_pos by (auto simp: fl_small simp flip: s_def)
  then have sc: "scale_minima (\<lambda>x. x) (make_slots es) (Fin c) (Fin M) = vals"
    using eps_pos by (simp add: scale_minima_def vals left Let_def kEps_exact)
  have M: "Fin M = fsum (\<lambda>x. x) (map sl_min (make_slots es))"
    by (simp add: M_def min_sum_exact(1) [OF assms(1)])
  have big: "fadd (\<lambda>x. x) (Fin c) (kEps (\<lambda>x. x)) < Fin M"
    using assms(3,4,6) eps_pos by (simp add: kEps_exact fl_small)
  obtain res where res: "allocate_weighted (\<lambda>x. x) es (Fin c) = Some res"
    using assms(2,3) big unfolding M by (simp add: allocate_weighted_def Let_def)
  have g: "ar_granted res = map (\<lambda>(v, e). fclamp v f0 (ae_max e)) (zip vals es)"
    using allocate_scaled [OF assms(2) _ M big res] assms(3) by (simp add: sc)
  show thesis
  proof (rule that [OF res])
    show "length (ar_granted res) = ?n" by (simp add: g vals_def)
    show "ar_granted res ! i = Fin (c / M * e_min (es ! i))" if i: "i < ?n" for i
    proof -
      have m: "ae_max (es ! i) = Fin (fval (ae_max (es ! i)))" by (rule tame_range(5) [OF tame_nth [OF assms(1) i]])
      have "fclamp (Fin (s * e_min (es ! i))) f0 (Fin (fval (ae_max (es ! i)))) = Fin (s * e_min (es ! i))"
        using v [OF i] by (intro fclamp_id) auto
      then show ?thesis using i m by (simp add: g vals_def s_def)
    qed
  qed
qed

lemma allocation_bounded_aux:
  assumes "tame_list es" "is_valid_rate (Fin c)"
  shows "\<exists>res. allocate_weighted (\<lambda>x. x) es (Fin c) = Some res \<and> length (ar_granted res) = length es \<and>
    (\<forall>i < length es. ar_granted res ! i = Fin (fval (ar_granted res ! i))) \<and>
    (\<Sum>i<length es. fval (ar_granted res ! i)) \<le> c + eps"
proof -
  let ?M = "\<Sum>i<length es. e_min (es ! i)"
  have c: "0 \<le> c" "c \<le> 10 ^ 18" using assms(2) by simp_all
  consider "es = [] \<or> c = 0" | "es \<noteq> []" "0 < c" "?M \<le> c + eps" | "es \<noteq> []" "0 < c" "c + eps < ?M"
    using c(1) by linarith
  then show ?thesis
  proof cases
    case 1
    then show ?thesis using c(1) eps_pos by (auto simp: allocate_weighted_def)
  next
    case 2
    show ?thesis
      by (rule allocate_filled_exact [OF assms(1) 2(1,2) c(2) 2(3)]) (auto intro!: exI)
  next
    case 3
    obtain res where res: "allocate_weighted (\<lambda>x. x) es (Fin c) = Some res" "length (ar_granted res) = length es"
      "\<And>i. i < length es \<Longrightarrow> ar_granted res ! i = Fin (c / ?M * e_min (es ! i))"
      using allocate_scaled_exact [OF assms(1) 3(1,2) c(2) 3(3)] by blast
    have "(\<Sum>i<length es. fval (ar_granted res ! i)) = c / ?M * ?M"
      unfolding sum_distrib_left by (rule sum.cong) (simp_all add: res(3))
    then have "(\<Sum>i<length es. fval (ar_granted res ! i)) \<le> c + eps" using 3 eps_pos by simp
    then show ?thesis using res by simp
  qed
qed

section \<open>Properties\<close>

text \<open>
  Property C10. In exact arithmetic, for tame entries (valid rates, weights of at least \<open>10 ^ -100\<close> after the code has
  replaced those that are not positive numbers, fewer than \<open>2 ^ 64\<close> of them), the allocator always returns, every grant
  is a finite number, and the grants sum up to no more than the capacity (plus the tolerance of 1e-9 the
  code compares with). The code takes smaller weights too; for those the grants can exceed the capacity, as the
  theory Faint_Weights shows.
\<close>

theorem allocation_returns_and_fits:
  assumes "tame_list es" "is_valid_rate (Fin c)"
  shows "\<exists>res. allocate_weighted (\<lambda>x. x) es (Fin c) = Some res \<and> length (ar_granted res) = length es \<and>
    (\<forall>i < length es. ar_granted res ! i = Fin (fval (ar_granted res ! i))) \<and>
    (\<Sum>i<length es. fval (ar_granted res ! i)) \<le> c + eps"
  using assms by (rule allocation_bounded_aux)

lemma sample_tame: "tame_list sample_entries" "length sample_entries = 2"
  by (simp_all add: tame_list_def tame_def sample_entries_def sample_entry_def e_weight_def
      sanitise_weight_def kMaxRate_def tiny_def)

theorem allocation_returns_and_fits_witness:
  "tame_list sample_entries \<and> is_valid_rate (Fin 100) \<and>
   (\<exists>res. allocate_weighted (\<lambda>x. x) sample_entries (Fin 100) = Some res \<and>
     (\<Sum>i<2. fval (ar_granted res ! i)) \<le> 100 + eps)"
  using allocation_returns_and_fits [of sample_entries 100] sample_tame by auto

text \<open>
  Property C12. Work conservation in exact arithmetic, for tame entries: the allocator leaves more than the
  tolerance of the capacity unused only when every entry has what it wants (up to the tolerance).
\<close>

theorem allocation_work_conserving:
  assumes "tame_list es" "0 < c" "c \<le> 10 ^ 18" "allocate_weighted (\<lambda>x. x) es (Fin c) = Some res"
    "(\<Sum>i<length es. fval (ar_granted res ! i)) < c - eps" "i < length es"
  shows "e_want (es ! i) - eps \<le> fval (ar_granted res ! i)"
proof -
  let ?M = "\<Sum>i<length es. e_min (es ! i)"
  have ne: "es \<noteq> []" using assms(6) by auto
  show ?thesis
  proof (cases "?M \<le> c + eps")
    case True
    obtain res' g A L r where *: "allocate_weighted (\<lambda>x. x) es (Fin c) = Some res'"
      "\<And>i. i < length es \<Longrightarrow> ar_granted res' ! i = Fin (g i)" "level_ok es g A L"
      "(\<Sum>i<length es. g i) + r = c" "r \<le> eps \<or> A = {}"
      using allocate_filled_exact [OF assms(1) ne assms(2,3) True] by metis
    then have "(\<Sum>i<length es. fval (ar_granted res ! i)) = (\<Sum>i<length es. g i)"
      using assms(4) by (intro sum.cong) auto
    then have "A = {}" using * assms(5) by auto
    then show ?thesis using * assms(4,6) by (auto simp: level_ok_def)
  next
    case False
    then have big: "c + eps < ?M" by simp
    obtain res' where *: "allocate_weighted (\<lambda>x. x) es (Fin c) = Some res'"
      "length (ar_granted res') = length es" "\<And>i. i < length es \<Longrightarrow> ar_granted res' ! i = Fin (c / ?M * e_min (es ! i))"
      using allocate_scaled_exact [OF assms(1) ne assms(2,3) big] by blast
    then have "(\<Sum>i<length es. fval (ar_granted res ! i)) = c / ?M * ?M"
      unfolding sum_distrib_left using assms(4) by (intro sum.cong) auto
    then show ?thesis using False assms(2,5) eps_pos by simp
  qed
qed

theorem allocation_work_conserving_witness:
  "\<exists>res. allocate_weighted (\<lambda>x. x) sample_entries (Fin 3000) = Some res \<and>
     (\<Sum>i<2. fval (ar_granted res ! i)) < 3000 - eps \<and> 1000 - eps \<le> fval (ar_granted res ! 0)"
proof -
  have "is_valid_rate (Fin 3000)" by simp
  then obtain res where res: "allocate_weighted (\<lambda>x. x) sample_entries (Fin 3000) = Some res"
    "\<forall>i < 2. ar_granted res ! i = Fin (fval (ar_granted res ! i))"
    using allocation_bounded_aux [OF sample_tame(1)] unfolding sample_tame(2) by blast
  have "fval (ar_granted res ! i) \<le> 1000" if "i < 2" for i
  proof -
    have "ar_granted res ! i \<le> ae_max (sample_entries ! i)"
      using exact.allocate_weighted_limits(3) [OF sample_entries_ok(1) _ res(1)] sample_entries_ok(2) [of 3000]
        that sample_tame(2) by simp
    moreover have "ae_max (sample_entries ! i) = Fin 1000"
      using that by (auto simp: sample_entries_def sample_entry_def less_2_cases_iff)
    ultimately show ?thesis using res(2) that by (metis less_eq_f64.simps(1))
  qed
  then have "(\<Sum>i<2. fval (ar_granted res ! i)) \<le> (\<Sum>i<(2 :: nat). 1000)" by (intro sum_mono) simp
  then have s: "(\<Sum>i<2. fval (ar_granted res ! i)) < 3000 - eps" using eps_pos by simp
  have "e_want (sample_entries ! 0) = 1000"
    by (simp add: sample_entries_def sample_entry_def e_want_def e_min_def)
  then show ?thesis
    using allocation_work_conserving [OF sample_tame(1) _ _ res(1), of 0] s res(1) by (simp add: sample_tame(2))
qed

text \<open>
  Property C11. Weighted max-min fairness in exact arithmetic, for tame entries. When the minima fit the capacity there is
  one water level for all entries: no grant lies above its minimum plus the level times its
  weight, and every grant below that has all it wants (up to the tolerance). When they do not fit, every
  entry gets the same fraction of its minimum, whatever its weight.
\<close>

theorem allocation_max_min_fair:
  assumes "tame_list es" "es \<noteq> []" "0 < c" "c \<le> 10 ^ 18" "allocate_weighted (\<lambda>x. x) es (Fin c) = Some res"
  shows "if (\<Sum>i<length es. e_min (es ! i)) \<le> c + eps
    then \<exists>L \<ge> 0. \<forall>i < length es.
      fval (ar_granted res ! i) \<le> e_min (es ! i) + L * e_weight (es ! i) \<and>
      (fval (ar_granted res ! i) = e_min (es ! i) + L * e_weight (es ! i) \<or>
       e_want (es ! i) - eps \<le> fval (ar_granted res ! i))
    else \<forall>i < length es. fval (ar_granted res ! i) =
      c / (\<Sum>i<length es. e_min (es ! i)) * e_min (es ! i)"
proof (cases "(\<Sum>i<length es. e_min (es ! i)) \<le> c + eps")
  case True
  obtain res' g A L r where *: "allocate_weighted (\<lambda>x. x) es (Fin c) = Some res'"
    "\<And>i. i < length es \<Longrightarrow> ar_granted res' ! i = Fin (g i)" "level_ok es g A L"
    using allocate_filled_exact [OF assms(1-4) True] by metis
  then have "0 \<le> L" "\<forall>i < length es. g i \<le> e_min (es ! i) + L * e_weight (es ! i) \<and>
      (g i = e_min (es ! i) + L * e_weight (es ! i) \<or> e_want (es ! i) - eps \<le> g i)"
    by (auto simp: level_ok_def split: if_splits)
  then show ?thesis using True * assms(5) by auto
next
  case False
  then have big: "c + eps < (\<Sum>i<length es. e_min (es ! i))" by simp
  obtain res' where "allocate_weighted (\<lambda>x. x) es (Fin c) = Some res'"
    "length (ar_granted res') = length es" "\<And>i. i < length es \<Longrightarrow> ar_granted res' ! i =
       Fin (c / (\<Sum>i<length es. e_min (es ! i)) * e_min (es ! i))"
    using allocate_scaled_exact [OF assms(1-4) big] by blast
  then show ?thesis using assms(5) False by simp
qed

theorem allocation_max_min_fair_witness:
  "\<exists>res. allocate_weighted (\<lambda>x. x) sample_entries (Fin 100) = Some res \<and>
     (\<exists>L \<ge> 0. fval (ar_granted res ! 0) \<le> 10 + L \<and> fval (ar_granted res ! 1) \<le> 20 + L * 3)"
proof -
  have t: "tame_list sample_entries" "sample_entries \<noteq> []" "length sample_entries = 2"
    using sample_tame by auto
  have e: "e_min (sample_entries ! 0) = 10" "e_min (sample_entries ! Suc 0) = 20"
    "e_weight (sample_entries ! 0) = 1" "e_weight (sample_entries ! Suc 0) = 3"
    by (simp_all add: sample_entries_def sample_entry_def e_min_def e_weight_def sanitise_weight_def kMaxRate_def)
  then obtain L where L: "0 \<le> L" "\<forall>i < 2. fval (ar_granted sample_result ! i) \<le>
      e_min (sample_entries ! i) + L * e_weight (sample_entries ! i)"
    using allocation_max_min_fair [OF t(1,2) _ _ sample_allocation] eps_pos
    by (auto simp: t(3) numeral_2_eq_2)
  show ?thesis
    using sample_allocation L(1) L(2) [rule_format, of 0] L(2) [rule_format, of "Suc 0"] e by auto
qed

end
