(* ===== verification/Path_Model.thy ===== *)
theory Path_Model
  imports Core_Types
begin

text \<open>
  \<^verbatim>\<open>include/bg/path.hpp\<close> and \<^verbatim>\<open>src/path.cpp\<close>: a path is an ordered list of hops, each with the
  generation of its resource; \<^verbatim>\<open>validate_path\<close> checks identities and duplicates.
\<close>

record PathHop =
  hop_resource :: ResourceId
  hop_generation :: CapacityGeneration

record Path =
  path_id :: PathId
  path_hops :: "PathHop list"
  path_generation :: FlowGeneration

record PathAnalysis =
  pa_path :: PathId
  pa_bottleneck :: "ResourceId option"
  pa_total_requested :: Capacity
  pa_feasible :: Capacity
  pa_limiting_resource :: "ResourceId option"
  pa_competing_flows :: "FlowId list"
  pa_saturated :: bool
  pa_capacity_generation :: CapacityGeneration

text \<open>The loop over the hops with its list of resources seen so far.\<close>

fun validate_hops :: "ResourceId list \<Rightarrow> PathHop list \<Rightarrow> string option" where
  "validate_hops seen [] = None"
| "validate_hops seen (hop # hops) =
     (if is_null (hop_resource hop) then Some ''path hop has null resource id''
      else if is_null (hop_generation hop) then Some ''path hop has null resource generation''
      else if hop_resource hop \<in> set seen then Some ''path contains a duplicate resource hop''
      else validate_hops (seen @ [hop_resource hop]) hops)"

definition validate_path :: "Path \<Rightarrow> string option" where
  "validate_path p =
     (if is_null (path_id p) then Some ''path id is null''
      else if is_null (path_generation p) then Some ''path generation is null''
      else if path_hops p = [] then Some ''path must contain at least one hop''
      else validate_hops [] (path_hops p))"

definition hop_resources :: "Path \<Rightarrow> ResourceId list" where
  "hop_resources p = map hop_resource (path_hops p)"

section \<open>Lemmas\<close>

lemma validate_hops_None:
  "validate_hops seen hops = None \<longleftrightarrow>
     (\<forall>h \<in> set hops. \<not> is_null (hop_resource h) \<and> \<not> is_null (hop_generation h)) \<and>
     distinct (map hop_resource hops) \<and> set (map hop_resource hops) \<inter> set seen = {}"
  by (induction hops arbitrary: seen) auto

section \<open>Properties\<close>

text \<open>Path check: \<^verbatim>\<open>validate_path\<close> accepts exactly the paths with a non-null identity
  and generation, at least one hop, no null resource or generation in a hop, and no resource
  that occurs in two hops.\<close>

lemma validate_path_exact:
  "validate_path p = None \<longleftrightarrow>
     \<not> is_null (path_id p) \<and> \<not> is_null (path_generation p) \<and> path_hops p \<noteq> [] \<and>
     list_all (\<lambda>h. \<not> is_null (hop_resource h) \<and> \<not> is_null (hop_generation h)) (path_hops p) \<and>
     distinct (hop_resources p)"
  by (auto simp: validate_path_def validate_hops_None hop_resources_def list_all_iff)

end
