(* ===== verification/Reservation.thy ===== *)
theory Reservation
  imports Core_Types
begin

text \<open>
  \<^verbatim>\<open>include/bg/reservation.hpp\<close> and \<^verbatim>\<open>src/reservation.cpp\<close>: the reservation authority object
  and its guarded transition table.
\<close>

datatype ReservationState =
    RPending | RActive | RReleased | RCancelled | RExpired | RFailed | ReservationState_raw u32

fun ReservationState_code :: "ReservationState \<Rightarrow> u32" where
  "ReservationState_code RPending = 0"
| "ReservationState_code RActive = 1"
| "ReservationState_code RReleased = 2"
| "ReservationState_code RCancelled = 3"
| "ReservationState_code RExpired = 4"
| "ReservationState_code RFailed = 5"
| "ReservationState_code (ReservationState_raw w) = w"

definition ReservationState_cast :: "u32 \<Rightarrow> ReservationState" where
  "ReservationState_cast w =
     (if w = 0 then RPending else if w = 1 then RActive else if w = 2 then RReleased
      else if w = 3 then RCancelled else if w = 4 then RExpired else if w = 5 then RFailed
      else ReservationState_raw w)"

fun reservation_state_name :: "ReservationState \<Rightarrow> string" where
  "reservation_state_name RPending = ''pending''"
| "reservation_state_name RActive = ''active''"
| "reservation_state_name RReleased = ''released''"
| "reservation_state_name RCancelled = ''cancelled''"
| "reservation_state_name RExpired = ''expired''"
| "reservation_state_name RFailed = ''failed''"
| "reservation_state_name (ReservationState_raw w) = ''unknown''"

definition reservation_transition ::
    "ReservationState \<Rightarrow> ReservationState \<Rightarrow> ReservationState option" where
  "reservation_transition from to =
     (if from = to then Some to
      else case from of
        RPending \<Rightarrow> if to \<in> {RActive, RCancelled, RExpired, RFailed} then Some to else None
      | RActive \<Rightarrow> if to \<in> {RReleased, RCancelled, RExpired, RFailed} then Some to else None
      | RReleased \<Rightarrow> None
      | RCancelled \<Rightarrow> None
      | RExpired \<Rightarrow> None
      | RFailed \<Rightarrow> None
      | ReservationState_raw w \<Rightarrow> None)"

record ResourceAllocation =
  al_resource :: ResourceId
  al_allocated :: Capacity

record Reservation =
  rv_id :: ReservationId
  rv_flow :: FlowId
  rv_attempt :: AttemptId
  rv_flow_generation :: FlowGeneration
  rv_path :: PathId
  rv_allocations :: "ResourceAllocation list"
  rv_epoch :: CoordinatorEpoch
  rv_worker_boot :: WorkerBootId
  rv_capacity_generation :: CapacityGeneration
  rv_state :: ReservationState

section \<open>Lemmas\<close>

definition reservation_live :: "ReservationState \<Rightarrow> bool" where
  "reservation_live s \<longleftrightarrow> s = RActive \<or> s = RPending"

definition reservation_terminal :: "ReservationState \<Rightarrow> bool" where
  "reservation_terminal s \<longleftrightarrow> s \<in> {RReleased, RCancelled, RExpired, RFailed}"

inductive reservation_reaches :: "ReservationState \<Rightarrow> ReservationState \<Rightarrow> bool" where
  stay: "reservation_reaches s s"
| move: "reservation_reaches s t \<Longrightarrow> reservation_transition t u = Some v \<Longrightarrow> reservation_reaches s v"

lemma reservation_transition_release:
  "reservation_transition RActive RReleased = Some RReleased"
  "reservation_transition s RReleased = Some v \<Longrightarrow> v = RReleased \<and> (s = RActive \<or> s = RReleased)"
  by (auto simp: reservation_transition_def split: ReservationState.splits if_splits)

lemma reservation_reaches_terminal:
  "reservation_reaches s t \<Longrightarrow> reservation_terminal s \<Longrightarrow> t = s"
  by (induction rule: reservation_reaches.induct)
     (auto simp: reservation_terminal_def reservation_transition_def split: if_splits)

section \<open>Properties\<close>

text \<open>Reservation life cycle: no transition leaves Released, Cancelled, Expired or
  Failed, so a reservation is never active again after its release; Released is entered from
  Active only, in particular a pending reservation cannot be released.\<close>

lemma reservation_lifecycle_terminal:
  "(reservation_terminal s \<longrightarrow> (reservation_reaches s t \<longleftrightarrow> t = s)) \<and>
   (reservation_transition s RReleased = Some v \<longleftrightarrow> v = RReleased \<and> (s = RActive \<or> s = RReleased))"
proof (intro conjI impI)
  assume fin: "reservation_terminal s"
  then show "reservation_reaches s t \<longleftrightarrow> t = s"
    using reservation_reaches_terminal by (auto intro: reservation_reaches.stay)
next
  show "reservation_transition s RReleased = Some v \<longleftrightarrow> v = RReleased \<and> (s = RActive \<or> s = RReleased)"
    by (auto simp: reservation_transition_def split: ReservationState.splits if_splits)
qed

end
