(* ===== verification/Governor_State.thy ===== *)
theory Governor_State
  imports Water_Fill Path_Model Reservation
begin

text \<open>
  The state of the governor (\<^verbatim>\<open>include/bg/governor.hpp\<close>, \<^verbatim>\<open>Governor::Impl\<close> of
  \<^verbatim>\<open>src/governor.cpp\<close>) and the private helpers its operations share: the recomputation of
  governed, reserved and allocated capacity, the composite weight of a flow, the release of a
  reservation, the choice of a worker and the admission of a queued flow.

  The mutex makes every public operation atomic, so the operations are functions of the state.
  The wall clock is the sequence of readings the process will make; \<^verbatim>\<open>now()\<close> takes the next one.
  An operation that may throw returns the error or the value together with the state it leaves,
  so that what was written before the throw is kept.
\<close>

section \<open>State\<close>

record GovernorConfig =
  cfg_policy :: PolicyConfig
  cfg_id_salt :: u64
  cfg_auto_clock :: bool

record WorkerRT =
  wk_id :: WorkerId
  wk_boot :: WorkerBootId
  wk_backend :: string
  wk_protocol :: u32
  wk_alive :: bool
  wk_back_resources :: "ResourceId list"

record ResRT =
  rr_spec :: ResourceSpec
  rr_measured :: f64
  rr_moving_avg :: f64
  rr_inst_util :: f64
  rr_last_ms :: f64
  rr_confidence :: f64
  rr_latency_ms :: f64
  rr_qdepth :: u64
  rr_saturated :: bool
  rr_health :: ResourceHealth
  rr_enabled :: bool
  rr_reserved :: f64
  rr_allocated :: f64
  rr_governed :: f64
  rr_provenance :: string

record FlowRT =
  fr_spec :: FlowSpec
  fr_state :: FlowState
  fr_admitted_ms :: f64
  fr_last_ms :: f64
  fr_starvation_ms :: f64
  fr_granted :: f64
  fr_bytes_done :: u64
  fr_burst_remaining :: u64
  fr_retries :: u64
  fr_reservation :: "ReservationId option"
  fr_assigned_worker :: "WorkerId option"
  fr_assigned_boot :: WorkerBootId
  fr_last_error :: string
  fr_last_grant_update_ms :: f64

record TenantAcc =
  ta_allocated_now :: f64
  ta_served_bytes :: f64
  ta_submitted :: u64
  ta_completed :: u64
  ta_failed :: u64
  ta_weight :: f64

record WorkloadAcc =
  wa_allocated_now :: f64
  wa_served_bytes :: f64
  wa_submitted :: u64
  wa_completed :: u64
  wa_failed :: u64
  wa_weight :: f64

record gov =
  g_config :: GovernorConfig
  g_gen :: IdGen
  g_coordinator :: CoordinatorId
  g_epoch :: CoordinatorEpoch
  g_capacity_generation :: CapacityGeneration
  g_auto_clock :: bool
  g_virtual_now :: f64
  g_resources :: "(ResourceId, ResRT) umap"
  g_paths :: "(PathId, Path) umap"
  g_flows :: "(FlowId, FlowRT) umap"
  g_reservations :: "(ReservationId, Reservation) umap"
  g_workers :: "(WorkerId, WorkerRT) umap"
  g_tenants :: "(TenantId, TenantAcc) umap"
  g_workloads :: "(WorkloadId, WorkloadAcc) umap"
  g_wall :: "nat \<Rightarrow> f64"
  g_wall_pos :: nat

text \<open>The default member initialisers.\<close>

definition ResourceSpec_default :: ResourceSpec where
  "ResourceSpec_default =
     \<lparr>rs_id = null_id, rs_class = GenericTransport, rs_source = [], rs_destination = [],
      rs_direction = Unidirectional, rs_nominal = Capacity_zero, rs_generation = null_id, rs_enabled = True\<rparr>"

definition ResRT_default :: ResRT where
  "ResRT_default =
     \<lparr>rr_spec = ResourceSpec_default, rr_measured = f0, rr_moving_avg = f0, rr_inst_util = f0,
      rr_last_ms = f0, rr_confidence = f0, rr_latency_ms = Fin (- 1), rr_qdepth = 0,
      rr_saturated = False, rr_health = Healthy, rr_enabled = True, rr_reserved = f0,
      rr_allocated = f0, rr_governed = f0, rr_provenance = []\<rparr>"

definition FlowRT_of :: "FlowSpec \<Rightarrow> FlowRT" where
  "FlowRT_of spec =
     \<lparr>fr_spec = spec, fr_state = Created, fr_admitted_ms = f0, fr_last_ms = f0,
      fr_starvation_ms = f0, fr_granted = f0, fr_bytes_done = 0, fr_burst_remaining = 0,
      fr_retries = 0, fr_reservation = None, fr_assigned_worker = None, fr_assigned_boot = null_id,
      fr_last_error = [], fr_last_grant_update_ms = f0\<rparr>"

definition TenantAcc_default :: TenantAcc where
  "TenantAcc_default = \<lparr>ta_allocated_now = f0, ta_served_bytes = f0, ta_submitted = 0,
     ta_completed = 0, ta_failed = 0, ta_weight = f1\<rparr>"

definition WorkloadAcc_default :: WorkloadAcc where
  "WorkloadAcc_default = \<lparr>wa_allocated_now = f0, wa_served_bytes = f0, wa_submitted = 0,
     wa_completed = 0, wa_failed = 0, wa_weight = f1\<rparr>"

definition WorkerRT_default :: WorkerRT where
  "WorkerRT_default = \<lparr>wk_id = null_id, wk_boot = null_id, wk_backend = [], wk_protocol = 1,
     wk_alive = True, wk_back_resources = []\<rparr>"

text \<open>
  The constructor. \<open>rng\<close> is the output of the Mersenne twister for the seed in use and \<open>wall\<close>
  the clock. The member \<^verbatim>\<open>auto_clock\<close> starts as true whatever the configuration says.
\<close>

definition Governor_init :: "GovernorConfig \<Rightarrow> (nat \<Rightarrow> u64) \<Rightarrow> (nat \<Rightarrow> f64) \<Rightarrow> gov" where
  "Governor_init cfg rng wall =
     (let gen = IdGen_seed (cfg_id_salt cfg) rng;
          (coord, gen) = IdGen_next gen;
          (n1, gen) = IdGen_next64 gen;
          (n2, gen) = IdGen_next64 gen
      in \<lparr>g_config = cfg, g_gen = gen, g_coordinator = coord, g_epoch = fresh_generation n1,
          g_capacity_generation = fresh_generation n2, g_auto_clock = True, g_virtual_now = f0,
          g_resources = [], g_paths = [], g_flows = [], g_reservations = [], g_workers = [],
          g_tenants = [], g_workloads = [], g_wall = wall, g_wall_pos = 0\<rparr>)"

section \<open>Clock\<close>

definition now :: "gov \<Rightarrow> f64" where
  "now g = (if g_auto_clock g then g_wall g (g_wall_pos g) else g_virtual_now g)"

definition now_next :: "gov \<Rightarrow> gov" where
  "now_next g = g\<lparr>g_wall_pos := (if g_auto_clock g then Suc (g_wall_pos g) else g_wall_pos g)\<rparr>"

definition set_auto_clock :: "bool \<Rightarrow> gov \<Rightarrow> gov" where
  "set_auto_clock b g = g\<lparr>g_auto_clock := b\<rparr>"

definition advance_ms :: "(rat \<Rightarrow> rat) \<Rightarrow> f64 \<Rightarrow> gov \<Rightarrow> gov" where
  "advance_ms R dt g = g\<lparr>g_virtual_now := fadd R (g_virtual_now g) dt\<rparr>"

section \<open>Capacity and decisions\<close>

definition governed_of :: "(rat \<Rightarrow> rat) \<Rightarrow> ResourceSpec \<Rightarrow> f64 \<Rightarrow> bool \<Rightarrow> bool \<Rightarrow> f64 \<Rightarrow> f64" where
  "governed_of R spec measured healthy enabled freshness =
     (if \<not> enabled \<or> \<not> healthy then f0
      else let nominal = cap_value (rs_nominal spec);
               applied = fmul R (if f0 < measured then measured else nominal) freshness
           in if applied < f0 \<or> kMaxRate < applied then nominal else applied)"

definition freshness_of :: "(rat \<Rightarrow> rat) \<Rightarrow> f64 \<Rightarrow> f64 \<Rightarrow> f64" where
  "freshness_of R staleness_ms threshold_ms =
     (if threshold_ms \<le> f0 then f1
      else let ratio = fdiv R staleness_ms threshold_ms
           in if ratio \<le> f0 then f1 else if f1 \<le> ratio then f0 else fsub R f1 ratio)"

definition make_decision ::
    "FlowSpec \<Rightarrow> DecisionKind \<Rightarrow> f64 \<Rightarrow> bool \<Rightarrow> string \<Rightarrow> ResourceId option \<Rightarrow> Decision" where
  "make_decision spec kind granted saturated reason bottleneck =
     Decision_default
       \<lparr>d_flow := fs_id spec, d_tenant := fs_tenant spec, d_workload := fs_workload spec, d_kind := kind,
        d_requested := fs_requested_preferred spec,
        d_granted := (case Capacity_try_make granted of None \<Rightarrow> Capacity_zero | Some c \<Rightarrow> c),
        d_minimum_guarantee := fs_requested_min spec, d_preferred := fs_requested_preferred spec,
        d_maximum := fs_requested_max spec, d_bottleneck := bottleneck, d_path := fs_path spec,
        d_priority := fs_priority spec, d_latency_class := fs_latency_class spec,
        d_saturated := saturated, d_kind_reason := reason\<rparr>"

section \<open>Weights\<close>

text \<open>\<^verbatim>\<open>std::pow\<close> with a non-negative integral exponent, correctly rounded.\<close>

fun fpow :: "(rat \<Rightarrow> rat) \<Rightarrow> f64 \<Rightarrow> nat \<Rightarrow> f64" where
  "fpow R (Fin b) n = (if n = 0 then f1 else fl R (b ^ n))"
| "fpow R NaN n = (if n = 0 then f1 else NaN)"
| "fpow R PInf n = (if n = 0 then f1 else PInf)"
| "fpow R NInf n = (if n = 0 then f1 else if even n then PInf else NInf)"

definition tenant_weight :: "TenantAcc \<Rightarrow> f64" where
  "tenant_weight t = (if ta_weight t \<le> f0 then f1 else ta_weight t)"

definition class_weight :: "(rat \<Rightarrow> rat) \<Rightarrow> PolicyConfig \<Rightarrow> LatencyClass \<Rightarrow> f64 \<Rightarrow> f64" where
  "class_weight R p c w =
     (case c of
        LatencySensitive \<Rightarrow> fmul R w (latency_sensitive_weight p)
      | ThroughputOriented \<Rightarrow> fmul R w (throughput_weight p)
      | BestEffort \<Rightarrow> fmul R w (best_effort_weight p)
      | LatencyClass_raw _ \<Rightarrow> w)"

definition deadline_factor :: "(rat \<Rightarrow> rat) \<Rightarrow> PolicyConfig \<Rightarrow> FlowRT \<Rightarrow> f64 \<Rightarrow> f64 \<Rightarrow> f64" where
  "deadline_factor R p f now_ms w =
     (if f0 < fs_deadline_seconds (fr_spec f)
      then let deadline_ms = fmul R (fs_deadline_seconds (fr_spec f)) (Fin 1000);
               elapsed = fsub R now_ms (fr_admitted_ms f);
               remaining = fsub R deadline_ms elapsed;
               pressure = (if remaining \<le> f0 then f1
                           else fsub R f1 (fdiv R remaining (fmul R (deadline_slack_seconds p) (Fin 1000))));
               pressure = fclamp pressure f0 f1
           in fmul R w (fadd R f1 (fmul R (deadline_weight p) pressure))
      else w)"

definition starvation_factor :: "(rat \<Rightarrow> rat) \<Rightarrow> PolicyConfig \<Rightarrow> FlowRT \<Rightarrow> f64 \<Rightarrow> f64" where
  "starvation_factor R p f w =
     (let starve = fmin f1 (fdiv R (fr_starvation_ms f) (fmul R (starvation_slow_seconds p) (Fin 1000)))
      in fmul R w (fadd R f1 (fmul R (starvation_weight p) (fmax f0 starve))))"

definition fairness_factor ::
    "(rat \<Rightarrow> rat) \<Rightarrow> PolicyConfig \<Rightarrow> (TenantId, TenantAcc) umap \<Rightarrow> FlowRT \<Rightarrow> f64 \<Rightarrow> f64" where
  "fairness_factor R p tenants f w =
     (case map_of tenants (fs_tenant (fr_spec f)) of
        None \<Rightarrow> w
      | Some ta \<Rightarrow>
          let total_w = fsum R (map (tenant_weight \<circ> snd) tenants);
              ideal = (if f0 < total_w then fdiv R (tenant_weight ta) total_w else f1);
              total_served = fsum R (map (ta_served_bytes \<circ> snd) tenants);
              actual = (if f0 < total_served then fdiv R (ta_served_bytes ta) total_served else f0);
              diff = fsub R ideal actual
          in fmul R w (fclamp (fadd R f1 (fmul R (fairness_gain p) diff)) (Fin (1 / 4)) (Fin 4)))"

definition flow_weight :: "(rat \<Rightarrow> rat) \<Rightarrow> gov \<Rightarrow> FlowRT \<Rightarrow> f64 \<Rightarrow> f64" where
  "flow_weight R g f now_ms =
     (let p = cfg_policy (g_config g);
          w = fpow R (base_priority_weight p) (nat (max 0 (sint (fs_priority (fr_spec f)))));
          w = class_weight R p (fs_latency_class (fr_spec f)) w;
          w = deadline_factor R p f now_ms w;
          w = starvation_factor R p f w;
          w = fairness_factor R p (g_tenants g) f w
      in if 0 < fr_burst_remaining f then fmul R w (flit R (11 / 10)) else w)"

section \<open>Recomputation\<close>

definition set_flow_state :: "FlowState \<Rightarrow> FlowRT \<Rightarrow> FlowRT result" where
  "set_flow_state to f =
     (case flow_transition (fr_state f) to of
        None \<Rightarrow> Inl (transition_error (''invalid flow transition: '' @ flow_state_name (fr_state f) @
                   '' -> '' @ flow_state_name to))
      | Some s \<Rightarrow> Inr (f\<lparr>fr_state := s\<rparr>))"

text \<open>
  \<^verbatim>\<open>recompute_governed\<close> reads the clock once for every resource that has been measured. The
  loop runs over the entries with the clock position as its state.
\<close>

definition staleness_of :: "(rat \<Rightarrow> rat) \<Rightarrow> gov \<Rightarrow> ResRT \<Rightarrow> f64 \<times> gov" where
  "staleness_of R g r =
     (if feq (rr_last_ms r) f0 then (f0, g) else (fsub R (now g) (rr_last_ms r), now_next g))"

definition governed_resource :: "(rat \<Rightarrow> rat) \<Rightarrow> gov \<Rightarrow> f64 \<Rightarrow> ResRT \<Rightarrow> ResRT" where
  "governed_resource R g staleness r =
     r\<lparr>rr_governed := governed_of R (rr_spec r) (rr_measured r) (rr_health r = Healthy) (rr_enabled r)
        (freshness_of R staleness (fairness_window_ms (cfg_policy (g_config g))))\<rparr>"

fun governed_loop ::
    "(rat \<Rightarrow> rat) \<Rightarrow> (ResourceId \<times> ResRT) list \<Rightarrow> gov \<Rightarrow> (ResourceId \<times> ResRT) list \<times> gov" where
  "governed_loop R [] g = ([], g)"
| "governed_loop R ((k, r) # rs) g =
     (let (st, g') = staleness_of R g r; (rs', g'') = governed_loop R rs g'
      in ((k, governed_resource R g st r) # rs', g''))"

definition recompute_governed :: "(rat \<Rightarrow> rat) \<Rightarrow> gov \<Rightarrow> gov" where
  "recompute_governed R g =
     (let (rs, g') = governed_loop R (g_resources g) g in g'\<lparr>g_resources := rs\<rparr>)"

definition add_reserved :: "(rat \<Rightarrow> rat) \<Rightarrow> (ResourceId, ResRT) umap \<Rightarrow> ResourceAllocation \<Rightarrow> (ResourceId, ResRT) umap" where
  "add_reserved R res al =
     (case map_of res (al_resource al) of
        None \<Rightarrow> res
      | Some r \<Rightarrow> AList.update (al_resource al)
          (r\<lparr>rr_reserved := fadd R (rr_reserved r) (cap_value (al_allocated al))\<rparr>) res)"

definition reserve_one ::
    "(rat \<Rightarrow> rat) \<Rightarrow> (FlowId, FlowRT) umap \<Rightarrow> (ResourceId, ResRT) umap \<Rightarrow> Reservation \<Rightarrow> (ResourceId, ResRT) umap" where
  "reserve_one R flows res rsv =
     (if rv_state rsv \<noteq> RActive \<and> rv_state rsv \<noteq> RPending then res
      else case map_of flows (rv_flow rsv) of
        None \<Rightarrow> res
      | Some f \<Rightarrow> if scheduled (fr_state f) then res
                  else foldl (add_reserved R) res (rv_allocations rsv))"

definition recompute_reserved :: "(rat \<Rightarrow> rat) \<Rightarrow> gov \<Rightarrow> gov" where
  "recompute_reserved R g =
     g\<lparr>g_resources := foldl (reserve_one R (g_flows g))
        (map_vals (\<lambda>r. r\<lparr>rr_reserved := f0\<rparr>) (g_resources g)) (map snd (g_reservations g))\<rparr>"

definition add_allocated :: "(rat \<Rightarrow> rat) \<Rightarrow> f64 \<Rightarrow> (ResourceId, ResRT) umap \<Rightarrow> PathHop \<Rightarrow> (ResourceId, ResRT) umap" where
  "add_allocated R granted res hop =
     (case map_of res (hop_resource hop) of
        None \<Rightarrow> res
      | Some r \<Rightarrow> AList.update (hop_resource hop) (r\<lparr>rr_allocated := fadd R (rr_allocated r) granted\<rparr>) res)"

definition allocate_one ::
    "(rat \<Rightarrow> rat) \<Rightarrow> (PathId, Path) umap \<Rightarrow> (ResourceId, ResRT) umap \<Rightarrow> FlowRT \<Rightarrow> (ResourceId, ResRT) umap" where
  "allocate_one R paths res f =
     (if fr_state f \<noteq> Running \<and> fr_state f \<noteq> Throttled then res
      else if fr_granted f \<le> f0 then res
      else case map_of paths (fs_path (fr_spec f)) of
        None \<Rightarrow> res
      | Some p \<Rightarrow> foldl (add_allocated R (fr_granted f)) res (path_hops p))"

definition recompute_allocated :: "(rat \<Rightarrow> rat) \<Rightarrow> gov \<Rightarrow> gov" where
  "recompute_allocated R g =
     g\<lparr>g_resources := foldl (allocate_one R (g_paths g))
        (map_vals (\<lambda>r. r\<lparr>rr_allocated := f0\<rparr>) (g_resources g)) (map snd (g_flows g))\<rparr>"

definition saturation_of :: "(rat \<Rightarrow> rat) \<Rightarrow> ResRT \<Rightarrow> bool" where
  "saturation_of R r \<longleftrightarrow>
     fmul R (rr_governed r) (fsub R f1 (kEps R)) \<le> fadd R (rr_allocated r) (rr_reserved r)"

definition recompute_saturation :: "(rat \<Rightarrow> rat) \<Rightarrow> gov \<Rightarrow> gov" where
  "recompute_saturation R g =
     g\<lparr>g_resources := map_vals (\<lambda>r. r\<lparr>rr_saturated := saturation_of R r\<rparr>) (g_resources g)\<rparr>"

definition refresh_diagnostics :: "(rat \<Rightarrow> rat) \<Rightarrow> gov \<Rightarrow> gov" where
  "refresh_diagnostics R g =
     recompute_saturation R (recompute_allocated R (recompute_reserved R (recompute_governed R g)))"

text \<open>The tail \<^verbatim>\<open>recompute_reserved(); recompute_allocated(); recompute_saturation();\<close> of many operations.\<close>

abbreviation recompute_usage :: "(rat \<Rightarrow> rat) \<Rightarrow> gov \<Rightarrow> gov" where
  "recompute_usage R g \<equiv> recompute_saturation R (recompute_allocated R (recompute_reserved R g))"

definition starve :: "(rat \<Rightarrow> rat) \<Rightarrow> f64 \<Rightarrow> FlowRT \<Rightarrow> FlowRT" where
  "starve R now_ms f =
     (if fr_state f = Running then f
      else let elapsed = fsub R now_ms (fr_last_ms f)
           in f\<lparr>fr_starvation_ms := (if f0 < elapsed then fadd R (fr_starvation_ms f) elapsed
                                     else fr_starvation_ms f),
                fr_last_ms := now_ms\<rparr>)"

definition advance_tenant_starvation :: "(rat \<Rightarrow> rat) \<Rightarrow> f64 \<Rightarrow> gov \<Rightarrow> gov" where
  "advance_tenant_starvation R now_ms g = g\<lparr>g_flows := map_vals (starve R now_ms) (g_flows g)\<rparr>"

section \<open>Reservations and workers\<close>

definition reservation_move :: "ReservationState \<Rightarrow> ReservationId \<Rightarrow> gov \<Rightarrow> gov" where
  "reservation_move to rid g =
     (case map_of (g_reservations g) rid of
        None \<Rightarrow> g
      | Some rsv \<Rightarrow>
          (case reservation_transition (rv_state rsv) to of
             None \<Rightarrow> g
           | Some s \<Rightarrow> g\<lparr>g_reservations := AList.update rid (rsv\<lparr>rv_state := s\<rparr>) (g_reservations g)\<rparr>))"

definition release_reservation_internal :: "ReservationId \<Rightarrow> gov \<Rightarrow> gov" where
  "release_reservation_internal rid g = reservation_move RReleased rid g"

definition cancel_reservation_internal :: "ReservationId \<Rightarrow> gov \<Rightarrow> gov" where
  "cancel_reservation_internal rid g = reservation_move RCancelled rid g"

text \<open>\<^verbatim>\<open>if (f.reservation) release_reservation_internal(*f.reservation);\<close>\<close>

definition release_of :: "FlowRT \<Rightarrow> gov \<Rightarrow> gov" where
  "release_of f g = (case fr_reservation f of None \<Rightarrow> g | Some rid \<Rightarrow> release_reservation_internal rid g)"

definition pick_worker_for_path :: "PathId \<Rightarrow> gov \<Rightarrow> (WorkerId \<times> WorkerRT) option" where
  "pick_worker_for_path pid g =
     (case map_of (g_paths g) pid of
        None \<Rightarrow> None
      | Some p \<Rightarrow> List.find (\<lambda>(wid, w). wk_alive w \<and>
          (\<exists>hop \<in> set (path_hops p). hop_resource hop \<in> set (wk_back_resources w))) (g_workers g))"

text \<open>
  The allocations of a new reservation, one per hop. \<^verbatim>\<open>Capacity::make\<close> is called once per hop, so a
  path without hops never throws.
\<close>

definition mk_allocations :: "PathHop list \<Rightarrow> f64 \<Rightarrow> ResourceAllocation list result" where
  "mk_allocations hops grant =
     (if hops = [] then Inr []
      else rbind (Capacity_make grant)
        (\<lambda>c. Inr (map (\<lambda>hop. \<lparr>al_resource = hop_resource hop, al_allocated = c\<rparr>) hops)))"

definition mk_reservation ::
    "gov \<Rightarrow> ReservationId \<Rightarrow> FlowSpec \<Rightarrow> WorkerBootId \<Rightarrow> ResourceAllocation list \<Rightarrow> Reservation" where
  "mk_reservation g rid spec boot als =
     \<lparr>rv_id = rid, rv_flow = fs_id spec, rv_attempt = fs_attempt spec,
      rv_flow_generation = fs_generation spec, rv_path = fs_path spec, rv_allocations = als,
      rv_epoch = g_epoch g, rv_worker_boot = boot,
      rv_capacity_generation = g_capacity_generation g, rv_state = RActive\<rparr>"

section \<open>Admission of a queued flow\<close>

text \<open>
  The scan of the hops of a path: the capacity still free on every hop against the minimum
  asked for, the least free capacity and where it is. It stops at a hop without resource.
\<close>

definition hop_avail :: "(rat \<Rightarrow> rat) \<Rightarrow> ResRT \<Rightarrow> f64" where
  "hop_avail R r =
     (let a = fsub R (fsub R (rr_governed r) (rr_reserved r)) (rr_allocated r)
      in if a < f0 then f0 else a)"

type_synonym hop_scan = "bool \<times> f64 \<times> ResourceId option"

fun scan_hops :: "(rat \<Rightarrow> rat) \<Rightarrow> (ResourceId, ResRT) umap \<Rightarrow> f64 \<Rightarrow> PathHop list \<Rightarrow> hop_scan \<Rightarrow> hop_scan" where
  "scan_hops R res mi [] st = st"
| "scan_hops R res mi (hop # hops) (feasible, least, bottleneck) =
     (case map_of res (hop_resource hop) of
        None \<Rightarrow> (False, least, bottleneck)
      | Some r \<Rightarrow>
          let avail = hop_avail R r;
              feasible' = (if fadd R avail (kEps R) < mi then False else feasible)
          in if avail < least then scan_hops R res mi hops (feasible', avail, Some (hop_resource hop))
             else scan_hops R res mi hops (feasible', least, bottleneck))"

text \<open>The grant of an admitted flow: the preferred rate, capped, but never below the minimum.\<close>

definition admission_grant :: "FlowSpec \<Rightarrow> f64 \<Rightarrow> f64" where
  "admission_grant spec least =
     (let mi = cap_value (fs_requested_min spec);
          grant = fmin3 (cap_value (fs_requested_preferred spec)) (cap_value (fs_requested_max spec)) least;
          grant = (if grant < mi then mi else grant)
      in fclamp grant mi (cap_value (fs_requested_max spec)))"

definition admit_queued :: "(rat \<Rightarrow> rat) \<Rightarrow> FlowId \<Rightarrow> FlowRT \<Rightarrow> gov \<Rightarrow> unit result \<times> gov" where
  "admit_queued R fid f g =
     (case map_of (g_paths g) (fs_path (fr_spec f)) of
        None \<Rightarrow> (Inr (), g)
      | Some p \<Rightarrow>
          let spec = fr_spec f; mi = cap_value (fs_requested_min spec);
              (feasible, least, _) = scan_hops R (g_resources g) mi (path_hops p) (True, kMaxRate, None)
          in if \<not> feasible \<or> least < fsub R mi (kEps R) then (Inr (), g)
             else let grant = admission_grant spec least;
                      (rid, gen) = IdGen_next (g_gen g);
                      g = g\<lparr>g_gen := gen\<rparr>
                  in case mk_allocations (path_hops p) grant of
                       Inl e \<Rightarrow> (Inl e, g)
                     | Inr als \<Rightarrow>
                         let g = g\<lparr>g_reservations :=
                                     AList.update rid (mk_reservation g rid spec null_id als) (g_reservations g)\<rparr>;
                             f = f\<lparr>fr_reservation := Some rid, fr_granted := grant, fr_admitted_ms := now g\<rparr>;
                             g = now_next g
                         in case set_flow_state Reserved f of
                              Inl e \<Rightarrow> (Inl e, g\<lparr>g_flows := AList.update fid f (g_flows g)\<rparr>)
                            | Inr f \<Rightarrow> (Inr (), g\<lparr>g_flows := AList.update fid f (g_flows g)\<rparr>))"

end
