(* ===== verification/Governor_Ops.thy ===== *)
theory Governor_Ops
  imports Governor_State
begin

text \<open>
  The public operations of \<^verbatim>\<open>Governor\<close> on resources, paths, flows and reservations
  (\<^verbatim>\<open>src/governor.cpp\<close>), queries and explanations included. The scheduler and the
  distributed authority are in theories of their own.
\<close>

section \<open>Resources\<close>

definition add_resource :: "(rat \<Rightarrow> rat) \<Rightarrow> ResourceSpec \<Rightarrow> gov \<Rightarrow> ResourceId \<times> gov" where
  "add_resource R spec g =
     (let r = umap_entry ResRT_default (rs_id spec) (g_resources g);
          (spec', g) = (if is_null (rs_generation spec)
                        then let (n, gen) = IdGen_next64 (g_gen g)
                             in (spec\<lparr>rs_generation := fresh_generation n\<rparr>, g\<lparr>g_gen := gen\<rparr>)
                        else (spec, g));
          r = r\<lparr>rr_spec := spec', rr_measured := f0, rr_last_ms := now g, rr_confidence := f0\<rparr>;
          g = (now_next g)\<lparr>g_resources := AList.update (rs_id spec) r (g_resources g)\<rparr>
      in (rs_id spec, recompute_governed R g))"

definition update_capacity ::
    "(rat \<Rightarrow> rat) \<Rightarrow> ResourceId \<Rightarrow> f64 \<Rightarrow> f64 \<Rightarrow> string \<Rightarrow> f64 \<Rightarrow> u64 \<Rightarrow> bool \<Rightarrow> gov \<Rightarrow> unit result \<times> gov" where
  "update_capacity R res measured confidence provenance latency queue_depth bump g =
     (case map_of (g_resources g) res of
        None \<Rightarrow> (Inr (), g)
      | Some r \<Rightarrow>
          if \<not> is_valid_rate measured \<or> \<not> (f0 \<le> confidence \<and> confidence \<le> f1)
          then (Inl (value_error ''invalid capacity update: bad measured rate or confidence''), g)
          else
            let nominal = cap_value (rs_nominal (rr_spec r));
                r = r\<lparr>rr_measured := measured, rr_confidence := confidence, rr_provenance := provenance,
                      rr_latency_ms := latency, rr_qdepth := queue_depth,
                      rr_moving_avg := fadd R (fmul R (rr_moving_avg r) (flit R (7 / 10)))
                        (fmul R (fdiv R measured (if f0 < nominal then nominal else f1)) (flit R (3 / 10))),
                      rr_last_ms := now g\<rparr>;
                g = now_next g;
                (r, g) = (if bump
                          then (r\<lparr>rr_spec := (rr_spec r)\<lparr>rs_generation := next_generation (rs_generation (rr_spec r))\<rparr>\<rparr>,
                                g\<lparr>g_capacity_generation := next_generation (g_capacity_generation g)\<rparr>)
                          else (r, g));
                g = g\<lparr>g_resources := AList.update res r (g_resources g)\<rparr>
            in (Inr (), recompute_saturation R (recompute_governed R g)))"

definition set_resource_enabled :: "(rat \<Rightarrow> rat) \<Rightarrow> ResourceId \<Rightarrow> bool \<Rightarrow> gov \<Rightarrow> gov" where
  "set_resource_enabled R res enabled g =
     (case map_of (g_resources g) res of
        None \<Rightarrow> g
      | Some r \<Rightarrow>
          recompute_saturation R (recompute_governed R
            (g\<lparr>g_resources := AList.update res (r\<lparr>rr_enabled := enabled\<rparr>) (g_resources g)\<rparr>)))"

definition invalidate_resource_capacity :: "(rat \<Rightarrow> rat) \<Rightarrow> ResourceId \<Rightarrow> gov \<Rightarrow> gov" where
  "invalidate_resource_capacity R res g =
     (case map_of (g_resources g) res of
        None \<Rightarrow> g
      | Some r \<Rightarrow>
          recompute_saturation R (recompute_governed R
            (g\<lparr>g_resources := AList.update res
                 (r\<lparr>rr_spec := (rr_spec r)\<lparr>rs_generation := next_generation (rs_generation (rr_spec r))\<rparr>\<rparr>)
                 (g_resources g),
               g_capacity_generation := next_generation (g_capacity_generation g)\<rparr>)))"

text \<open>
  The snapshot of a resource, written out three times in the source (\<^verbatim>\<open>list_resources\<close>, \<^verbatim>\<open>resource\<close>
  and \<^verbatim>\<open>to_resource_snap\<close>); they differ in where the time comes from.
\<close>

definition resource_snap :: "(rat \<Rightarrow> rat) \<Rightarrow> ResRT \<Rightarrow> f64 \<Rightarrow> f64 \<Rightarrow> ResourceSnapshot result" where
  "resource_snap R r staleness threshold =
     rbind (Capacity_make (fmax f0 (rr_measured r))) (\<lambda>measured.
     rbind (Capacity_make (fmax f0 (rr_governed r))) (\<lambda>governed.
     rbind (Capacity_make (fmax f0 (rr_reserved r))) (\<lambda>reserved.
     rbind (Capacity_make (fmax f0 (rr_allocated r))) (\<lambda>allocated.
     let nominal = cap_value (rs_nominal (rr_spec r))
     in Inr \<lparr>rn_id = rs_id (rr_spec r), rn_class = rs_class (rr_spec r), rn_source = rs_source (rr_spec r),
          rn_destination = rs_destination (rr_spec r), rn_direction = rs_direction (rr_spec r),
          rn_nominal = rs_nominal (rr_spec r), rn_measured = measured, rn_governed = governed,
          rn_reserved = reserved, rn_allocated = allocated,
          rn_instantaneous_util = (if f0 < nominal then fdiv R (rr_allocated r) nominal else f0),
          rn_moving_average_util = fclamp (rr_moving_avg r) f0 f1, rn_queue_depth = rr_qdepth r,
          rn_saturated = rr_saturated r, rn_measured_latency_ms = rr_latency_ms r,
          rn_confidence = rr_confidence r, rn_provenance = rr_provenance r, rn_staleness_ms = staleness,
          rn_staleness_threshold_ms = threshold, rn_capacity_generation = rs_generation (rr_spec r),
          rn_health = rr_health r, rn_enabled = rr_enabled r\<rparr>))))"

definition policy_window :: "gov \<Rightarrow> f64" where
  "policy_window g = fairness_window_ms (cfg_policy (g_config g))"

fun list_resources_loop :: "(rat \<Rightarrow> rat) \<Rightarrow> ResRT list \<Rightarrow> gov \<Rightarrow> ResourceSnapshot list result \<times> gov" where
  "list_resources_loop R [] g = (Inr [], g)"
| "list_resources_loop R (r # rs) g =
     (let (st, g') = staleness_of R g r
      in case resource_snap R r st (policy_window g) of
           Inl e \<Rightarrow> (Inl e, g')
         | Inr s \<Rightarrow> (case list_resources_loop R rs g' of
                       (Inl e, g'') \<Rightarrow> (Inl e, g'')
                     | (Inr ss, g'') \<Rightarrow> (Inr (s # ss), g'')))"

definition list_resources :: "(rat \<Rightarrow> rat) \<Rightarrow> gov \<Rightarrow> ResourceSnapshot list result \<times> gov" where
  "list_resources R g =
     (case list_resources_loop R (map snd (g_resources g)) g of
        (Inl e, g') \<Rightarrow> (Inl e, g')
      | (Inr ss, g') \<Rightarrow> (Inr (sort_key rn_id ss), g'))"

definition resource_query :: "(rat \<Rightarrow> rat) \<Rightarrow> ResourceId \<Rightarrow> gov \<Rightarrow> ResourceSnapshot option result \<times> gov" where
  "resource_query R res g =
     (case map_of (g_resources g) res of
        None \<Rightarrow> (Inr None, g)
      | Some r \<Rightarrow>
          let (st, g') = staleness_of R g r
          in case resource_snap R r st (policy_window g) of
               Inl e \<Rightarrow> (Inl e, g')
             | Inr s \<Rightarrow> (Inr (Some s), g'))"

section \<open>Paths\<close>

definition add_path :: "Path \<Rightarrow> gov \<Rightarrow> PathId result \<times> gov" where
  "add_path p g =
     (case validate_path p of
        Some err \<Rightarrow> (Inl (value_error (''invalid path: '' @ err)), g)
      | None \<Rightarrow> (Inr (path_id p), g\<lparr>g_paths := AList.update (path_id p) p (g_paths g)\<rparr>))"

definition list_paths :: "gov \<Rightarrow> Path list" where
  "list_paths g = sort_key path_id (map snd (g_paths g))"

definition invalidate_path :: "PathId \<Rightarrow> gov \<Rightarrow> gov" where
  "invalidate_path pid g =
     (case map_of (g_paths g) pid of
        None \<Rightarrow> g
      | Some p \<Rightarrow> g\<lparr>g_paths := AList.update pid
          (p\<lparr>path_generation := next_generation (path_generation p)\<rparr>) (g_paths g)\<rparr>)"

text \<open>The flows that compete on a resource: scheduled flows whose path has a hop on it.\<close>

definition competes :: "gov \<Rightarrow> ResourceId \<Rightarrow> FlowRT \<Rightarrow> bool" where
  "competes g res f \<longleftrightarrow> scheduled (fr_state f) \<and>
     (case map_of (g_paths g) (fs_path (fr_spec f)) of
        None \<Rightarrow> False
      | Some p \<Rightarrow> \<exists>hop \<in> set (path_hops p). hop_resource hop = res)"

type_synonym path_scan = "f64 \<times> ResourceId option \<times> FlowId list \<times> Capacity"

text \<open>A loop whose body may throw.\<close>

fun rfoldl :: "('a \<Rightarrow> 'b \<Rightarrow> 'a result) \<Rightarrow> 'a \<Rightarrow> 'b list \<Rightarrow> 'a result" where
  "rfoldl h a [] = Inr a"
| "rfoldl h a (x # xs) = rbind (h a x) (\<lambda>b. rfoldl h b xs)"

definition analyze_hop :: "(rat \<Rightarrow> rat) \<Rightarrow> gov \<Rightarrow> path_scan \<Rightarrow> PathHop \<Rightarrow> path_scan result" where
  "analyze_hop R g = (\<lambda>(least, bottleneck, comp, total) hop.
     case map_of (g_resources g) (hop_resource hop) of
       None \<Rightarrow> Inr (least, bottleneck, comp, total)
     | Some r \<Rightarrow>
         let total = Capacity_plus_eq R total (Capacity f0);
             (least, bottleneck) = (if rr_governed r < least then (rr_governed r, Some (hop_resource hop))
                                    else (least, bottleneck));
             here = filter (\<lambda>(fid, f). competes g (hop_resource hop) f) (g_flows g)
         in rbind (rfoldl (\<lambda>tot (fid, f).
                     rbind (Capacity_make (cap_value (fs_requested_preferred (fr_spec f))))
                       (\<lambda>c. Inr (Capacity_plus_eq R tot c))) total here)
              (\<lambda>total. Inr (least, bottleneck, comp @ map fst here, total)))"

definition analyze_path :: "(rat \<Rightarrow> rat) \<Rightarrow> PathId \<Rightarrow> gov \<Rightarrow> PathAnalysis option result" where
  "analyze_path R pid g =
     (case map_of (g_paths g) pid of
        None \<Rightarrow> Inr None
      | Some p \<Rightarrow>
          rbind (rfoldl (analyze_hop R g) (kMaxRate, None, [], Capacity_zero) (path_hops p))
            (\<lambda>(least, bottleneck, comp, total).
          rbind (Capacity_make (fmax f0 least)) (\<lambda>feasible.
               Inr (Some \<lparr>pa_path = path_id p, pa_bottleneck = bottleneck, pa_total_requested = total,
                 pa_feasible = feasible, pa_limiting_resource = bottleneck,
                 pa_competing_flows = remdups_adj (sort comp),
                 pa_saturated = (fadd R (cap_value feasible) (kEps R) < cap_value total),
                 pa_capacity_generation = g_capacity_generation g\<rparr>))))"

section \<open>Flows\<close>

record AdmissionResult =
  ad_admitted :: bool
  ad_flow :: FlowId
  ad_decision :: Decision
  ad_reservation :: "Reservation option"

definition rejected :: "FlowSpec \<Rightarrow> string \<Rightarrow> AdmissionResult" where
  "rejected spec reason =
     \<lparr>ad_admitted = False, ad_flow = fs_id spec,
      ad_decision = (make_decision spec Reject f0 False reason None)\<lparr>d_reject_reason := reason\<rparr>,
      ad_reservation = None\<rparr>"

text \<open>\<^verbatim>\<open>tenants[spec.tenant].submitted++; workloads[spec.workload].submitted++;\<close>\<close>

definition count_submitted :: "FlowSpec \<Rightarrow> gov \<Rightarrow> gov" where
  "count_submitted spec g =
     (let t = umap_entry TenantAcc_default (fs_tenant spec) (g_tenants g);
          w = umap_entry WorkloadAcc_default (fs_workload spec) (g_workloads g)
      in g\<lparr>g_tenants := AList.update (fs_tenant spec) (t\<lparr>ta_submitted := ta_submitted t + 1\<rparr>) (g_tenants g),
           g_workloads := AList.update (fs_workload spec) (w\<lparr>wa_submitted := wa_submitted w + 1\<rparr>) (g_workloads g)\<rparr>)"

text \<open>The infeasible branch: the flow is parked in the queue, whether it is deferred or rejected.\<close>

definition park_flow :: "FlowSpec \<Rightarrow> ResourceId option \<Rightarrow> gov \<Rightarrow> AdmissionResult \<times> gov" where
  "park_flow spec bottleneck g =
     (let p = cfg_policy (g_config g);
          reject = reject_if_no_slack p;
          f = (FlowRT_of spec)\<lparr>fr_admitted_ms := now g, fr_last_ms := now (now_next g), fr_state := Queued,
                fr_burst_remaining := fs_burst_bytes spec\<rparr>;
          g = now_next (now_next g);
          g = g\<lparr>g_flows := AList.update (fs_id spec) f (g_flows g)\<rparr>;
          d = make_decision spec (if reject then Reject else Defer) f0 (defer_if_min_infeasible p)
                (if reject then ''minimum guarantee impossible and reject_if_no_slack''
                 else ''minimum guarantee infeasible on path'') bottleneck;
          d = d\<lparr>d_reservation_pressure := f0\<rparr>;
          d = (if reject then d\<lparr>d_reject_reason := ''minimum guarantee infeasible on path''\<rparr>
               else d\<lparr>d_defer_reason := ''minimum guarantee infeasible on path''\<rparr>)
      in (\<lparr>ad_admitted = False, ad_flow = fs_id spec, ad_decision = d, ad_reservation = None\<rparr>, g))"

text \<open>The feasible branch: a reservation with the grant on every hop, and the flow in state Reserved.\<close>

definition reserve_flow ::
    "(rat \<Rightarrow> rat) \<Rightarrow> FlowSpec \<Rightarrow> PathHop list \<Rightarrow> f64 \<Rightarrow> ResourceId option \<Rightarrow> gov \<Rightarrow> AdmissionResult result \<times> gov" where
  "reserve_flow R spec hops least bottleneck g =
     (let grant = admission_grant spec least;
          f = (FlowRT_of spec)\<lparr>fr_admitted_ms := now g, fr_last_ms := now (now_next g), fr_state := Reserved,
                fr_granted := grant, fr_burst_remaining := fs_burst_bytes spec,
                fr_last_grant_update_ms := now (now_next (now_next g))\<rparr>;
          g = now_next (now_next (now_next g));
          (rid, gen) = IdGen_next (g_gen g);
          g = g\<lparr>g_gen := gen\<rparr>
      in case mk_allocations hops grant of
           Inl e \<Rightarrow> (Inl e, g)
         | Inr als \<Rightarrow>
             let rsv = mk_reservation g rid spec null_id als;
                 g = g\<lparr>g_reservations := AList.update rid rsv (g_reservations g)\<rparr>;
                 g = g\<lparr>g_flows := AList.update (fs_id spec) (f\<lparr>fr_reservation := Some rid\<rparr>) (g_flows g)\<rparr>
             in case Capacity_make grant of
                  Inl e \<Rightarrow> (Inl e, g)
                | Inr c \<Rightarrow>
                    (Inr \<lparr>ad_admitted = True, ad_flow = fs_id spec,
                       ad_decision = (make_decision spec Admit grant
                           (least < cap_value (fs_requested_preferred spec)) ''admitted with grant'' bottleneck)
                         \<lparr>d_granted := c, d_competing_flows := [fs_id spec]\<rparr>,
                       ad_reservation = Some rsv\<rparr>, recompute_usage R g))"

definition submit_flow :: "(rat \<Rightarrow> rat) \<Rightarrow> FlowSpec \<Rightarrow> gov \<Rightarrow> AdmissionResult result \<times> gov" where
  "submit_flow R spec g =
     (case validate_flow_spec spec of
        Some err \<Rightarrow> (Inr (rejected spec err), g)
      | None \<Rightarrow>
          if map_of (g_flows g) (fs_id spec) \<noteq> None then (Inr (rejected spec ''duplicate flow id''), g)
          else case map_of (g_paths g) (fs_path spec) of
            None \<Rightarrow> (Inr (rejected spec ''unknown path''), g)
          | Some p \<Rightarrow>
              let g = recompute_allocated R (recompute_reserved R (recompute_governed R g));
                  (feasible, least, bottleneck) =
                    scan_hops R (g_resources g) (cap_value (fs_requested_min spec)) (path_hops p) (True, kMaxRate, None);
                  g = count_submitted spec g
              in if \<not> feasible
                 then (case park_flow spec bottleneck g of (res, g) \<Rightarrow> (Inr res, g))
                 else reserve_flow R spec (path_hops p) least bottleneck g)"

definition cancel_flow :: "(rat \<Rightarrow> rat) \<Rightarrow> FlowId \<Rightarrow> string \<Rightarrow> gov \<Rightarrow> bool result \<times> gov" where
  "cancel_flow R fid reason g =
     (case map_of (g_flows g) fid of
        None \<Rightarrow> (Inr False, g)
      | Some f \<Rightarrow>
          if fr_state f = Completed \<or> fr_state f = Cancelled \<or> fr_state f = Failed then (Inr False, g)
          else case set_flow_state Cancelled f of
            Inl e \<Rightarrow> (Inl e, g)
          | Inr f \<Rightarrow>
              let f = f\<lparr>fr_last_error := reason\<rparr>;
                  g = g\<lparr>g_flows := AList.update fid f (g_flows g)\<rparr>
              in (Inr True, recompute_usage R (release_of f g)))"

definition resume_flow :: "FlowId \<Rightarrow> gov \<Rightarrow> bool result \<times> gov" where
  "resume_flow fid g =
     (case map_of (g_flows g) fid of
        None \<Rightarrow> (Inr False, g)
      | Some f \<Rightarrow>
          if fr_state f \<noteq> Preempted \<and> fr_state f \<noteq> Throttled then (Inr False, g)
          else
            let (r, f, g) =
              (case (fr_reservation f, map_of (g_paths g) (fs_path (fr_spec f))) of
                 (None, Some p) \<Rightarrow>
                   let (rid, gen) = IdGen_next (g_gen g);
                       g = g\<lparr>g_gen := gen\<rparr>
                   in (case mk_allocations (path_hops p)
                             (fmax (fr_granted f) (cap_value (fs_requested_min (fr_spec f)))) of
                         Inl e \<Rightarrow> (Inl e, f, g)
                       | Inr als \<Rightarrow>
                           (Inr (), f\<lparr>fr_reservation := Some rid\<rparr>,
                            g\<lparr>g_reservations := AList.update rid
                               (mk_reservation g rid (fr_spec f) null_id als) (g_reservations g)\<rparr>))
               | _ \<Rightarrow> (Inr (), f, g))
            in case r of
                 Inl e \<Rightarrow> (Inl e, g)
               | Inr _ \<Rightarrow>
                   (case set_flow_state Reserved f of
                      Inl e \<Rightarrow> (Inl e, g\<lparr>g_flows := AList.update fid f (g_flows g)\<rparr>)
                    | Inr f \<Rightarrow> (Inr True, g\<lparr>g_flows := AList.update fid f (g_flows g)\<rparr>)))"

section \<open>Flow queries and explanations\<close>

record FlowSnapshot =
  fn_spec :: FlowSpec
  fn_state :: FlowState
  fn_granted :: Capacity
  fn_admitted_ms :: f64
  fn_last_update_ms :: f64
  fn_bytes_transferred :: u64
  fn_burst_remaining :: u64
  fn_retry_count :: u64
  fn_starvation_ms :: f64
  fn_reservation :: "ReservationId option"
  fn_assigned_worker :: "WorkerId option"
  fn_assigned_boot :: WorkerBootId
  fn_last_error :: string

definition to_flow_snap :: "FlowRT \<Rightarrow> FlowSnapshot result" where
  "to_flow_snap f =
     rbind (Capacity_make (fmax f0 (fr_granted f))) (\<lambda>c.
       Inr \<lparr>fn_spec = fr_spec f, fn_state = fr_state f, fn_granted = c, fn_admitted_ms = fr_admitted_ms f,
            fn_last_update_ms = fr_last_ms f, fn_bytes_transferred = fr_bytes_done f,
            fn_burst_remaining = fr_burst_remaining f, fn_retry_count = fr_retries f,
            fn_starvation_ms = fr_starvation_ms f, fn_reservation = fr_reservation f,
            fn_assigned_worker = fr_assigned_worker f, fn_assigned_boot = fr_assigned_boot f,
            fn_last_error = fr_last_error f\<rparr>)"

fun rmap :: "('a \<Rightarrow> 'b result) \<Rightarrow> 'a list \<Rightarrow> 'b list result" where
  "rmap h [] = Inr []"
| "rmap h (x # xs) = rbind (h x) (\<lambda>y. rbind (rmap h xs) (\<lambda>ys. Inr (y # ys)))"

definition list_flows :: "gov \<Rightarrow> FlowSnapshot list result" where
  "list_flows g = rbind (rmap (to_flow_snap \<circ> snd) (g_flows g)) (\<lambda>ss. Inr (sort_key (fs_id \<circ> fn_spec) ss))"

definition flow_query :: "FlowId \<Rightarrow> gov \<Rightarrow> FlowSnapshot option result" where
  "flow_query fid g =
     (case map_of (g_flows g) fid of
        None \<Rightarrow> Inr None
      | Some f \<Rightarrow> rbind (to_flow_snap f) (\<lambda>s. Inr (Some s)))"

definition explain_kind :: "FlowState \<Rightarrow> Decision \<Rightarrow> Decision" where
  "explain_kind s d =
     (case s of
        Running \<Rightarrow> d\<lparr>d_kind := Grant\<rparr>
      | Throttled \<Rightarrow> d\<lparr>d_kind := Throttle, d_throttle_reason := ''grant below minimum guarantee''\<rparr>
      | Preempted \<Rightarrow> d\<lparr>d_kind := Preempt, d_preemption_reason := ''preempted to honor higher priority or guarantee''\<rparr>
      | Queued \<Rightarrow> d\<lparr>d_kind := Defer, d_defer_reason := ''waiting for capacity''\<rparr>
      | _ \<Rightarrow> d\<lparr>d_kind := Defer\<rparr>)"

definition explain_bottleneck :: "gov \<Rightarrow> PathHop list \<Rightarrow> f64 \<times> ResourceId option" where
  "explain_bottleneck g hops =
     foldl (\<lambda>(bt, b) hop. case map_of (g_resources g) (hop_resource hop) of
              None \<Rightarrow> (bt, b)
            | Some r \<Rightarrow> if rr_governed r < bt then (rr_governed r, Some (hop_resource hop)) else (bt, b))
       (kMaxRate, None) hops"

definition explain_path :: "gov \<Rightarrow> PathHop list \<Rightarrow> Decision \<Rightarrow> Decision" where
  "explain_path g hops d =
     (let (bt, b) = explain_bottleneck g hops;
          d = d\<lparr>d_bottleneck := b, d_capacity_generation := g_capacity_generation g\<rparr>
      in case b of
           None \<Rightarrow> d\<lparr>d_resource_generation := g_capacity_generation g\<rparr>
         | Some res \<Rightarrow> (case map_of (g_resources g) res of
                          None \<Rightarrow> d
                        | Some r \<Rightarrow> d\<lparr>d_resource_generation := rs_generation (rr_spec r)\<rparr>))"

definition explain_flow :: "(rat \<Rightarrow> rat) \<Rightarrow> FlowId \<Rightarrow> gov \<Rightarrow> Decision result \<times> gov" where
  "explain_flow R fid g =
     (case map_of (g_flows g) fid of
        None \<Rightarrow> (Inr (Decision_default\<lparr>d_flow := fid, d_kind := Defer, d_kind_reason := ''unknown flow''\<rparr>), g)
      | Some f \<Rightarrow>
          (case Capacity_make (fmax f0 (fr_granted f)) of
             Inl e \<Rightarrow> (Inl e, g)
           | Inr granted \<Rightarrow>
               let spec = fr_spec f;
                   age = fdiv R (fr_starvation_ms f) (Fin 1000);
                   d = Decision_default
                     \<lparr>d_flow := fid, d_kind := Defer, d_tenant := fs_tenant spec, d_workload := fs_workload spec,
                      d_requested := fs_requested_preferred spec, d_granted := granted,
                      d_minimum_guarantee := fs_requested_min spec, d_preferred := fs_requested_preferred spec,
                      d_maximum := fs_requested_max spec, d_path := fs_path spec, d_priority := fs_priority spec,
                      d_latency_class := fs_latency_class spec, d_starvation_age := age,
                      d_burst_remaining := fr_burst_remaining f\<rparr>;
                   d = explain_kind (fr_state f) d;
                   d = d\<lparr>d_saturated := (fadd R (fr_granted f) (kEps R) < cap_value (fs_requested_preferred spec))\<rparr>;
                   d = (case map_of (g_paths g) (fs_path spec) of
                          None \<Rightarrow> d | Some p \<Rightarrow> explain_path g (path_hops p) d);
                   w = flow_weight R g f (now g)
               in (Inr (d\<lparr>d_factors :=
                     [\<lparr>df_name = ''composite_weight'', df_value = w, df_weight = f1,
                       df_rationale = ''arbitration weight from priority, latency, deadline, starvation, fairness''\<rparr>,
                      \<lparr>df_name = ''granted'', df_value = fr_granted f, df_weight = f1,
                       df_rationale = ''current governed byte rate''\<rparr>,
                      \<lparr>df_name = ''starvation_age'', df_value = age, df_weight = f1,
                       df_rationale = ''seconds waiting for service''\<rparr>]\<rparr>), now_next g)))"

text \<open>\<^verbatim>\<open>explain_admission\<close>: its scan skips a hop without resource, where \<^verbatim>\<open>submit_flow\<close> gives up.\<close>

fun explain_hops :: "(rat \<Rightarrow> rat) \<Rightarrow> (ResourceId, ResRT) umap \<Rightarrow> f64 \<Rightarrow> PathHop list \<Rightarrow> hop_scan \<Rightarrow> hop_scan" where
  "explain_hops R res mi [] st = st"
| "explain_hops R res mi (hop # hops) (feasible, least, bottleneck) =
     (case map_of res (hop_resource hop) of
        None \<Rightarrow> explain_hops R res mi hops (feasible, least, bottleneck)
      | Some r \<Rightarrow>
          let avail = fmax f0 (fsub R (fsub R (rr_governed r) (rr_reserved r)) (rr_allocated r));
              feasible' = (if fadd R avail (kEps R) < mi then False else feasible)
          in if avail < least then explain_hops R res mi hops (feasible', avail, Some (hop_resource hop))
             else explain_hops R res mi hops (feasible', least, bottleneck))"

definition explain_admission :: "(rat \<Rightarrow> rat) \<Rightarrow> FlowSpec \<Rightarrow> gov \<Rightarrow> Decision result" where
  "explain_admission R spec g =
     (case validate_flow_spec spec of
        Some err \<Rightarrow> Inr ((make_decision spec Reject f0 False err None)\<lparr>d_reject_reason := err\<rparr>)
      | None \<Rightarrow>
          (case map_of (g_paths g) (fs_path spec) of
             None \<Rightarrow> Inr ((make_decision spec Reject f0 False ''unknown path'' None)\<lparr>d_reject_reason := ''unknown path''\<rparr>)
           | Some p \<Rightarrow>
               let mi = cap_value (fs_requested_min spec); ma = cap_value (fs_requested_max spec);
                   (feasible, least, bottleneck) =
                     explain_hops R (g_resources g) mi (path_hops p) (True, kMaxRate, None)
               in if \<not> feasible
                  then Inr ((make_decision spec Defer f0 True ''minimum guarantee infeasible'' bottleneck)
                         \<lparr>d_defer_reason := ''minimum guarantee infeasible''\<rparr>)
                  else let grant = fclamp (fmin3 (cap_value (fs_requested_preferred spec)) ma least) mi ma
                       in rbind (Capacity_make grant) (\<lambda>c.
                            Inr ((make_decision spec Admit grant
                                    (least < cap_value (fs_requested_preferred spec)) ''admitted'' bottleneck)
                                  \<lparr>d_granted := c\<rparr>))))"

section \<open>Reservations\<close>

definition list_reservations :: "gov \<Rightarrow> Reservation list" where
  "list_reservations g = sort_key rv_id (map snd (g_reservations g))"

definition reservation_query :: "ReservationId \<Rightarrow> gov \<Rightarrow> Reservation option" where
  "reservation_query rid g = map_of (g_reservations g) rid"

definition release_reservation :: "(rat \<Rightarrow> rat) \<Rightarrow> ReservationId \<Rightarrow> gov \<Rightarrow> bool \<times> gov" where
  "release_reservation R rid g =
     (case map_of (g_reservations g) rid of
        None \<Rightarrow> (False, g)
      | Some rsv \<Rightarrow>
          if rv_state rsv = RReleased \<or> rv_state rsv = RCancelled \<or> rv_state rsv = RExpired \<or> rv_state rsv = RFailed
          then (False, g)
          else (True, recompute_saturation R (recompute_reserved R (release_reservation_internal rid g))))"

section \<open>Accounting diagnostics\<close>

definition tenant_allocations :: "(rat \<Rightarrow> rat) \<Rightarrow> gov \<Rightarrow> (TenantId, f64) umap" where
  "tenant_allocations R g =
     foldl (\<lambda>out f. if fr_state f \<noteq> Running \<and> fr_state f \<noteq> Throttled then out
                    else AList.update (fs_tenant (fr_spec f))
                      (fadd R (umap_entry f0 (fs_tenant (fr_spec f)) out) (fr_granted f)) out)
       (map_vals ta_allocated_now (g_tenants g)) (map snd (g_flows g))"

definition workload_allocations :: "(rat \<Rightarrow> rat) \<Rightarrow> gov \<Rightarrow> (WorkloadId, f64) umap" where
  "workload_allocations R g =
     foldl (\<lambda>out f. if fr_state f \<noteq> Running \<and> fr_state f \<noteq> Throttled then out
                    else AList.update (fs_workload (fr_spec f))
                      (fadd R (umap_entry f0 (fs_workload (fr_spec f)) out) (fr_granted f)) out)
       (map_vals wa_allocated_now (g_workloads g)) (map snd (g_flows g))"

definition accounting_at_zero :: "(rat \<Rightarrow> rat) \<Rightarrow> gov \<Rightarrow> bool" where
  "accounting_at_zero R g \<longleftrightarrow>
     (\<forall>(rid, r) \<in> set (g_resources g). \<not> (kEps R < rr_allocated r \<or> kEps R < rr_reserved r)) \<and>
     (\<forall>(fid, f) \<in> set (g_flows g). \<not> scheduled (fr_state f)) \<and>
     (\<forall>(rid, r) \<in> set (g_reservations g). rv_state r \<noteq> RActive \<and> rv_state r \<noteq> RPending)"

end
