(* ===== verification/Governor_Tick.thy ===== *)
theory Governor_Tick
  imports Governor_Ops
begin

text \<open>
  The scheduler \<^verbatim>\<open>Governor::tick\<close> of \<^verbatim>\<open>src/governor.cpp\<close>: admission of the queue, the contention
  of every resource, the water-fill of each, and the new grant and state of every scheduled flow.

  The result is an option because the water-fill loop is one; \<^const>\<open>None\<close> would be a tick that
  never returns.
\<close>

section \<open>Model\<close>

text \<open>Admit the queued flows that have become feasible, in the order the queue was collected.\<close>

fun admit_loop :: "(rat \<Rightarrow> rat) \<Rightarrow> FlowId list \<Rightarrow> gov \<Rightarrow> unit result \<times> gov" where
  "admit_loop R [] g = (Inr (), g)"
| "admit_loop R (fid # fids) g =
     (case map_of (g_flows g) fid of
        None \<Rightarrow> admit_loop R fids g
      | Some f \<Rightarrow>
          if fr_state f \<noteq> Queued then admit_loop R fids g
          else case admit_queued R fid f g of
                 (Inl e, g) \<Rightarrow> (Inl e, g)
               | (Inr _, g) \<Rightarrow> admit_loop R fids g)"

definition queued_ids :: "gov \<Rightarrow> FlowId list" where
  "queued_ids g = map fst (filter (\<lambda>(fid, f). fr_state f = Queued) (g_flows g))"

text \<open>
  \<^verbatim>\<open>contention\<close>: for every resource the entries of the flows that compete for it. The vector of
  flow pointers of \<^verbatim>\<open>ResContention\<close> runs parallel to the entries and is read for the flow
  identity only, which the entry carries as well.
\<close>

type_synonym contention = "(ResourceId, AllocEntry list) umap"

definition alloc_entry :: "(rat \<Rightarrow> rat) \<Rightarrow> gov \<Rightarrow> f64 \<Rightarrow> FlowRT \<Rightarrow> AllocEntry" where
  "alloc_entry R g t f =
     \<lparr>ae_flow = fs_id (fr_spec f), ae_weight = flow_weight R g f t,
      ae_min = cap_value (fs_requested_min (fr_spec f)),
      ae_want = cap_value (fs_requested_preferred (fr_spec f)),
      ae_max = cap_value (fs_requested_max (fr_spec f))\<rparr>"

definition touch_hop :: "contention \<Rightarrow> PathHop \<Rightarrow> contention" where
  "touch_hop c hop = AList.update (hop_resource hop) (umap_entry [] (hop_resource hop) c) c"

definition contend_hop :: "AllocEntry \<Rightarrow> contention \<Rightarrow> PathHop \<Rightarrow> contention" where
  "contend_hop e c hop =
     (let es = umap_entry [] (hop_resource hop) c
      in if ae_flow e \<in> set (map ae_flow es) then c
         else AList.update (hop_resource hop) (es @ [e]) c)"

definition contend :: "(rat \<Rightarrow> rat) \<Rightarrow> gov \<Rightarrow> f64 \<Rightarrow> contention \<Rightarrow> FlowRT \<Rightarrow> contention" where
  "contend R g t c f =
     (if \<not> scheduled (fr_state f) then c
      else case map_of (g_paths g) (fs_path (fr_spec f)) of
             None \<Rightarrow> c
           | Some p \<Rightarrow> foldl (contend_hop (alloc_entry R g t f)) (foldl touch_hop c (path_hops p)) (path_hops p))"

definition contention_of :: "(rat \<Rightarrow> rat) \<Rightarrow> gov \<Rightarrow> f64 \<Rightarrow> contention" where
  "contention_of R g t = foldl (contend R g t) [] (map snd (g_flows g))"

text \<open>The least grant of every flow over the resources of its path.\<close>

type_synonym grants = "(FlowId, f64) umap"

definition take_grant :: "grants \<Rightarrow> AllocEntry \<times> f64 \<Rightarrow> grants" where
  "take_grant gm = (\<lambda>(e, gv).
     case map_of gm (ae_flow e) of
       None \<Rightarrow> AList.update (ae_flow e) gv gm
     | Some old \<Rightarrow> if gv < old then AList.update (ae_flow e) gv gm else gm)"

definition resource_cap :: "(rat \<Rightarrow> rat) \<Rightarrow> ResRT \<Rightarrow> f64" where
  "resource_cap R r = fmax f0 (fsub R (rr_governed r) (rr_reserved r))"

fun grant_loop :: "(rat \<Rightarrow> rat) \<Rightarrow> (ResourceId, ResRT) umap \<Rightarrow> contention \<Rightarrow> grants \<Rightarrow> grants option" where
  "grant_loop R res [] gm = Some gm"
| "grant_loop R res ((rid, es) # c) gm =
     (case map_of res rid of
        None \<Rightarrow> grant_loop R res c gm
      | Some r \<Rightarrow>
          (case allocate_weighted R es (resource_cap R r) of
             None \<Rightarrow> None
           | Some ar \<Rightarrow> grant_loop R res c (foldl take_grant gm (zip es (ar_granted ar)))))"

text \<open>The new grant and state of one flow; the flow as it is left when the transition throws.\<close>

definition dispatch :: "gov \<Rightarrow> FlowRT \<Rightarrow> FlowRT" where
  "dispatch g f =
     (case pick_worker_for_path (fs_path (fr_spec f)) g of
        None \<Rightarrow> f
      | Some (wid, w) \<Rightarrow> f\<lparr>fr_assigned_worker := Some wid, fr_assigned_boot := wk_boot w\<rparr>)"

definition settle_flow :: "(rat \<Rightarrow> rat) \<Rightarrow> gov \<Rightarrow> grants \<Rightarrow> f64 \<Rightarrow> FlowId \<Rightarrow> FlowRT \<Rightarrow> unit result \<times> FlowRT" where
  "settle_flow R g gm t fid f =
     (if \<not> scheduled (fr_state f) then (Inr (), f)
      else
        let ng = umap_entry f0 fid gm;
            f = f\<lparr>fr_granted := ng\<rparr>;
            (to, f) = (if fr_state f = Reserved then (Running, dispatch g f)
                       else if ng \<le> f0 \<and> fs_preemptible (fr_spec f) then (Preempted, f)
                       else if fadd R ng (kEps R) < cap_value (fs_requested_min (fr_spec f)) then (Throttled, f)
                       else (Running, f))
        in case set_flow_state to f of
             Inl e \<Rightarrow> (Inl e, f)
           | Inr f \<Rightarrow> (Inr (), f\<lparr>fr_last_grant_update_ms := t\<rparr>))"

fun settle_loop ::
    "(rat \<Rightarrow> rat) \<Rightarrow> gov \<Rightarrow> grants \<Rightarrow> f64 \<Rightarrow> (FlowId, FlowRT) umap \<Rightarrow> unit result \<times> (FlowId, FlowRT) umap" where
  "settle_loop R g gm t [] = (Inr (), [])"
| "settle_loop R g gm t ((fid, f) # fs) =
     (case settle_flow R g gm t fid f of
        (Inl e, f') \<Rightarrow> (Inl e, (fid, f') # fs)
      | (Inr _, f') \<Rightarrow> (case settle_loop R g gm t fs of (r, fs') \<Rightarrow> (r, (fid, f') # fs')))"

definition tick :: "(rat \<Rightarrow> rat) \<Rightarrow> gov \<Rightarrow> (unit result \<times> gov) option" where
  "tick R g =
     (let t = now g;
          g = advance_tenant_starvation R t (now_next g)
      in case admit_loop R (queued_ids g) g of
           (Inl e, g) \<Rightarrow> Some (Inl e, g)
         | (Inr _, g) \<Rightarrow>
             let g = recompute_reserved R (recompute_governed R g)
             in case grant_loop R (g_resources g) (contention_of R g t) [] of
                  None \<Rightarrow> None
                | Some gm \<Rightarrow>
                    (case settle_loop R g gm t (g_flows g) of
                       (Inl e, fs) \<Rightarrow> Some (Inl e, g\<lparr>g_flows := fs\<rparr>)
                     | (Inr _, fs) \<Rightarrow> Some (Inr (), recompute_usage R (g\<lparr>g_flows := fs\<rparr>))))"

end
