(* ===== verification/Governor_Authority.thy ===== *)
theory Governor_Authority
  imports Governor_Tick
begin

text \<open>
  The distributed authority of \<^verbatim>\<open>src/governor.cpp\<close>: registration, restart and loss of a worker,
  and the progress and completion reports with their fences.
\<close>

section \<open>Model\<close>

record WorkerRegistration =
  wr_worker :: WorkerId
  wr_boot :: WorkerBootId
  wr_inventory :: "ResourceSpec list"
  wr_protocol_version :: u32
  wr_backend :: string

text \<open>The inventory loop: each resource is added or overwritten.\<close>

definition register_resource :: "gov \<Rightarrow> ResourceSpec \<Rightarrow> gov" where
  "register_resource g rs =
     (let r = umap_entry ResRT_default (rs_id rs) (g_resources g);
          (rs', g) = (if is_null (rs_generation rs)
                      then let (n, gen) = IdGen_next64 (g_gen g)
                           in (rs\<lparr>rs_generation := fresh_generation n\<rparr>, g\<lparr>g_gen := gen\<rparr>)
                      else (rs, g));
          r = r\<lparr>rr_spec := rs', rr_measured := f0, rr_last_ms := now g\<rparr>
      in (now_next g)\<lparr>g_resources := AList.update (rs_id rs) r (g_resources g)\<rparr>)"

text \<open>A running flow of the restarted worker gets a new attempt, generation and reservation.\<close>

definition restart_attempt :: "WorkerRegistration \<Rightarrow> AttemptId \<Rightarrow> FlowRT \<Rightarrow> FlowRT" where
  "restart_attempt reg attempt f =
     f\<lparr>fr_retries := fr_retries f + 1,
       fr_spec := (fr_spec f)\<lparr>fs_attempt := attempt, fs_generation := next_generation (fs_generation (fr_spec f))\<rparr>,
       fr_assigned_worker := Some (wr_worker reg), fr_assigned_boot := wr_boot reg, fr_bytes_done := 0,
       fr_last_error := ''worker restarted; retry with new attempt''\<rparr>"

definition restart_grant :: "FlowRT \<Rightarrow> f64" where
  "restart_grant f =
     (let grant = fmax (fr_granted f) (cap_value (fs_requested_min (fr_spec f)))
      in if grant \<le> f0 then cap_value (fs_requested_preferred (fr_spec f)) else grant)"

definition restart_flow :: "WorkerRegistration \<Rightarrow> FlowId \<Rightarrow> FlowRT \<Rightarrow> gov \<Rightarrow> unit result \<times> gov" where
  "restart_flow reg fid f g =
     (let g = release_of f g;
          (attempt, gen) = IdGen_next (g_gen g);
          g = g\<lparr>g_gen := gen\<rparr>;
          f = restart_attempt reg attempt f;
          (r, f, g) =
            (case map_of (g_paths g) (fs_path (fr_spec f)) of
               None \<Rightarrow> (Inr (), f, g)
             | Some p \<Rightarrow>
                 let (rid, gen) = IdGen_next (g_gen g);
                     g = g\<lparr>g_gen := gen\<rparr>;
                     grant = restart_grant f
                 in (case mk_allocations (path_hops p) grant of
                       Inl e \<Rightarrow> (Inl e, f, g)
                     | Inr als \<Rightarrow>
                         (Inr (), f\<lparr>fr_reservation := Some rid, fr_granted := grant\<rparr>,
                          g\<lparr>g_reservations := AList.update rid
                             (mk_reservation g rid (fr_spec f) (wr_boot reg) als) (g_reservations g)\<rparr>)))
      in case r of
           Inl e \<Rightarrow> (Inl e, g\<lparr>g_flows := AList.update fid f (g_flows g)\<rparr>)
         | Inr _ \<Rightarrow>
             (case set_flow_state Reserved f of
                Inl e \<Rightarrow> (Inl e, g\<lparr>g_flows := AList.update fid f (g_flows g)\<rparr>)
              | Inr f \<Rightarrow> (Inr (), g\<lparr>g_flows := AList.update fid f (g_flows g)\<rparr>)))"

definition on_worker :: "WorkerId \<Rightarrow> FlowRT \<Rightarrow> bool" where
  "on_worker w f \<longleftrightarrow> fr_state f = Running \<and> fr_assigned_worker f = Some w"

fun restart_loop :: "WorkerRegistration \<Rightarrow> FlowId list \<Rightarrow> gov \<Rightarrow> unit result \<times> gov" where
  "restart_loop reg [] g = (Inr (), g)"
| "restart_loop reg (fid # fids) g =
     (case map_of (g_flows g) fid of
        None \<Rightarrow> restart_loop reg fids g
      | Some f \<Rightarrow>
          if \<not> on_worker (wr_worker reg) f then restart_loop reg fids g
          else case restart_flow reg fid f g of
                 (Inl e, g) \<Rightarrow> (Inl e, g)
               | (Inr _, g) \<Rightarrow> restart_loop reg fids g)"

definition register_worker :: "(rat \<Rightarrow> rat) \<Rightarrow> WorkerRegistration \<Rightarrow> gov \<Rightarrow> WorkerId result \<times> gov" where
  "register_worker R reg g =
     (let is_restart = (case map_of (g_workers g) (wr_worker reg) of
                          None \<Rightarrow> False
                        | Some w \<Rightarrow> wk_alive w \<and> wk_boot w \<noteq> wr_boot reg);
          w = \<lparr>wk_id = wr_worker reg, wk_boot = wr_boot reg, wk_backend = wr_backend reg,
               wk_protocol = wr_protocol_version reg, wk_alive = True,
               wk_back_resources = map rs_id (wr_inventory reg)\<rparr>;
          g = g\<lparr>g_workers := AList.update (wr_worker reg) w (g_workers g)\<rparr>;
          g = foldl register_resource g (wr_inventory reg)
      in case (if is_restart then restart_loop reg (keys (g_flows g)) g else (Inr (), g)) of
           (Inl e, g) \<Rightarrow> (Inl e, g)
         | (Inr _, g) \<Rightarrow> (Inr (wr_worker reg), recompute_governed R g))"

definition lose_worker :: "WorkerId \<Rightarrow> FlowRT \<Rightarrow> FlowRT" where
  "lose_worker w f =
     (if on_worker w f then f\<lparr>fr_assigned_worker := None, fr_last_error := ''worker lost''\<rparr> else f)"

definition deregister_worker :: "WorkerId \<Rightarrow> gov \<Rightarrow> gov" where
  "deregister_worker wn g =
     (let g = (case map_of (g_workers g) wn of
                 None \<Rightarrow> g
               | Some w \<Rightarrow> g\<lparr>g_workers := AList.update wn (w\<lparr>wk_alive := False\<rparr>) (g_workers g)\<rparr>)
      in g\<lparr>g_flows := map_vals (lose_worker wn) (g_flows g)\<rparr>)"

text \<open>The authority checks of a report, in the order of the source.\<close>

definition report_ok :: "gov \<Rightarrow> FlowRT \<Rightarrow> AttemptId \<Rightarrow> FlowGeneration \<Rightarrow> WorkerBootId \<Rightarrow> bool" where
  "report_ok g f attempt fgen boot \<longleftrightarrow>
     fr_state f = Running \<and> fs_attempt (fr_spec f) = attempt \<and> fs_generation (fr_spec f) = fgen \<and>
     (case fr_assigned_worker f of
        None \<Rightarrow> True
      | Some wid \<Rightarrow> (case map_of (g_workers g) wid of
                       None \<Rightarrow> False
                     | Some w \<Rightarrow> wk_alive w \<and> wk_boot w = boot)) \<and>
     (case fr_reservation f of
        None \<Rightarrow> True
      | Some rid \<Rightarrow> (case map_of (g_reservations g) rid of
                       None \<Rightarrow> False
                     | Some r \<Rightarrow> rv_epoch r = g_epoch g \<and> rv_capacity_generation r = g_capacity_generation g))"

definition report_progress ::
    "FlowId \<Rightarrow> AttemptId \<Rightarrow> FlowGeneration \<Rightarrow> WorkerBootId \<Rightarrow> u64 \<Rightarrow> gov \<Rightarrow> bool \<times> gov" where
  "report_progress fid attempt fgen boot bytes g =
     (case map_of (g_flows g) fid of
        None \<Rightarrow> (False, g)
      | Some f \<Rightarrow>
          if \<not> report_ok g f attempt fgen boot then (False, g)
          else let f = f\<lparr>fr_bytes_done := max (fr_bytes_done f) bytes, fr_last_ms := now g\<rparr>
               in (True, (now_next g)\<lparr>g_flows := AList.update fid f (g_flows g)\<rparr>))"

definition settle_accounting :: "(rat \<Rightarrow> rat) \<Rightarrow> FlowSpec \<Rightarrow> gov \<Rightarrow> gov" where
  "settle_accounting R spec g =
     (let t = umap_entry TenantAcc_default (fs_tenant spec) (g_tenants g);
          w = umap_entry WorkloadAcc_default (fs_workload spec) (g_workloads g);
          n = f64_of_u64 R (fs_byte_count spec)
      in g\<lparr>g_tenants := AList.update (fs_tenant spec)
             (t\<lparr>ta_completed := ta_completed t + 1, ta_served_bytes := fadd R (ta_served_bytes t) n\<rparr>) (g_tenants g),
           g_workloads := AList.update (fs_workload spec)
             (w\<lparr>wa_completed := wa_completed w + 1, wa_served_bytes := fadd R (wa_served_bytes w) n\<rparr>) (g_workloads g)\<rparr>)"

definition report_completion ::
    "(rat \<Rightarrow> rat) \<Rightarrow> FlowId \<Rightarrow> AttemptId \<Rightarrow> FlowGeneration \<Rightarrow> WorkerBootId \<Rightarrow> u64 \<Rightarrow> gov \<Rightarrow> bool result \<times> gov" where
  "report_completion R fid attempt fgen boot bytes g =
     (case map_of (g_flows g) fid of
        None \<Rightarrow> (Inr False, g)
      | Some f \<Rightarrow>
          if \<not> report_ok g f attempt fgen boot then (Inr False, g)
          else let f = f\<lparr>fr_bytes_done := max (fr_bytes_done f) bytes\<rparr>
               in case set_flow_state Completed f of
                    Inl e \<Rightarrow> (Inl e, g\<lparr>g_flows := AList.update fid f (g_flows g)\<rparr>)
                  | Inr f \<Rightarrow>
                      let f = f\<lparr>fr_last_ms := now g\<rparr>;
                          g = (now_next g)\<lparr>g_flows := AList.update fid f (g_flows g)\<rparr>;
                          g = settle_accounting R (fr_spec f) g
                      in (Inr True, recompute_usage R (release_of f g)))"

end
