(* ===== verification/Governor_Snapshot.thy ===== *)
theory Governor_Snapshot
  imports Governor_Authority
begin

text \<open>
  Snapshot and restoration of the authoritative state (\<^verbatim>\<open>build_snapshot_locked\<close>, \<^verbatim>\<open>restore\<close> of
  \<^verbatim>\<open>src/governor.cpp\<close>). The accounting tables of the snapshot are \<^verbatim>\<open>std::map\<close>s: lists sorted by
  their keys.
\<close>

section \<open>Model\<close>

record TenantAccounting =
  tn_tenant :: TenantId
  tn_allocated_now :: f64
  tn_served_bytes :: f64
  tn_submitted :: u64
  tn_completed :: u64
  tn_failed :: u64
  tn_weight :: f64

record WorkloadAccounting =
  wn_workload :: WorkloadId
  wn_allocated_now :: f64
  wn_served_bytes :: f64
  wn_submitted :: u64
  wn_completed :: u64
  wn_failed :: u64
  wn_weight :: f64

record GovernorSnapshot =
  gs_format_version :: u32
  gs_coordinator :: CoordinatorId
  gs_epoch :: CoordinatorEpoch
  gs_capacity_generation :: CapacityGeneration
  gs_policy :: PolicyConfig
  gs_resources :: "ResourceSpec list"
  gs_paths :: "Path list"
  gs_flows :: "FlowSnapshot list"
  gs_reservations :: "Reservation list"
  gs_tenants :: "(TenantId, TenantAccounting) umap"
  gs_workloads :: "(WorkloadId, WorkloadAccounting) umap"
  gs_resource_state :: "(ResourceId, ResourceSnapshot) umap"
  gs_saved_at_ms :: f64

definition kFormatVersion :: u32 where "kFormatVersion = 1"

definition to_resource_snap :: "(rat \<Rightarrow> rat) \<Rightarrow> ResRT \<Rightarrow> f64 \<Rightarrow> f64 \<Rightarrow> ResourceSnapshot result" where
  "to_resource_snap R r now_ms threshold =
     resource_snap R r (if feq (rr_last_ms r) f0 then f0 else fsub R now_ms (rr_last_ms r)) threshold"

definition to_tenant_accounting :: "TenantId \<Rightarrow> TenantAcc \<Rightarrow> TenantAccounting" where
  "to_tenant_accounting tid t =
     \<lparr>tn_tenant = tid, tn_allocated_now = ta_allocated_now t, tn_served_bytes = ta_served_bytes t,
      tn_submitted = ta_submitted t, tn_completed = ta_completed t, tn_failed = ta_failed t,
      tn_weight = ta_weight t\<rparr>"

definition to_workload_accounting :: "WorkloadId \<Rightarrow> WorkloadAcc \<Rightarrow> WorkloadAccounting" where
  "to_workload_accounting wid w =
     \<lparr>wn_workload = wid, wn_allocated_now = wa_allocated_now w, wn_served_bytes = wa_served_bytes w,
      wn_submitted = wa_submitted w, wn_completed = wa_completed w, wn_failed = wa_failed w,
      wn_weight = wa_weight w\<rparr>"

definition build_snapshot :: "(rat \<Rightarrow> rat) \<Rightarrow> gov \<Rightarrow> GovernorSnapshot result \<times> gov" where
  "build_snapshot R g =
     (let saved_at = now g; window = policy_window g; rs = map snd (g_resources g)
      in (rbind (rmap (\<lambda>r. to_resource_snap R r saved_at window) rs) (\<lambda>states.
          rbind (rmap (to_flow_snap \<circ> snd) (g_flows g)) (\<lambda>flows.
          Inr \<lparr>gs_format_version = kFormatVersion, gs_coordinator = g_coordinator g, gs_epoch = g_epoch g,
               gs_capacity_generation = g_capacity_generation g, gs_policy = cfg_policy (g_config g),
               gs_resources = map rr_spec rs, gs_paths = map snd (g_paths g), gs_flows = flows,
               gs_reservations = map snd (g_reservations g),
               gs_tenants = sort_key fst (map (\<lambda>(tid, t). (tid, to_tenant_accounting tid t)) (g_tenants g)),
               gs_workloads = sort_key fst (map (\<lambda>(wid, w). (wid, to_workload_accounting wid w)) (g_workloads g)),
               gs_resource_state = foldl (\<lambda>m s. AList.update (rn_id s) s m) [] states,
               gs_saved_at_ms = saved_at\<rparr>)), now_next g))"

definition snapshot :: "(rat \<Rightarrow> rat) \<Rightarrow> gov \<Rightarrow> GovernorSnapshot result \<times> gov" where
  "snapshot R g = build_snapshot R g"

definition restore_resource :: "gov \<Rightarrow> ResourceSpec \<Rightarrow> gov" where
  "restore_resource g rs =
     (now_next g)\<lparr>g_resources :=
        AList.update (rs_id rs) (ResRT_default\<lparr>rr_spec := rs, rr_last_ms := now g\<rparr>) (g_resources g)\<rparr>"

definition restore_flow :: "FlowSnapshot \<Rightarrow> FlowRT" where
  "restore_flow fs =
     (FlowRT_of (fn_spec fs))\<lparr>fr_state := fn_state fs, fr_admitted_ms := fn_admitted_ms fs,
        fr_last_ms := fn_last_update_ms fs, fr_granted := cap_value (fn_granted fs),
        fr_bytes_done := fn_bytes_transferred fs, fr_burst_remaining := fn_burst_remaining fs,
        fr_retries := fn_retry_count fs, fr_starvation_ms := fn_starvation_ms fs,
        fr_reservation := fn_reservation fs\<rparr>"

definition restore_tenant :: "TenantAccounting \<Rightarrow> TenantAcc" where
  "restore_tenant t = \<lparr>ta_allocated_now = tn_allocated_now t, ta_served_bytes = tn_served_bytes t,
     ta_submitted = tn_submitted t, ta_completed = tn_completed t, ta_failed = tn_failed t,
     ta_weight = tn_weight t\<rparr>"

definition restore_workload :: "WorkloadAccounting \<Rightarrow> WorkloadAcc" where
  "restore_workload w = \<lparr>wa_allocated_now = wn_allocated_now w, wa_served_bytes = wn_served_bytes w,
     wa_submitted = wn_submitted w, wa_completed = wn_completed w, wa_failed = wn_failed w,
     wa_weight = wn_weight w\<rparr>"

text \<open>A loop \<^verbatim>\<open>for (const X& x : xs) m[key(x)] = value(x);\<close> into an empty container.\<close>

definition umap_of :: "('a \<Rightarrow> 'k) \<Rightarrow> ('a \<Rightarrow> 'v) \<Rightarrow> 'a list \<Rightarrow> ('k, 'v) umap" where
  "umap_of key val xs = foldl (\<lambda>m x. AList.update (key x) (val x) m) [] xs"

definition restore :: "(rat \<Rightarrow> rat) \<Rightarrow> GovernorSnapshot \<Rightarrow> gov \<Rightarrow> gov" where
  "restore R snap g =
     (let g = g\<lparr>g_coordinator := gs_coordinator snap, g_epoch := gs_epoch snap,
                g_capacity_generation := gs_capacity_generation snap,
                g_config := (g_config g)\<lparr>cfg_policy := gs_policy snap\<rparr>, g_resources := []\<rparr>;
          g = foldl restore_resource g (gs_resources snap);
          g = g\<lparr>g_paths := umap_of path_id (\<lambda>p. p) (gs_paths snap),
                g_flows := umap_of (fs_id \<circ> fn_spec) restore_flow (gs_flows snap),
                g_reservations := umap_of rv_id (\<lambda>r. r) (gs_reservations snap),
                g_tenants := umap_of fst (restore_tenant \<circ> snd) (gs_tenants snap),
                g_workloads := umap_of fst (restore_workload \<circ> snd) (gs_workloads snap)\<rparr>
      in recompute_usage R (recompute_governed R g))"

end
