(* ===== verification/Governor_Frame.thy ===== *)
theory Governor_Frame
  imports Governor_Snapshot
begin

text \<open>
  What the shared helpers leave alone, and the effect of the recomputation loops on the resource
  table. The rules are in \<open>frame_simps\<close>; the proofs about the operations rest on them.
\<close>

section \<open>Frame rules\<close>

lemma now_next_frame [frame_simps]:
  "g_flows (now_next g) = g_flows g" "g_reservations (now_next g) = g_reservations g"
  "g_paths (now_next g) = g_paths g" "g_resources (now_next g) = g_resources g"
  "g_gen (now_next g) = g_gen g" "g_epoch (now_next g) = g_epoch g"
  "g_capacity_generation (now_next g) = g_capacity_generation g"
  "g_workers (now_next g) = g_workers g" "g_tenants (now_next g) = g_tenants g"
  "g_workloads (now_next g) = g_workloads g" "g_config (now_next g) = g_config g"
  "g_coordinator (now_next g) = g_coordinator g" "g_wall (now_next g) = g_wall g"
  "g_auto_clock (now_next g) = g_auto_clock g" "g_virtual_now (now_next g) = g_virtual_now g"
  by (simp_all add: now_next_def)

text \<open>Two states that differ in the resource table and the clock position only.\<close>

definition same_core :: "gov \<Rightarrow> gov \<Rightarrow> bool" where
  "same_core g g' \<longleftrightarrow> g' = g\<lparr>g_resources := g_resources g', g_wall_pos := g_wall_pos g'\<rparr>"

lemma same_core_refl [simp]: "same_core g g"
  by (simp add: same_core_def)

lemma same_core_trans: "same_core a b \<Longrightarrow> same_core b c \<Longrightarrow> same_core a c"
  unfolding same_core_def by (cases a; cases b; cases c) simp

lemma same_core_frame:
  assumes "same_core g g'"
  shows "g_flows g' = g_flows g" "g_reservations g' = g_reservations g" "g_paths g' = g_paths g"
    "g_gen g' = g_gen g" "g_epoch g' = g_epoch g" "g_capacity_generation g' = g_capacity_generation g"
    "g_workers g' = g_workers g" "g_tenants g' = g_tenants g" "g_workloads g' = g_workloads g"
    "g_config g' = g_config g" "g_coordinator g' = g_coordinator g" "g_wall g' = g_wall g"
    "g_auto_clock g' = g_auto_clock g" "g_virtual_now g' = g_virtual_now g"
  using assms unfolding same_core_def by (cases g; cases g'; simp)+

lemma same_core_resources [simp]: "same_core g (g\<lparr>g_resources := rs\<rparr>)"
  by (simp add: same_core_def)

lemma same_core_now_next [simp]: "same_core g (now_next g)"
  by (simp add: same_core_def now_next_def)

lemma staleness_of_core: "staleness_of R g r = (st, g') \<Longrightarrow> same_core g g'"
  by (auto simp: staleness_of_def split: if_splits)

lemma governed_loop_core: "governed_loop R rs g = (rs', g') \<Longrightarrow> same_core g g' \<and> keys rs' = keys rs"
proof (induction rs arbitrary: g rs' g')
  case (Cons kr rs)
  obtain k r where kr: "kr = (k, r)" by (cases kr)
  obtain st g1 where 1: "staleness_of R g r = (st, g1)" by fastforce
  obtain rs2 g2 where 2: "governed_loop R rs g1 = (rs2, g2)" by fastforce
  show ?case
    using Cons.prems Cons.IH [OF 2] staleness_of_core [OF 1] same_core_trans
    by (auto simp: kr 1 2)
qed simp

lemma recompute_governed_core: "same_core g (recompute_governed R g)"
proof -
  obtain rs g' where *: "governed_loop R (g_resources g) g = (rs, g')" by fastforce
  then have "same_core g g'" using governed_loop_core by blast
  then have "same_core g (g'\<lparr>g_resources := rs\<rparr>)" using same_core_trans same_core_resources by blast
  then show ?thesis using * by (simp add: recompute_governed_def)
qed

lemma recompute_governed_keys: "keys (g_resources (recompute_governed R g)) = keys (g_resources g)"
proof -
  obtain rs g' where *: "governed_loop R (g_resources g) g = (rs, g')" by fastforce
  then show ?thesis using governed_loop_core [OF *] by (simp add: recompute_governed_def)
qed

lemmas recompute_governed_frame [frame_simps] = same_core_frame [OF recompute_governed_core]

lemma recompute_frame [frame_simps]:
  "same_core g (recompute_reserved R g)" "same_core g (recompute_allocated R g)"
  "same_core g (recompute_saturation R g)"
  by (simp_all add: recompute_reserved_def recompute_allocated_def recompute_saturation_def)

lemmas recompute_reserved_frame [frame_simps] = same_core_frame [OF recompute_frame(1)]
lemmas recompute_allocated_frame [frame_simps] = same_core_frame [OF recompute_frame(2)]
lemmas recompute_saturation_frame [frame_simps] = same_core_frame [OF recompute_frame(3)]

lemma same_core_recompute_usage: "same_core g g' \<Longrightarrow> same_core g (recompute_usage R g')"
  using recompute_frame same_core_trans by metis

section \<open>The resource table\<close>

lemma keys_update_in: "map_of m k = Some v \<Longrightarrow> keys (AList.update k w m) = keys m"
  by (induction m) auto

lemma add_reserved_keys [simp]: "keys (add_reserved R res al) = keys res"
  by (auto simp: add_reserved_def keys_update_in split: option.splits)

lemma add_allocated_keys [simp]: "keys (add_allocated R v res hop) = keys res"
  by (auto simp: add_allocated_def keys_update_in split: option.splits)

lemma foldl_keys:
  assumes "\<And>res x. keys (h res x) = keys res"
  shows "keys (foldl h res xs) = keys res"
  using assms by (induction xs arbitrary: res) auto

lemma reserve_one_keys [simp]: "keys (reserve_one R flows res rsv) = keys res"
  by (simp add: reserve_one_def foldl_keys split: option.splits)

lemma allocate_one_keys [simp]: "keys (allocate_one R paths res f) = keys res"
  by (simp add: allocate_one_def foldl_keys split: option.splits)

lemma recompute_keys [simp]:
  "keys (g_resources (recompute_reserved R g)) = keys (g_resources g)"
  "keys (g_resources (recompute_allocated R g)) = keys (g_resources g)"
  "keys (g_resources (recompute_saturation R g)) = keys (g_resources g)"
  by (simp_all add: recompute_reserved_def recompute_allocated_def recompute_saturation_def foldl_keys)

end
