(* ===== verification/Governor_Demo.thy ===== *)
theory Governor_Demo
  imports Governor_Frame
begin

text \<open>
  A small governor state for the witnesses: one resource of 1000 bytes per second, one path over
  it, one worker that backs the resource, and one running flow with its reservation.
\<close>

definition demo_rid :: ResourceId where "demo_rid = Id128 0 7"
definition demo_pid :: PathId where "demo_pid = Id128 0 1"
definition demo_fid :: FlowId where "demo_fid = Id128 0 1"
definition demo_rv :: ReservationId where "demo_rv = Id128 0 100"
definition demo_wid :: WorkerId where "demo_wid = Id128 0 50"
definition demo_boot :: WorkerBootId where "demo_boot = Id128 0 51"

definition demo_rspec :: ResourceSpec where
  "demo_rspec = ResourceSpec_default\<lparr>rs_id := demo_rid, rs_nominal := Capacity (Fin 1000),
     rs_generation := fresh_generation 5\<rparr>"

definition demo_resource :: ResRT where
  "demo_resource = ResRT_default\<lparr>rr_spec := demo_rspec, rr_governed := Fin 1000, rr_allocated := Fin 250\<rparr>"

definition demo_path :: Path where
  "demo_path = \<lparr>path_id = demo_pid,
     path_hops = [\<lparr>hop_resource = demo_rid, hop_generation = fresh_generation 5\<rparr>],
     path_generation = fresh_generation 6\<rparr>"

definition demo_spec :: FlowSpec where
  "demo_spec = fixture_flow 1 0 250 250"

definition demo_flow :: FlowRT where
  "demo_flow = (FlowRT_of demo_spec)\<lparr>fr_state := Running, fr_granted := Fin 250,
     fr_reservation := Some demo_rv, fr_assigned_worker := Some demo_wid, fr_assigned_boot := demo_boot\<rparr>"

definition demo_reservation :: Reservation where
  "demo_reservation = \<lparr>rv_id = demo_rv, rv_flow = demo_fid, rv_attempt = Id128 0 1,
     rv_flow_generation = fresh_generation 1, rv_path = demo_pid,
     rv_allocations = [\<lparr>al_resource = demo_rid, al_allocated = Capacity (Fin 250)\<rparr>],
     rv_epoch = fresh_generation 3, rv_worker_boot = null_id, rv_capacity_generation = fresh_generation 4,
     rv_state = RActive\<rparr>"

definition demo_worker :: WorkerRT where
  "demo_worker = \<lparr>wk_id = demo_wid, wk_boot = demo_boot, wk_backend = ''synthetic'', wk_protocol = 1,
     wk_alive = True, wk_back_resources = [demo_rid]\<rparr>"

definition demo_gov :: gov where
  "demo_gov = \<lparr>g_config = \<lparr>cfg_policy = PolicyConfig_default, cfg_id_salt = 1, cfg_auto_clock = False\<rparr>,
     g_gen = IdGen_seed 1 (\<lambda>n. of_nat n), g_coordinator = Id128 0 2, g_epoch = fresh_generation 3,
     g_capacity_generation = fresh_generation 4, g_auto_clock = False, g_virtual_now = f0,
     g_resources = [(demo_rid, demo_resource)], g_paths = [(demo_pid, demo_path)],
     g_flows = [(demo_fid, demo_flow)], g_reservations = [(demo_rv, demo_reservation)],
     g_workers = [(demo_wid, demo_worker)], g_tenants = [], g_workloads = [],
     g_wall = (\<lambda>_. f0), g_wall_pos = 0\<rparr>"

lemmas demo_defs = demo_gov_def demo_flow_def demo_spec_def demo_reservation_def demo_worker_def
  demo_path_def demo_resource_def demo_rspec_def demo_rid_def demo_pid_def demo_fid_def demo_rv_def
  demo_wid_def demo_boot_def fixture_flow_def FlowRT_of_def fresh_generation_def

lemma demo_flow_lookup: "map_of (g_flows demo_gov) demo_fid = Some demo_flow"
  by (simp add: demo_gov_def)

lemma demo_report_ok: "report_ok demo_gov demo_flow (Id128 0 1) (fresh_generation 1) demo_boot"
  by (simp add: report_ok_def demo_defs)

end
