(* ===== verification/Governor_Reports.thy ===== *)
theory Governor_Reports
  imports Governor_Demo
begin

text \<open>
  Progress and completion reports: what a stale report can do (nothing) and what an accepted one does.
\<close>

section \<open>Lemmas\<close>

lemma reservation_move_frame [frame_simps]:
  "g_flows (reservation_move s rid g) = g_flows g" "g_paths (reservation_move s rid g) = g_paths g"
  "g_gen (reservation_move s rid g) = g_gen g" "g_workers (reservation_move s rid g) = g_workers g"
  "g_resources (reservation_move s rid g) = g_resources g" "g_tenants (reservation_move s rid g) = g_tenants g"
  "g_workloads (reservation_move s rid g) = g_workloads g" "g_epoch (reservation_move s rid g) = g_epoch g"
  "g_capacity_generation (reservation_move s rid g) = g_capacity_generation g"
  "g_config (reservation_move s rid g) = g_config g"
  by (auto simp: reservation_move_def split: option.splits)

lemma release_of_frame [frame_simps]:
  "g_flows (release_of f g) = g_flows g" "g_paths (release_of f g) = g_paths g"
  "g_gen (release_of f g) = g_gen g" "g_workers (release_of f g) = g_workers g"
  "g_resources (release_of f g) = g_resources g" "g_tenants (release_of f g) = g_tenants g"
  "g_workloads (release_of f g) = g_workloads g" "g_epoch (release_of f g) = g_epoch g"
  "g_capacity_generation (release_of f g) = g_capacity_generation g" "g_config (release_of f g) = g_config g"
  by (simp_all add: release_of_def release_reservation_internal_def frame_simps split: option.splits)

text \<open>The reservation table after a release: the one reservation moves from Active to Released.\<close>

definition release_entry :: "ReservationId option \<Rightarrow> ReservationId \<Rightarrow> Reservation \<Rightarrow> Reservation" where
  "release_entry rid k rsv = (if rid = Some k \<and> rv_state rsv = RActive then rsv\<lparr>rv_state := RReleased\<rparr> else rsv)"

lemma transition_to_released:
  "reservation_transition s RReleased = (if s = RActive \<or> s = RReleased then Some RReleased else None)"
  by (cases s) (simp_all add: reservation_transition_def)

lemma rv_state_same: "rv_state rsv = s \<Longrightarrow> rsv\<lparr>rv_state := s\<rparr> = rsv"
  by (cases rsv) simp

lemma release_internal_reservations:
  "map_of (g_reservations (release_reservation_internal rid g)) k =
     map_option (release_entry (Some rid) k) (map_of (g_reservations g) k)"
proof (cases "map_of (g_reservations g) rid")
  case None
  then show ?thesis
    by (cases "map_of (g_reservations g) k")
      (auto simp: release_reservation_internal_def reservation_move_def release_entry_def)
next
  case r: (Some rsv)
  consider "rv_state rsv = RActive" | "rv_state rsv = RReleased" | "rv_state rsv \<noteq> RActive" "rv_state rsv \<noteq> RReleased"
    by blast
  then show ?thesis
    by cases (cases "k = rid"; cases "map_of (g_reservations g) k";
      simp add: r release_reservation_internal_def reservation_move_def release_entry_def
        transition_to_released rv_state_same)+
qed

lemma release_of_reservations:
  "map_of (g_reservations (release_of f g)) k =
     map_option (release_entry (fr_reservation f) k) (map_of (g_reservations g) k)"
  by (cases "map_of (g_reservations g) k"; cases "fr_reservation f")
    (simp_all add: release_of_def release_internal_reservations release_entry_def)

lemma settle_accounting_frame [frame_simps]:
  "g_flows (settle_accounting R spec g) = g_flows g" "g_paths (settle_accounting R spec g) = g_paths g"
  "g_gen (settle_accounting R spec g) = g_gen g" "g_workers (settle_accounting R spec g) = g_workers g"
  "g_reservations (settle_accounting R spec g) = g_reservations g"
  "g_resources (settle_accounting R spec g) = g_resources g"
  "g_epoch (settle_accounting R spec g) = g_epoch g" "g_config (settle_accounting R spec g) = g_config g"
  "g_capacity_generation (settle_accounting R spec g) = g_capacity_generation g"
  by (simp_all add: settle_accounting_def Let_def)

lemma report_ok_running: "report_ok g f a b c \<Longrightarrow> fr_state f = Running"
  by (simp add: report_ok_def)

lemma set_flow_state_completed:
  "fr_state f = Running \<Longrightarrow> set_flow_state Completed f = Inr (f\<lparr>fr_state := Completed\<rparr>)"
  by (simp add: set_flow_state_def flow_transition_dispatch)

definition completed_flow :: "gov \<Rightarrow> u64 \<Rightarrow> FlowRT \<Rightarrow> FlowRT" where
  "completed_flow g bytes f =
     f\<lparr>fr_bytes_done := max (fr_bytes_done f) bytes, fr_state := Completed, fr_last_ms := now g\<rparr>"

lemma report_completion_accepted:
  assumes "map_of (g_flows g) fid = Some f" "report_ok g f attempt fgen boot"
  shows "report_completion R fid attempt fgen boot bytes g =
    (Inr True, recompute_usage R (release_of (completed_flow g bytes f) (settle_accounting R (fr_spec f)
       ((now_next g)\<lparr>g_flows := AList.update fid (completed_flow g bytes f) (g_flows g)\<rparr>))))"
  using assms report_ok_running [OF assms(2)]
  by (simp add: report_completion_def set_flow_state_completed completed_flow_def Let_def)

lemma report_completion_result:
  "report_completion R fid attempt fgen boot bytes g = (r, g') \<Longrightarrow>
     (r = Inr True \<and> (\<exists>f. map_of (g_flows g) fid = Some f \<and> report_ok g f attempt fgen boot)) \<or>
     (r = Inr False \<and> g' = g \<and> (\<forall>f. map_of (g_flows g) fid = Some f \<longrightarrow> \<not> report_ok g f attempt fgen boot))"
proof (cases "map_of (g_flows g) fid")
  case (Some f)
  assume *: "report_completion R fid attempt fgen boot bytes g = (r, g')"
  show ?thesis
  proof (cases "report_ok g f attempt fgen boot")
    case True
    then show ?thesis using * report_completion_accepted [OF Some True] Some by auto
  next
    case False
    then show ?thesis using * Some by (auto simp: report_completion_def)
  qed
qed (auto simp: report_completion_def)

section \<open>Properties\<close>

text \<open>
  Fences against stale authority: a progress or completion report whose flow is unknown or
  not running, whose attempt or generation is not the current one, whose assigned worker is
  unknown, dead or has another boot, or whose reservation was minted under another coordinator
  epoch or capacity generation, is answered false and changes nothing at all.
\<close>

lemma stale_report_changes_nothing:
  assumes "\<And>f. map_of (g_flows g) fid = Some f \<Longrightarrow>
      fr_state f \<noteq> Running \<or> fs_attempt (fr_spec f) \<noteq> attempt \<or> fs_generation (fr_spec f) \<noteq> fgen \<or>
      (\<exists>wid. fr_assigned_worker f = Some wid \<and>
        (\<forall>w. map_of (g_workers g) wid = Some w \<longrightarrow> \<not> wk_alive w \<or> wk_boot w \<noteq> boot)) \<or>
      (\<exists>rid. fr_reservation f = Some rid \<and>
        (\<forall>r. map_of (g_reservations g) rid = Some r \<longrightarrow>
           rv_epoch r \<noteq> g_epoch g \<or> rv_capacity_generation r \<noteq> g_capacity_generation g))"
  shows "report_progress fid attempt fgen boot bytes g = (False, g) \<and>
    report_completion R fid attempt fgen boot bytes g = (Inr False, g)"
proof (cases "map_of (g_flows g) fid")
  case None
  then show ?thesis by (simp add: report_progress_def report_completion_def)
next
  case (Some f)
  have "\<not> report_ok g f attempt fgen boot"
    using assms [OF Some] by (auto simp: report_ok_def split: option.splits)
  then show ?thesis using Some by (simp add: report_progress_def report_completion_def)
qed

text \<open>
  Property C25. An accepted completion report: exactly that flow becomes Completed with the larger byte count,
  its reservation goes from Active to Released and no other reservation changes, the tenant's and
  the workload's completion counters go up by one and their served bytes by the size of the flow,
  and paths, workers, epoch and capacity generation stay.
\<close>

theorem completion_effect:
  assumes "report_completion R fid attempt fgen boot bytes g = (Inr True, g')"
  shows "\<exists>f. map_of (g_flows g) fid = Some f \<and> fr_state f = Running \<and>
    fs_attempt (fr_spec f) = attempt \<and> fs_generation (fr_spec f) = fgen \<and>
    map_of (g_flows g') = (map_of (g_flows g))(fid \<mapsto>
      f\<lparr>fr_state := Completed, fr_bytes_done := max (fr_bytes_done f) bytes, fr_last_ms := now g\<rparr>) \<and>
    (\<forall>k. map_of (g_reservations g') k =
       map_option (release_entry (fr_reservation f) k) (map_of (g_reservations g) k)) \<and>
    (let t = umap_entry TenantAcc_default (fs_tenant (fr_spec f)) (g_tenants g) in
     map_of (g_tenants g') = (map_of (g_tenants g))(fs_tenant (fr_spec f) \<mapsto>
       t\<lparr>ta_completed := ta_completed t + 1,
         ta_served_bytes := fadd R (ta_served_bytes t) (f64_of_u64 R (fs_byte_count (fr_spec f)))\<rparr>)) \<and>
    (let w = umap_entry WorkloadAcc_default (fs_workload (fr_spec f)) (g_workloads g) in
     map_of (g_workloads g') = (map_of (g_workloads g))(fs_workload (fr_spec f) \<mapsto>
       w\<lparr>wa_completed := wa_completed w + 1,
         wa_served_bytes := fadd R (wa_served_bytes w) (f64_of_u64 R (fs_byte_count (fr_spec f)))\<rparr>)) \<and>
    g_paths g' = g_paths g \<and> g_workers g' = g_workers g \<and> g_epoch g' = g_epoch g \<and>
    g_capacity_generation g' = g_capacity_generation g"
proof -
  obtain f where f: "map_of (g_flows g) fid = Some f" "report_ok g f attempt fgen boot"
    using report_completion_result [OF assms] by auto
  let ?f = "completed_flow g bytes f"
  have g': "g' = recompute_usage R (release_of ?f (settle_accounting R (fr_spec f)
      ((now_next g)\<lparr>g_flows := AList.update fid ?f (g_flows g)\<rparr>)))"
    using assms report_completion_accepted [OF f] by simp
  have eq: "?f = f\<lparr>fr_state := Completed, fr_bytes_done := max (fr_bytes_done f) bytes, fr_last_ms := now g\<rparr>"
    by (simp add: completed_flow_def)
  have res: "map_of (g_reservations g') k =
      map_option (release_entry (fr_reservation f) k) (map_of (g_reservations g) k)" for k
    by (simp add: g' frame_simps release_of_reservations completed_flow_def)
  show ?thesis
    using f report_ok_running [OF f(2)] res
    by (intro exI [of _ f]) (auto simp: g' frame_simps eq report_ok_def settle_accounting_def Let_def)
qed

theorem completion_effect_witness:
  "\<exists>g'. report_completion (\<lambda>x. x) demo_fid (Id128 0 1) (fresh_generation 1) demo_boot 1048576 demo_gov = (Inr True, g') \<and>
     map_of (g_reservations g') demo_rv = Some (demo_reservation\<lparr>rv_state := RReleased\<rparr>)"
proof -
  obtain g' where g': "report_completion (\<lambda>x. x) demo_fid (Id128 0 1) (fresh_generation 1) demo_boot 1048576 demo_gov = (Inr True, g')"
    using report_completion_accepted [OF demo_flow_lookup demo_report_ok] by blast
  have "map_of (g_reservations g') demo_rv =
      map_option (release_entry (fr_reservation demo_flow) demo_rv) (map_of (g_reservations demo_gov) demo_rv)"
    using completion_effect [OF g'] demo_flow_lookup by auto
  moreover have "fr_reservation demo_flow = Some demo_rv" "rv_state demo_reservation = RActive"
    "map_of (g_reservations demo_gov) demo_rv = Some demo_reservation"
    by (simp_all add: demo_flow_def demo_reservation_def demo_gov_def)
  ultimately show ?thesis using g' by (simp add: release_entry_def)
qed

text \<open>The flow of an accepted completion is Completed, and a flow that is not Running takes no reports.\<close>

lemma completion_completes:
  assumes "report_completion R fid attempt fgen boot bytes g = (Inr True, g')"
  shows "\<exists>f. map_of (g_flows g') fid = Some f \<and> fr_state f = Completed"
proof -
  obtain f where "map_of (g_flows g) fid = Some f" "report_ok g f attempt fgen boot"
    using report_completion_result [OF assms] by auto
  then show ?thesis using assms by (auto simp: report_completion_accepted frame_simps completed_flow_def)
qed

lemma not_running_refused:
  assumes "map_of (g_flows g) fid = Some f" "fr_state f \<noteq> Running"
  shows "report_completion R fid attempt fgen boot bytes g = (Inr False, g)" "report_progress fid attempt fgen boot bytes g = (False, g)"
  using assms by (simp_all add: report_completion_def report_progress_def report_ok_def)

end
