(* ===== verification/Governor_Invariant.thy ===== *)
theory Governor_Invariant
  imports Governor_Demo
begin

text \<open>
  The invariant of the governor, and the relation \<open>good_step\<close> between the states before and after
  an operation: the invariant is kept, no flow and no reservation is forgotten, and their states
  move along the transition tables only. \<open>good_step\<close> is transitive, so an operation is good when
  its parts are.
\<close>

section \<open>The invariant\<close>

definition spec_ok :: "(rat \<Rightarrow> rat) \<Rightarrow> FlowSpec \<Rightarrow> bool" where
  "spec_ok R spec \<longleftrightarrow> spec_ordered spec \<and> is_double R (cap_value (fs_requested_min spec)) \<and>
     is_double R (cap_value (fs_requested_preferred spec)) \<and> is_double R (cap_value (fs_requested_max spec))"

definition flow_ok :: "(rat \<Rightarrow> rat) \<Rightarrow> FlowId \<Rightarrow> FlowRT \<Rightarrow> bool" where
  "flow_ok R fid f \<longleftrightarrow> fs_id (fr_spec f) = fid \<and> spec_ok R (fr_spec f) \<and>
     f0 \<le> fr_granted f \<and> fr_granted f \<le> cap_value (fs_requested_max (fr_spec f)) \<and>
     (\<forall>w. fr_state f \<noteq> FlowState_raw w) \<and> (fr_state f = Queued \<longrightarrow> fr_reservation f = None)"

text \<open>
  A reservation is active or released and its capacities are valid; an active one is the current
  reservation of a flow that is not terminal.
\<close>

definition resv_ok :: "(FlowId, FlowRT) umap \<Rightarrow> ReservationId \<Rightarrow> Reservation \<Rightarrow> bool" where
  "resv_ok flows rid rsv \<longleftrightarrow> rv_id rsv = rid \<and> (rv_state rsv = RActive \<or> rv_state rsv = RReleased) \<and>
     list_all (\<lambda>al. valid_cap (al_allocated al)) (rv_allocations rsv) \<and>
     (rv_state rsv = RActive \<longrightarrow> (\<exists>f. map_of flows (rv_flow rsv) = Some f \<and>
        fr_reservation f = Some rid \<and> \<not> flow_terminal (fr_state f)))"

definition gen_fresh :: "gov \<Rightarrow> bool" where
  "gen_fresh g \<longleftrightarrow> gen_wf (g_gen g) \<and>
     (\<forall>rid \<in> set (keys (g_reservations g)). \<exists>k < gen_draws (g_gen g). rid = nth_id (g_gen g) k)"

definition inv_core :: "(rat \<Rightarrow> rat) \<Rightarrow> gov \<Rightarrow> bool" where
  "inv_core R g \<longleftrightarrow>
     distinct (keys (g_flows g)) \<and> distinct (keys (g_reservations g)) \<and>
     (\<forall>fid f. map_of (g_flows g) fid = Some f \<longrightarrow> flow_ok R fid f) \<and>
     (\<forall>rid rsv. map_of (g_reservations g) rid = Some rsv \<longrightarrow> resv_ok (g_flows g) rid rsv) \<and>
     (\<forall>pid p. map_of (g_paths g) pid = Some p \<longrightarrow> validate_path p = None) \<and>
     gen_fresh g"

lemma inv_coreD:
  assumes "inv_core R g"
  shows "map_of (g_flows g) fid = Some f \<Longrightarrow> flow_ok R fid f"
    "map_of (g_reservations g) rid = Some rsv \<Longrightarrow> resv_ok (g_flows g) rid rsv"
    "map_of (g_paths g) pid = Some p \<Longrightarrow> validate_path p = None"
    "distinct (keys (g_flows g))" "distinct (keys (g_reservations g))" "gen_fresh g" "gen_wf (g_gen g)"
  using assms by (auto simp: inv_core_def gen_fresh_def)

section \<open>Good steps\<close>

definition gens_ok :: "gov \<Rightarrow> gov \<Rightarrow> bool" where
  "gens_ok g g' \<longleftrightarrow> gen_rng (g_gen g') = gen_rng (g_gen g) \<and> gen_salt (g_gen g') = gen_salt (g_gen g) \<and>
     gen_draws (g_gen g) \<le> gen_draws (g_gen g') \<and> (gen_wf (g_gen g) \<longrightarrow> gen_wf (g_gen g'))"

text \<open>A flow keeps its specification up to attempt and generation.\<close>

definition same_request :: "FlowSpec \<Rightarrow> FlowSpec \<Rightarrow> bool" where
  "same_request s s' \<longleftrightarrow> s' = s\<lparr>fs_attempt := fs_attempt s', fs_generation := fs_generation s'\<rparr>"

definition flow_evolves :: "FlowRT \<Rightarrow> FlowRT \<Rightarrow> bool" where
  "flow_evolves f f' \<longleftrightarrow> flow_reaches (fr_state f) (fr_state f') \<and> same_request (fr_spec f) (fr_spec f')"

definition resv_evolves :: "Reservation \<Rightarrow> Reservation \<Rightarrow> bool" where
  "resv_evolves r r' \<longleftrightarrow> r' = r\<lparr>rv_state := rv_state r'\<rparr> \<and> reservation_reaches (rv_state r) (rv_state r')"

definition evolves :: "gov \<Rightarrow> gov \<Rightarrow> bool" where
  "evolves g g' \<longleftrightarrow>
     (\<forall>fid f. map_of (g_flows g) fid = Some f \<longrightarrow> (\<exists>f'. map_of (g_flows g') fid = Some f' \<and> flow_evolves f f')) \<and>
     (\<forall>rid r. map_of (g_reservations g) rid = Some r \<longrightarrow>
        (\<exists>r'. map_of (g_reservations g') rid = Some r' \<and> resv_evolves r r'))"

definition good_step :: "(rat \<Rightarrow> rat) \<Rightarrow> gov \<Rightarrow> gov \<Rightarrow> bool" where
  "good_step R g g' \<longleftrightarrow> gens_ok g g' \<and>
     (inv_core R g \<longrightarrow> gen_draws (g_gen g') \<le> 2 ^ 64 \<longrightarrow> inv_core R g' \<and> evolves g g')"

lemma same_request_refl [simp]: "same_request s s"
  by (simp add: same_request_def)

lemma same_request_trans: "same_request a b \<Longrightarrow> same_request b c \<Longrightarrow> same_request a c"
  unfolding same_request_def by (cases a; cases b; cases c) simp

lemma flow_evolves_refl [simp]: "flow_evolves f f"
  by (simp add: flow_evolves_def flow_reaches.stay)

lemma flow_evolves_trans: "flow_evolves a b \<Longrightarrow> flow_evolves b c \<Longrightarrow> flow_evolves a c"
  using flow_reaches_trans same_request_trans by (auto simp: flow_evolves_def)

lemma reservation_reaches_trans:
  "reservation_reaches t u \<Longrightarrow> reservation_reaches s t \<Longrightarrow> reservation_reaches s u"
  by (induction rule: reservation_reaches.induct) (auto intro: reservation_reaches.move)

lemma resv_evolves_refl [simp]: "resv_evolves r r"
  by (simp add: resv_evolves_def reservation_reaches.stay)

lemma resv_evolves_trans: "resv_evolves a b \<Longrightarrow> resv_evolves b c \<Longrightarrow> resv_evolves a c"
  unfolding resv_evolves_def using reservation_reaches_trans by (cases a; cases b; cases c) auto

lemma evolves_refl [simp]: "evolves g g"
  by (auto simp: evolves_def)

lemma evolves_trans: "evolves a b \<Longrightarrow> evolves b c \<Longrightarrow> evolves a c"
  unfolding evolves_def by (meson flow_evolves_trans resv_evolves_trans)

lemma gens_ok_trans: "gens_ok a b \<Longrightarrow> gens_ok b c \<Longrightarrow> gens_ok a c"
  by (simp add: gens_ok_def)

lemma good_step_refl [simp]: "good_step R g g"
  by (simp add: good_step_def gens_ok_def)

lemma good_step_trans: "good_step R a b \<Longrightarrow> good_step R b c \<Longrightarrow> good_step R a c"
  unfolding good_step_def using gens_ok_trans evolves_trans
  by (meson gens_ok_def le_trans)

text \<open>A step that leaves flows, reservations, paths and generator alone.\<close>

lemma inv_core_cong:
  assumes "g_flows g' = g_flows g" "g_reservations g' = g_reservations g" "g_paths g' = g_paths g"
    "g_gen g' = g_gen g"
  shows "inv_core R g' \<longleftrightarrow> inv_core R g"
  using assms by (simp add: inv_core_def gen_fresh_def)

lemma good_step_frame:
  assumes "g_flows g' = g_flows g" "g_reservations g' = g_reservations g" "g_paths g' = g_paths g"
    "g_gen g' = g_gen g"
  shows "good_step R g g'"
  using assms inv_core_cong [OF assms] by (simp add: good_step_def gens_ok_def evolves_def)

lemma good_step_core: "same_core g g' \<Longrightarrow> good_step R g g'"
  by (rule good_step_frame) (simp_all add: same_core_frame)

lemma good_step_recompute_governed: "good_step R g (recompute_governed R' g)"
  by (rule good_step_core) (rule recompute_governed_core)

lemma good_step_recompute: "good_step R g (recompute_reserved R' g)" "good_step R g (recompute_allocated R' g)"
    "good_step R g (recompute_saturation R' g)"
  by (rule good_step_core, rule recompute_frame)+

lemma good_step_now_next: "good_step R g (now_next g)"
  by (rule good_step_core) simp

text \<open>Drawing from the generator.\<close>

lemma gens_ok_next:
  assumes "IdGen_next (g_gen g) = (i, gen)"
  shows "gens_ok g (g\<lparr>g_gen := gen\<rparr>)" "gen_draws gen = Suc (gen_draws (g_gen g))"
    "gen_wf (g_gen g) \<Longrightarrow> i = nth_id (g_gen g) (gen_draws (g_gen g))"
  using assms by (auto simp: gens_ok_def IdGen_next_def gen_wf_def Let_def nth_id_def)

lemma gens_ok_next64:
  assumes "IdGen_next64 (g_gen g) = (n, gen)"
  shows "gens_ok g (g\<lparr>g_gen := gen\<rparr>)"
  using assms by (auto simp: gens_ok_def IdGen_next64_def gen_wf_def Let_def)

lemma nth_id_gens:
  "gens_ok g g' \<Longrightarrow> nth_id (g_gen g') k = nth_id (g_gen g) k"
  by (simp add: gens_ok_def nth_id_def)

lemma gen_fresh_mono:
  assumes "gen_fresh g" "gens_ok g g'" "set (keys (g_reservations g')) \<subseteq> set (keys (g_reservations g))"
  shows "gen_fresh g'"
  unfolding gen_fresh_def
proof (intro conjI ballI)
  show "gen_wf (g_gen g')" using assms(1,2) by (simp add: gen_fresh_def gens_ok_def)
  fix rid assume "rid \<in> set (keys (g_reservations g'))"
  then obtain k where "k < gen_draws (g_gen g)" "rid = nth_id (g_gen g) k"
    using assms(1,3) unfolding gen_fresh_def by (meson subsetD)
  then show "\<exists>k < gen_draws (g_gen g'). rid = nth_id (g_gen g') k"
    using assms(2) nth_id_gens [OF assms(2)] by (metis gens_ok_def less_le_trans)
qed

lemma good_step_gen:
  assumes "gens_ok g (g\<lparr>g_gen := gen\<rparr>)"
  shows "good_step R g (g\<lparr>g_gen := gen\<rparr>)"
  using assms gen_fresh_mono [OF _ assms]
  by (auto simp: good_step_def inv_core_def evolves_def)

text \<open>A new flow, or a flow changed in place.\<close>

definition owns_active :: "gov \<Rightarrow> FlowId \<Rightarrow> ReservationId \<Rightarrow> bool" where
  "owns_active g fid rid \<longleftrightarrow> (\<exists>rsv. map_of (g_reservations g) rid = Some rsv \<and> rv_state rsv = RActive \<and> rv_flow rsv = fid)"

lemma inv_owns_active:
  assumes "inv_core R g" "owns_active g fid rid" "map_of (g_flows g) fid = Some f"
  shows "fr_reservation f = Some rid"
  using assms(2,3) inv_coreD(2) [OF assms(1)] by (fastforce simp: owns_active_def resv_ok_def)

lemma inv_no_flow_no_active:
  assumes "inv_core R g" "map_of (g_flows g) fid = None"
  shows "\<not> owns_active g fid rid"
  using assms(2) inv_coreD(2) [OF assms(1)] by (fastforce simp: owns_active_def resv_ok_def)

lemma good_step_flow:
  assumes "inv_core R g \<Longrightarrow> flow_ok R fid f'"
    and "\<And>f. inv_core R g \<Longrightarrow> map_of (g_flows g) fid = Some f \<Longrightarrow> flow_evolves f f'"
    and "\<And>rid. inv_core R g \<Longrightarrow> owns_active g fid rid \<Longrightarrow> fr_reservation f' = Some rid \<and> \<not> flow_terminal (fr_state f')"
  shows "good_step R g (g\<lparr>g_flows := AList.update fid f' (g_flows g)\<rparr>)"
  unfolding good_step_def
proof (intro conjI impI)
  show "gens_ok g (g\<lparr>g_flows := AList.update fid f' (g_flows g)\<rparr>)" by (simp add: gens_ok_def)
  assume inv: "inv_core R g"
  have "resv_ok (AList.update fid f' (g_flows g)) rid rsv"
    if "map_of (g_reservations g) rid = Some rsv" for rid rsv
    using inv_coreD(2) [OF inv that] assms(3) [OF inv, of rid] that
    by (auto simp: resv_ok_def owns_active_def)
  then show "inv_core R (g\<lparr>g_flows := AList.update fid f' (g_flows g)\<rparr>)"
    using inv assms(1) by (auto simp: inv_core_def gen_fresh_def distinct_update)
  show "evolves g (g\<lparr>g_flows := AList.update fid f' (g_flows g)\<rparr>)"
    using assms(2) [OF inv] by (auto simp: evolves_def)
qed

text \<open>A new reservation for a flow that owns no active one.\<close>

lemma fresh_not_in_keys:
  assumes "gen_fresh g" "IdGen_next (g_gen g) = (rid, gen)" "gen_draws gen \<le> 2 ^ 64"
  shows "rid \<notin> set (keys (g_reservations g))"
proof
  assume "rid \<in> set (keys (g_reservations g))"
  then obtain k where k: "k < gen_draws (g_gen g)" "rid = nth_id (g_gen g) k"
    using assms(1) by (auto simp: gen_fresh_def)
  have wf: "gen_wf (g_gen g)" using assms(1) by (simp add: gen_fresh_def)
  have "nth_id (g_gen g) k = (nth_id (g_gen g) (gen_draws (g_gen g)) :: ReservationId)"
    using k(2) gens_ok_next(3) [OF assms(2) wf] by simp
  moreover have "gen_draws (g_gen g) < 2 ^ 64" using gens_ok_next(2) [OF assms(2)] assms(3) by simp
  ultimately have "k = gen_draws (g_gen g)" using k(1) nth_id_inject by (meson less_trans)
  then show False using k(1) by simp
qed

lemma good_step_attach:
  assumes nxt: "IdGen_next (g_gen g) = (rid, gen)"
    and f': "inv_core R g \<Longrightarrow> flow_ok R fid f'" "fr_reservation f' = Some rid" "\<not> flow_terminal (fr_state f')"
    and ev: "\<And>f. inv_core R g \<Longrightarrow> map_of (g_flows g) fid = Some f \<Longrightarrow> flow_evolves f f'"
    and free: "\<And>r. inv_core R g \<Longrightarrow> \<not> owns_active g fid r"
    and rsv: "rv_id rsv = rid" "rv_flow rsv = fid" "rv_state rsv = RActive"
      "list_all (\<lambda>al. valid_cap (al_allocated al)) (rv_allocations rsv)"
  shows "good_step R g (g\<lparr>g_gen := gen, g_reservations := AList.update rid rsv (g_reservations g),
    g_flows := AList.update fid f' (g_flows g)\<rparr>)"
    (is "good_step R g ?g'")
  unfolding good_step_def
proof (intro conjI impI)
  note gens = gens_ok_next(1,2) [OF nxt]
  show gens': "gens_ok g ?g'" using gens(1) by (simp add: gens_ok_def)
  assume inv: "inv_core R g" and bound: "gen_draws (g_gen ?g') \<le> 2 ^ 64"
  have new: "rid \<notin> set (keys (g_reservations g))"
    using inv_coreD(6) [OF inv] nxt bound by (intro fresh_not_in_keys) simp_all
  then have none: "map_of (g_reservations g) rid = None" by (simp add: map_of_eq_None_iff)
  have wf: "gen_wf (g_gen g)" by (rule inv_coreD(7) [OF inv])
  have "gen_fresh ?g'"
    unfolding gen_fresh_def
  proof (intro conjI ballI)
    show "gen_wf (g_gen ?g')" using gens(1) wf by (simp add: gens_ok_def)
    fix r assume "r \<in> set (keys (g_reservations ?g'))"
    then consider "r = rid" | "r \<in> set (keys (g_reservations g))" by auto
    then show "\<exists>k < gen_draws (g_gen ?g'). r = nth_id (g_gen ?g') k"
    proof cases
      case 1
      then show ?thesis using gens_ok_next(3) [OF nxt wf] gens(2)
        by (intro exI [of _ "gen_draws (g_gen g)"]) (simp add: nth_id_gens [OF gens', simplified])
    next
      case 2
      then obtain k where "k < gen_draws (g_gen g)" "r = nth_id (g_gen g) k"
        using inv_coreD(6) [OF inv] unfolding gen_fresh_def by blast
      then show ?thesis using gens(2)
        by (intro exI [of _ k]) (simp add: nth_id_gens [OF gens', simplified])
    qed
  qed
  moreover have "resv_ok (g_flows ?g') r v" if "map_of (g_reservations ?g') r = Some v" for r v
  proof (cases "r = rid")
    case True
    then show ?thesis using that rsv f'(2,3) by (simp add: resv_ok_def)
  next
    case False
    then have v: "map_of (g_reservations g) r = Some v" using that by simp
    show ?thesis using inv_coreD(2) [OF inv v] free [OF inv, of r] v
      by (auto simp: resv_ok_def owns_active_def)
  qed
  ultimately show "inv_core R ?g'" using inv f'(1) by (auto simp: inv_core_def distinct_update)
  show "evolves g ?g'" using ev [OF inv] none by (auto simp: evolves_def)
qed

end
