(* ===== verification/Governor_Steps.thy ===== *)
theory Governor_Steps
  imports Governor_Invariant Governor_Reports
begin

text \<open>
  Every operation of the governor is a good step (except the scheduler, which has a theory of its
  own), and the operations that create reservations never throw.
\<close>

section \<open>Composition\<close>

lemma good_step_chain:
  assumes "good_step R a b" "gens_ok b c" "inv_core R a \<Longrightarrow> inv_core R b \<Longrightarrow> good_step R b c"
  shows "good_step R a c"
  unfolding good_step_def
proof (intro conjI impI)
  show "gens_ok a c" using assms(1,2) gens_ok_trans by (auto simp: good_step_def)
  assume inv: "inv_core R a" and bound: "gen_draws (g_gen c) \<le> 2 ^ 64"
  have "gen_draws (g_gen b) \<le> 2 ^ 64" using assms(2) bound by (simp add: gens_ok_def)
  then have b: "inv_core R b" "evolves a b" using assms(1) inv by (auto simp: good_step_def)
  then have "inv_core R c" "evolves b c" using assms(3) [OF inv b(1)] bound by (auto simp: good_step_def)
  then show "inv_core R c" "evolves a c" using b(2) evolves_trans by auto
qed

lemma gens_ok_same: "g_gen g' = g_gen g \<Longrightarrow> gens_ok g g'"
  by (simp add: gens_ok_def)

lemma good_step_usage: "good_step R a b \<Longrightarrow> good_step R a (recompute_usage R' b)"
  by (erule good_step_trans) (rule good_step_core, rule same_core_recompute_usage, rule same_core_refl)

section \<open>Releases\<close>

lemma keys_reservation_move [simp]: "keys (g_reservations (reservation_move s rid g)) = keys (g_reservations g)"
  by (auto simp: reservation_move_def keys_update_in split: option.splits)

lemma release_keys [simp]:
  "keys (g_reservations (release_reservation_internal rid g)) = keys (g_reservations g)"
  "keys (g_reservations (release_of f g)) = keys (g_reservations g)"
  by (simp_all add: release_reservation_internal_def release_of_def split: option.splits)

lemma resv_evolves_release: "resv_evolves rsv (release_entry r k rsv)"
  by (auto simp: resv_evolves_def release_entry_def reservation_reaches.stay
      intro: reservation_reaches.move [OF reservation_reaches.stay] reservation_transition_release(1))

lemma good_step_release_of: "good_step R g (release_of f g)"
  unfolding good_step_def
proof (intro conjI impI)
  show "gens_ok g (release_of f g)" by (rule gens_ok_same) (simp add: frame_simps)
  assume inv: "inv_core R g"
  have "resv_ok (g_flows g) rid rsv" if look: "map_of (g_reservations (release_of f g)) rid = Some rsv" for rid rsv
  proof -
    obtain r where r: "map_of (g_reservations g) rid = Some r" "rsv = release_entry (fr_reservation f) rid r"
      using look by (auto simp: release_of_reservations)
    show ?thesis using inv_coreD(2) [OF inv r(1)] by (auto simp: r(2) release_entry_def resv_ok_def)
  qed
  moreover have "gen_fresh (release_of f g)"
    by (rule gen_fresh_mono [OF inv_coreD(6) [OF inv]]) (simp_all add: gens_ok_same frame_simps)
  ultimately show "inv_core R (release_of f g)"
    using inv unfolding inv_core_def by (simp add: frame_simps)
  show "evolves g (release_of f g)"
    using resv_evolves_release by (auto simp: evolves_def frame_simps release_of_reservations)
qed

lemma release_of_Some: "release_of (f\<lparr>fr_reservation := Some rid\<rparr>) g = release_reservation_internal rid g"
  by (simp add: release_of_def)

lemma good_step_release: "good_step R g (release_reservation_internal rid g)"
  using good_step_release_of [of R g "f\<lparr>fr_reservation := Some rid\<rparr>" for f] by (simp only: release_of_Some)

lemma released_owns_none:
  assumes "inv_core R g" "map_of (g_flows g) fid = Some f"
  shows "\<not> owns_active (release_of f g) fid rid"
proof
  assume "owns_active (release_of f g) fid rid"
  then obtain r where r: "map_of (g_reservations g) rid = Some r" "rv_flow r = fid" "rv_state r = RActive"
    "rv_state (release_entry (fr_reservation f) rid r) = RActive"
    by (auto simp: owns_active_def release_of_reservations release_entry_def split: if_splits)
  then have "fr_reservation f = Some rid"
    using inv_owns_active [OF assms(1) _ assms(2), of rid] by (auto simp: owns_active_def)
  then show False using r by (simp add: release_entry_def)
qed

lemma release_of_flows_commute:
  "release_of f (g\<lparr>g_flows := x\<rparr>) = (release_of f g)\<lparr>g_flows := x\<rparr>"
  by (auto simp: release_of_def release_reservation_internal_def reservation_move_def split: option.splits)

section \<open>Grants\<close>

lemma spec_ordered_Fin:
  assumes "spec_ordered spec"
  obtains a b c where "cap_value (fs_requested_min spec) = Fin a" "cap_value (fs_requested_preferred spec) = Fin b"
    "cap_value (fs_requested_max spec) = Fin c" "0 \<le> a" "a \<le> b" "b \<le> c" "c \<le> 10 ^ 18"
  using assms by (auto simp: spec_ordered_def FlowSpec_wf_def valid_cap_def is_valid_rate_iff)

lemma admission_grant_bounds:
  assumes "spec_ordered spec"
  shows "cap_value (fs_requested_min spec) \<le> admission_grant spec least"
    "admission_grant spec least \<le> cap_value (fs_requested_max spec)"
  using assms
  by (auto elim!: spec_ordered_Fin simp: admission_grant_def Let_def fmin3_def fmin_def fclamp_def
      f64_less_Fin_iff split: if_splits; cases least; auto)+

lemma rate_between:
  assumes "spec_ordered spec" "cap_value (fs_requested_min spec) \<le> x" "x \<le> cap_value (fs_requested_max spec)"
  shows "is_valid_rate x" "f0 \<le> x"
  using assms by (auto elim!: spec_ordered_Fin; cases x; auto)+

lemma mk_allocations_ok:
  "is_valid_rate x \<Longrightarrow> mk_allocations hops x =
     Inr (map (\<lambda>hop. \<lparr>al_resource = hop_resource hop, al_allocated = Capacity x\<rparr>) hops)"
  by (simp add: mk_allocations_def)

lemma mk_reservation_simps [simp]:
  "rv_id (mk_reservation g rid spec boot als) = rid" "rv_flow (mk_reservation g rid spec boot als) = fs_id spec"
  "rv_state (mk_reservation g rid spec boot als) = RActive"
  "rv_allocations (mk_reservation g rid spec boot als) = als"
  by (simp_all add: mk_reservation_def)

lemma allocations_valid:
  "is_valid_rate x \<Longrightarrow> list_all (\<lambda>al. valid_cap (al_allocated al))
     (map (\<lambda>hop. \<lparr>al_resource = hop_resource hop, al_allocated = Capacity x\<rparr>) hops)"
  by (simp add: list_all_iff valid_cap_def)

section \<open>Resources, paths, clock\<close>

lemma now_next_gen [simp]: "g_gen (now_next g) = g_gen g"
  by (simp add: frame_simps)

lemma good_step_add_resource: "good_step R g (snd (add_resource R' spec g))"
proof -
  obtain n gen where n: "IdGen_next64 (g_gen g) = (n, gen)" by fastforce
  have gen: "good_step R g (g\<lparr>g_gen := gen\<rparr>)" using gens_ok_next64 [OF n] by (rule good_step_gen)
  have frame: "good_step R h (recompute_governed R' ((now_next h)\<lparr>g_resources := rs\<rparr>))" for h rs
    by (rule good_step_frame) (simp_all add: frame_simps)
  show ?thesis
    unfolding add_resource_def Let_def n by (auto intro: frame good_step_trans [OF gen])
qed

lemma good_step_update_capacity: "good_step R g (snd (update_capacity R' res m c pr l q b g))"
  by (rule good_step_frame) (auto simp: update_capacity_def Let_def frame_simps split: option.splits if_splits)

lemma good_step_set_resource_enabled: "good_step R g (set_resource_enabled R' res b g)"
  by (rule good_step_frame) (auto simp: set_resource_enabled_def frame_simps split: option.splits)

lemma good_step_invalidate_resource: "good_step R g (invalidate_resource_capacity R' res g)"
  by (rule good_step_frame) (auto simp: invalidate_resource_capacity_def frame_simps split: option.splits)

lemma good_step_clock: "good_step R g (set_auto_clock b g)" "good_step R g (advance_ms R' dt g)"
  by (rule good_step_frame; simp add: set_auto_clock_def advance_ms_def)+

lemma good_step_paths:
  assumes "inv_core R g \<Longrightarrow> validate_path p = None"
  shows "good_step R g (g\<lparr>g_paths := AList.update pid p (g_paths g)\<rparr>)"
  using assms by (auto simp: good_step_def gens_ok_def inv_core_def gen_fresh_def evolves_def)

lemma good_step_add_path: "good_step R g (snd (add_path p g))"
  by (auto simp: add_path_def intro: good_step_paths split: option.splits)

lemma good_step_invalidate_path: "good_step R g (invalidate_path pid g)"
proof (cases "map_of (g_paths g) pid")
  case (Some p)
  have "validate_path (p\<lparr>path_generation := next_generation (path_generation p)\<rparr>) = None"
    if "validate_path p = None"
    using that next_generation_not_null by (auto simp: validate_path_def split: if_splits)
  then show ?thesis
    using Some inv_coreD(3) [of R g pid p] by (auto simp: invalidate_path_def intro: good_step_paths)
qed (simp add: invalidate_path_def)

lemma good_step_release_reservation: "good_step R g (snd (release_reservation R' rid g))"
  using good_step_trans [OF good_step_release good_step_trans [OF good_step_recompute(1) good_step_recompute(3)]]
  by (auto simp: release_reservation_def split: option.splits)

section \<open>Flows\<close>

lemma good_step_count_submitted: "good_step R g (count_submitted spec g)"
  by (rule good_step_frame) (simp_all add: count_submitted_def Let_def)

lemma good_step_park_flow:
  assumes "map_of (g_flows g) (fs_id spec) = None" "spec_ok R spec"
  shows "good_step R g (snd (park_flow spec b g))"
proof -
  let ?f = "(FlowRT_of spec)\<lparr>fr_admitted_ms := now g, fr_last_ms := now (now_next g), fr_state := Queued,
    fr_burst_remaining := fs_burst_bytes spec\<rparr>"
  have "good_step R (now_next (now_next g))
      ((now_next (now_next g))\<lparr>g_flows := AList.update (fs_id spec) ?f (g_flows (now_next (now_next g)))\<rparr>)"
    using assms inv_no_flow_no_active [of R "now_next (now_next g)" "fs_id spec"]
    by (intro good_step_flow) (auto simp: frame_simps flow_ok_def FlowRT_of_def spec_ok_def elim!: spec_ordered_Fin)
  then show ?thesis
    using good_step_trans [OF good_step_trans [OF good_step_now_next good_step_now_next]]
    by (auto simp: park_flow_def Let_def frame_simps)
qed

lemma good_step_reserve_flow:
  assumes "map_of (g_flows g) (fs_id spec) = None" "spec_ok R spec"
  shows "good_step R g (snd (reserve_flow R' spec hops least b g))"
    "\<exists>res. fst (reserve_flow R' spec hops least b g) = Inr res"
proof -
  let ?x = "admission_grant spec least" and ?h = "now_next (now_next (now_next g))"
  have ord: "spec_ordered spec" using assms(2) by (simp add: spec_ok_def)
  note x = rate_between [OF ord admission_grant_bounds [OF ord]]
  obtain rid :: ReservationId and gen where gen: "IdGen_next (g_gen g) = (rid, gen)" by fastforce
  define f where "f = (FlowRT_of spec)\<lparr>fr_admitted_ms := now g, fr_last_ms := now (now_next g),
    fr_state := Reserved, fr_granted := ?x, fr_burst_remaining := fs_burst_bytes spec,
    fr_last_grant_update_ms := now (now_next (now_next g)), fr_reservation := Some rid\<rparr>"
  define rsv where "rsv = mk_reservation (?h\<lparr>g_gen := gen\<rparr>) rid spec null_id
    (map (\<lambda>hop. \<lparr>al_resource = hop_resource hop, al_allocated = Capacity ?x\<rparr>) hops)"
  have "good_step R ?h (?h\<lparr>g_gen := gen, g_reservations := AList.update rid rsv (g_reservations ?h),
      g_flows := AList.update (fs_id spec) f (g_flows ?h)\<rparr>)"
  proof (rule good_step_attach)
    show "IdGen_next (g_gen ?h) = (rid, gen)" using gen by simp
    show "flow_ok R (fs_id spec) f"
      using assms(2) x(2) admission_grant_bounds(2) [OF ord] by (simp add: flow_ok_def f_def FlowRT_of_def)
    show "\<not> owns_active ?h (fs_id spec) r" if "inv_core R ?h" for r
      using inv_no_flow_no_active [OF that] assms(1) by (simp add: frame_simps)
  qed (use assms(1) allocations_valid [OF x(1)] in \<open>simp_all add: f_def rsv_def flow_terminal_def frame_simps\<close>)
  then have att: "good_step R ?h (?h\<lparr>g_gen := gen, g_reservations := AList.update rid rsv (g_reservations g),
      g_flows := AList.update (fs_id spec) f (g_flows g)\<rparr>)"
    by (simp add: frame_simps)
  have h: "good_step R g ?h"
    by (rule good_step_trans [OF good_step_trans [OF good_step_now_next good_step_now_next] good_step_now_next])
  have res: "reserve_flow R' spec hops least b g = (Inr \<lparr>ad_admitted = True, ad_flow = fs_id spec,
      ad_decision = (make_decision spec Admit ?x (least < cap_value (fs_requested_preferred spec))
        ''admitted with grant'' b)\<lparr>d_granted := Capacity ?x, d_competing_flows := [fs_id spec]\<rparr>,
      ad_reservation = Some rsv\<rparr>,
      recompute_usage R' (?h\<lparr>g_gen := gen, g_reservations := AList.update rid rsv (g_reservations g),
        g_flows := AList.update (fs_id spec) f (g_flows g)\<rparr>))"
    using gen by (simp add: reserve_flow_def Let_def mk_allocations_ok [OF x(1)] x(1) rsv_def f_def frame_simps)
  show "good_step R g (snd (reserve_flow R' spec hops least b g))"
    unfolding res snd_conv by (rule good_step_usage [OF good_step_trans [OF h att]])
  show "\<exists>res. fst (reserve_flow R' spec hops least b g) = Inr res" by (simp add: res)
qed

lemma validate_flow_spec_ok:
  assumes "validate_flow_spec spec = None" "FlowSpec_wf spec" "is_double R (cap_value (fs_requested_min spec))"
    "is_double R (cap_value (fs_requested_preferred spec))" "is_double R (cap_value (fs_requested_max spec))"
  shows "spec_ok R spec"
  using assms validate_flow_spec_ordered by (simp add: spec_ok_def)

text \<open>What the type \<^verbatim>\<open>Capacity\<close> guarantees of a specification: its rates are doubles in range.\<close>

definition request_ok :: "(rat \<Rightarrow> rat) \<Rightarrow> FlowSpec \<Rightarrow> bool" where
  "request_ok R spec \<longleftrightarrow> rate_ok R (cap_value (fs_requested_min spec)) \<and>
     rate_ok R (cap_value (fs_requested_preferred spec)) \<and> rate_ok R (cap_value (fs_requested_max spec))"

lemma request_ok_valid: "request_ok R spec \<Longrightarrow> validate_flow_spec spec = None \<Longrightarrow> spec_ok R spec"
  by (rule validate_flow_spec_ok) (simp_all add: request_ok_def rate_ok_def FlowSpec_wf_def valid_cap_def)

lemma good_step_submit_flow:
  assumes "request_ok R spec"
  shows "good_step R g (snd (submit_flow R' spec g))" "\<exists>res. fst (submit_flow R' spec g) = Inr res"
proof -
  let ?g = "recompute_allocated R' (recompute_reserved R' (recompute_governed R' g))"
  have step: "good_step R g ?g" "good_step R ?g (count_submitted spec ?g)"
    by (rule good_step_trans [OF good_step_trans [OF good_step_recompute_governed good_step_recompute(1)]
          good_step_recompute(2)], rule good_step_count_submitted)
  have flows: "g_flows (count_submitted spec ?g) = g_flows g"
    by (simp add: count_submitted_def Let_def frame_simps)
  have "good_step R g (snd (submit_flow R' spec g)) \<and> (\<exists>res. fst (submit_flow R' spec g) = Inr res)"
  proof (cases "validate_flow_spec spec = None \<and> map_of (g_flows g) (fs_id spec) = None")
    case True
    then have ok: "spec_ok R spec" using request_ok_valid [OF assms] by simp
    have new: "map_of (g_flows (count_submitted spec ?g)) (fs_id spec) = None" using True flows by simp
    show ?thesis
    proof (cases "map_of (g_paths g) (fs_path spec)")
      case None
      then show ?thesis using True by (simp add: submit_flow_def)
    next
      case (Some p)
      obtain feas least b where scan: "scan_hops R' (g_resources ?g) (cap_value (fs_requested_min spec))
          (path_hops p) (True, kMaxRate, None) = (feas, least, b)"
        by (metis prod_cases3)
      have s: "submit_flow R' spec g =
          (if \<not> feas then (case park_flow spec b (count_submitted spec ?g) of (res, g) \<Rightarrow> (Inr res, g))
           else reserve_flow R' spec (path_hops p) least b (count_submitted spec ?g))"
        using True Some scan by (simp add: submit_flow_def Let_def)
      show ?thesis
        using good_step_park_flow [OF new ok, of b] good_step_reserve_flow [OF new ok, of R' "path_hops p" least b]
          good_step_trans [OF good_step_trans [OF step]]
        by (cases feas) (auto simp: s split: prod.splits)
    qed
  qed (auto simp: submit_flow_def split: option.splits)
  then show "good_step R g (snd (submit_flow R' spec g))" "\<exists>res. fst (submit_flow R' spec g) = Inr res"
    by auto
qed

text \<open>A flow that reaches a terminal state gives up its reservation in the same step.\<close>

lemma good_step_finish:
  assumes look: "map_of (g_flows g) fid = Some f"
    and ok: "flow_ok R fid f \<Longrightarrow> flow_ok R fid f'" and ev: "flow_evolves f f'"
  shows "good_step R g (release_of f (g\<lparr>g_flows := AList.update fid f' (g_flows g)\<rparr>))"
proof -
  let ?h = "release_of f g"
  have "good_step R g (?h\<lparr>g_flows := AList.update fid f' (g_flows ?h)\<rparr>)"
  proof (rule good_step_chain [OF good_step_release_of])
    show "gens_ok ?h (?h\<lparr>g_flows := AList.update fid f' (g_flows ?h)\<rparr>)" by (rule gens_ok_same) simp
    assume inv: "inv_core R g" "inv_core R ?h"
    show "good_step R ?h (?h\<lparr>g_flows := AList.update fid f' (g_flows ?h)\<rparr>)"
      using ok [OF inv_coreD(1) [OF inv(1) look]] ev look released_owns_none [OF inv(1) look]
      by (intro good_step_flow) (auto simp: frame_simps)
  qed
  then show ?thesis by (simp add: release_of_flows_commute frame_simps)
qed

lemma set_flow_state_Inr: "set_flow_state s f = Inr f' \<Longrightarrow> f' = f\<lparr>fr_state := s\<rparr> \<and> flow_transition (fr_state f) s = Some s"
  using flow_transition_cases by (auto simp: set_flow_state_def split: option.splits)

lemma set_flow_state_evolves:
  "set_flow_state s f = Inr f' \<Longrightarrow> flow_evolves f f'"
  using flow_reaches_one by (fastforce dest!: set_flow_state_Inr simp: flow_evolves_def)

lemma good_step_cancel_flow:
  "good_step R g (snd (cancel_flow R' fid reason g))"
  "inv_core R g \<Longrightarrow> \<exists>b. fst (cancel_flow R' fid reason g) = Inr b"
proof -
  show "good_step R g (snd (cancel_flow R' fid reason g))"
  proof (cases "map_of (g_flows g) fid")
    case (Some f)
    show ?thesis
    proof (cases "fr_state f = Completed \<or> fr_state f = Cancelled \<or> fr_state f = Failed")
      case False
      show ?thesis
      proof (cases "set_flow_state Cancelled f")
        case (Inr f')
        let ?f = "f'\<lparr>fr_last_error := reason\<rparr>"
        have f': "f' = f\<lparr>fr_state := Cancelled\<rparr>" using set_flow_state_Inr [OF Inr] by simp
        have "good_step R g (release_of f (g\<lparr>g_flows := AList.update fid ?f (g_flows g)\<rparr>))"
          using Some set_flow_state_evolves [OF Inr]
          by (intro good_step_finish) (auto simp: flow_ok_def f' flow_evolves_def)
        moreover have "release_of f = release_of ?f" by (simp add: release_of_def f' fun_eq_iff)
        ultimately have "good_step R g (recompute_usage R' (release_of ?f (g\<lparr>g_flows := AList.update fid ?f (g_flows g)\<rparr>)))"
          by (intro good_step_usage) simp
        then show ?thesis using Some False Inr by (simp add: cancel_flow_def Let_def)
      qed (use Some False in \<open>simp add: cancel_flow_def\<close>)
    qed (use Some in \<open>simp add: cancel_flow_def\<close>)
  qed (simp add: cancel_flow_def)
  assume inv: "inv_core R g"
  show "\<exists>b. fst (cancel_flow R' fid reason g) = Inr b"
  proof (cases "map_of (g_flows g) fid")
    case (Some f)
    have "flow_terminal (fr_state f) \<or> set_flow_state Cancelled f = Inr (f\<lparr>fr_state := Cancelled\<rparr>)"
    proof (cases "flow_terminal (fr_state f)")
      case False
      then have "flow_transition (fr_state f) Cancelled = Some Cancelled"
        using inv_coreD(1) [OF inv Some] by (intro flow_transition_cancel) (auto simp: flow_ok_def)
      then show ?thesis by (simp add: set_flow_state_def)
    qed simp
    then show ?thesis using Some by (auto simp: cancel_flow_def Let_def flow_terminal_def)
  qed (auto simp: cancel_flow_def)
qed

lemma good_step_report_completion: "good_step R g (snd (report_completion R' fid a b c n g))"
proof (cases "\<exists>f. map_of (g_flows g) fid = Some f \<and> report_ok g f a b c")
  case True
  then obtain f where f: "map_of (g_flows g) fid = Some f" "report_ok g f a b c" by blast
  let ?f = "completed_flow g n f"
  have run: "fr_state f = Running" by (rule report_ok_running [OF f(2)])
  have "flow_evolves f ?f"
    using run flow_reaches_one [OF flow_transition_dispatch(5)]
    by (simp add: flow_evolves_def completed_flow_def)
  then have fin: "good_step R (now_next g) (release_of f ((now_next g)\<lparr>g_flows := AList.update fid ?f (g_flows (now_next g))\<rparr>))"
    using f run by (intro good_step_finish) (auto simp: flow_ok_def completed_flow_def frame_simps)
  have comm: "release_of ?f (settle_accounting R' (fr_spec f) h) = settle_accounting R' (fr_spec f) (release_of f h)" for h
    by (auto simp: release_of_def release_reservation_internal_def reservation_move_def settle_accounting_def
        Let_def completed_flow_def split: option.splits)
  have acc: "good_step R h (settle_accounting R' s h)" for h s
    by (rule good_step_frame) (simp_all add: frame_simps)
  show ?thesis
    unfolding report_completion_accepted [OF f] snd_conv comm
    using good_step_trans [OF good_step_now_next fin] by (intro good_step_usage good_step_trans [OF _ acc]) (simp add: frame_simps)
next
  case False
  then show ?thesis using report_completion_result [of R' fid a b c n g] by (metis prod.collapse snd_conv good_step_refl)
qed

lemma good_step_flow_update:
  assumes look: "map_of (g_flows g) fid = Some f"
    and ok: "flow_ok R fid f \<Longrightarrow> flow_ok R fid f'" and ev: "flow_evolves f f'"
    and keep: "fr_reservation f' = fr_reservation f" "flow_terminal (fr_state f') \<Longrightarrow> flow_terminal (fr_state f)"
  shows "good_step R g (g\<lparr>g_flows := AList.update fid f' (g_flows g)\<rparr>)"
proof (rule good_step_flow)
  fix rid assume inv: "inv_core R g" and own: "owns_active g fid rid"
  then obtain rsv where "map_of (g_reservations g) rid = Some rsv" "rv_state rsv = RActive" "rv_flow rsv = fid"
    by (auto simp: owns_active_def)
  then show "fr_reservation f' = Some rid \<and> \<not> flow_terminal (fr_state f')"
    using inv_coreD(2) [OF inv, of rid rsv] look keep by (auto simp: resv_ok_def)
qed (use assms inv_coreD(1) in auto)

lemma good_step_report_progress: "good_step R g (snd (report_progress fid a b c n g))"
proof -
  have "good_step R (now_next g) ((now_next g)\<lparr>g_flows := AList.update fid
      (f\<lparr>fr_bytes_done := max (fr_bytes_done f) n, fr_last_ms := now g\<rparr>) (g_flows (now_next g))\<rparr>)"
    if "map_of (g_flows g) fid = Some f" for f
    using that by (intro good_step_flow_update [of _ _ f]) (auto simp: flow_ok_def flow_evolves_def frame_simps flow_reaches.stay)
  from good_step_trans [OF good_step_now_next this] show ?thesis
    by (auto simp: report_progress_def Let_def frame_simps split: option.splits)
qed

section \<open>Resuming and workers\<close>

lemma fmax_grant_bounds:
  assumes "flow_ok R fid f"
  shows "is_valid_rate (fmax (fr_granted f) (cap_value (fs_requested_min (fr_spec f))))"
    "fmax (fr_granted f) (cap_value (fs_requested_min (fr_spec f))) \<le> cap_value (fs_requested_max (fr_spec f))"
proof -
  have ord: "spec_ordered (fr_spec f)" using assms by (simp add: flow_ok_def spec_ok_def)
  obtain x where "fr_granted f = Fin x" "0 \<le> x" "Fin x \<le> cap_value (fs_requested_max (fr_spec f))"
    using assms ord by (cases "fr_granted f") (auto simp: flow_ok_def elim!: spec_ordered_Fin)
  then show "is_valid_rate (fmax (fr_granted f) (cap_value (fs_requested_min (fr_spec f))))"
    "fmax (fr_granted f) (cap_value (fs_requested_min (fr_spec f))) \<le> cap_value (fs_requested_max (fr_spec f))"
    using ord by (auto elim!: spec_ordered_Fin)
qed

lemma restart_grant_bounds:
  assumes "flow_ok R fid f"
  shows "is_valid_rate (restart_grant f)" "restart_grant f \<le> cap_value (fs_requested_max (fr_spec f))"
  using fmax_grant_bounds [OF assms] assms
  by (auto simp: restart_grant_def Let_def flow_ok_def spec_ok_def spec_ordered_def FlowSpec_wf_def valid_cap_def)

lemma good_step_resume_flow:
  assumes "inv_core R g"
  shows "good_step R g (snd (resume_flow fid g))" "\<exists>b. fst (resume_flow fid g) = Inr b"
proof -
  have "good_step R g (snd (resume_flow fid g)) \<and> (\<exists>b. fst (resume_flow fid g) = Inr b)"
  proof (cases "\<exists>f. map_of (g_flows g) fid = Some f \<and> (fr_state f = Preempted \<or> fr_state f = Throttled)")
    case True
    then obtain f where f: "map_of (g_flows g) fid = Some f" "fr_state f = Preempted \<or> fr_state f = Throttled" by blast
    note ok = inv_coreD(1) [OF assms f(1)]
    have st: "set_flow_state Reserved h = Inr (h\<lparr>fr_state := Reserved\<rparr>)" "flow_reaches (fr_state h) Reserved"
      if "fr_state h = fr_state f" for h
      using that f(2) flow_transition_dispatch(4) [of "fr_state f"] by (auto simp: set_flow_state_def intro: flow_reaches_one)
    show ?thesis
    proof (cases "\<exists>p. fr_reservation f = None \<and> map_of (g_paths g) (fs_path (fr_spec f)) = Some p")
      case True
      then obtain p where p: "fr_reservation f = None" "map_of (g_paths g) (fs_path (fr_spec f)) = Some p" by blast
      obtain rid :: ReservationId and gen where gen: "IdGen_next (g_gen g) = (rid, gen)" by fastforce
      let ?x = "fmax (fr_granted f) (cap_value (fs_requested_min (fr_spec f)))"
      let ?f = "f\<lparr>fr_reservation := Some rid, fr_state := Reserved\<rparr>"
      let ?rsv = "mk_reservation (g\<lparr>g_gen := gen\<rparr>) rid (fr_spec f) null_id
        (map (\<lambda>hop. \<lparr>al_resource = hop_resource hop, al_allocated = Capacity ?x\<rparr>) (path_hops p))"
      have "good_step R g (g\<lparr>g_gen := gen, g_reservations := AList.update rid ?rsv (g_reservations g),
          g_flows := AList.update fid ?f (g_flows g)\<rparr>)"
        using ok f(1) p(1) st(2) [of f] inv_owns_active [OF assms _ f(1)]
          allocations_valid [OF fmax_grant_bounds(1) [OF ok]]
        by (intro good_step_attach gen) (auto simp: flow_ok_def flow_terminal_def flow_evolves_def)
      then show ?thesis using f p gen fmax_grant_bounds(1) [OF ok] st(1)
        by (auto simp: resume_flow_def mk_allocations_ok Let_def)
    next
      case False
      have "good_step R g (g\<lparr>g_flows := AList.update fid (f\<lparr>fr_state := Reserved\<rparr>) (g_flows g)\<rparr>)"
        using f(1) st(2) [of f]
        by (intro good_step_flow_update) (auto simp: flow_ok_def flow_evolves_def flow_terminal_def)
      then show ?thesis using f False st(1) by (cases "fr_reservation f") (auto simp: resume_flow_def split: option.splits)
    qed
  qed (auto simp: resume_flow_def split: option.splits)
  then show "good_step R g (snd (resume_flow fid g))" "\<exists>b. fst (resume_flow fid g) = Inr b" by auto
qed

lemma good_step_map_flows_inv:
  assumes "\<And>f fid. inv_core R g \<Longrightarrow> map_of (g_flows g) fid = Some f \<Longrightarrow>
      flow_ok R fid (h f) \<and> flow_evolves f (h f) \<and> fr_reservation (h f) = fr_reservation f \<and>
      (flow_terminal (fr_state (h f)) \<longleftrightarrow> flow_terminal (fr_state f))"
  shows "good_step R g (g\<lparr>g_flows := map_vals h (g_flows g)\<rparr>)"
  unfolding good_step_def
proof (intro conjI impI)
  show "gens_ok g (g\<lparr>g_flows := map_vals h (g_flows g)\<rparr>)" by (simp add: gens_ok_def)
  assume inv: "inv_core R g"
  have "resv_ok (map_vals h (g_flows g)) rid rsv" if "map_of (g_reservations g) rid = Some rsv" for rid rsv
    using inv_coreD(2) [OF inv that] assms [OF inv] by (fastforce simp: resv_ok_def)
  moreover have "flow_ok R fid f'" if "map_of (map_vals h (g_flows g)) fid = Some f'" for fid f'
    using that assms [OF inv] by auto
  ultimately show "inv_core R (g\<lparr>g_flows := map_vals h (g_flows g)\<rparr>)"
    using inv unfolding inv_core_def by (simp add: gen_fresh_def)
  show "evolves g (g\<lparr>g_flows := map_vals h (g_flows g)\<rparr>)" using assms [OF inv] by (auto simp: evolves_def)
qed

lemma good_step_map_flows:
  assumes "\<And>f fid. flow_ok R fid f \<Longrightarrow> flow_ok R fid (h f)" "\<And>f. flow_evolves f (h f)"
    "\<And>f. fr_reservation (h f) = fr_reservation f" "\<And>f. flow_terminal (fr_state (h f)) \<longleftrightarrow> flow_terminal (fr_state f)"
  shows "good_step R g (g\<lparr>g_flows := map_vals h (g_flows g)\<rparr>)"
  using assms inv_coreD(1) by (intro good_step_map_flows_inv) blast

lemma good_step_deregister: "good_step R g (deregister_worker w g)"
proof -
  let ?g = "case map_of (g_workers g) w of None \<Rightarrow> g
    | Some v \<Rightarrow> g\<lparr>g_workers := AList.update w (v\<lparr>wk_alive := False\<rparr>) (g_workers g)\<rparr>"
  have "good_step R g ?g" by (rule good_step_frame) (auto split: option.splits)
  moreover have "good_step R ?g (?g\<lparr>g_flows := map_vals (lose_worker w) (g_flows ?g)\<rparr>)"
    by (rule good_step_map_flows) (auto simp: lose_worker_def flow_ok_def flow_evolves_def flow_reaches.stay)
  ultimately show ?thesis using good_step_trans by (simp add: deregister_worker_def Let_def)
qed

lemma good_stepI:
  assumes "gens_ok g g'" "inv_core R g \<Longrightarrow> good_step R g g'"
  shows "good_step R g g'"
  using assms by (auto simp: good_step_def)

lemma gens_ok_trans3: "gens_ok g (g\<lparr>g_gen := a\<rparr>) \<Longrightarrow> g_gen g' = a \<Longrightarrow> gens_ok g g'"
  by (simp add: gens_ok_def)

lemma restart_attempt_simps [simp]:
  "fr_state (restart_attempt reg a f) = fr_state f" "fr_granted (restart_attempt reg a f) = fr_granted f"
  "fr_reservation (restart_attempt reg a f) = fr_reservation f"
  "fs_path (fr_spec (restart_attempt reg a f)) = fs_path (fr_spec f)"
  "fs_id (fr_spec (restart_attempt reg a f)) = fs_id (fr_spec f)"
  "same_request (fr_spec f) (fr_spec (restart_attempt reg a f))"
  by (simp_all add: restart_attempt_def same_request_def)

lemma flow_ok_restart_attempt:
  "flow_ok R fid f \<Longrightarrow> flow_ok R fid (restart_attempt reg a f)"
  by (simp add: flow_ok_def restart_attempt_def spec_ok_def spec_ordered_def FlowSpec_wf_def)

lemma restart_flow_gens: "gens_ok g (snd (restart_flow reg fid f g))"
proof -
  obtain attempt :: AttemptId and gen where 1: "IdGen_next (g_gen g) = (attempt, gen)" by fastforce
  obtain rid :: ReservationId and gen' where 2: "IdGen_next gen = (rid, gen')" by fastforce
  have a: "gens_ok g (g\<lparr>g_gen := gen\<rparr>)" by (rule gens_ok_next(1) [OF 1])
  have b: "gens_ok g (g\<lparr>g_gen := gen'\<rparr>)"
    using gens_ok_trans [OF a gens_ok_next(1) [of "g\<lparr>g_gen := gen\<rparr>", simplified, OF 2]] by simp
  have "g_gen (snd (restart_flow reg fid f g)) = gen \<or> g_gen (snd (restart_flow reg fid f g)) = gen'"
    by (auto simp: restart_flow_def Let_def frame_simps 1 2 split: option.splits sum.splits prod.splits)
  then show ?thesis using a b gens_ok_trans3 by blast
qed

lemma restart_flow_good:
  assumes inv: "inv_core R g" and look: "map_of (g_flows g) fid = Some f" and run: "fr_state f = Running"
  shows "good_step R g (snd (restart_flow reg fid f g))" "fst (restart_flow reg fid f g) = Inr ()"
proof -
  note ok = inv_coreD(1) [OF inv look]
  obtain attempt :: AttemptId and gen where 1: "IdGen_next (g_gen g) = (attempt, gen)" by fastforce
  obtain rid :: ReservationId and gen' where 2: "IdGen_next gen = (rid, gen')" by fastforce
  define f1 where "f1 = restart_attempt reg attempt f"
  define h where "h = (release_of f g)\<lparr>g_gen := gen\<rparr>"
  have ok1: "flow_ok R fid f1" unfolding f1_def by (rule flow_ok_restart_attempt [OF ok])
  have "gens_ok (release_of f g) h"
    unfolding h_def using gens_ok_next(1) [of "release_of f g" attempt gen] 1 by (simp add: frame_simps)
  then have gh: "good_step R g h"
    unfolding h_def by (rule good_step_trans [OF good_step_release_of good_step_gen])
  have none: "\<not> owns_active h fid r" for r
    using released_owns_none [OF inv look, of r] by (simp add: h_def owns_active_def)
  have st: "set_flow_state Reserved v = Inr (v\<lparr>fr_state := Reserved\<rparr>)" if "fr_state v = Running" for v
    using that by (simp add: set_flow_state_def flow_transition_dispatch)
  have ev: "flow_evolves f (f1\<lparr>fr_reservation := r, fr_granted := x, fr_state := Reserved\<rparr>)"
    "flow_evolves f (f1\<lparr>fr_state := Reserved\<rparr>)" for x r
    using run flow_reaches_one [OF flow_transition_dispatch(4) [of Running]]
    by (simp_all add: flow_evolves_def f1_def)
  have "good_step R g (snd (restart_flow reg fid f g)) \<and> fst (restart_flow reg fid f g) = Inr ()"
  proof (cases "map_of (g_paths g) (fs_path (fr_spec f))")
    case None
    have "restart_flow reg fid f g = (Inr (), h\<lparr>g_flows := AList.update fid (f1\<lparr>fr_state := Reserved\<rparr>) (g_flows h)\<rparr>)"
      using None run st [of f1] by (simp add: restart_flow_def Let_def frame_simps 1 h_def f1_def)
    moreover have "good_step R h (h\<lparr>g_flows := AList.update fid (f1\<lparr>fr_state := Reserved\<rparr>) (g_flows h)\<rparr>)"
      using none ok1 ev(2) look by (intro good_step_flow) (auto simp: flow_ok_def h_def frame_simps)
    ultimately show ?thesis using good_step_trans [OF gh] by simp
  next
    case (Some p)
    let ?x = "restart_grant f1"
    let ?f = "f1\<lparr>fr_reservation := Some rid, fr_granted := ?x, fr_state := Reserved\<rparr>"
    let ?rsv = "mk_reservation (h\<lparr>g_gen := gen'\<rparr>) rid (fr_spec f1) (wr_boot reg)
      (map (\<lambda>hop. \<lparr>al_resource = hop_resource hop, al_allocated = Capacity ?x\<rparr>) (path_hops p))"
    note x = restart_grant_bounds [OF ok1]
    have "restart_flow reg fid f g = (Inr (), h\<lparr>g_gen := gen',
        g_reservations := AList.update rid ?rsv (g_reservations h), g_flows := AList.update fid ?f (g_flows h)\<rparr>)"
      using Some run st [of "f1\<lparr>fr_reservation := Some rid, fr_granted := ?x\<rparr>"] mk_allocations_ok [OF x(1)]
      by (simp add: restart_flow_def Let_def frame_simps 1 2 h_def f1_def)
    moreover have "good_step R h (h\<lparr>g_gen := gen',
        g_reservations := AList.update rid ?rsv (g_reservations h), g_flows := AList.update fid ?f (g_flows h)\<rparr>)"
    proof (rule good_step_attach)
      show "IdGen_next (g_gen h) = (rid, gen')" using 2 by (simp add: h_def)
      show "flow_ok R fid ?f" using ok1 x by (auto simp: flow_ok_def is_valid_rate_nonneg)
      show "flow_evolves f0 ?f" if "map_of (g_flows h) fid = Some f0" for f0
        using that ev(1) look by (simp add: h_def frame_simps)
    qed (use none ok allocations_valid [OF x(1)] in \<open>auto simp: flow_terminal_def f1_def flow_ok_def\<close>)
    ultimately show ?thesis using good_step_trans [OF gh] by simp
  qed
  then show "good_step R g (snd (restart_flow reg fid f g))" "fst (restart_flow reg fid f g) = Inr ()" by auto
qed

lemma restart_flow_step:
  assumes "map_of (g_flows g) fid = Some f" "on_worker (wr_worker reg) f"
  shows "good_step R g (snd (restart_flow reg fid f g))"
    "inv_core R g \<Longrightarrow> fst (restart_flow reg fid f g) = Inr ()"
  using restart_flow_good [OF _ assms(1)] restart_flow_gens assms(2)
  by (auto simp: on_worker_def intro: good_stepI)

lemma restart_loop_gens: "gens_ok g (snd (restart_loop reg fids g))"
proof (induction fids arbitrary: g)
  case (Cons fid fids)
  have "gens_ok g g' \<Longrightarrow> gens_ok g (snd (restart_loop reg fids g'))" for g'
    using Cons.IH gens_ok_trans by blast
  moreover have "restart_flow reg fid f g = (r, g') \<Longrightarrow> gens_ok g g'" for f r g'
    using restart_flow_gens [of g reg fid f] by simp
  ultimately show ?case using Cons.IH
    by (auto split: option.splits prod.splits sum.splits)
qed (simp add: gens_ok_def)

lemma restart_loop_good:
  "good_step R g (snd (restart_loop reg fids g))"
  "inv_core R g \<Longrightarrow> gen_draws (g_gen (snd (restart_loop reg fids g))) \<le> 2 ^ 64 \<Longrightarrow>
     fst (restart_loop reg fids g) = Inr ()"
proof (induction fids arbitrary: g)
  case (Cons fid fids)
  note step = restart_flow_step
  { case 1
    show ?case
    proof (cases "\<exists>f. map_of (g_flows g) fid = Some f \<and> on_worker (wr_worker reg) f")
      case True
      then obtain f where f: "map_of (g_flows g) fid = Some f" "on_worker (wr_worker reg) f" by blast
      obtain r g1 where g1: "restart_flow reg fid f g = (r, g1)" by fastforce
      have "good_step R g g1" using step(1) [OF f] g1 by simp
      then show ?thesis using good_step_trans [OF _ Cons.IH(1)] f g1 by (cases r) auto
    next
      case False
      then show ?thesis using Cons.IH(1) [of g] by (auto split: option.splits)
    qed
  }
  { case 2
    show ?case
    proof (cases "\<exists>f. map_of (g_flows g) fid = Some f \<and> on_worker (wr_worker reg) f")
      case True
      then obtain f where f: "map_of (g_flows g) fid = Some f" "on_worker (wr_worker reg) f" by blast
      obtain g1 where g1: "restart_flow reg fid f g = (Inr (), g1)"
        using step(2) [OF f 2(1)] by (metis prod.collapse)
      have eq: "restart_loop reg (fid # fids) g = restart_loop reg fids g1" using f g1 by simp
      have "gen_draws (g_gen g1) \<le> gen_draws (g_gen (snd (restart_loop reg fids g1)))"
        using restart_loop_gens [of g1 reg fids] by (simp add: gens_ok_def)
      then have "inv_core R g1" using step(1) [OF f] 2 g1 eq by (simp add: good_step_def)
      then show ?thesis using Cons.IH(2) [of g1] 2(2) eq by simp
    next
      case False
      then show ?thesis using Cons.IH(2) [of g] 2 by (auto split: option.splits)
    qed
  }
qed simp_all

lemma good_step_register_resource: "good_step R g (register_resource g rs)"
proof -
  obtain n gen where n: "IdGen_next64 (g_gen g) = (n, gen)" by fastforce
  have gen: "good_step R g (g\<lparr>g_gen := gen\<rparr>)" using gens_ok_next64 [OF n] by (rule good_step_gen)
  have frame: "good_step R h ((now_next h)\<lparr>g_resources := x\<rparr>)" for h x
    by (rule good_step_frame) (simp_all add: frame_simps)
  show ?thesis
    unfolding register_resource_def Let_def n by (auto intro: frame good_step_trans [OF gen])
qed

lemma good_step_foldl: "(\<And>g x. good_step R g (h g x)) \<Longrightarrow> good_step R g (foldl h g xs)"
proof (induction xs arbitrary: g)
  case (Cons x xs)
  show ?case using good_step_trans [OF Cons.prems Cons.IH [OF Cons.prems]] by simp
qed simp

definition registered :: "WorkerRegistration \<Rightarrow> gov \<Rightarrow> gov" where
  "registered reg g = foldl register_resource
     (g\<lparr>g_workers := AList.update (wr_worker reg)
        \<lparr>wk_id = wr_worker reg, wk_boot = wr_boot reg, wk_backend = wr_backend reg,
         wk_protocol = wr_protocol_version reg, wk_alive = True,
         wk_back_resources = map rs_id (wr_inventory reg)\<rparr> (g_workers g)\<rparr>) (wr_inventory reg)"

definition is_restart :: "WorkerRegistration \<Rightarrow> gov \<Rightarrow> bool" where
  "is_restart reg g \<longleftrightarrow>
     (\<exists>w. map_of (g_workers g) (wr_worker reg) = Some w \<and> wk_alive w \<and> wk_boot w \<noteq> wr_boot reg)"

lemma register_worker_eq:
  "register_worker R reg g =
     (case (if is_restart reg g then restart_loop reg (keys (g_flows (registered reg g))) (registered reg g)
            else (Inr (), registered reg g)) of
        (Inl e, g) \<Rightarrow> (Inl e, g)
      | (Inr _, g) \<Rightarrow> (Inr (wr_worker reg), recompute_governed R g))"
  by (auto simp: register_worker_def is_restart_def registered_def Let_def split: option.splits)

lemma good_step_registered: "good_step R g (registered reg g)"
proof -
  have "good_step R g (g\<lparr>g_workers := x\<rparr>)" for x by (rule good_step_frame) simp_all
  then show ?thesis
    unfolding registered_def
    by (rule good_step_trans [OF _ good_step_foldl]) (rule good_step_register_resource)
qed

lemma good_step_register_worker: "good_step R g (snd (register_worker R' reg g))"
proof -
  have "good_step R g (snd (if is_restart reg g
      then restart_loop reg (keys (g_flows (registered reg g))) (registered reg g) else (Inr (), registered reg g)))"
    using good_step_registered good_step_trans [OF good_step_registered restart_loop_good(1)] by auto
  then show ?thesis
    using good_step_trans [OF _ good_step_recompute_governed] by (auto simp: register_worker_eq split: prod.splits sum.splits)
qed

lemma register_worker_returns:
  assumes "inv_core R g" "gen_draws (g_gen (snd (register_worker R' reg g))) \<le> 2 ^ 64"
  shows "fst (register_worker R' reg g) = Inr (wr_worker reg)"
proof (cases "is_restart reg g")
  case True
  let ?h = "registered reg g"
  obtain r g' where l: "restart_loop reg (keys (g_flows ?h)) ?h = (r, g')" by fastforce
  have d: "gen_draws (g_gen g') \<le> 2 ^ 64"
    using assms(2) True l by (cases r) (auto simp: register_worker_eq frame_simps)
  then have "gen_draws (g_gen ?h) \<le> 2 ^ 64"
    using restart_loop_gens [of ?h reg "keys (g_flows ?h)"] by (simp add: l gens_ok_def)
  then have "inv_core R ?h" using good_step_registered assms(1) by (auto simp: good_step_def)
  then have "r = Inr ()" using restart_loop_good(2) [of R ?h reg "keys (g_flows ?h)"] l d by simp
  then show ?thesis using True l by (simp add: register_worker_eq)
qed (simp add: register_worker_eq)

end
