(* ===== verification/Governor_Contention.thy ===== *)
theory Governor_Contention
  imports Governor_Tick Governor_Frame
begin

text \<open>
  The contention map of the scheduler against its specification: the entries of a resource are
  those of the scheduled flows whose path crosses it, in the iteration order of the flows. The
  grants the scheduler collects are, for every flow, the least of its grants over the resources
  of its path.
\<close>

section \<open>Who competes for a resource\<close>

definition crosses :: "gov \<Rightarrow> ResourceId \<Rightarrow> FlowRT \<Rightarrow> bool" where
  "crosses g rid f \<longleftrightarrow>
     (case map_of (g_paths g) (fs_path (fr_spec f)) of
        None \<Rightarrow> False
      | Some p \<Rightarrow> rid \<in> set (map hop_resource (path_hops p)))"

definition users :: "gov \<Rightarrow> ResourceId \<Rightarrow> FlowRT list" where
  "users g rid = filter (\<lambda>f. scheduled (fr_state f) \<and> crosses g rid f) (map snd (g_flows g))"

definition flow_ids :: "FlowRT list \<Rightarrow> FlowId list" where
  "flow_ids fs = map (\<lambda>f. fs_id (fr_spec f)) fs"

lemma umap_entry_update [simp]:
  "umap_entry d k (AList.update k' v m) = (if k = k' then v else umap_entry d k m)"
  by (simp add: umap_entry_def)

lemma umap_entry_Nil [simp]: "umap_entry d k [] = d"
  by (simp add: umap_entry_def)

lemma touch_hops:
  "umap_entry [] rid (foldl touch_hop c hops) = umap_entry [] rid c"
  "rid \<notin> hop_resource ` set hops \<Longrightarrow> map_of (foldl touch_hop c hops) rid = map_of c rid"
  "distinct (keys c) \<Longrightarrow> distinct (keys (foldl touch_hop c hops))"
  by (induction hops arbitrary: c) (auto simp: touch_hop_def)

definition only_itself :: "AllocEntry \<Rightarrow> contention \<Rightarrow> bool" where
  "only_itself e c \<longleftrightarrow> (\<forall>rid. ae_flow e \<in> ae_flow ` set (umap_entry [] rid c) \<longrightarrow> e \<in> set (umap_entry [] rid c))"

lemma contend_hop_entry:
  "only_itself e c \<Longrightarrow> umap_entry [] rid (contend_hop e c hop) = umap_entry [] rid c @
     (if rid = hop_resource hop \<and> e \<notin> set (umap_entry [] rid c) then [e] else [])"
  by (auto simp: only_itself_def contend_hop_def Let_def image_iff)

lemma contend_hop_itself: "only_itself e c \<Longrightarrow> only_itself e (contend_hop e c hop)"
  using contend_hop_entry [of e c] unfolding only_itself_def by (auto split: if_splits)

lemma contend_hops:
  "only_itself e c \<Longrightarrow> umap_entry [] rid (foldl (contend_hop e) c hops) = umap_entry [] rid c @
     (if rid \<in> hop_resource ` set hops \<and> e \<notin> set (umap_entry [] rid c) then [e] else [])"
proof (induction hops arbitrary: c)
  case (Cons hop hops)
  show ?case
    using Cons.IH [OF contend_hop_itself [OF Cons.prems]] contend_hop_entry [OF Cons.prems, of rid]
    by auto
qed simp

lemma contend_hops_keys:
  "rid \<notin> hop_resource ` set hops \<Longrightarrow> map_of (foldl (contend_hop e) c hops) rid = map_of c rid"
  "distinct (keys c) \<Longrightarrow> distinct (keys (foldl (contend_hop e) c hops))"
  by (induction hops arbitrary: c) (auto simp: contend_hop_def Let_def)

text \<open>One flow after the others.\<close>

definition contention_spec :: "(rat \<Rightarrow> rat) \<Rightarrow> gov \<Rightarrow> f64 \<Rightarrow> FlowRT list \<Rightarrow> contention \<Rightarrow> bool" where
  "contention_spec R g t fs c \<longleftrightarrow> distinct (keys c) \<and>
     (\<forall>rid. umap_entry [] rid c =
        map (alloc_entry R g t) (filter (\<lambda>f. scheduled (fr_state f) \<and> crosses g rid f) fs)) \<and>
     (\<forall>rid. map_of c rid \<noteq> Some [])"

lemma contention_spec_contend:
  assumes "contention_spec R g t fs c" "fs_id (fr_spec f) \<notin> set (flow_ids fs)"
  shows "contention_spec R g t (fs @ [f]) (contend R g t c f)"
proof (cases "scheduled (fr_state f) \<and> map_of (g_paths g) (fs_path (fr_spec f)) \<noteq> None")
  case False
  then show ?thesis
    using assms(1) by (auto simp: contention_spec_def contend_def crosses_def split: option.splits)
next
  case True
  then obtain p where p: "map_of (g_paths g) (fs_path (fr_spec f)) = Some p" by auto
  let ?e = "alloc_entry R g t f" let ?c = "foldl touch_hop c (path_hops p)"
  have c': "contend R g t c f = foldl (contend_hop ?e) ?c (path_hops p)"
    using True p by (simp add: contend_def)
  have new: "ae_flow ?e \<notin> ae_flow ` set (umap_entry [] rid ?c)" for rid
    using assms by (auto simp: contention_spec_def touch_hops flow_ids_def alloc_entry_def image_iff)
  then have itself: "only_itself ?e ?c" by (simp add: only_itself_def)
  have "umap_entry [] rid (contend R g t c f) = umap_entry [] rid c @ (if rid \<in> hop_resource ` set (path_hops p) then [?e] else [])" for rid
    using contend_hops [OF itself, of rid] new [of rid] by (auto simp: c' touch_hops)
  note ent = this
  moreover have "map_of (contend R g t c f) rid \<noteq> Some []" for rid
  proof (cases "rid \<in> hop_resource ` set (path_hops p)")
    case True
    then show ?thesis using ent [of rid] by (auto simp: umap_entry_def)
  next
    case False
    then show ?thesis using assms(1) by (simp add: c' contend_hops_keys touch_hops contention_spec_def)
  qed
  moreover have "distinct (keys (contend R g t c f))"
    using assms(1) touch_hops(3) contend_hops_keys(2) by (simp add: c' contention_spec_def)
  ultimately show ?thesis
    using assms(1) True p unfolding contention_spec_def crosses_def by auto
qed

lemma contention_spec_foldl:
  "contention_spec R g t fs c \<Longrightarrow> distinct (flow_ids (fs @ fs')) \<Longrightarrow>
     contention_spec R g t (fs @ fs') (foldl (contend R g t) c fs')"
proof (induction fs' arbitrary: fs c)
  case (Cons f fs')
  have "contention_spec R g t (fs @ [f]) (contend R g t c f)"
    using Cons.prems by (intro contention_spec_contend) (auto simp: flow_ids_def)
  then show ?case using Cons.IH [of "fs @ [f]"] Cons.prems(2) by (simp add: flow_ids_def)
qed simp

lemma contention_of_spec:
  assumes "distinct (flow_ids (map snd (g_flows g)))"
  shows "contention_spec R g t (map snd (g_flows g)) (contention_of R g t)"
  using contention_spec_foldl [of R g t "[]" "[]" "map snd (g_flows g)"] assms
  by (simp add: contention_of_def) (simp add: contention_spec_def)

lemma contention_of_entries:
  assumes "distinct (flow_ids (map snd (g_flows g)))"
  shows "(rid, es) \<in> set (contention_of R g t) \<longleftrightarrow> es = map (alloc_entry R g t) (users g rid) \<and> es \<noteq> []"
proof -
  note spec = contention_of_spec [OF assms, of R t, unfolded contention_spec_def]
  have ent: "umap_entry [] rid (contention_of R g t) = map (alloc_entry R g t) (users g rid)"
    using spec by (simp add: users_def)
  have "(rid, es) \<in> set (contention_of R g t) \<longleftrightarrow> map_of (contention_of R g t) rid = Some es"
    using spec by (simp add: map_of_eq_Some_iff_set)
  also have "\<dots> \<longleftrightarrow> es = map (alloc_entry R g t) (users g rid) \<and> es \<noteq> []"
  proof (cases "map_of (contention_of R g t) rid")
    case None
    then show ?thesis using ent by (auto simp: umap_entry_def)
  next
    case (Some es')
    then have "es' \<noteq> []" using spec by auto
    then show ?thesis using Some ent by (auto simp: umap_entry_def)
  qed
  finally show ?thesis .
qed

section \<open>The least grant\<close>

definition nonneg_map :: "grants \<Rightarrow> bool" where
  "nonneg_map gm \<longleftrightarrow> (\<forall>fid x. map_of gm fid = Some x \<longrightarrow> f0 \<le> x)"

lemma nonneg_linear: "f0 \<le> x \<Longrightarrow> f0 \<le> y \<Longrightarrow> \<not> y < x \<Longrightarrow> x \<le> (y :: f64)"
  by (cases x; cases y) auto

lemma nonneg_refl: "f0 \<le> x \<Longrightarrow> x \<le> (x :: f64)"
  by (cases x) auto

lemma take_grant_step:
  assumes "nonneg_map gm" "f0 \<le> gv"
  shows "nonneg_map (take_grant gm (e, gv))"
    "\<exists>y. map_of (take_grant gm (e, gv)) (ae_flow e) = Some y \<and> y \<le> gv"
    "map_of gm fid = Some x \<Longrightarrow> \<exists>y. map_of (take_grant gm (e, gv)) fid = Some y \<and> y \<le> x"
proof -
  let ?gm = "take_grant gm (e, gv)"
  obtain y where y: "map_of ?gm (ae_flow e) = Some y" "f0 \<le> y" "y \<le> gv"
    "\<And>old. map_of gm (ae_flow e) = Some old \<Longrightarrow> y \<le> old"
  proof (cases "map_of gm (ae_flow e)")
    case None
    show ?thesis by (rule that [of gv]) (use None assms(2) in \<open>auto simp: take_grant_def nonneg_refl simp del: f64_le_refl_iff\<close>)
  next
    case (Some old)
    then have old: "f0 \<le> old" using assms(1) by (simp add: nonneg_map_def)
    have lin: "gv < old \<Longrightarrow> gv \<le> old" "\<not> gv < old \<Longrightarrow> old \<le> gv"
      using nonneg_linear [OF old assms(2)] by (auto simp: f64_le_iff)
    show ?thesis
      by (rule that [of "if gv < old then gv else old"])
        (use Some old assms(2) lin nonneg_refl [OF old] nonneg_refl [OF assms(2)] in \<open>simp_all add: take_grant_def\<close>)
  qed
  have other: "map_of ?gm fid = map_of gm fid" if "fid \<noteq> ae_flow e" for fid
    using that by (auto simp: take_grant_def split: option.splits)
  show "nonneg_map ?gm" using assms(1) y other unfolding nonneg_map_def by (metis option.inject)
  show "\<exists>y. map_of ?gm (ae_flow e) = Some y \<and> y \<le> gv" using y by blast
  show "\<exists>y. map_of ?gm fid = Some y \<and> y \<le> x" if "map_of gm fid = Some x"
  proof (cases "fid = ae_flow e")
    case True
    then show ?thesis using y that by auto
  next
    case False
    then show ?thesis using that other assms(1) nonneg_refl by (auto simp: nonneg_map_def)
  qed
qed

lemma take_grants_from:
  "map_of (foldl take_grant gm zs) fid = Some x \<Longrightarrow>
     map_of gm fid = Some x \<or> (\<exists>e. (e, x) \<in> set zs \<and> ae_flow e = fid)"
proof (induction zs arbitrary: gm)
  case (Cons z zs)
  have "map_of (take_grant gm z) fid = Some x \<Longrightarrow> map_of gm fid = Some x \<or> (\<exists>e. z = (e, x) \<and> ae_flow e = fid)"
    by (cases z) (auto simp: take_grant_def split: option.splits if_splits)
  then show ?case using Cons by fastforce
qed simp

lemma take_grants_le:
  assumes "nonneg_map gm" "list_all (\<lambda>z. f0 \<le> snd z) zs"
  shows "nonneg_map (foldl take_grant gm zs) \<and>
    (\<forall>(e, gv) \<in> set zs. \<exists>y. map_of (foldl take_grant gm zs) (ae_flow e) = Some y \<and> y \<le> gv) \<and>
    (\<forall>fid x. map_of gm fid = Some x \<longrightarrow> (\<exists>y. map_of (foldl take_grant gm zs) fid = Some y \<and> y \<le> x))"
  using assms
proof (induction zs arbitrary: gm)
  case Nil
  then show ?case using nonneg_refl by (auto simp: nonneg_map_def)
next
  case (Cons z zs)
  obtain e gv where z: "z = (e, gv)" by fastforce
  have gv: "f0 \<le> gv" and zs: "list_all (\<lambda>z. f0 \<le> snd z) zs" using Cons.prems(2) z by simp_all
  note step = take_grant_step [OF Cons.prems(1) gv, where e = e]
  note IH = Cons.IH [OF step(1) zs]
  have ih: "nonneg_map (foldl take_grant (take_grant gm z) zs)"
    "(e', gv') \<in> set zs \<Longrightarrow> \<exists>y. map_of (foldl take_grant (take_grant gm z) zs) (ae_flow e') = Some y \<and> y \<le> gv'"
    "map_of (take_grant gm z) fid = Some x \<Longrightarrow> \<exists>y. map_of (foldl take_grant (take_grant gm z) zs) fid = Some y \<and> y \<le> x"
    for e' gv' fid x
    using IH unfolding z by (blast, fastforce, blast)
  have "\<exists>y. map_of (foldl take_grant (take_grant gm z) zs) (ae_flow e) = Some y \<and> y \<le> gv"
    using step(2) ih(3) f64_le_trans unfolding z by metis
  moreover have "\<exists>y. map_of (foldl take_grant (take_grant gm z) zs) fid = Some y \<and> y \<le> x"
    if "map_of gm fid = Some x" for fid x
    using step(3) [OF that] ih(3) f64_le_trans unfolding z by metis
  ultimately show ?case using ih(1,2) z by auto
qed

text \<open>Every recorded grant comes out of a water-fill, and none is above the grant on any resource.\<close>

definition fill_of :: "(rat \<Rightarrow> rat) \<Rightarrow> (ResourceId, ResRT) umap \<Rightarrow> contention \<Rightarrow> ResourceId \<Rightarrow> AllocEntry list \<Rightarrow> AllocResult \<Rightarrow> bool" where
  "fill_of R res c rid es ar \<longleftrightarrow> (rid, es) \<in> set c \<and>
     (\<exists>r. map_of res rid = Some r \<and> allocate_weighted R es (resource_cap R r) = Some ar)"

lemma grant_loop_from:
  assumes "grant_loop R res c gm = Some gm'" "map_of gm' fid = Some x"
  shows "map_of gm fid = Some x \<or> (\<exists>rid es ar i. fill_of R res c rid es ar \<and> i < length es \<and>
    i < length (ar_granted ar) \<and> ae_flow (es ! i) = fid \<and> ar_granted ar ! i = x)"
  using assms
proof (induction R res c gm rule: grant_loop.induct)
  case (2 R res rid es c gm)
  show ?case
  proof (cases "map_of res rid")
    case None
    then show ?thesis using 2 by (fastforce simp: fill_of_def)
  next
    case (Some r)
    then obtain ar where ar: "allocate_weighted R es (resource_cap R r) = Some ar"
      using 2(3) by (auto split: option.splits)
    have fill: "fill_of R res ((rid, es) # c) rid es ar" using Some ar by (simp add: fill_of_def)
    have mono: "fill_of R res c rid' es' ar' \<Longrightarrow> fill_of R res ((rid, es) # c) rid' es' ar'" for rid' es' ar'
      by (simp add: fill_of_def)
    from 2(2) [OF Some ar] 2(3,4) Some ar
    have "map_of (foldl take_grant gm (zip es (ar_granted ar))) fid = Some x \<or>
      (\<exists>rid es ar i. fill_of R res c rid es ar \<and> i < length es \<and>
        i < length (ar_granted ar) \<and> ae_flow (es ! i) = fid \<and> ar_granted ar ! i = x)" by simp
    then show ?thesis
    proof
      assume "map_of (foldl take_grant gm (zip es (ar_granted ar))) fid = Some x"
      from take_grants_from [OF this] show ?thesis using fill by (auto simp: in_set_zip)
    qed (use mono in blast)
  qed
qed simp

lemma grant_loop_le:
  assumes "grant_loop R res c gm = Some gm'" "nonneg_map gm"
    and "\<And>rid es ar i. fill_of R res c rid es ar \<Longrightarrow> i < length es \<Longrightarrow> length (ar_granted ar) = length es \<and> f0 \<le> ar_granted ar ! i"
  shows "nonneg_map gm' \<and> (\<forall>fid x. map_of gm fid = Some x \<longrightarrow> (\<exists>y. map_of gm' fid = Some y \<and> y \<le> x)) \<and>
    (\<forall>rid es ar i. fill_of R res c rid es ar \<longrightarrow> i < length es \<longrightarrow>
       (\<exists>y. map_of gm' (ae_flow (es ! i)) = Some y \<and> y \<le> ar_granted ar ! i))"
  using assms
proof (induction R res c gm rule: grant_loop.induct)
  case (1 R res gm)
  then show ?case using nonneg_refl by (auto simp: nonneg_map_def fill_of_def)
next
  case (2 R res rid es c gm)
  have mono: "fill_of R res c rid' es' ar' \<Longrightarrow> fill_of R res ((rid, es) # c) rid' es' ar'" for rid' es' ar'
    by (simp add: fill_of_def)
  note ok = 2(5)
  show ?case
  proof (cases "map_of res rid")
    case None
    have same: "fill_of R res ((rid, es) # c) rid' es' ar' \<longleftrightarrow> fill_of R res c rid' es' ar'" for rid' es' ar'
      using None by (auto simp: fill_of_def)
    have gm': "grant_loop R res c gm = Some gm'" using 2(3) None by simp
    show ?thesis unfolding same by (rule 2(1) [OF None gm' 2(4)]) (use ok mono in blast)
  next
    case (Some r)
    then obtain ar where ar: "allocate_weighted R es (resource_cap R r) = Some ar"
      using 2(3) by (auto split: option.splits)
    let ?gm = "foldl take_grant gm (zip es (ar_granted ar))"
    have fill: "fill_of R res ((rid, es) # c) rid es ar" using Some ar by (simp add: fill_of_def)
    have inv: "fill_of R res ((rid, es) # c) rid' es' ar' \<Longrightarrow> fill_of R res c rid' es' ar' \<or> es' = es \<and> ar' = ar" for rid' es' ar'
      using Some ar by (auto simp: fill_of_def)
    have "list_all (\<lambda>z. f0 \<le> snd z) (zip es (ar_granted ar))"
      using ok [OF fill] by (auto simp: list_all_iff in_set_zip)
    then have tk: "nonneg_map ?gm"
      "(e, gv) \<in> set (zip es (ar_granted ar)) \<Longrightarrow> \<exists>y. map_of ?gm (ae_flow e) = Some y \<and> y \<le> gv"
      "map_of gm fid = Some x \<Longrightarrow> \<exists>y. map_of ?gm fid = Some y \<and> y \<le> x" for e gv fid x
      using take_grants_le [OF 2(4), of "zip es (ar_granted ar)"] by fastforce+
    have gm': "grant_loop R res c ?gm = Some gm'" using 2(3) Some ar by simp
    have ih: "nonneg_map gm'" "map_of ?gm fid = Some x \<Longrightarrow> \<exists>y. map_of gm' fid = Some y \<and> y \<le> x"
      "fill_of R res c rid' es' ar' \<Longrightarrow> i < length es' \<Longrightarrow> \<exists>y. map_of gm' (ae_flow (es' ! i)) = Some y \<and> y \<le> ar_granted ar' ! i"
      for fid x rid' es' ar' i
      using 2(2) [OF Some ar gm' tk(1)] ok [OF mono] by blast+
    have "\<exists>y. map_of gm' fid = Some y \<and> y \<le> x" if "map_of gm fid = Some x" for fid x
      using tk(3) [OF that] ih(2) f64_le_trans by metis
    moreover have "\<exists>y. map_of gm' (ae_flow (es ! i)) = Some y \<and> y \<le> ar_granted ar ! i" if "i < length es" for i
    proof -
      have "(es ! i, ar_granted ar ! i) \<in> set (zip es (ar_granted ar))"
        using ok [OF fill that] that by (force simp: in_set_zip)
      then obtain y where "map_of ?gm (ae_flow (es ! i)) = Some y" "y \<le> ar_granted ar ! i" using tk(2) by blast
      then show ?thesis using ih(2) f64_le_trans by metis
    qed
    ultimately show ?thesis using ih(1,3) inv by metis
  qed
qed

end
