(* ===== verification/Governor_Resources.thy ===== *)
theory Governor_Resources
  imports Governor_Contention Governor_Invariant
begin

text \<open>
  The resource table: the governed capacity is a valid rate, the reserved capacity is never
  negative, and so the capacity the scheduler hands out on a resource is a valid rate. The
  recomputations keep the specifications of the resources.
\<close>

definition all_res :: "(ResRT \<Rightarrow> bool) \<Rightarrow> (ResourceId, ResRT) umap \<Rightarrow> bool" where
  "all_res P res \<longleftrightarrow> (\<forall>r \<in> snd ` set res. P r)"

lemma all_res_lookup: "all_res P res \<Longrightarrow> map_of res rid = Some r \<Longrightarrow> P r"
  by (force simp: all_res_def dest: map_of_SomeD)

lemma all_res_update: "all_res P res \<Longrightarrow> P r \<Longrightarrow> all_res P (AList.update rid r res)"
  using set_update_subset [of rid r res] by (auto simp: all_res_def)

lemma all_res_map_vals: "all_res P (map_vals h res) \<longleftrightarrow> all_res (\<lambda>r. P (h r)) res"
  by (auto simp: all_res_def set_map_vals)

lemma all_res_mono: "all_res P res \<Longrightarrow> (\<And>r. P r \<Longrightarrow> Q r) \<Longrightarrow> all_res Q res"
  by (auto simp: all_res_def)

lemma all_res_foldl:
  assumes "\<And>res x. x \<in> set xs \<Longrightarrow> all_res P res \<Longrightarrow> all_res P (h res x)" "all_res P res"
  shows "all_res P (foldl h res xs)"
  using assms by (induction xs arbitrary: res) auto

section \<open>Which fields the recomputations write\<close>

lemma all_res_reserve_one:
  assumes "\<And>r x. P r \<Longrightarrow> f0 \<le> x \<Longrightarrow> P (r\<lparr>rr_reserved := fadd R (rr_reserved r) x\<rparr>)"
    and "list_all (\<lambda>al. valid_cap (al_allocated al)) (rv_allocations rsv)" "all_res P res"
  shows "all_res P (reserve_one R flows res rsv)"
proof -
  have "all_res P (add_reserved R res al)"
    if "al \<in> set (rv_allocations rsv)" "all_res P res" for al res
    using that assms(1,2) all_res_lookup [OF that(2)]
    by (auto simp: add_reserved_def list_all_iff valid_cap_def is_valid_rate_nonneg intro!: all_res_update split: option.splits)
  then show ?thesis using assms(3) by (auto simp: reserve_one_def intro!: all_res_foldl split: option.splits)
qed

lemma recompute_reserved_all_res:
  assumes "\<And>r x. P r \<Longrightarrow> f0 \<le> x \<Longrightarrow> P (r\<lparr>rr_reserved := fadd R (rr_reserved r) x\<rparr>)"
    and "\<And>rsv. rsv \<in> snd ` set (g_reservations g) \<Longrightarrow> list_all (\<lambda>al. valid_cap (al_allocated al)) (rv_allocations rsv)"
    and "all_res (\<lambda>r. P (r\<lparr>rr_reserved := f0\<rparr>)) (g_resources g)"
  shows "all_res P (g_resources (recompute_reserved R g))"
proof -
  have "all_res P (map_vals (\<lambda>r. r\<lparr>rr_reserved := f0\<rparr>) (g_resources g))"
    using assms(3) by (simp add: all_res_map_vals)
  then show ?thesis
    using assms(2) all_res_reserve_one [where P = P and R = R, OF assms(1)]
    by (auto simp: recompute_reserved_def intro!: all_res_foldl)
qed

lemma governed_loop_all_res:
  assumes "\<And>r g st. P r \<Longrightarrow> Q (governed_resource R g st r)" "all_res P rs" "governed_loop R rs g = (rs', g')"
  shows "all_res Q rs'"
  using assms(2,3)
proof (induction rs arbitrary: g rs' g')
  case (Cons kr rs)
  obtain k r where kr: "kr = (k, r)" by (cases kr)
  obtain st g1 where 1: "staleness_of R g r = (st, g1)" by fastforce
  obtain rs2 g2 where 2: "governed_loop R rs g1 = (rs2, g2)" by fastforce
  have "all_res P rs" using Cons.prems(1) by (simp add: all_res_def)
  from Cons.IH [OF this 2] show ?case
    using Cons.prems assms(1) [of r] by (auto simp: kr 1 2 all_res_def)
qed (simp add: all_res_def)

lemma recompute_governed_all_res:
  assumes "\<And>r g st. P r \<Longrightarrow> Q (governed_resource R g st r)" "all_res P (g_resources g)"
  shows "all_res Q (g_resources (recompute_governed R g))"
proof -
  obtain rs g' where *: "governed_loop R (g_resources g) g = (rs, g')" by fastforce
  show ?thesis using governed_loop_all_res [where P = P and Q = Q, OF assms *] * by (simp add: recompute_governed_def)
qed

section \<open>Valid capacities\<close>

definition nominal_ok :: "(rat \<Rightarrow> rat) \<Rightarrow> ResRT \<Rightarrow> bool" where
  "nominal_ok R r \<longleftrightarrow> rate_ok R (cap_value (rs_nominal (rr_spec r)))"

definition governed_ok :: "(rat \<Rightarrow> rat) \<Rightarrow> ResRT \<Rightarrow> bool" where
  "governed_ok R r \<longleftrightarrow> rr_governed r = NaN \<or> rate_ok R (rr_governed r)"

context rounding
begin

lemma R_max_rate: "R (10 ^ 18) = 10 ^ 18"
  using R_grid [of "5 ^ 18" 18] by (simp add: grid64_def)

lemma fmul_double: "is_double R (fmul R x y)"
  by (cases x; cases y) (auto simp: is_double_def fl_def Let_def R_idem split: if_splits)

lemma governed_of_ok:
  assumes "rate_ok R (cap_value (rs_nominal spec))"
  shows "governed_of R spec m h e fr = NaN \<or> rate_ok R (governed_of R spec m h e fr)"
proof -
  obtain a where a: "cap_value (rs_nominal spec) = Fin a" "0 \<le> a" "a \<le> 10 ^ 18" "R a = a" "\<bar>a\<bar> \<le> dbl_max"
    by (rule rate_ok_Fin [OF assms])
  let ?x = "fmul R (if f0 < m then m else Fin a) fr"
  have zero: "rate_ok R f0" using dbl_max_pos by (simp add: rate_ok_def is_double_def R_0)
  have "?x = NaN \<or> rate_ok R ?x" if "\<not> (?x < f0 \<or> kMaxRate < ?x)"
    using that fmul_double [of "if f0 < m then m else Fin a" fr]
    by (cases ?x) (auto simp: rate_ok_def is_valid_rate_iff kMaxRate_def)
  moreover have "rate_ok R (Fin a)" using assms a(1) by simp
  ultimately show ?thesis using zero a(1) by (auto simp: governed_of_def Let_def)
qed

lemma governed_resource_ok: "nominal_ok R r \<Longrightarrow> governed_ok R (governed_resource R g st r)"
  using governed_of_ok by (simp add: nominal_ok_def governed_ok_def governed_resource_def)

lemma resource_cap_ok:
  assumes "governed_ok R r" "f0 \<le> rr_reserved r"
  shows "rate_ok R (resource_cap R r)"
proof (cases "f0 < fsub R (rr_governed r) (rr_reserved r)")
  case False
  then show ?thesis using dbl_max_pos by (simp add: resource_cap_def fmax_def rate_ok_def is_double_def R_0)
next
  case True
  then obtain a b where ab: "rr_governed r = Fin a" "rr_reserved r = Fin b" "rate_ok R (Fin a)" "0 \<le> b"
    using assms by (cases "rr_governed r"; cases "rr_reserved r") (auto simp: governed_ok_def fsub_def rate_ok_def is_valid_rate_iff)
  obtain a': "0 \<le> a" "a \<le> 10 ^ 18" "R a = a" "\<bar>a\<bar> \<le> dbl_max" using rate_ok_Fin [OF ab(3)] by blast
  have le: "R (a - b) \<le> a" using R_mono [of "a - b" a] a'(3) ab(4) by simp
  have "0 < a - b" using True R_nonpos [of "a - b"] ab(1,2) le a'(4)
    by (auto simp: fsub_def fl_def Let_def not_less [symmetric] split: if_splits)
  then have "\<bar>a - b\<bar> \<le> dbl_max" using a' ab(4) by linarith
  then have "resource_cap R r = Fin (R (a - b))" "0 \<le> R (a - b)"
    using True fl_finite [of "a - b"] R_nonneg [of "a - b"] \<open>0 < a - b\<close> ab by (auto simp: resource_cap_def fmax_def fsub_def)
  then show ?thesis using le a' by (auto simp: rate_ok_def is_double_def R_idem is_valid_rate_iff)
qed

end

text \<open>The resource table in the middle of a scheduling step.\<close>

lemma scheduling_resources:
  assumes "rounding R" "inv_core R g" "all_res (nominal_ok R) (g_resources g)"
    and "map_of (g_resources (recompute_reserved R (recompute_governed R g))) rid = Some r"
  shows "governed_ok R r" "f0 \<le> rr_reserved r"
proof -
  let ?P = "\<lambda>r. governed_ok R r \<and> f0 \<le> rr_reserved r"
  have "all_res (governed_ok R) (g_resources (recompute_governed R g))"
    by (rule recompute_governed_all_res [OF _ assms(3)]) (rule rounding.governed_resource_ok [OF assms(1)])
  then have "all_res (\<lambda>r. ?P (r\<lparr>rr_reserved := f0\<rparr>)) (g_resources (recompute_governed R g))"
    by (rule all_res_mono) (simp add: governed_ok_def)
  moreover have "list_all (\<lambda>al. valid_cap (al_allocated al)) (rv_allocations rsv)"
    if rsv: "rsv \<in> snd ` set (g_reservations (recompute_governed R g))" for rsv
  proof -
    obtain k where "(k, rsv) \<in> set (g_reservations g)" using rsv by (auto simp: frame_simps)
    then have "map_of (g_reservations g) k = Some rsv"
      using inv_coreD(5) [OF assms(2)] by (simp add: map_of_eq_Some_iff_set)
    then show ?thesis using inv_coreD(2) [OF assms(2)] by (simp add: resv_ok_def)
  qed
  ultimately have "all_res ?P (g_resources (recompute_reserved R (recompute_governed R g)))"
    using rounding.fadd_nonneg [OF assms(1)] by (intro recompute_reserved_all_res) (auto simp: governed_ok_def)
  then have "?P r" using all_res_lookup assms(4) by blast
  then show "governed_ok R r" "f0 \<le> rr_reserved r" by simp_all
qed

lemma scheduling_caps:
  assumes "rounding R" "inv_core R g" "all_res (nominal_ok R) (g_resources g)"
    and "map_of (g_resources (recompute_reserved R (recompute_governed R g))) rid = Some r"
  shows "rate_ok R (resource_cap R r)"
  by (rule rounding.resource_cap_ok [OF assms(1) scheduling_resources [OF assms]])

end
