(* ===== verification/Governor_Schedule.thy ===== *)
theory Governor_Schedule
  imports Governor_Steps Governor_Resources
begin

text \<open>
  The scheduler: admission of the queue and the settlement of the flows are good steps and never
  throw; the new grant of a flow lies between zero and its maximum.
\<close>

section \<open>The queue\<close>

lemma admit_queued_gens: "gens_ok g (snd (admit_queued R fid f g))"
proof -
  obtain rid :: ReservationId and gen where gen: "IdGen_next (g_gen g) = (rid, gen)" by fastforce
  have a: "gens_ok g (g\<lparr>g_gen := gen\<rparr>)" by (rule gens_ok_next(1) [OF gen])
  have "g_gen (snd (admit_queued R fid f g)) = g_gen g \<or> g_gen (snd (admit_queued R fid f g)) = gen"
    by (auto simp: admit_queued_def Let_def gen frame_simps split: option.splits prod.splits sum.splits)
  then show ?thesis using a gens_ok_trans3 gens_ok_same by metis
qed

lemma admit_queued_good:
  assumes inv: "inv_core R g" and look: "map_of (g_flows g) fid = Some f" and q: "fr_state f = Queued"
  shows "good_step R g (snd (admit_queued R' fid f g))" "fst (admit_queued R' fid f g) = Inr ()"
proof -
  note ok = inv_coreD(1) [OF inv look]
  have ord: "spec_ordered (fr_spec f)" using ok by (simp add: flow_ok_def spec_ok_def)
  have "good_step R g (snd (admit_queued R' fid f g)) \<and> fst (admit_queued R' fid f g) = Inr ()"
  proof (cases "map_of (g_paths g) (fs_path (fr_spec f))")
    case None
    then show ?thesis by (simp add: admit_queued_def)
  next
    case (Some p)
    obtain feas least b where scan: "scan_hops R' (g_resources g) (cap_value (fs_requested_min (fr_spec f)))
        (path_hops p) (True, kMaxRate, None) = (feas, least, b)"
      by (metis prod_cases3)
    show ?thesis
    proof (cases "\<not> feas \<or> least < fsub R' (cap_value (fs_requested_min (fr_spec f))) (kEps R')")
      case True
      then show ?thesis using Some scan by (auto simp: admit_queued_def Let_def)
    next
      case False
      let ?x = "admission_grant (fr_spec f) least"
      note x = rate_between [OF ord admission_grant_bounds [OF ord, where least = least]]
      obtain rid :: ReservationId and gen where gen: "IdGen_next (g_gen g) = (rid, gen)" by fastforce
      define rsv where "rsv = mk_reservation (g\<lparr>g_gen := gen\<rparr>) rid (fr_spec f) null_id
        (map (\<lambda>hop. \<lparr>al_resource = hop_resource hop, al_allocated = Capacity ?x\<rparr>) (path_hops p))"
      define f' where "f' = f\<lparr>fr_reservation := Some rid, fr_granted := ?x, fr_admitted_ms := now g, fr_state := Reserved\<rparr>"
      define g1 where "g1 = g\<lparr>g_gen := gen, g_reservations := AList.update rid rsv (g_reservations g),
        g_flows := AList.update fid f' (g_flows g)\<rparr>"
      have st: "set_flow_state Reserved (f\<lparr>fr_reservation := r, fr_granted := y, fr_admitted_ms := z\<rparr>) =
          Inr (f\<lparr>fr_reservation := r, fr_granted := y, fr_admitted_ms := z, fr_state := Reserved\<rparr>)" for r y z
        using q by (simp add: set_flow_state_def flow_transition_dispatch)
      have now: "now (g\<lparr>g_gen := a, g_reservations := c\<rparr>) = now g" for a c by (simp add: now_def)
      have "admit_queued R' fid f g = (Inr (), now_next g1)"
        using Some scan False gen
        by (simp add: admit_queued_def Let_def mk_allocations_ok [OF x(1)] st now rsv_def g1_def f'_def)
           (simp add: now_next_def)
      moreover have "good_step R g g1"
        unfolding g1_def
      proof (rule good_step_attach [OF gen])
        show "flow_ok R fid f'"
          using ok x(2) admission_grant_bounds(2) [OF ord] by (simp add: flow_ok_def f'_def)
        show "flow_evolves h f'" if "map_of (g_flows g) fid = Some h" for h
          using that look q flow_reaches_one [OF flow_transition_dispatch(3)] by (simp add: flow_evolves_def f'_def)
        show "\<not> owns_active g fid r" for r
          using inv_owns_active [OF inv _ look, of r] ok q by (auto simp: flow_ok_def)
      qed (use ok allocations_valid [OF x(1)] in \<open>simp_all add: f'_def rsv_def flow_terminal_def flow_ok_def\<close>)
      ultimately show ?thesis using good_step_trans [OF _ good_step_now_next] by simp
    qed
  qed
  then show "good_step R g (snd (admit_queued R' fid f g))" "fst (admit_queued R' fid f g) = Inr ()" by auto
qed

lemma admit_queued_step:
  assumes "map_of (g_flows g) fid = Some f" "fr_state f = Queued"
  shows "good_step R g (snd (admit_queued R' fid f g))"
    "inv_core R g \<Longrightarrow> fst (admit_queued R' fid f g) = Inr ()"
  using admit_queued_good [OF _ assms] admit_queued_gens by (auto intro: good_stepI)

lemma admit_loop_gens: "gens_ok g (snd (admit_loop R fids g))"
proof (induction fids arbitrary: g)
  case (Cons fid fids)
  have "gens_ok g g' \<Longrightarrow> gens_ok g (snd (admit_loop R fids g'))" for g'
    using Cons.IH gens_ok_trans by blast
  moreover have "admit_queued R fid f g = (r, g') \<Longrightarrow> gens_ok g g'" for f r g'
    using admit_queued_gens [of g R fid f] by simp
  ultimately show ?case using Cons.IH
    by (auto split: option.splits prod.splits sum.splits)
qed (simp add: gens_ok_def)

lemma admit_loop_good:
  "good_step R g (snd (admit_loop R' fids g))"
  "inv_core R g \<Longrightarrow> gen_draws (g_gen (snd (admit_loop R' fids g))) \<le> 2 ^ 64 \<Longrightarrow>
     fst (admit_loop R' fids g) = Inr ()"
proof (induction fids arbitrary: g)
  case (Cons fid fids)
  note step = admit_queued_step
  { case 1
    show ?case
    proof (cases "\<exists>f. map_of (g_flows g) fid = Some f \<and> fr_state f = Queued")
      case True
      then obtain f where f: "map_of (g_flows g) fid = Some f" "fr_state f = Queued" by blast
      obtain r g1 where g1: "admit_queued R' fid f g = (r, g1)" by fastforce
      have "good_step R g g1" using step(1) [OF f, of R R'] g1 by simp
      then show ?thesis using good_step_trans [OF _ Cons.IH(1)] f g1 by (cases r) auto
    next
      case False
      then show ?thesis using Cons.IH(1) [of g] by (auto split: option.splits)
    qed
  }
  { case 2
    show ?case
    proof (cases "\<exists>f. map_of (g_flows g) fid = Some f \<and> fr_state f = Queued")
      case True
      then obtain f where f: "map_of (g_flows g) fid = Some f" "fr_state f = Queued" by blast
      obtain g1 where g1: "admit_queued R' fid f g = (Inr (), g1)"
        using step(2) [OF f 2(1)] by (metis prod.collapse)
      have eq: "admit_loop R' (fid # fids) g = admit_loop R' fids g1" using f g1 by simp
      have "gen_draws (g_gen g1) \<le> gen_draws (g_gen (snd (admit_loop R' fids g1)))"
        using admit_loop_gens [of g1 R' fids] by (simp add: gens_ok_def)
      then have "inv_core R g1" using step(1) [OF f, of R R'] 2 g1 eq by (simp add: good_step_def)
      then show ?thesis using Cons.IH(2) [of g1] 2(2) eq by simp
    next
      case False
      then show ?thesis using Cons.IH(2) [of g] 2 by (auto split: option.splits)
    qed
  }
qed simp_all

lemma starve_simps [simp]:
  "fr_state (starve R t f) = fr_state f" "fr_reservation (starve R t f) = fr_reservation f"
  "fr_spec (starve R t f) = fr_spec f" "fr_granted (starve R t f) = fr_granted f"
  by (simp_all add: starve_def Let_def)

lemma good_step_starvation: "good_step R g (advance_tenant_starvation R' t g)"
  unfolding advance_tenant_starvation_def
  by (rule good_step_map_flows) (auto simp: flow_ok_def flow_evolves_def flow_reaches.stay)

section \<open>The state the allocation works on\<close>

definition environs :: "gov \<Rightarrow> _" where
  "environs g = (g_resources g, g_paths g, g_config g, g_workers g, g_tenants g)"

lemma admit_queued_environs: "environs (snd (admit_queued R fid f g)) = environs g"
  by (auto simp: environs_def admit_queued_def Let_def frame_simps split: option.splits prod.splits sum.splits)

lemma admit_loop_environs: "environs (snd (admit_loop R fids g)) = environs g"
proof (induction fids arbitrary: g)
  case (Cons fid fids)
  have "environs (snd (case admit_queued R fid f g of (Inl e, g) \<Rightarrow> (Inl e, g) | (Inr _, g) \<Rightarrow> admit_loop R fids g)) =
      environs g" for f
    using admit_queued_environs [of R fid f g] Cons.IH
    by (cases "admit_queued R fid f g"; cases "fst (admit_queued R fid f g)") auto
  then show ?case using Cons.IH by (simp split: option.split)
qed simp

lemma admit_loop_frame [frame_simps]:
  "g_resources (snd (admit_loop R fids g)) = g_resources g" "g_paths (snd (admit_loop R fids g)) = g_paths g"
  "g_config (snd (admit_loop R fids g)) = g_config g" "g_workers (snd (admit_loop R fids g)) = g_workers g"
  "g_tenants (snd (admit_loop R fids g)) = g_tenants g"
  using admit_loop_environs [of R fids g] by (simp_all add: environs_def)

definition tick_queue :: "(rat \<Rightarrow> rat) \<Rightarrow> gov \<Rightarrow> unit result \<times> gov" where
  "tick_queue R g =
     (let g' = advance_tenant_starvation R (now g) (now_next g) in admit_loop R (queued_ids g') g')"

definition tick_base :: "(rat \<Rightarrow> rat) \<Rightarrow> gov \<Rightarrow> gov" where
  "tick_base R g = recompute_reserved R (recompute_governed R (snd (tick_queue R g)))"

lemma tick_base_frame [frame_simps]:
  "g_paths (tick_base R g) = g_paths g" "g_config (tick_base R g) = g_config g"
  "g_workers (tick_base R g) = g_workers g" "g_tenants (tick_base R g) = g_tenants g"
  by (simp_all add: tick_base_def tick_queue_def Let_def frame_simps advance_tenant_starvation_def)

lemma tick_queue_good: "good_step R g (snd (tick_queue R' g))"
  unfolding tick_queue_def Let_def
  by (rule good_step_trans [OF good_step_trans [OF good_step_now_next good_step_starvation] admit_loop_good(1)])

lemma tick_base_good: "good_step R g (tick_base R' g)"
  unfolding tick_base_def
  by (rule good_step_trans [OF good_step_trans [OF tick_queue_good good_step_recompute_governed] good_step_recompute(1)])

lemma tick_queue_returns:
  assumes "inv_core R g" "gen_draws (g_gen (tick_base R g)) \<le> 2 ^ 64"
  shows "fst (tick_queue R g) = Inr ()"
proof -
  let ?g = "advance_tenant_starvation R (now g) (now_next g)"
  have *: "gen_draws (g_gen (snd (admit_loop R (queued_ids ?g) ?g))) \<le> 2 ^ 64"
    using assms(2) by (simp add: tick_base_def tick_queue_def Let_def frame_simps)
  have step: "good_step R g ?g" by (rule good_step_trans [OF good_step_now_next good_step_starvation])
  have "gen_draws (g_gen ?g) \<le> 2 ^ 64"
    using * admit_loop_gens [of ?g R "queued_ids ?g"] by (simp add: gens_ok_def)
  then have "inv_core R ?g" using step assms(1) by (simp add: good_step_def)
  from admit_loop_good(2) [OF this *] show ?thesis by (simp add: tick_queue_def Let_def)
qed

lemma tick_base_inv:
  assumes "inv_core R g" "gen_draws (g_gen (tick_base R g)) \<le> 2 ^ 64"
  shows "inv_core R (tick_base R g)" "evolves g (tick_base R g)"
  using tick_base_good [of R g R] assms by (auto simp: good_step_def)

definition caps_ok :: "(rat \<Rightarrow> rat) \<Rightarrow> gov \<Rightarrow> bool" where
  "caps_ok R g \<longleftrightarrow> (\<forall>rid r. map_of (g_resources g) rid = Some r \<longrightarrow> rate_ok R (resource_cap R r))"

lemma tick_caps:
  assumes "rounding R" "inv_core R g" "gen_draws (g_gen (tick_base R g)) \<le> 2 ^ 64"
    and "all_res (nominal_ok R) (g_resources g)"
  shows "caps_ok R (tick_base R g)"
proof -
  have "gen_draws (g_gen (snd (tick_queue R g))) \<le> 2 ^ 64"
    using assms(3) by (simp add: tick_base_def frame_simps)
  then have inv: "inv_core R (snd (tick_queue R g))"
    using tick_queue_good [of R g R] assms(2) by (simp add: good_step_def)
  have "all_res (nominal_ok R) (g_resources (snd (tick_queue R g)))"
    using assms(4) by (simp add: tick_queue_def Let_def frame_simps advance_tenant_starvation_def)
  from scheduling_caps [OF assms(1) inv this] show ?thesis by (simp add: tick_base_def caps_ok_def)
qed

section \<open>Settling the flows\<close>

lemma inv_flow_ids:
  assumes "inv_core R g"
  shows "flow_ids (map snd (g_flows g)) = keys (g_flows g)" "distinct (flow_ids (map snd (g_flows g)))"
proof -
  have "fs_id (fr_spec f) = fid" if "(fid, f) \<in> set (g_flows g)" for fid f
    using inv_coreD(1) [OF assms, of fid f] that inv_coreD(4) [OF assms] by (simp add: flow_ok_def)
  then show "flow_ids (map snd (g_flows g)) = keys (g_flows g)" by (auto simp: flow_ids_def)
  then show "distinct (flow_ids (map snd (g_flows g)))" using inv_coreD(4) [OF assms] by simp
qed

lemma users_lookup:
  assumes "inv_core R g" "f \<in> set (users g rid)"
  shows "map_of (g_flows g) (fs_id (fr_spec f)) = Some f" "scheduled (fr_state f)" "flow_ok R (fs_id (fr_spec f)) f"
proof -
  obtain fid where "(fid, f) \<in> set (g_flows g)" and s: "scheduled (fr_state f)"
    using assms(2) by (auto simp: users_def)
  then have look: "map_of (g_flows g) fid = Some f" using inv_coreD(4) [OF assms(1)] by simp
  note ok = inv_coreD(1) [OF assms(1) look]
  then show "map_of (g_flows g) (fs_id (fr_spec f)) = Some f" "flow_ok R (fs_id (fr_spec f)) f"
    using look by (auto simp: flow_ok_def)
  show "scheduled (fr_state f)" by (rule s)
qed

lemma alloc_entry_ok: "flow_ok R fid f \<Longrightarrow> entry_ok R (alloc_entry R g t f)"
  by (auto simp: entry_ok_def alloc_entry_def rate_ok_def flow_ok_def spec_ok_def spec_ordered_def FlowSpec_wf_def
      valid_cap_def)

lemma users_entries_ok:
  assumes "inv_core R g"
  shows "list_all (entry_ok R) (map (alloc_entry R g t) (users g rid))"
  using users_lookup(3) [OF assms] alloc_entry_ok by (fastforce simp: list_all_iff)

text \<open>The outcome of every water-fill, and of the whole allocation.\<close>

lemma tick_fill:
  assumes "rounding R" "inv_core R g" "fill_of R (g_resources g) (contention_of R g t) rid es ar"
    and "caps_ok R g"
  shows "es = map (alloc_entry R g t) (users g rid)"
    "i < length es \<Longrightarrow> length (ar_granted ar) = length es"
    "i < length es \<Longrightarrow> f0 \<le> ar_granted ar ! i"
    "i < length es \<Longrightarrow> ar_granted ar ! i \<le> ae_max (es ! i)"
proof -
  show es: "es = map (alloc_entry R g t) (users g rid)"
    using assms(3) contention_of_entries [OF inv_flow_ids(2) [OF assms(2)]] by (simp add: fill_of_def)
  obtain r where r: "map_of (g_resources g) rid = Some r" "allocate_weighted R es (resource_cap R r) = Some ar"
    using assms(3) by (auto simp: fill_of_def)
  have ok: "list_all (entry_ok R) es" unfolding es by (rule users_entries_ok [OF assms(2)])
  have "rate_ok R (resource_cap R r)" using assms(4) r(1) by (simp add: caps_ok_def)
  note lim = rounding.allocate_weighted_limits [OF assms(1) ok this r(2)]
  show "i < length es \<Longrightarrow> length (ar_granted ar) = length es" "i < length es \<Longrightarrow> f0 \<le> ar_granted ar ! i"
    "i < length es \<Longrightarrow> ar_granted ar ! i \<le> ae_max (es ! i)"
    using lim by auto
qed

lemma tick_grants:
  assumes "rounding R" "inv_core R g" "grant_loop R (g_resources g) (contention_of R g t) [] = Some gm"
    and "caps_ok R g"
    and "map_of (g_flows g) fid = Some f"
  shows "f0 \<le> umap_entry f0 fid gm" "umap_entry f0 fid gm \<le> cap_value (fs_requested_max (fr_spec f))"
proof -
  have "f0 \<le> umap_entry f0 fid gm \<and> umap_entry f0 fid gm \<le> cap_value (fs_requested_max (fr_spec f))"
  proof (cases "map_of gm fid")
    case None
    have "spec_ordered (fr_spec f)" using inv_coreD(1) [OF assms(2,5)] by (simp add: flow_ok_def spec_ok_def)
    then show ?thesis using None by (auto simp: umap_entry_def elim!: spec_ordered_Fin)
  next
    case (Some x)
    then obtain rid es ar i where x: "fill_of R (g_resources g) (contention_of R g t) rid es ar" "i < length es"
      "ae_flow (es ! i) = fid" "ar_granted ar ! i = x"
      using grant_loop_from [OF assms(3) Some] by auto
    note fill = tick_fill [OF assms(1,2) x(1) assms(4)]
    let ?u = "users g rid ! i"
    have u: "?u \<in> set (users g rid)" "es ! i = alloc_entry R g t ?u" using x(2) fill(1) by simp_all
    then have "map_of (g_flows g) fid = Some ?u"
      using users_lookup(1) [OF assms(2) u(1)] x(3) by (simp add: alloc_entry_def)
    then have "?u = f" using assms(5) by simp
    then show ?thesis using fill(3,4) [OF x(2)] x(4) Some u(2) by (simp add: umap_entry_def alloc_entry_def)
  qed
  then show "f0 \<le> umap_entry f0 fid gm" "umap_entry f0 fid gm \<le> cap_value (fs_requested_max (fr_spec f))" by auto
qed

text \<open>One flow: the new grant, the worker, the state by the grant.\<close>

definition next_state :: "(rat \<Rightarrow> rat) \<Rightarrow> f64 \<Rightarrow> FlowRT \<Rightarrow> FlowState" where
  "next_state R ng f =
     (if fr_state f = Reserved then Running
      else if ng \<le> f0 \<and> fs_preemptible (fr_spec f) then Preempted
      else if fadd R ng (kEps R) < cap_value (fs_requested_min (fr_spec f)) then Throttled
      else Running)"

definition settled :: "(rat \<Rightarrow> rat) \<Rightarrow> gov \<Rightarrow> grants \<Rightarrow> f64 \<Rightarrow> FlowRT \<Rightarrow> FlowRT" where
  "settled R g gm t f = snd (settle_flow R g gm t (fs_id (fr_spec f)) f)"

lemma dispatch_simps [simp]:
  "fr_state (dispatch g f) = fr_state f" "fr_spec (dispatch g f) = fr_spec f" "fr_granted (dispatch g f) = fr_granted f"
  "fr_reservation (dispatch g f) = fr_reservation f"
  by (auto simp: dispatch_def split: option.splits prod.splits)

lemma next_state_transition:
  "scheduled (fr_state f) \<Longrightarrow> flow_transition (fr_state f) (next_state R ng f) = Some (next_state R ng f)"
  using flow_transition_dispatch(1,2) by (auto simp: next_state_def)

lemma settle_flow_eq:
  assumes "scheduled (fr_state f)"
  shows "settle_flow R g gm t fid f =
    (let ng = umap_entry f0 fid gm; f' = f\<lparr>fr_granted := ng\<rparr>
     in (Inr (), (if fr_state f = Reserved then dispatch g f' else f')
          \<lparr>fr_state := next_state R ng f, fr_last_grant_update_ms := t\<rparr>))"
  using assms next_state_transition [OF assms, of R "umap_entry f0 fid gm"]
  by (auto simp: settle_flow_def Let_def set_flow_state_def next_state_def)

lemma settle_flow_idle: "\<not> scheduled (fr_state f) \<Longrightarrow> settle_flow R g gm t fid f = (Inr (), f)"
  by (simp add: settle_flow_def)

lemma settle_flow_returns [simp]: "fst (settle_flow R g gm t fid f) = Inr ()"
  by (cases "scheduled (fr_state f)") (simp_all add: settle_flow_eq settle_flow_idle Let_def del: de_Morgan_disj)

lemma settle_loop_eq:
  assumes "\<And>fid f. (fid, f) \<in> set fs \<Longrightarrow> fs_id (fr_spec f) = fid"
  shows "settle_loop R g gm t fs = (Inr (), map_vals (settled R g gm t) fs)"
  using assms
proof (induction fs)
  case (Cons kf fs)
  obtain fid f where kf: "kf = (fid, f)" by (cases kf)
  have "fs_id (fr_spec f) = fid" using Cons.prems kf by simp
  then have one: "settle_flow R g gm t fid f = (Inr (), settled R g gm t f)"
    using settle_flow_returns [of R g gm t fid f] by (simp add: settled_def prod_eq_iff)
  have "settle_loop R g gm t fs = (Inr (), map_vals (settled R g gm t) fs)"
    using Cons.IH Cons.prems by (meson list.set_intros(2))
  then show ?case using kf one by simp
qed simp

lemma settled_simps:
  "fr_spec (settled R g gm t f) = fr_spec f" "fr_reservation (settled R g gm t f) = fr_reservation f"
  "fr_state (settled R g gm t f) = (if scheduled (fr_state f) then next_state R (umap_entry f0 (fs_id (fr_spec f)) gm) f else fr_state f)"
  "fr_granted (settled R g gm t f) = (if scheduled (fr_state f) then umap_entry f0 (fs_id (fr_spec f)) gm else fr_granted f)"
  by (cases "scheduled (fr_state f)"; simp add: settled_def settle_flow_eq settle_flow_idle Let_def del: de_Morgan_disj)+

lemma next_state_simps:
  "next_state R ng f \<in> {Running, Throttled, Preempted}" "\<not> flow_terminal (next_state R ng f)"
  "next_state R ng f \<noteq> FlowState_raw w" "next_state R ng f \<noteq> Queued"
  by (simp_all add: next_state_def flow_terminal_def)

lemma settled_evolves: "flow_evolves f (settled R g gm t f)"
  using flow_reaches_one [OF next_state_transition [of f R]]
  by (auto simp: flow_evolves_def settled_simps flow_reaches.stay)

lemma settled_ok:
  assumes "flow_ok R fid f" "f0 \<le> umap_entry f0 fid gm" "umap_entry f0 fid gm \<le> cap_value (fs_requested_max (fr_spec f))"
  shows "flow_ok R fid (settled R g gm t f)"
  using assms next_state_simps(3,4) by (auto simp: flow_ok_def settled_simps)

section \<open>The whole tick\<close>

definition tick_settle :: "(rat \<Rightarrow> rat) \<Rightarrow> gov \<Rightarrow> f64 \<Rightarrow> grants \<Rightarrow> gov" where
  "tick_settle R b t gm = recompute_usage R (b\<lparr>g_flows := map_vals (settled R b gm t) (g_flows b)\<rparr>)"

lemma tick_eq:
  assumes "inv_core R g" "gen_draws (g_gen (tick_base R g)) \<le> 2 ^ 64"
  shows "tick R g = map_option (\<lambda>gm. (Inr (), tick_settle R (tick_base R g) (now g) gm))
    (grant_loop R (g_resources (tick_base R g)) (contention_of R (tick_base R g) (now g)) [])"
proof -
  let ?g = "advance_tenant_starvation R (now g) (now_next g)"
  have q: "admit_loop R (queued_ids ?g) ?g = (Inr (), snd (tick_queue R g))"
    using tick_queue_returns [OF assms] by (simp add: tick_queue_def Let_def prod_eq_iff)
  have ids: "fs_id (fr_spec f) = fid" if "(fid, f) \<in> set (g_flows (tick_base R g))" for fid f
    using inv_coreD(1) [OF tick_base_inv(1) [OF assms], of fid f] that inv_coreD(4) [OF tick_base_inv(1) [OF assms]]
    by (simp add: flow_ok_def)
  show ?thesis
    using settle_loop_eq [OF ids]
    by (simp add: tick_def Let_def q tick_base_def [symmetric] tick_settle_def split: option.split)
qed

lemma tick_settle_gen: "g_gen (tick_settle R b t gm) = g_gen b"
  by (simp add: tick_settle_def frame_simps)

lemma tick_queue_draws:
  assumes "tick R g = Some (r, g')"
  shows "g_gen g' = g_gen (tick_base R g)"
proof -
  obtain q h where q: "tick_queue R g = (q, h)" by fastforce
  let ?b = "recompute_reserved R (recompute_governed R h)"
  have base: "tick_base R g = ?b" by (simp add: tick_base_def q)
  have eq: "tick R g = (case q of Inl e \<Rightarrow> Some (Inl e, h) | Inr _ \<Rightarrow>
      (case grant_loop R (g_resources ?b) (contention_of R ?b (now g)) [] of None \<Rightarrow> None
       | Some gm \<Rightarrow> (case settle_loop R ?b gm (now g) (g_flows ?b) of
           (Inl e, fs) \<Rightarrow> Some (Inl e, ?b\<lparr>g_flows := fs\<rparr>)
         | (Inr _, fs) \<Rightarrow> Some (Inr (), recompute_usage R (?b\<lparr>g_flows := fs\<rparr>)))))"
    using q by (cases q) (simp_all add: tick_def tick_queue_def Let_def)
  show ?thesis using assms unfolding eq base
    by (cases q; cases "grant_loop R (g_resources ?b) (contention_of R ?b (now g)) []")
      (auto simp: frame_simps split: prod.splits sum.splits)
qed

lemma tick_settle_good:
  assumes "rounding R" "caps_ok R b" "grant_loop R (g_resources b) (contention_of R b t) [] = Some gm"
  shows "good_step R b (tick_settle R b t gm)"
proof -
  have "good_step R b (b\<lparr>g_flows := map_vals (settled R b gm t) (g_flows b)\<rparr>)"
  proof (rule good_step_map_flows_inv)
    fix f fid assume inv: "inv_core R b" and look: "map_of (g_flows b) fid = Some f"
    have "flow_ok R fid (settled R b gm t f)"
      by (rule settled_ok [OF inv_coreD(1) [OF inv look] tick_grants [OF assms(1) inv assms(3,2) look]])
    then show "flow_ok R fid (settled R b gm t f) \<and> flow_evolves f (settled R b gm t f) \<and>
        fr_reservation (settled R b gm t f) = fr_reservation f \<and>
        flow_terminal (fr_state (settled R b gm t f)) = flow_terminal (fr_state f)"
      using settled_evolves next_state_simps(2) by (auto simp: settled_simps flow_terminal_def)
  qed
  then show ?thesis unfolding tick_settle_def by (rule good_step_usage)
qed

lemma tick_good:
  assumes "rounding R" "inv_core R g" "all_res (nominal_ok R) (g_resources g)"
    and "tick R g = Some (r, g')" "gen_draws (g_gen g') \<le> 2 ^ 64"
  shows "r = Inr ()" "inv_core R g'" "evolves g g'"
    "\<exists>gm. grant_loop R (g_resources (tick_base R g)) (contention_of R (tick_base R g) (now g)) [] = Some gm \<and>
       g' = tick_settle R (tick_base R g) (now g) gm"
proof -
  have d: "gen_draws (g_gen (tick_base R g)) \<le> 2 ^ 64" using assms(5) tick_queue_draws [OF assms(4)] by simp
  obtain gm where gm: "grant_loop R (g_resources (tick_base R g)) (contention_of R (tick_base R g) (now g)) [] = Some gm"
    "r = Inr ()" "g' = tick_settle R (tick_base R g) (now g) gm"
    using assms(4) tick_eq [OF assms(2) d] by auto
  have "good_step R g g'"
    unfolding gm(3) by (rule good_step_trans [OF tick_base_good tick_settle_good [OF assms(1) tick_caps [OF assms(1,2) d assms(3)] gm(1)]])
  then show "inv_core R g'" "evolves g g'" using assms(2,5) by (auto simp: good_step_def)
  show "r = Inr ()" by (rule gm(2))
  show "\<exists>gm. grant_loop R (g_resources (tick_base R g)) (contention_of R (tick_base R g) (now g)) [] = Some gm \<and>
       g' = tick_settle R (tick_base R g) (now g) gm" using gm by blast
qed

end
