(* ===== verification/Governor_Usage.thy ===== *)
theory Governor_Usage
  imports Governor_Schedule
begin

text \<open>
  What a governor without work holds: once every flow is terminal, no capacity is reserved and
  none is allocated. The invariant of the development collects this with the core invariant and
  the validity of the nominal capacities; every operation keeps it.
\<close>

section \<open>Nominal capacities\<close>

text \<open>The recomputations write neither the specification of a resource nor each other's fields.\<close>

lemma all_res_add_reserved:
  assumes "\<And>r x. P r \<Longrightarrow> P (r\<lparr>rr_reserved := x\<rparr>)" "all_res P res"
  shows "all_res P (add_reserved R res al)"
  using assms all_res_lookup [OF assms(2)] by (auto simp: add_reserved_def intro!: all_res_update split: option.splits)

lemma all_res_add_allocated:
  assumes "\<And>r x. P r \<Longrightarrow> P (r\<lparr>rr_allocated := x\<rparr>)" "all_res P res"
  shows "all_res P (add_allocated R v res hop)"
  using assms all_res_lookup [OF assms(2)] by (auto simp: add_allocated_def intro!: all_res_update split: option.splits)

lemma all_res_recompute_reserved:
  assumes "\<And>r x. P r \<Longrightarrow> P (r\<lparr>rr_reserved := x\<rparr>)" "all_res P (g_resources g)"
  shows "all_res P (g_resources (recompute_reserved R g))"
proof -
  have "all_res P (reserve_one R fs res rsv)" if "all_res P res" for fs res rsv
    using that assms(1) by (auto simp: reserve_one_def intro!: all_res_foldl all_res_add_reserved split: option.splits)
  moreover have "all_res P (map_vals (\<lambda>r. r\<lparr>rr_reserved := f0\<rparr>) (g_resources g))"
    unfolding all_res_map_vals by (rule all_res_mono [OF assms(2)]) (rule assms(1))
  ultimately show ?thesis by (auto simp: recompute_reserved_def intro!: all_res_foldl)
qed

lemma all_res_recompute_allocated:
  assumes "\<And>r x. P r \<Longrightarrow> P (r\<lparr>rr_allocated := x\<rparr>)" "all_res P (g_resources g)"
  shows "all_res P (g_resources (recompute_allocated R g))"
proof -
  have "all_res P (allocate_one R ps res f)" if "all_res P res" for ps res f
    using that assms(1) by (auto simp: allocate_one_def intro!: all_res_foldl all_res_add_allocated split: option.splits)
  moreover have "all_res P (map_vals (\<lambda>r. r\<lparr>rr_allocated := f0\<rparr>) (g_resources g))"
    unfolding all_res_map_vals by (rule all_res_mono [OF assms(2)]) (rule assms(1))
  ultimately show ?thesis by (auto simp: recompute_allocated_def intro!: all_res_foldl)
qed

lemma all_res_recompute_saturation:
  assumes "\<And>r x. P r \<Longrightarrow> P (r\<lparr>rr_saturated := x\<rparr>)" "all_res P (g_resources g)"
  shows "all_res P (g_resources (recompute_saturation R g))"
  using all_res_mono [OF assms(2)] assms(1) by (simp add: recompute_saturation_def all_res_map_vals)

lemma all_res_recompute_governed:
  assumes "\<And>r x. P r \<Longrightarrow> P (r\<lparr>rr_governed := x\<rparr>)" "all_res P (g_resources g)"
  shows "all_res P (g_resources (recompute_governed R g))"
  using assms(1) by (intro recompute_governed_all_res [where P = P, OF _ assms(2)]) (simp add: governed_resource_def)

lemma nominal_ok_simps [simp]:
  "nominal_ok R (r\<lparr>rr_reserved := x\<rparr>) = nominal_ok R r" "nominal_ok R (r\<lparr>rr_allocated := x\<rparr>) = nominal_ok R r"
  "nominal_ok R (r\<lparr>rr_saturated := b\<rparr>) = nominal_ok R r" "nominal_ok R (r\<lparr>rr_governed := x\<rparr>) = nominal_ok R r"
  by (simp_all add: nominal_ok_def)

lemma nominal_recompute:
  assumes "all_res (nominal_ok R) (g_resources g)"
  shows "all_res (nominal_ok R) (g_resources (recompute_governed R' g))"
    "all_res (nominal_ok R) (g_resources (recompute_reserved R' g))"
    "all_res (nominal_ok R) (g_resources (recompute_allocated R' g))"
    "all_res (nominal_ok R) (g_resources (recompute_saturation R' g))"
  using assms
  by (auto intro: all_res_recompute_governed all_res_recompute_reserved all_res_recompute_allocated
      all_res_recompute_saturation)

lemma nominal_usage:
  "all_res (nominal_ok R) (g_resources g) \<Longrightarrow> all_res (nominal_ok R) (g_resources (recompute_usage R' g))"
  by (intro nominal_recompute)

section \<open>Idle governors\<close>

definition idle :: "gov \<Rightarrow> bool" where
  "idle g \<longleftrightarrow> (\<forall>fid f. map_of (g_flows g) fid = Some f \<longrightarrow> flow_terminal (fr_state f))"

definition quiet :: "ResRT \<Rightarrow> bool" where
  "quiet r \<longleftrightarrow> rr_reserved r = f0 \<and> rr_allocated r = f0"

lemma idle_reservations:
  assumes "inv_core R g" "idle g" "(rid, rsv) \<in> set (g_reservations g)"
  shows "rv_state rsv \<noteq> RActive" "rv_state rsv \<noteq> RPending"
proof -
  from assms(3) have "map_of (g_reservations g) rid = Some rsv"
    using inv_coreD(5) [OF assms(1)] by (simp add: map_of_eq_Some_iff_set)
  from inv_coreD(2) [OF assms(1) this] show "rv_state rsv \<noteq> RActive" "rv_state rsv \<noteq> RPending"
    using assms(2) by (auto simp: resv_ok_def idle_def)
qed

lemma idle_flows:
  assumes "inv_core R g" "idle g" "(fid, f) \<in> set (g_flows g)"
  shows "flow_terminal (fr_state f)"
proof -
  from assms(3) have "map_of (g_flows g) fid = Some f"
    using inv_coreD(4) [OF assms(1)] by (simp add: map_of_eq_Some_iff_set)
  then show ?thesis using assms(2) by (simp add: idle_def)
qed

lemma foldl_skip: "(\<And>x a. x \<in> set xs \<Longrightarrow> h a x = a) \<Longrightarrow> foldl h a xs = a"
  by (induction xs arbitrary: a) auto

lemma idle_recompute_reserved:
  assumes "inv_core R g" "idle g"
  shows "recompute_reserved R' g = g\<lparr>g_resources := map_vals (\<lambda>r. r\<lparr>rr_reserved := f0\<rparr>) (g_resources g)\<rparr>"
proof -
  have "foldl (reserve_one R' (g_flows g)) res (map snd (g_reservations g)) = res" for res
    using idle_reservations [OF assms] by (intro foldl_skip) (auto simp: reserve_one_def)
  then show ?thesis by (simp add: recompute_reserved_def)
qed

lemma idle_recompute_allocated:
  assumes "inv_core R g" "idle g"
  shows "recompute_allocated R' g = g\<lparr>g_resources := map_vals (\<lambda>r. r\<lparr>rr_allocated := f0\<rparr>) (g_resources g)\<rparr>"
proof -
  have "foldl (allocate_one R' (g_paths g)) res (map snd (g_flows g)) = res" for res
    using idle_flows [OF assms] by (intro foldl_skip) (force simp: allocate_one_def flow_terminal_def)
  then show ?thesis by (simp add: recompute_allocated_def)
qed

lemma idle_cong: "g_flows g' = g_flows g \<Longrightarrow> idle g' = idle g"
  by (simp add: idle_def)

lemma quiet_usage:
  assumes "inv_core R g" "idle g"
  shows "all_res quiet (g_resources (recompute_usage R' g))"
proof -
  let ?g = "recompute_reserved R' g"
  have inv: "inv_core R ?g" using assms(1) inv_core_cong [of ?g g R] by (simp add: frame_simps)
  have idle: "idle ?g" using assms(2) idle_cong [of ?g g] by (simp add: frame_simps)
  have "all_res quiet (g_resources (recompute_allocated R' ?g))"
    by (simp add: idle_recompute_allocated [OF inv idle])
       (simp add: idle_recompute_reserved [OF assms] all_res_map_vals, simp add: all_res_def quiet_def)
  then show ?thesis by (intro all_res_recompute_saturation) (simp add: quiet_def)
qed

lemma quiet_reserved:
  assumes "inv_core R g" "idle g" "all_res quiet (g_resources g)"
  shows "all_res quiet (g_resources (recompute_reserved R' g))"
  unfolding idle_recompute_reserved [OF assms(1,2)] using assms(3)
  by (simp add: all_res_map_vals) (auto simp: all_res_def quiet_def)

lemma quiet_governed: "all_res quiet (g_resources g) \<Longrightarrow> all_res quiet (g_resources (recompute_governed R g))"
  by (rule all_res_recompute_governed) (simp_all add: quiet_def)

lemma quiet_saturation: "all_res quiet (g_resources g) \<Longrightarrow> all_res quiet (g_resources (recompute_saturation R g))"
  by (rule all_res_recompute_saturation) (simp_all add: quiet_def)

lemma quiet_accounting:
  assumes "rounding R" "inv_core R g" "idle g" "all_res quiet (g_resources g)"
  shows "accounting_at_zero R g"
proof -
  have "\<not> kEps R < f0" using rounding.kEps_nonneg [OF assms(1)] by (cases "kEps R") auto
  then have "\<not> kEps R < f0 \<and> f0 \<le> kEps R" using rounding.kEps_nonneg [OF assms(1)] by simp
  moreover have "\<not> (kEps R < rr_allocated r \<or> kEps R < rr_reserved r)" if "(rid, r) \<in> set (g_resources g)" for rid r
    using assms(4) that calculation by (force simp: all_res_def quiet_def)
  moreover have "\<not> scheduled (fr_state f)" if "(fid, f) \<in> set (g_flows g)" for fid f
    using idle_flows [OF assms(2,3) that] by (auto simp: flow_terminal_def)
  ultimately show ?thesis
    using idle_reservations [OF assms(2,3)] unfolding accounting_at_zero_def by blast
qed

end
