(* ===== verification/Governor_Reach.thy ===== *)
theory Governor_Reach
  imports Governor_Usage
begin

text \<open>
  The life of a governor: a step relation with one rule per public operation that changes the state, except
  \<^verbatim>\<open>restore\<close>, \<^verbatim>\<open>load\<close> and \<^verbatim>\<open>load_file\<close>, which replace the tables by those of a saved state (the relation
  \<open>gov_move\<close> of the theory Transport_Server adds them); the states reachable from a fresh governor by these steps, and
  the invariant that holds in all of them. A reachable state here is one without a load in its past.
  The order in which an unordered map lists its entries may change at any time.
\<close>

section \<open>Steps\<close>

definition relisted :: "('k, 'v) umap \<Rightarrow> ('k, 'v) umap \<Rightarrow> bool" where
  "relisted m m' \<longleftrightarrow> distinct (keys m') \<and> map_of m' = map_of m"

inductive gov_step :: "(rat \<Rightarrow> rat) \<Rightarrow> gov \<Rightarrow> gov \<Rightarrow> bool" for R where
  set_auto_clock: "gov_step R g (set_auto_clock b g)"
| advance_ms: "gov_step R g (advance_ms R dt g)"
| read_clock: "gov_step R g (now_next g)"
| add_resource: "rate_ok R (cap_value (rs_nominal spec)) \<Longrightarrow> gov_step R g (snd (add_resource R spec g))"
| update_capacity: "gov_step R g (snd (update_capacity R rid m c prov l q bump g))"
| set_resource_enabled: "gov_step R g (set_resource_enabled R rid b g)"
| invalidate_resource: "gov_step R g (invalidate_resource_capacity R rid g)"
| add_path: "gov_step R g (snd (add_path p g))"
| invalidate_path: "gov_step R g (invalidate_path pid g)"
| submit_flow: "request_ok R spec \<Longrightarrow> gov_step R g (snd (submit_flow R spec g))"
| cancel_flow: "gov_step R g (snd (cancel_flow R fid reason g))"
| resume_flow: "gov_step R g (snd (resume_flow fid g))"
| tick: "tick R g = Some (r, g') \<Longrightarrow> gov_step R g g'"
| release_reservation: "gov_step R g (snd (release_reservation R rid g))"
| register_worker: "list_all (\<lambda>rs. rate_ok R (cap_value (rs_nominal rs))) (wr_inventory reg) \<Longrightarrow>
    gov_step R g (snd (register_worker R reg g))"
| deregister_worker: "gov_step R g (deregister_worker w g)"
| report_progress: "gov_step R g (snd (report_progress fid a b c n g))"
| report_completion: "gov_step R g (snd (report_completion R fid a b c n g))"
| relist: "relisted (g_resources g) rs \<Longrightarrow> relisted (g_paths g) ps \<Longrightarrow> relisted (g_flows g) fs \<Longrightarrow>
    relisted (g_reservations g) vs \<Longrightarrow> relisted (g_workers g) ws \<Longrightarrow> relisted (g_tenants g) ts \<Longrightarrow>
    relisted (g_workloads g) ls \<Longrightarrow>
    gov_step R g (g\<lparr>g_resources := rs, g_paths := ps, g_flows := fs, g_reservations := vs, g_workers := ws,
      g_tenants := ts, g_workloads := ls\<rparr>)"

definition gov_reaches :: "(rat \<Rightarrow> rat) \<Rightarrow> gov \<Rightarrow> gov \<Rightarrow> bool" where
  "gov_reaches R = (gov_step R)\<^sup>*\<^sup>*"

definition reachable :: "(rat \<Rightarrow> rat) \<Rightarrow> gov \<Rightarrow> bool" where
  "reachable R g \<longleftrightarrow> (\<exists>cfg rng wall. gov_reaches R (Governor_init cfg rng wall) g)"

section \<open>The invariant\<close>

definition gov_inv :: "(rat \<Rightarrow> rat) \<Rightarrow> gov \<Rightarrow> bool" where
  "gov_inv R g \<longleftrightarrow> inv_core R g \<and> all_res (nominal_ok R) (g_resources g) \<and> (idle g \<longrightarrow> all_res quiet (g_resources g))"

text \<open>
  A step outside the recomputations: the resource table keeps validity and stillness, and the
  flows their being terminal or not.
\<close>

definition still :: "(rat \<Rightarrow> rat) \<Rightarrow> gov \<Rightarrow> gov \<Rightarrow> bool" where
  "still R g g' \<longleftrightarrow>
     (all_res (nominal_ok R) (g_resources g) \<longrightarrow> all_res (nominal_ok R) (g_resources g')) \<and>
     (idle g' \<longrightarrow> idle g \<and> (all_res quiet (g_resources g) \<longrightarrow> all_res quiet (g_resources g')))"

lemma stillI:
  assumes "g_resources g' = g_resources g" "idle g' \<Longrightarrow> idle g"
  shows "still R g g'"
  using assms by (simp add: still_def)

lemma still_trans: "still R a b \<Longrightarrow> still R b c \<Longrightarrow> still R a c"
  by (auto simp: still_def)

lemma still_refl [simp]: "still R g g"
  by (simp add: still_def)

lemma inv_still: "gov_inv R g \<Longrightarrow> still R g g' \<Longrightarrow> inv_core R g' \<Longrightarrow> gov_inv R g'"
  by (auto simp: gov_inv_def still_def)

lemma inv_usage:
  assumes "inv_core R (recompute_usage R' h)" "all_res (nominal_ok R) (g_resources h)"
  shows "gov_inv R (recompute_usage R' h)"
proof -
  have "inv_core R h" using assms(1) inv_core_cong [of "recompute_usage R' h" h R] by (simp add: frame_simps)
  moreover have "idle h" if "idle (recompute_usage R' h)" using that idle_cong [of "recompute_usage R' h" h] by (simp add: frame_simps)
  ultimately show ?thesis using quiet_usage nominal_usage [OF assms(2)] assms(1) by (simp add: gov_inv_def)
qed

section \<open>Resource operations\<close>

lemma still_update_resource:
  assumes "all_res (nominal_ok R) (g_resources g) \<Longrightarrow> nominal_ok R r" "all_res quiet (g_resources g) \<Longrightarrow> quiet r"
    and "g_flows g' = g_flows g" "g_resources g' = AList.update rid r (g_resources g)"
  shows "still R g g'"
  using assms idle_cong [OF assms(3)] by (auto simp: still_def intro: all_res_update)

lemma still_recompute:
  "still R g (recompute_governed R' g)" "still R g (recompute_saturation R' g)"
  using idle_cong [of "recompute_governed R' g" g] idle_cong [of "recompute_saturation R' g" g]
  by (auto simp: still_def frame_simps nominal_recompute quiet_governed quiet_saturation)

lemma umap_entry_res:
  "all_res P res \<Longrightarrow> P ResRT_default \<Longrightarrow> P (umap_entry ResRT_default rid res)"
  by (auto simp: umap_entry_def dest: all_res_lookup split: option.splits)

lemma quiet_default [simp]: "quiet ResRT_default"
  by (simp add: quiet_def ResRT_default_def)

lemma quiet_entry: "all_res quiet res \<Longrightarrow> quiet (umap_entry ResRT_default rid res)"
  by (rule umap_entry_res) simp_all

lemma still_add_resource:
  assumes "rate_ok R (cap_value (rs_nominal spec))"
  shows "still R g (snd (add_resource R' spec g))"
proof -
  obtain n gen where n: "IdGen_next64 (g_gen g) = (n, gen)" by fastforce
  have "still R g ((now_next h)\<lparr>g_resources := AList.update (rs_id spec)
      ((umap_entry ResRT_default (rs_id spec) (g_resources g))\<lparr>rr_spec := s, rr_measured := f0, rr_last_ms := t, rr_confidence := f0\<rparr>)
      (g_resources g)\<rparr>)"
    if "g_flows h = g_flows g" "rs_nominal s = rs_nominal spec" for h s t
    using that assms quiet_entry [of "g_resources g" "rs_id spec"]
    by (intro still_update_resource) (auto simp: nominal_ok_def quiet_def frame_simps)
  then show ?thesis
    unfolding add_resource_def Let_def n by (auto intro!: still_trans [OF _ still_recompute(1)])
qed

lemma still_register_resource:
  assumes "rate_ok R (cap_value (rs_nominal rs))"
  shows "still R g (register_resource g rs)"
proof -
  obtain n gen where n: "IdGen_next64 (g_gen g) = (n, gen)" by fastforce
  have "still R g ((now_next h)\<lparr>g_resources := AList.update (rs_id rs)
      ((umap_entry ResRT_default (rs_id rs) (g_resources g))\<lparr>rr_spec := s, rr_measured := f0, rr_last_ms := t\<rparr>)
      (g_resources g)\<rparr>)"
    if "g_flows h = g_flows g" "rs_nominal s = rs_nominal rs" for h s t
    using that assms quiet_entry [of "g_resources g" "rs_id rs"]
    by (intro still_update_resource) (auto simp: nominal_ok_def quiet_def frame_simps)
  then show ?thesis unfolding register_resource_def Let_def n by auto
qed

lemma still_update_capacity: "still R g (snd (update_capacity R' rid m c prov l q bump g))"
proof (cases "map_of (g_resources g) rid")
  case (Some r)
  have "still R g (h\<lparr>g_resources := AList.update rid r' (g_resources g)\<rparr>)"
    if "g_flows h = g_flows g" "rs_nominal (rr_spec r') = rs_nominal (rr_spec r)" "rr_reserved r' = rr_reserved r"
      "rr_allocated r' = rr_allocated r" for h r'
    using that all_res_lookup [OF _ Some, of quiet] all_res_lookup [OF _ Some, of "nominal_ok R"]
    by (intro still_update_resource) (auto simp: nominal_ok_def quiet_def)
  then show ?thesis using Some
    by (auto simp: update_capacity_def Let_def frame_simps intro!: still_trans [OF _ still_recompute(2)] still_trans [OF _ still_recompute(1)])
qed (simp add: update_capacity_def)

lemma still_set_resource_enabled: "still R g (set_resource_enabled R' rid b g)"
proof (cases "map_of (g_resources g) rid")
  case (Some r)
  have "still R g (g\<lparr>g_resources := AList.update rid (r\<lparr>rr_enabled := b\<rparr>) (g_resources g)\<rparr>)"
    using all_res_lookup [OF _ Some, of quiet] all_res_lookup [OF _ Some, of "nominal_ok R"]
    by (intro still_update_resource) (auto simp: nominal_ok_def quiet_def)
  then show ?thesis using Some
    by (auto simp: set_resource_enabled_def intro!: still_trans [OF _ still_recompute(2)] still_trans [OF _ still_recompute(1)])
qed (simp add: set_resource_enabled_def)

lemma still_invalidate_resource: "still R g (invalidate_resource_capacity R' rid g)"
proof (cases "map_of (g_resources g) rid")
  case (Some r)
  have "still R g (g\<lparr>g_resources := AList.update rid
      (r\<lparr>rr_spec := (rr_spec r)\<lparr>rs_generation := next_generation (rs_generation (rr_spec r))\<rparr>\<rparr>) (g_resources g),
      g_capacity_generation := next_generation (g_capacity_generation g)\<rparr>)"
    using all_res_lookup [OF _ Some, of quiet] all_res_lookup [OF _ Some, of "nominal_ok R"]
    by (intro still_update_resource) (auto simp: nominal_ok_def quiet_def)
  then show ?thesis using Some
    by (auto simp: invalidate_resource_capacity_def intro!: still_trans [OF _ still_recompute(2)] still_trans [OF _ still_recompute(1)])
qed (simp add: invalidate_resource_capacity_def)

section \<open>Flow and reservation operations\<close>

lemma not_idle_update:
  "\<not> flow_terminal (fr_state f) \<Longrightarrow> g_flows g = AList.update fid f fs \<Longrightarrow> \<not> idle g"
  by (auto simp: idle_def)

lemma submit_flow_inv:
  assumes "request_ok R spec" "gov_inv R g" "inv_core R (snd (submit_flow R' spec g))"
  shows "gov_inv R (snd (submit_flow R' spec g))"
proof (cases "validate_flow_spec spec = None \<and> map_of (g_flows g) (fs_id spec) = None \<and> map_of (g_paths g) (fs_path spec) \<noteq> None")
  case False
  then have "snd (submit_flow R' spec g) = g" by (auto simp: submit_flow_def split: option.splits)
  then show ?thesis using assms(2) by simp
next
  case True
  then obtain p where p: "map_of (g_paths g) (fs_path spec) = Some p" by auto
  have ok: "spec_ok R spec" using True request_ok_valid [OF assms(1)] by simp
  then have ord: "spec_ordered spec" by (simp add: spec_ok_def)
  let ?g = "recompute_allocated R' (recompute_reserved R' (recompute_governed R' g))"
  obtain feas least b where scan: "scan_hops R' (g_resources ?g) (cap_value (fs_requested_min spec)) (path_hops p) (True, kMaxRate, None) = (feas, least, b)"
    by (metis prod_cases3)
  let ?h = "count_submitted spec ?g"
  have nom: "all_res (nominal_ok R) (g_resources ?h)"
    using assms(2) by (auto simp: gov_inv_def count_submitted_def Let_def intro!: nominal_recompute)
  have x: "is_valid_rate (admission_grant spec least)"
    by (rule rate_between(1) [OF ord admission_grant_bounds [OF ord]])
  let ?g' = "snd (submit_flow R' spec g)"
  have eq: "?g' = (if feas then snd (reserve_flow R' spec (path_hops p) least b ?h) else snd (park_flow spec b ?h))"
    using True p scan by (simp add: submit_flow_def Let_def split: prod.splits)
  have "all_res (nominal_ok R) (g_resources ?g') \<and> \<not> idle ?g'"
  proof (cases feas)
    case False
    then show ?thesis using nom eq
      by (auto simp: park_flow_def Let_def frame_simps flow_terminal_def idle_def)
  next
    case True
    obtain rid :: ReservationId and gen where gen: "IdGen_next (g_gen ?h) = (rid, gen)" by fastforce
    obtain g1 f where g1: "?g' = recompute_usage R' g1" "g_resources g1 = g_resources ?h"
      "g_flows g1 = AList.update (fs_id spec) f (g_flows ?h)" "fr_state f = Reserved"
      using True eq gen by (simp add: reserve_flow_def Let_def mk_allocations_ok [OF x] x frame_simps split: prod.splits)
    then have "\<not> idle g1" by (intro not_idle_update) (simp_all add: flow_terminal_def)
    then have "\<not> idle ?g'" using idle_cong [of ?g' g1] by (simp add: g1(1) frame_simps)
    then show ?thesis using nom g1(1,2) nominal_usage [of R g1 R'] by simp
  qed
  then show ?thesis using assms(3) by (simp add: gov_inv_def)
qed

lemma release_of_resources [frame_simps]: "g_resources (release_of f g) = g_resources g"
  by (auto simp: release_of_def release_reservation_internal_def reservation_move_def split: option.splits)

lemma cancel_flow_inv:
  assumes "gov_inv R g" "inv_core R (snd (cancel_flow R' fid reason g))"
  shows "gov_inv R (snd (cancel_flow R' fid reason g))"
proof -
  have "snd (cancel_flow R' fid reason g) = g \<or>
      (\<exists>h. snd (cancel_flow R' fid reason g) = recompute_usage R' h \<and> g_resources h = g_resources g)"
    by (auto simp: cancel_flow_def Let_def frame_simps split: option.split sum.split)
  then consider "snd (cancel_flow R' fid reason g) = g"
    | h where "snd (cancel_flow R' fid reason g) = recompute_usage R' h" "g_resources h = g_resources g"
    by blast
  then show ?thesis
  proof cases
    case 1
    then show ?thesis using assms(1) by simp
  next
    case 2
    then show ?thesis using assms inv_usage [of R R' h] by (simp add: gov_inv_def)
  qed
qed

lemma report_completion_inv:
  assumes "gov_inv R g" "inv_core R (snd (report_completion R' fid a b c n g))"
  shows "gov_inv R (snd (report_completion R' fid a b c n g))"
proof (cases "\<exists>f. map_of (g_flows g) fid = Some f \<and> report_ok g f a b c")
  case True
  then obtain f where f: "map_of (g_flows g) fid = Some f" "report_ok g f a b c" by blast
  let ?h = "release_of (completed_flow g n f) (settle_accounting R' (fr_spec f)
       ((now_next g)\<lparr>g_flows := AList.update fid (completed_flow g n f) (g_flows g)\<rparr>))"
  have eq: "snd (report_completion R' fid a b c n g) = recompute_usage R' ?h"
    using report_completion_accepted [OF f] by simp
  have "all_res (nominal_ok R) (g_resources ?h)" using assms(1) by (simp add: gov_inv_def frame_simps)
  then show ?thesis using inv_usage [of R R' ?h] assms(2) by (simp add: eq)
next
  case False
  then have "snd (report_completion R' fid a b c n g) = g" by (auto simp: report_completion_def split: option.splits)
  then show ?thesis using assms(1) by simp
qed

lemma release_reservation_inv:
  assumes "gov_inv R g" "inv_core R (snd (release_reservation R' rid g))"
  shows "gov_inv R (snd (release_reservation R' rid g))"
proof -
  have "snd (release_reservation R' rid g) = g \<or> snd (release_reservation R' rid g) =
      recompute_saturation R' (recompute_reserved R' (release_reservation_internal rid g))"
    by (simp add: release_reservation_def split: option.split)
  then consider "snd (release_reservation R' rid g) = g"
    | h where "h = release_reservation_internal rid g"
      "snd (release_reservation R' rid g) = recompute_saturation R' (recompute_reserved R' h)"
    by blast
  then show ?thesis
  proof cases
    case 1
    then show ?thesis using assms(1) by simp
  next
    case 2
    have h: "g_resources h = g_resources g" "g_flows h = g_flows g"
      by (auto simp: 2(1) release_reservation_internal_def reservation_move_def split: option.splits)
    have inv: "inv_core R h" using assms(2) inv_core_cong [of "recompute_saturation R' (recompute_reserved R' h)" h R]
      by (simp add: 2(2) frame_simps)
    let ?g' = "recompute_saturation R' (recompute_reserved R' h)"
    have "all_res quiet (g_resources ?g')" if "idle ?g'"
    proof -
      have "idle h" using that idle_cong [of ?g' h] by (simp add: frame_simps)
      moreover have "all_res quiet (g_resources h)"
        using calculation assms(1) idle_cong [of h g] h by (simp add: gov_inv_def)
      ultimately show ?thesis using quiet_saturation [OF quiet_reserved [OF inv]] by blast
    qed
    moreover have "all_res (nominal_ok R) (g_resources ?g')"
      using assms(1) h by (auto simp: gov_inv_def intro!: nominal_recompute)
    ultimately show ?thesis using assms(2) 2(2) by (simp add: gov_inv_def)
  qed
qed

lemma still_resume_flow: "still R g (snd (resume_flow fid g))"
proof (rule stillI)
  show "g_resources (snd (resume_flow fid g)) = g_resources g"
    by (auto simp: resume_flow_def Let_def split: option.splits prod.splits sum.splits)
  show "idle g" if "idle (snd (resume_flow fid g))"
  proof (cases "snd (resume_flow fid g) = g")
    case False
    then obtain f where f: "map_of (g_flows g) fid = Some f" "fr_state f = Preempted \<or> fr_state f = Throttled"
      by (auto simp: resume_flow_def split: option.splits if_splits)
    then have "\<exists>f'. map_of (g_flows (snd (resume_flow fid g))) fid = Some f' \<and> \<not> flow_terminal (fr_state f')"
      by (auto simp: resume_flow_def Let_def set_flow_state_def flow_terminal_def flow_transition_dispatch(4)
          split: option.splits prod.splits sum.splits)
    then show ?thesis using that by (auto simp: idle_def)
  qed (use that in simp)
qed

section \<open>Workers\<close>

lemma still_restart_flow:
  assumes "fr_state f = Running"
  shows "still R g (snd (restart_flow reg fid f g))"
proof (rule stillI)
  show "g_resources (snd (restart_flow reg fid f g)) = g_resources g"
    by (auto simp: restart_flow_def Let_def frame_simps split: option.splits prod.splits sum.splits)
  have "\<exists>f'. map_of (g_flows (snd (restart_flow reg fid f g))) fid = Some f' \<and> \<not> flow_terminal (fr_state f')"
    using assms by (auto simp: restart_flow_def Let_def set_flow_state_def flow_terminal_def flow_transition_dispatch(4)
        split: option.splits prod.splits sum.splits)
  then show "idle (snd (restart_flow reg fid f g)) \<Longrightarrow> idle g" by (auto simp: idle_def)
qed

lemma still_restart_loop: "still R g (snd (restart_loop reg fids g))"
proof (induction fids arbitrary: g)
  case (Cons fid fids)
  have "still R g (snd (case restart_flow reg fid f g of (Inl e, g) \<Rightarrow> (Inl e, g) | (Inr _, g) \<Rightarrow> restart_loop reg fids g))"
    if "on_worker (wr_worker reg) f" for f
  proof -
    obtain r h where h: "restart_flow reg fid f g = (r, h)" by fastforce
    have "still R g h" using still_restart_flow [of f R g reg fid] that h by (simp add: on_worker_def)
    then show ?thesis using h still_trans [OF _ Cons.IH] by (cases r) auto
  qed
  then show ?case using Cons.IH by (simp split: option.split)
qed simp

lemma still_register_worker:
  assumes "list_all (\<lambda>rs. rate_ok R (cap_value (rs_nominal rs))) (wr_inventory reg)"
  shows "still R g (snd (register_worker R' reg g))"
proof -
  have reg: "list_all (\<lambda>rs. rate_ok R (cap_value (rs_nominal rs))) inv \<Longrightarrow> still R h (foldl register_resource h inv)" for h inv
    using still_register_resource still_trans by (induction inv arbitrary: h) fastforce+
  have "still R g (g\<lparr>g_workers := ws\<rparr>)" for ws by (rule stillI) (simp_all add: idle_def)
  then have "still R g (registered reg g)"
    unfolding registered_def by (rule still_trans [OF _ reg [OF assms]])
  moreover define x where "x = (if is_restart reg g then restart_loop reg (keys (g_flows (registered reg g))) (registered reg g)
      else (Inr (), registered reg g))"
  ultimately have "still R g (snd x)" using still_trans [OF _ still_restart_loop] by simp
  then show ?thesis using still_trans [OF _ still_recompute(1)]
    by (cases x; cases "fst x") (auto simp: register_worker_eq x_def [symmetric])
qed

lemma still_deregister: "still R g (deregister_worker w g)"
proof (rule stillI)
  show "g_resources (deregister_worker w g) = g_resources g"
    by (simp add: deregister_worker_def Let_def split: option.split)
  have state: "fr_state (lose_worker w f) = fr_state f" for f by (simp add: lose_worker_def)
  have "map_of (g_flows (deregister_worker w g)) fid = map_option (lose_worker w) (map_of (g_flows g) fid)" for fid
    by (simp add: deregister_worker_def Let_def split: option.split)
  then show "idle g" if "idle (deregister_worker w g)"
    using that unfolding idle_def by (metis state option.simps(9))
qed

lemma still_report_progress: "still R g (snd (report_progress fid a b c n g))"
proof (rule stillI)
  show "g_resources (snd (report_progress fid a b c n g)) = g_resources g"
    by (simp add: report_progress_def Let_def frame_simps split: option.split)
  have "\<not> idle (snd (report_progress fid a b c n g))" if "snd (report_progress fid a b c n g) \<noteq> g"
    using that report_ok_running
    by (auto simp: idle_def report_progress_def Let_def frame_simps flow_terminal_def split: option.splits if_splits)
  then show "idle (snd (report_progress fid a b c n g)) \<Longrightarrow> idle g" by metis
qed

section \<open>Scheduling and listing\<close>

lemma tick_inv:
  assumes "rounding R" "gov_inv R g" "tick R g = Some (r, g')" "gen_draws (g_gen g') \<le> 2 ^ 64"
  shows "gov_inv R g'"
proof -
  have inv: "inv_core R g" and nom: "all_res (nominal_ok R) (g_resources g)" using assms(2) by (simp_all add: gov_inv_def)
  note good = tick_good [OF assms(1) inv nom assms(3,4)]
  obtain gm where g': "g' = tick_settle R (tick_base R g) (now g) gm" using good(4) by blast
  have "all_res (nominal_ok R) (g_resources (tick_base R g))"
    unfolding tick_base_def by (intro nominal_recompute)
      (use nom in \<open>simp add: tick_queue_def Let_def frame_simps advance_tenant_starvation_def\<close>)
  then show ?thesis using inv_usage good(2) unfolding g' tick_settle_def by simp
qed

lemma relisted_all_res: "relisted res rs \<Longrightarrow> all_res P res \<Longrightarrow> all_res P rs"
proof -
  assume *: "relisted res rs" "all_res P res"
  have "P r" if "(k, r) \<in> set rs" for k r
  proof -
    have "map_of rs k = Some r" using that *(1) map_of_is_SomeI unfolding relisted_def by fastforce
    then have "map_of res k = Some r" using *(1) by (simp only: relisted_def)
    then show ?thesis using *(2) all_res_lookup by blast
  qed
  then show ?thesis by (auto simp: all_res_def)
qed

lemma relisted_keys: "relisted m m' \<Longrightarrow> set (keys m') = set (keys m)"
proof -
  assume "relisted m m'"
  then have "dom (map_of m') = dom (map_of m)" by (simp add: relisted_def)
  then show ?thesis by (simp add: dom_map_of_conv_image_fst)
qed

lemma relist_inv:
  assumes "gov_inv R g" "relisted (g_resources g) rs" "relisted (g_paths g) ps" "relisted (g_flows g) fs"
    "relisted (g_reservations g) vs"
    and g'_def: "g' = g\<lparr>g_resources := rs, g_paths := ps, g_flows := fs, g_reservations := vs, g_workers := ws,
      g_tenants := ts, g_workloads := ls\<rparr>"
  shows "gov_inv R g'" "evolves g g'"
proof -
  have core: "inv_core R g" using assms(1) by (simp add: gov_inv_def)
  note m = assms(2-5) [unfolded relisted_def]
  have "resv_ok fs = resv_ok (g_flows g)" using m by (simp add: resv_ok_def fun_eq_iff)
  moreover have "gen_fresh g'"
    by (rule gen_fresh_mono [OF inv_coreD(6) [OF core]]) (use relisted_keys [OF assms(5)] in \<open>auto simp: g'_def gens_ok_def\<close>)
  moreover have "\<forall>fid f. map_of fs fid = Some f \<longrightarrow> flow_ok R fid f"
    "\<forall>rid rsv. map_of vs rid = Some rsv \<longrightarrow> resv_ok (g_flows g) rid rsv"
    "\<forall>pid p. map_of ps pid = Some p \<longrightarrow> validate_path p = None"
    using m inv_coreD(1-3) [OF core] by metis+
  ultimately have "inv_core R g'" using m unfolding inv_core_def g'_def by (simp del: map_of_eq_Some_iff)
  moreover have "all_res quiet (g_resources g')" if "idle g'"
    using that assms(1) m relisted_all_res [OF assms(2)] by (simp add: gov_inv_def idle_def g'_def)
  moreover have "all_res (nominal_ok R) (g_resources g')"
    using assms(1) relisted_all_res [OF assms(2)] by (simp add: gov_inv_def g'_def)
  ultimately show "gov_inv R g'" by (simp add: gov_inv_def)
  show "evolves g g'" using m by (simp add: evolves_def g'_def)
qed

section \<open>Reachable states\<close>

lemma resume_flow_gens: "gens_ok g (snd (resume_flow fid g))"
proof -
  obtain rid :: ReservationId and gen where gen: "IdGen_next (g_gen g) = (rid, gen)" by fastforce
  have a: "gens_ok g (g\<lparr>g_gen := gen\<rparr>)" by (rule gens_ok_next(1) [OF gen])
  have "g_gen (snd (resume_flow fid g)) = g_gen g \<or> g_gen (snd (resume_flow fid g)) = gen"
    by (auto simp: resume_flow_def Let_def gen split: option.split prod.split sum.split)
  then show ?thesis using a gens_ok_trans3 gens_ok_same by metis
qed

lemma good_step_gens: "good_step R g g' \<Longrightarrow> gens_ok g g'"
  by (simp add: good_step_def)

lemma gov_step_gens:
  assumes "gov_step R g g'"
  shows "gens_ok g g'"
  using assms
proof cases
  case (tick r)
  then show ?thesis using tick_queue_draws [OF tick] good_step_gens [OF tick_base_good [of R g R]] by (simp add: gens_ok_def)
next
  case (submit_flow spec)
  then show ?thesis using good_step_gens [OF good_step_submit_flow(1)] by blast
next
  case (resume_flow fid)
  then show ?thesis using resume_flow_gens by simp
qed (auto intro: good_step_gens [where R = R] good_step_clock good_step_now_next good_step_add_resource good_step_update_capacity
    good_step_set_resource_enabled good_step_invalidate_resource good_step_add_path good_step_invalidate_path
    good_step_cancel_flow(1) good_step_release_reservation good_step_register_worker good_step_deregister
    good_step_report_progress good_step_report_completion gens_ok_same)

lemma inv_still_step:
  assumes "gov_inv R g" "gen_draws (g_gen g') \<le> 2 ^ 64" "good_step R g g'" "still R g g'"
  shows "gov_inv R g' \<and> evolves g g'"
  using assms inv_still [OF assms(1,4)] by (auto simp: gov_inv_def good_step_def)

lemma inv_good_step:
  assumes "gov_inv R g" "gen_draws (g_gen g') \<le> 2 ^ 64" "good_step R g g'" "inv_core R g' \<Longrightarrow> gov_inv R g'"
  shows "gov_inv R g' \<and> evolves g g'"
  using assms by (auto simp: gov_inv_def good_step_def)

lemma gov_step_inv:
  assumes "rounding R" "gov_step R g g'" "gov_inv R g" "gen_draws (g_gen g') \<le> 2 ^ 64"
  shows "gov_inv R g' \<and> evolves g g'"
  using assms(2)
proof cases
  case (set_auto_clock b)
  have "still R g g'" unfolding set_auto_clock by (rule stillI) (simp_all add: set_auto_clock_def idle_def)
  then show ?thesis using assms(3,4) inv_still_step [OF _ _ good_step_clock(1)] set_auto_clock by simp
next
  case (advance_ms dt)
  have "still R g g'" unfolding advance_ms by (rule stillI) (simp_all add: advance_ms_def idle_def)
  then show ?thesis using assms(3,4) inv_still_step [OF _ _ good_step_clock(2)] advance_ms by simp
next
  case read_clock
  have "still R g g'" unfolding read_clock by (rule stillI) (simp_all add: frame_simps idle_def)
  then show ?thesis using assms(3,4) inv_still_step [OF _ _ good_step_now_next] read_clock by simp
next
  case (add_resource spec)
  then show ?thesis using assms(3,4) inv_still_step [OF _ _ good_step_add_resource still_add_resource] by simp
next
  case update_capacity
  then show ?thesis using assms(3,4) inv_still_step [OF _ _ good_step_update_capacity still_update_capacity] by simp
next
  case set_resource_enabled
  then show ?thesis using assms(3,4) inv_still_step [OF _ _ good_step_set_resource_enabled still_set_resource_enabled] by simp
next
  case invalidate_resource
  then show ?thesis using assms(3,4) inv_still_step [OF _ _ good_step_invalidate_resource still_invalidate_resource] by simp
next
  case (add_path p)
  have "still R g g'" unfolding add_path by (rule stillI) (auto simp: add_path_def idle_def split: option.splits)
  then show ?thesis using assms(3,4) inv_still_step [OF _ _ good_step_add_path] add_path by simp
next
  case (invalidate_path pid)
  have "still R g g'" unfolding invalidate_path by (rule stillI) (auto simp: invalidate_path_def idle_def split: option.splits)
  then show ?thesis using assms(3,4) inv_still_step [OF _ _ good_step_invalidate_path] invalidate_path by simp
next
  case (submit_flow spec)
  then show ?thesis
    using assms(3,4) inv_good_step [OF _ _ good_step_submit_flow(1) submit_flow_inv] by simp
next
  case cancel_flow
  then show ?thesis using assms(3,4) inv_good_step [OF _ _ good_step_cancel_flow(1) cancel_flow_inv] by simp
next
  case (resume_flow fid)
  have "good_step R g g'" unfolding resume_flow by (rule good_step_resume_flow(1)) (use assms(3) in \<open>simp add: gov_inv_def\<close>)
  then show ?thesis using assms(3,4) inv_still_step still_resume_flow resume_flow by simp
next
  case (tick r)
  then show ?thesis
    using tick_inv [OF assms(1,3) _ assms(4)] tick_good(3) [OF assms(1) _ _ _ assms(4)] assms(3) by (auto simp: gov_inv_def)
next
  case release_reservation
  then show ?thesis using assms(3,4) inv_good_step [OF _ _ good_step_release_reservation release_reservation_inv] by simp
next
  case (register_worker reg)
  then show ?thesis using assms(3,4) inv_still_step [OF _ _ good_step_register_worker still_register_worker] by simp
next
  case deregister_worker
  then show ?thesis using assms(3,4) inv_still_step [OF _ _ good_step_deregister still_deregister] by simp
next
  case report_progress
  then show ?thesis using assms(3,4) inv_still_step [OF _ _ good_step_report_progress still_report_progress] by simp
next
  case report_completion
  then show ?thesis using assms(3,4) inv_good_step [OF _ _ good_step_report_completion report_completion_inv] by simp
next
  case (relist rs ps fs vs ws ts ls)
  then show ?thesis using relist_inv [OF assms(3) relist(2-5) relist(1)] by simp
qed

lemma init_inv: "gov_inv R (Governor_init cfg rng wall)"
proof -
  obtain c :: CoordinatorId and gen where 1: "IdGen_next (IdGen_seed (cfg_id_salt cfg) rng) = (c, gen)" by fastforce
  obtain n1 gen1 where 2: "IdGen_next64 gen = (n1, gen1)" by fastforce
  obtain n2 gen2 where 3: "IdGen_next64 gen1 = (n2, gen2)" by fastforce
  have "gen_wf gen2"
    using IdGen_seed_wf [of "cfg_id_salt cfg" rng] IdGen_next_wf IdGen_next64_wf 1 2 3 by (metis snd_conv)
  then show ?thesis
    by (simp add: Governor_init_def Let_def 1 2 3 gov_inv_def inv_core_def gen_fresh_def all_res_def)
qed

lemma gov_reaches_gens:
  assumes "gov_reaches R g g'"
  shows "gens_ok g g'"
  using assms unfolding gov_reaches_def
proof (induction rule: rtranclp_induct)
  case (step b c)
  then show ?case using gens_ok_trans gov_step_gens by blast
qed (simp add: gens_ok_def)

lemma gov_reaches_inv:
  assumes "gov_reaches R g g'" "rounding R" "gov_inv R g" "gen_draws (g_gen g') \<le> 2 ^ 64"
  shows "gov_inv R g' \<and> evolves g g'"
  using assms(1,4) unfolding gov_reaches_def
proof (induction rule: rtranclp_induct)
  case (step b c)
  have "gen_draws (g_gen b) \<le> gen_draws (g_gen c)" using gov_step_gens [OF step(2)] by (simp add: gens_ok_def)
  then have b: "gov_inv R b" "evolves g b" using step by auto
  from gov_step_inv [OF assms(2) step(2) b(1) step.prems] show ?case using b(2) evolves_trans by blast
qed (simp add: assms(3))

lemma reachable_inv: "rounding R \<Longrightarrow> reachable R g \<Longrightarrow> gen_draws (g_gen g) \<le> 2 ^ 64 \<Longrightarrow> gov_inv R g"
  using gov_reaches_inv [OF _ _ init_inv] by (auto simp: reachable_def)

end
