(* ===== verification/Governor_Life.thy ===== *)
theory Governor_Life
  imports Governor_Reach
begin

text \<open>
  A run of the governor, in exact arithmetic with a clock that stands still, for the witnesses: a
  fresh governor, a resource of 1000 bytes per second with a path over it, a flow that asks for 250,
  its cancellation.
\<close>

definition life_0 :: gov where
  "life_0 = Governor_init \<lparr>cfg_policy = PolicyConfig_default, cfg_id_salt = 1, cfg_auto_clock = True\<rparr>
     (\<lambda>n. of_nat n) (\<lambda>_. f0)"

definition life_1 :: gov where
  "life_1 = snd (add_path demo_path (snd (add_resource (\<lambda>x. x) demo_rspec life_0)))"

definition life_2 :: gov where
  "life_2 = snd (submit_flow (\<lambda>x. x) demo_spec life_1)"

definition life_3 :: gov where
  "life_3 = snd (cancel_flow (\<lambda>x. x) demo_fid ''done'' life_2)"

definition life_resv :: ReservationId where
  "life_resv = fst (IdGen_next (g_gen life_1))"

lemmas eval_defs = demo_path_def demo_rid_def demo_pid_def demo_fid_def demo_rspec_def demo_spec_def fixture_flow_def
  fresh_generation_def Governor_init_def Let_def IdGen_seed_def IdGen_next_def IdGen_next64_def validate_path_def
  validate_hops.simps is_null_def ResourceSpec_default_def recompute_governed_def umap_entry_def staleness_of_def
  feq_def now_def now_next_def governed_resource_def governed_of_def freshness_of_def PolicyConfig_default_def
  ResRT_default_def kMaxRate_def fl_small flit_def null_id_def fsub_def

lemmas eval_flow_defs = validate_flow_spec_def recompute_reserved_def recompute_allocated_def hop_avail_def
  count_submitted_def reserve_flow_def admission_grant_def fmin3_def fmin_def fclamp_def mk_allocations_def
  mk_reservation_def Capacity_make_def FlowRT_of_def recompute_saturation_def saturation_of_def reserve_one_def
  allocate_one_def

lemma life_1_eq: "life_1 =
  \<lparr>g_config = \<lparr>cfg_policy = PolicyConfig_default, cfg_id_salt = 1, cfg_auto_clock = True\<rparr>,
   g_gen = \<lparr>gen_salt = 1, gen_counter = 3, gen_rng = word_of_nat, gen_draws = 3\<rparr>,
   g_coordinator = Id128 0 1, g_epoch = Id128 4294967298 1, g_capacity_generation = Id128 8589934599 1,
   g_auto_clock = True, g_virtual_now = f0,
   g_resources = [(demo_rid, ResRT_default\<lparr>rr_spec := demo_rspec, rr_governed := Fin 1000\<rparr>)],
   g_paths = [(demo_pid, demo_path)], g_flows = [], g_reservations = [], g_workers = [], g_tenants = [],
   g_workloads = [], g_wall = \<lambda>_. f0, g_wall_pos = 1\<rparr>"
  by (simp add: life_1_def add_path_def add_resource_def life_0_def eval_defs)

lemma life_2_eq:
  "g_gen life_2 = \<lparr>gen_salt = 1, gen_counter = 4, gen_rng = word_of_nat, gen_draws = 4\<rparr>"
  "g_flows life_2 = [(demo_fid, (FlowRT_of demo_spec)\<lparr>fr_state := Reserved, fr_granted := Fin 250, fr_reservation := Some life_resv\<rparr>)]"
  "map (\<lambda>(k, r). (k, rv_id r, rv_flow r, rv_state r)) (g_reservations life_2) = [(life_resv, life_resv, demo_fid, RActive)]"
  by (simp_all add: life_2_def submit_flow_def life_1_eq)
     (simp_all add: eval_defs eval_flow_defs life_resv_def life_1_eq)

lemma demo_request_ok: "request_ok (\<lambda>x. x) demo_spec" "rate_ok (\<lambda>x. x) (cap_value (rs_nominal demo_rspec))"
  using dbl_max_large
  by (simp_all add: request_ok_def rate_ok_def is_double_def demo_spec_def fixture_flow_def demo_rspec_def)

lemma gov_reaches_step: "gov_reaches R g h \<Longrightarrow> gov_step R h g' \<Longrightarrow> gov_reaches R g g'"
  by (simp add: gov_reaches_def)

lemma life_steps:
  "gov_reaches (\<lambda>x. x) life_0 life_1" "gov_reaches (\<lambda>x. x) life_1 life_2" "gov_reaches (\<lambda>x. x) life_2 life_3"
proof -
  have refl: "gov_reaches R g g" for R g by (simp add: gov_reaches_def)
  show "gov_reaches (\<lambda>x. x) life_0 life_1"
    unfolding life_1_def
    by (rule gov_reaches_step [OF gov_reaches_step [OF refl gov_step.add_resource [OF demo_request_ok(2)]] gov_step.add_path])
  show "gov_reaches (\<lambda>x. x) life_1 life_2"
    unfolding life_2_def by (rule gov_reaches_step [OF refl gov_step.submit_flow [OF demo_request_ok(1)]])
  show "gov_reaches (\<lambda>x. x) life_2 life_3"
    unfolding life_3_def by (rule gov_reaches_step [OF refl gov_step.cancel_flow])
qed

lemma gov_reaches_trans: "gov_reaches R a b \<Longrightarrow> gov_reaches R b c \<Longrightarrow> gov_reaches R a c"
  by (simp add: gov_reaches_def)

lemma life_reachable: "reachable (\<lambda>x. x) life_2" "reachable (\<lambda>x. x) life_3"
proof -
  have 2: "gov_reaches (\<lambda>x. x) life_0 life_2" by (rule gov_reaches_trans [OF life_steps(1,2)])
  then show "reachable (\<lambda>x. x) life_2" unfolding reachable_def life_0_def by blast
  show "reachable (\<lambda>x. x) life_3"
    using gov_reaches_trans [OF 2 life_steps(3)] unfolding reachable_def life_0_def by blast
qed

lemma life_3_eq:
  "g_gen life_3 = g_gen life_2"
  "g_flows life_3 = [(demo_fid, (FlowRT_of demo_spec)\<lparr>fr_state := Cancelled, fr_granted := Fin 250,
     fr_reservation := Some life_resv, fr_last_error := ''done''\<rparr>)]"
  by (simp_all add: life_3_def cancel_flow_def life_2_eq(2) set_flow_state_def flow_transition_def Let_def frame_simps
      FlowRT_of_def)

end
