(* ===== verification/Governor_Properties.thy ===== *)
theory Governor_Properties
  imports Governor_Life
begin

text \<open>
  What holds of every state a governor can reach, under any rounding, as long as fewer than
  \<open>2 ^ 64\<close> identities have been drawn.
\<close>

section \<open>Queries\<close>

lemma rmap_total: "(\<And>x. x \<in> set xs \<Longrightarrow> h x = Inr (k x)) \<Longrightarrow> rmap h xs = Inr (map k xs)"
  by (induction xs) auto

lemma to_flow_snap_total:
  assumes "flow_ok R fid f"
  shows "\<exists>s. to_flow_snap f = Inr s"
proof -
  have "is_valid_rate (fmax f0 (fr_granted f))"
    using assms by (auto simp: flow_ok_def spec_ok_def fmax_def elim!: spec_ordered_Fin; cases "fr_granted f"; auto)
  then show ?thesis by (simp add: to_flow_snap_def)
qed

lemma list_flows_returns:
  assumes "inv_core R g"
  shows "\<exists>fs. list_flows g = Inr fs \<and> length fs = length (g_flows g)"
proof -
  define k :: "FlowId \<times> FlowRT \<Rightarrow> FlowSnapshot" where "k = (\<lambda>x. projr ((to_flow_snap \<circ> snd) x))"
  have "(to_flow_snap \<circ> snd) x = Inr (k x)" if "x \<in> set (g_flows g)" for x
  proof -
    have "map_of (g_flows g) (fst x) = Some (snd x)" using that inv_coreD(4) [OF assms] by (simp add: map_of_is_SomeI)
    from to_flow_snap_total [OF inv_coreD(1) [OF assms this]] show ?thesis by (auto simp: k_def)
  qed
  then have "rmap (to_flow_snap \<circ> snd) (g_flows g) = Inr (map k (g_flows g))" by (rule rmap_total)
  then show ?thesis by (simp add: list_flows_def)
qed

section \<open>Properties\<close>

text \<open>
  Property C2. No reservation leaks, and no flow is granted more than it asked for: in every
  reachable state (without a load) a reservation is active or released, an active one is the current reservation of a
  flow of the table that is not terminal, and the grant of every flow lies between zero and the
  maximum of its request.
\<close>

theorem reachable_reservations_owned:
  assumes "rounding R" "reachable R g" "gen_draws (g_gen g) \<le> 2 ^ 64"
  shows "(\<forall>rid rsv. map_of (g_reservations g) rid = Some rsv \<longrightarrow>
      rv_state rsv \<in> {RActive, RReleased} \<and>
      (rv_state rsv = RActive \<longrightarrow> (\<exists>f. map_of (g_flows g) (rv_flow rsv) = Some f \<and>
         fr_reservation f = Some rid \<and> \<not> flow_terminal (fr_state f)))) \<and>
    (\<forall>fid f. map_of (g_flows g) fid = Some f \<longrightarrow>
      fs_id (fr_spec f) = fid \<and> f0 \<le> fr_granted f \<and> fr_granted f \<le> cap_value (fs_requested_max (fr_spec f)))"
proof -
  have "inv_core R g" using reachable_inv [OF assms] by (simp add: gov_inv_def)
  from inv_coreD(1,2) [OF this] show ?thesis by (auto simp: resv_ok_def flow_ok_def)
qed

theorem reachable_reservations_owned_witness:
  "\<exists>rsv. map_of (g_reservations life_2) life_resv = Some rsv \<and> rv_state rsv \<in> {RActive, RReleased}"
proof -
  obtain rsv where "map_of (g_reservations life_2) life_resv = Some rsv"
    using life_2_eq(3) by (cases "g_reservations life_2") auto
  then show ?thesis
    using reachable_reservations_owned [OF exact.rounding_axioms life_reachable(1)] by (auto simp: life_2_eq)
qed

text \<open>
  Property C8. Nothing is left behind: when every flow of a reachable governor (without a load) is completed,
  cancelled or failed, \<^verbatim>\<open>accounting_at_zero\<close> holds: no capacity is reserved or allocated on any
  resource and no reservation is active.
\<close>

theorem idle_accounting_at_zero:
  assumes "rounding R" "reachable R g" "gen_draws (g_gen g) \<le> 2 ^ 64"
    and "\<And>fid f. map_of (g_flows g) fid = Some f \<Longrightarrow> flow_terminal (fr_state f)"
  shows "accounting_at_zero R g"
proof -
  have "gov_inv R g" by (rule reachable_inv [OF assms(1-3)])
  moreover have "idle g" using assms(4) by (simp add: idle_def)
  ultimately show ?thesis using quiet_accounting [OF assms(1)] by (simp add: gov_inv_def)
qed

theorem idle_accounting_at_zero_witness: "accounting_at_zero (\<lambda>x. x) life_3"
  by (rule idle_accounting_at_zero [OF exact.rounding_axioms life_reachable(2)])
     (auto simp: life_3_eq life_2_eq flow_terminal_def split: if_splits)



text \<open>The query of the resources throws exactly when a rate of some resource is not a rate.\<close>

lemma resource_snap_returns:
  "(\<exists>s. resource_snap R r st w = Inr s) \<longleftrightarrow>
     list_all (is_valid_rate \<circ> fmax f0) [rr_measured r, rr_governed r, rr_reserved r, rr_allocated r]"
  by (simp add: resource_snap_def Let_def Capacity_make_def rbind_def)

lemma list_resources_returns:
  "(\<exists>ss. fst (list_resources R g) = Inr ss) \<longleftrightarrow>
     (\<forall>(rid, r) \<in> set (g_resources g). list_all (is_valid_rate \<circ> fmax f0) [rr_measured r, rr_governed r, rr_reserved r, rr_allocated r])"
proof -
  have "(\<exists>ss. fst (list_resources_loop R rs g) = Inr ss) \<longleftrightarrow>
      (\<forall>r \<in> set rs. list_all (is_valid_rate \<circ> fmax f0) [rr_measured r, rr_governed r, rr_reserved r, rr_allocated r])" for rs
  proof (induction rs arbitrary: g)
    case (Cons r rs)
    obtain st g' where st: "staleness_of R g r = (st, g')" by fastforce
    show ?case
    proof (cases "resource_snap R r st (policy_window g)")
      case (Inl e)
      then show ?thesis using resource_snap_returns [of R r st "policy_window g"] st by auto
    next
      case (Inr s)
      then have "list_all (is_valid_rate \<circ> fmax f0) [rr_measured r, rr_governed r, rr_reserved r, rr_allocated r]"
        using resource_snap_returns [of R r st "policy_window g"] by blast
      then show ?thesis using Inr st Cons.IH [of g']
        by (cases "list_resources_loop R rs g'"; cases "fst (list_resources_loop R rs g')") auto
    qed
  qed simp
  from this [of "map snd (g_resources g)"] show ?thesis
    by (cases "list_resources_loop R (map snd (g_resources g)) g"; cases "fst (list_resources_loop R (map snd (g_resources g)) g)")
      (auto simp: list_resources_def)
qed

text \<open>
  Property C24. Seven operations never throw: in a reachable state a well-typed submission is answered, cancelling and
  resuming are answered, completion reports are answered, registering a worker returns its identity, a tick that returns
  has returned normally, and the flows can be listed. The list of the resources is another matter: it is returned
  exactly when every measured, governed, reserved and allocated rate of every resource, taken as at least zero, is a
  valid rate, and throws otherwise (a resource whose reservations add up to more than \<^verbatim>\<open>kMaxRate\<close> does that).
\<close>

theorem operations_never_throw:
  assumes "rounding R" "reachable R g" "gen_draws (g_gen g) \<le> 2 ^ 64"
  shows "(request_ok R spec \<longrightarrow> (\<exists>res. fst (submit_flow R spec g) = Inr res)) \<and>
    (\<exists>b. fst (cancel_flow R fid reason g) = Inr b) \<and> (\<exists>b. fst (resume_flow fid g) = Inr b) \<and>
    (\<exists>b. fst (report_completion R fid a fgen boot n g) = Inr b) \<and>
    (gen_draws (g_gen (snd (register_worker R reg g))) \<le> 2 ^ 64 \<longrightarrow> fst (register_worker R reg g) = Inr (wr_worker reg)) \<and>
    (\<forall>r g'. tick R g = Some (r, g') \<longrightarrow> gen_draws (g_gen g') \<le> 2 ^ 64 \<longrightarrow> r = Inr ()) \<and>
    (\<exists>fs. list_flows g = Inr fs \<and> length fs = length (g_flows g)) \<and>
    ((\<exists>ss. fst (list_resources R g) = Inr ss) \<longleftrightarrow>
       (\<forall>(rid, r) \<in> set (g_resources g). list_all (is_valid_rate \<circ> fmax f0) [rr_measured r, rr_governed r, rr_reserved r, rr_allocated r]))"
proof -
  have inv: "inv_core R g" "all_res (nominal_ok R) (g_resources g)"
    using reachable_inv [OF assms] by (simp_all add: gov_inv_def)
  have "\<exists>b. fst (report_completion R fid a fgen boot n g) = Inr b"
    using report_completion_result [of R fid a fgen boot n g] by (metis prod.collapse)
  moreover have "\<exists>fs. list_flows g = Inr fs \<and> length fs = length (g_flows g)"
    by (rule list_flows_returns [OF inv(1)])
  moreover note good_step_submit_flow(2) good_step_cancel_flow(2) [OF inv(1)] good_step_resume_flow(2) [OF inv(1)]
      register_worker_returns [OF inv(1)] tick_good(1) [OF assms(1) inv] list_resources_returns [of R g]
  ultimately show ?thesis by blast
qed

theorem operations_never_throw_witness:
  "\<exists>b. fst (cancel_flow (\<lambda>x. x) demo_fid ''x'' life_2) = Inr b"
  using operations_never_throw [OF exact.rounding_axioms life_reachable(1)] life_2_eq(1) by auto

end
