(* ===== verification/Governor_Refs.thy ===== *)
theory Governor_Refs
  imports Governor_Reach
begin

text \<open>
  The references of the flows: the path of every flow of a reachable governor is in the table of paths, and the
  current reservation of a flow in the table of reservations.
\<close>

definition refs_ok :: "gov \<Rightarrow> bool" where
  "refs_ok g \<longleftrightarrow> (\<forall>fid f. map_of (g_flows g) fid = Some f \<longrightarrow>
     map_of (g_paths g) (fs_path (fr_spec f)) \<noteq> None \<and>
     (\<forall>rid. fr_reservation f = Some rid \<longrightarrow> map_of (g_reservations g) rid \<noteq> None))"

text \<open>A step that loses no path and no reservation, and leaves the references of every flow or points them into the tables.\<close>

lemma refs_okI:
  assumes "refs_ok g" "\<And>pid. map_of (g_paths g) pid \<noteq> None \<Longrightarrow> map_of (g_paths g') pid \<noteq> None"
    and "\<And>rid. map_of (g_reservations g) rid \<noteq> None \<Longrightarrow> map_of (g_reservations g') rid \<noteq> None"
    and "\<And>fid f'. map_of (g_flows g') fid = Some f' \<Longrightarrow>
      (\<exists>f. map_of (g_flows g) fid = Some f \<and> fs_path (fr_spec f') = fs_path (fr_spec f) \<and>
         (fr_reservation f' = fr_reservation f \<or> (\<exists>rid. fr_reservation f' = Some rid \<and> map_of (g_reservations g') rid \<noteq> None))) \<or>
      map_of (g_paths g') (fs_path (fr_spec f')) \<noteq> None \<and>
      (\<forall>rid. fr_reservation f' = Some rid \<longrightarrow> map_of (g_reservations g') rid \<noteq> None)"
  shows "refs_ok g'"
  using assms unfolding refs_ok_def by (metis option.inject)

lemma refs_same:
  "refs_ok g \<Longrightarrow> g_flows g' = g_flows g \<Longrightarrow> g_paths g' = g_paths g \<Longrightarrow>
     (\<And>rid. map_of (g_reservations g') rid = None \<longleftrightarrow> map_of (g_reservations g) rid = None) \<Longrightarrow> refs_ok g'"
  by (simp add: refs_ok_def)

lemma reservation_move_dom: "map_of (g_reservations (reservation_move s rid g)) k = None \<longleftrightarrow> map_of (g_reservations g) k = None"
  by (auto simp: reservation_move_def split: option.split)

lemma release_dom: "map_of (g_reservations (release_of f g)) k = None \<longleftrightarrow> map_of (g_reservations g) k = None"
  by (simp add: release_of_reservations)

section \<open>The operations\<close>

lemma refs_count: "refs_ok g \<Longrightarrow> refs_ok (count_submitted spec g)"
  by (erule refs_same) (simp_all add: count_submitted_def Let_def)

lemma refs_submit: "refs_ok g \<Longrightarrow> refs_ok (snd (submit_flow R spec g))"
proof -
  assume ok: "refs_ok g"
  let ?g = "count_submitted spec (recompute_allocated R (recompute_reserved R (recompute_governed R g)))"
  have ok': "refs_ok ?g" by (rule refs_count, rule refs_same [OF ok]) (simp_all add: frame_simps)
  have paths: "g_paths ?g = g_paths g" by (simp add: count_submitted_def Let_def frame_simps)
  have park: "refs_ok (snd (park_flow spec b ?g))" if "map_of (g_paths g) (fs_path spec) \<noteq> None" for b
    using that paths by (intro refs_okI [OF ok'])
      (auto simp: park_flow_def Let_def frame_simps FlowRT_of_def split: if_splits)
  have reserve: "refs_ok (snd (reserve_flow R spec hops l b ?g))" if "map_of (g_paths g) (fs_path spec) \<noteq> None" for hops l b
    using that paths by (intro refs_okI [OF ok'])
      (auto simp: reserve_flow_def Let_def frame_simps FlowRT_of_def split: if_splits sum.splits prod.splits)
  show ?thesis using ok park reserve by (simp add: submit_flow_def Let_def split_beta split: option.split)
qed

lemma refs_flow:
  assumes "refs_ok g" "map_of (g_flows g) fid = Some f" "fs_path (fr_spec f') = fs_path (fr_spec f)"
    "fr_reservation f' = fr_reservation f"
  shows "refs_ok (g\<lparr>g_flows := AList.update fid f' (g_flows g)\<rparr>)"
  using assms by (intro refs_okI [OF assms(1)]) (auto split: if_splits)

lemma refs_attach:
  assumes "refs_ok g" "map_of (g_flows g) fid = Some f" "fs_path (fr_spec f') = fs_path (fr_spec f)" "fr_reservation f' = Some rid"
  shows "refs_ok (g\<lparr>g_gen := gen, g_reservations := AList.update rid rsv (g_reservations g), g_flows := AList.update fid f' (g_flows g)\<rparr>)"
  using assms by (intro refs_okI [OF assms(1)]) (auto split: if_splits)

lemma refs_release: "refs_ok g \<Longrightarrow> refs_ok (release_of f g)"
  by (erule refs_same) (simp_all add: frame_simps release_dom)

lemma refs_recompute: "refs_ok (recompute_usage R g) \<longleftrightarrow> refs_ok g" "refs_ok (recompute_governed R g) \<longleftrightarrow> refs_ok g"
  "refs_ok (recompute_reserved R g) \<longleftrightarrow> refs_ok g" "refs_ok (now_next g) \<longleftrightarrow> refs_ok g" "refs_ok (g\<lparr>g_gen := gen\<rparr>) \<longleftrightarrow> refs_ok g"
  by (simp_all add: refs_ok_def frame_simps)

lemma set_flow_state_refs:
  "set_flow_state s f = Inr f' \<Longrightarrow> fr_spec f' = fr_spec f \<and> fr_reservation f' = fr_reservation f"
  by (auto dest: set_flow_state_Inr)

lemma refs_cancel: "refs_ok g \<Longrightarrow> refs_ok (snd (cancel_flow R fid reason g))"
  by (auto simp: cancel_flow_def Let_def refs_recompute split: option.split sum.split
      intro!: refs_release refs_flow dest!: set_flow_state_refs)

lemma refs_completion: "refs_ok g \<Longrightarrow> refs_ok (snd (report_completion R fid a b c n g))"
proof (cases "\<exists>f. map_of (g_flows g) fid = Some f \<and> report_ok g f a b c")
  case True
  assume ok: "refs_ok g"
  obtain f where f: "map_of (g_flows g) fid = Some f" "report_ok g f a b c" using True by blast
  have "refs_ok ((now_next g)\<lparr>g_flows := AList.update fid (completed_flow g n f) (g_flows (now_next g))\<rparr>)"
    by (rule refs_flow [where f = f]) (use ok f in \<open>simp_all add: refs_recompute completed_flow_def frame_simps\<close>)
  then have "refs_ok (settle_accounting R (fr_spec f) ((now_next g)\<lparr>g_flows := AList.update fid (completed_flow g n f) (g_flows g)\<rparr>))"
    by (simp add: refs_ok_def frame_simps)
  then show ?thesis by (simp add: report_completion_accepted [OF f] refs_recompute refs_release)
next
  case False
  assume "refs_ok g"
  then show ?thesis using False report_completion_result [of R fid a b c n g] by (metis prod.collapse)
qed

lemma refs_progress: "refs_ok g \<Longrightarrow> refs_ok (snd (report_progress fid a b c n g))"
  using refs_flow [of "now_next g" fid] by (auto simp: report_progress_def Let_def refs_recompute frame_simps split: option.split)

lemma refs_resume: "refs_ok g \<Longrightarrow> refs_ok (snd (resume_flow fid g))"
proof (cases "map_of (g_flows g) fid")
  case (Some f)
  assume ok: "refs_ok g"
  then show ?thesis using Some
    by (auto simp: resume_flow_def Let_def split_beta refs_recompute intro!: refs_flow [OF ok Some] refs_attach [OF ok Some]
        dest!: set_flow_state_refs split: option.split sum.split)
qed (simp add: resume_flow_def)

section \<open>The scheduler\<close>

lemma refs_admit_queued:
  assumes "refs_ok g" "map_of (g_flows g) fid = Some f"
  shows "refs_ok (snd (admit_queued R fid f g))"
proof -
  have att: "refs_ok (g\<lparr>g_gen := gen, g_reservations := AList.update rid rsv (g_reservations g), g_wall_pos := n,
      g_flows := AList.update fid f' (g_flows g)\<rparr>)"
    if "fs_path (fr_spec f') = fs_path (fr_spec f)" "fr_reservation f' = Some rid" for f' rid rsv gen n
    using refs_attach [OF assms that] by (simp add: refs_ok_def)
  show ?thesis using assms(1)
    by (auto simp: admit_queued_def Let_def split_beta refs_recompute now_next_def intro!: att refs_attach [OF assms] dest!: set_flow_state_refs
        split: option.split sum.split)
qed

lemma refs_admit_loop: "refs_ok g \<Longrightarrow> refs_ok (snd (admit_loop R fids g))"
proof (induction fids arbitrary: g)
  case (Cons fid fids)
  show ?case
  proof (cases "\<exists>f. map_of (g_flows g) fid = Some f \<and> fr_state f = Queued")
    case True
    then obtain f where f: "map_of (g_flows g) fid = Some f" "fr_state f = Queued" by blast
    then show ?thesis using Cons refs_admit_queued [OF Cons.prems f(1), of R] by (auto split: prod.splits sum.splits)
  next
    case False
    then show ?thesis using Cons by (auto split: option.splits)
  qed
qed simp

lemma refs_map_vals:
  assumes "refs_ok g" "\<And>f. fs_path (fr_spec (h f)) = fs_path (fr_spec f)" "\<And>f. fr_reservation (h f) = fr_reservation f"
  shows "refs_ok (g\<lparr>g_flows := map_vals h (g_flows g)\<rparr>)"
  by (rule refs_okI [OF assms(1)]) (auto simp: assms(2,3))

lemma settle_flow_refs:
  "fr_spec (snd (settle_flow R g gm t fid f)) = fr_spec f \<and> fr_reservation (snd (settle_flow R g gm t fid f)) = fr_reservation f"
  by (auto simp: settle_flow_def Let_def dest!: set_flow_state_refs split: sum.split if_splits)

lemma settle_loop_refs:
  "map_of (snd (settle_loop R g gm t fs)) fid = Some f' \<Longrightarrow>
     \<exists>f. map_of fs fid = Some f \<and> fr_spec f' = fr_spec f \<and> fr_reservation f' = fr_reservation f"
proof (induction fs)
  case (Cons x fs)
  obtain k v where x: "x = (k, v)" by (cases x)
  obtain r v' where v': "settle_flow R g gm t k v = (r, v')" by fastforce
  have "fr_spec v' = fr_spec v" "fr_reservation v' = fr_reservation v" using settle_flow_refs [of R g gm t k v] v' by simp_all
  then show ?case using Cons x v' by (cases r; cases "settle_loop R g gm t fs") (auto split: if_splits)
qed simp

lemma refs_tick:
  assumes "refs_ok g" "tick R g = Some (r, g')"
  shows "refs_ok g'"
proof -
  let ?a = "advance_tenant_starvation R (now g) (now_next g)"
  have "refs_ok ?a" using assms(1) by (auto simp: refs_ok_def advance_tenant_starvation_def frame_simps starve_def Let_def)
  then have q: "refs_ok (snd (admit_loop R (queued_ids ?a) ?a))" by (rule refs_admit_loop)
  have st: "refs_ok (h\<lparr>g_flows := fs\<rparr>)" if "refs_ok h" "settle_loop R h gm t (g_flows h) = (x, fs)" for h gm t x fs
  proof (rule refs_okI [OF that(1)])
    fix fid f' assume "map_of (g_flows (h\<lparr>g_flows := fs\<rparr>)) fid = Some f'"
    then show "(\<exists>f. map_of (g_flows h) fid = Some f \<and> fs_path (fr_spec f') = fs_path (fr_spec f) \<and>
         (fr_reservation f' = fr_reservation f \<or> (\<exists>rid. fr_reservation f' = Some rid \<and> map_of (g_reservations (h\<lparr>g_flows := fs\<rparr>)) rid \<noteq> None))) \<or>
      map_of (g_paths (h\<lparr>g_flows := fs\<rparr>)) (fs_path (fr_spec f')) \<noteq> None \<and>
      (\<forall>rid. fr_reservation f' = Some rid \<longrightarrow> map_of (g_reservations (h\<lparr>g_flows := fs\<rparr>)) rid \<noteq> None)"
      using settle_loop_refs [of R h gm t "g_flows h" fid f'] that(2) by auto
  qed simp_all
  show ?thesis
    using assms(2) q st [of "recompute_reserved R (recompute_governed R (snd (admit_loop R (queued_ids ?a) ?a)))"]
    by (auto simp: tick_def Let_def refs_recompute split: prod.splits sum.splits option.splits)
qed

section \<open>Workers\<close>

lemma refs_restart_flow:
  assumes "refs_ok g" "map_of (g_flows g) fid = Some f"
  shows "refs_ok (snd (restart_flow reg fid f g))"
proof -
  let ?h = "release_of f g"
  have h: "refs_ok ?h" "map_of (g_flows ?h) fid = Some f" using assms by (simp_all add: refs_release frame_simps)
  have flow: "refs_ok (?h\<lparr>g_gen := gen, g_flows := AList.update fid f' (g_flows g)\<rparr>)"
    if "fs_path (fr_spec f') = fs_path (fr_spec f)" "fr_reservation f' = fr_reservation f" for f' gen
    using refs_flow [OF h that] by (simp add: refs_ok_def frame_simps)
  have att: "refs_ok (?h\<lparr>g_gen := gen, g_reservations := AList.update rid rsv (g_reservations ?h), g_flows := AList.update fid f' (g_flows g)\<rparr>)"
    if "fs_path (fr_spec f') = fs_path (fr_spec f)" "fr_reservation f' = Some rid" for f' rid rsv gen
    using refs_attach [OF h that] by (simp add: frame_simps)
  show ?thesis
    by (auto simp: restart_flow_def Let_def split_beta frame_simps restart_attempt_def intro!: flow att dest!: set_flow_state_refs
        split: option.split sum.split)
qed

lemma refs_restart_loop: "refs_ok g \<Longrightarrow> refs_ok (snd (restart_loop reg fids g))"
proof (induction fids arbitrary: g)
  case (Cons fid fids)
  show ?case
  proof (cases "\<exists>f. map_of (g_flows g) fid = Some f \<and> on_worker (wr_worker reg) f")
    case True
    then obtain f where f: "map_of (g_flows g) fid = Some f" "on_worker (wr_worker reg) f" by blast
    then show ?thesis using Cons refs_restart_flow [OF Cons.prems f(1), of reg] by (auto split: prod.splits sum.splits)
  next
    case False
    then show ?thesis using Cons by (auto split: option.splits)
  qed
qed simp

lemma registered_tables:
  "g_flows (registered reg g) = g_flows g" "g_reservations (registered reg g) = g_reservations g" "g_paths (registered reg g) = g_paths g"
  "g_epoch (registered reg g) = g_epoch g" "g_capacity_generation (registered reg g) = g_capacity_generation g"
proof -
  define tab where "tab g = (g_flows g, g_reservations g, g_paths g, g_epoch g, g_capacity_generation g)" for g :: gov
  have "tab (register_resource g rs) = tab g" for g rs
    by (auto simp: tab_def register_resource_def Let_def frame_simps split: prod.splits)
  then have "tab (foldl register_resource h inv) = tab h" for h inv by (induction inv arbitrary: h) simp_all
  then have "tab (registered reg g) = tab g" by (simp add: registered_def) (simp add: tab_def)
  then show "g_flows (registered reg g) = g_flows g" "g_reservations (registered reg g) = g_reservations g" "g_paths (registered reg g) = g_paths g"
    "g_epoch (registered reg g) = g_epoch g" "g_capacity_generation (registered reg g) = g_capacity_generation g"
    by (simp_all add: tab_def)
qed

lemma refs_register: "refs_ok g \<Longrightarrow> refs_ok (snd (register_worker R reg g))"
proof -
  assume "refs_ok g"
  then have "refs_ok (registered reg g)" by (simp add: refs_ok_def registered_tables)
  from refs_restart_loop [OF this, of reg "keys (g_flows (registered reg g))"] this show ?thesis
    by (cases "restart_loop reg (keys (g_flows (registered reg g))) (registered reg g)"; cases "fst (restart_loop reg (keys (g_flows (registered reg g))) (registered reg g))")
      (auto simp: register_worker_eq refs_recompute)
qed

section \<open>Every reachable governor\<close>

lemma refs_resources:
  assumes "refs_ok g"
  shows "refs_ok (set_auto_clock b g)" "refs_ok (advance_ms R dt g)" "refs_ok (snd (add_resource R spec g))"
    "refs_ok (snd (update_capacity R rid m c prov l q bump g))" "refs_ok (set_resource_enabled R rid b g)"
    "refs_ok (invalidate_resource_capacity R rid g)"
  using assms
  by (simp_all add: refs_ok_def set_auto_clock_def advance_ms_def add_resource_def update_capacity_def set_resource_enabled_def
      invalidate_resource_capacity_def Let_def split_beta frame_simps split: option.split)

lemma refs_paths: "refs_ok g \<Longrightarrow> refs_ok (snd (add_path p g))" "refs_ok g \<Longrightarrow> refs_ok (invalidate_path pid g)"
  by (auto simp: refs_ok_def add_path_def invalidate_path_def split: option.split)

lemma refs_release_reservation: "refs_ok g \<Longrightarrow> refs_ok (snd (release_reservation R rid g))"
  by (erule refs_same)
    (simp_all add: release_reservation_def frame_simps release_reservation_internal_def reservation_move_dom split: option.split)

lemma refs_deregister: "refs_ok g \<Longrightarrow> refs_ok (deregister_worker w g)"
  by (auto simp: refs_ok_def deregister_worker_def lose_worker_def Let_def split: option.split)

lemma refs_step: "gov_step R g g' \<Longrightarrow> refs_ok g \<Longrightarrow> refs_ok g'"
proof (induction rule: gov_step.induct)
  case (relist g rs ps fs vs ws ts ls)
  then show ?case by (simp add: refs_ok_def relisted_def)
qed (auto simp: refs_submit refs_cancel refs_completion refs_progress refs_resume refs_register refs_tick refs_resources refs_paths
    refs_release_reservation refs_deregister refs_recompute)

lemma refs_reachable: "reachable R g \<Longrightarrow> refs_ok g"
proof -
  have "refs_ok (Governor_init cfg rng wall)" for cfg rng wall by (simp add: refs_ok_def Governor_init_def split: prod.split)
  moreover have "gov_reaches R g g' \<Longrightarrow> refs_ok g \<Longrightarrow> refs_ok g'" for g g'
    unfolding gov_reaches_def by (induction rule: rtranclp_induct) (auto intro: refs_step)
  ultimately show "reachable R g \<Longrightarrow> ?thesis" by (auto simp: reachable_def)
qed

end
