(* ===== verification/Governor_Restart.thy ===== *)
theory Governor_Restart
  imports Governor_Refs
begin

text \<open>
  The restart of a worker: every flow that ran on it is rolled to a new attempt, generation and
  reservation, and the former reservation is released.
\<close>

definition restarted :: "WorkerRegistration \<Rightarrow> FlowRT \<Rightarrow> FlowRT \<Rightarrow> bool" where
  "restarted reg f f' \<longleftrightarrow> fr_state f' = Reserved \<and> fr_retries f' = fr_retries f + 1 \<and>
     fs_generation (fr_spec f') = next_generation (fs_generation (fr_spec f)) \<and> fr_bytes_done f' = 0 \<and>
     fr_assigned_worker f' = Some (wr_worker reg) \<and> fr_assigned_boot f' = wr_boot reg"

definition let_go :: "gov \<Rightarrow> FlowRT \<Rightarrow> gov \<Rightarrow> bool" where
  "let_go g f g' \<longleftrightarrow> (\<forall>rid r. fr_reservation f = Some rid \<longrightarrow> map_of (g_reservations g) rid = Some r \<longrightarrow>
     (\<exists>r'. map_of (g_reservations g') rid = Some r' \<and> rv_state r' = RReleased))"

text \<open>The new reservation of a flow: live, for the new attempt and generation, bound to the new boot and minted under the current authority.\<close>

definition renewed :: "WorkerRegistration \<Rightarrow> gov \<Rightarrow> FlowRT \<Rightarrow> bool" where
  "renewed reg g f \<longleftrightarrow> (\<exists>rid rsv. fr_reservation f = Some rid \<and> map_of (g_reservations g) rid = Some rsv \<and>
     rv_state rsv = RActive \<and> rv_flow rsv = fs_id (fr_spec f) \<and> rv_attempt rsv = fs_attempt (fr_spec f) \<and>
     rv_flow_generation rsv = fs_generation (fr_spec f) \<and> rv_worker_boot rsv = wr_boot reg \<and>
     rv_epoch rsv = g_epoch g \<and> rv_capacity_generation rsv = g_capacity_generation g)"

lemma released_stays:
  assumes "evolves g g'" "map_of (g_reservations g) rid = Some r" "rv_state r = RReleased"
  shows "\<exists>r'. map_of (g_reservations g') rid = Some r' \<and> rv_state r' = RReleased"
proof -
  obtain r' where "map_of (g_reservations g') rid = Some r'" "resv_evolves r r'"
    using assms(1,2) unfolding evolves_def by blast
  then show ?thesis using assms(3) reservation_reaches_terminal [of RReleased "rv_state r'"]
    by (auto simp: resv_evolves_def reservation_terminal_def)
qed

lemma restart_attempt_restarted:
  "restarted reg f ((restart_attempt reg attempt f)\<lparr>fr_state := Reserved\<rparr>)"
  "restarted reg f ((restart_attempt reg attempt f)\<lparr>fr_reservation := r, fr_granted := x, fr_state := Reserved\<rparr>)"
  by (simp_all add: restarted_def restart_attempt_def)

lemma restart_flow_frame:
  "g_paths (snd (restart_flow reg fid f g)) = g_paths g" "g_epoch (snd (restart_flow reg fid f g)) = g_epoch g"
  "g_capacity_generation (snd (restart_flow reg fid f g)) = g_capacity_generation g"
  by (auto simp: restart_flow_def Let_def frame_simps split: option.split prod.split sum.split)

text \<open>What restarting one flow does: \<open>h\<close> is the governor after the release and the draw of the attempt.\<close>

lemma restart_flow_cases:
  fixes reg :: WorkerRegistration
  assumes inv: "inv_core R g" and look: "map_of (g_flows g) fid = Some f" and run: "fr_state f = Running"
    and 1: "IdGen_next (g_gen g) = (attempt, gen)" and 2: "IdGen_next gen = (rid, gen')"
  defines "h \<equiv> (release_of f g)\<lparr>g_gen := gen\<rparr>" and "v1 \<equiv> restart_attempt reg attempt f" and "g' \<equiv> snd (restart_flow reg fid f g)"
  shows "map_of (g_paths g) (fs_path (fr_spec f)) = None \<Longrightarrow> g_gen g' = gen \<and> g_reservations g' = g_reservations h \<and>
      g_flows g' = AList.update fid (v1\<lparr>fr_state := Reserved\<rparr>) (g_flows g)"
    and "map_of (g_paths g) (fs_path (fr_spec f)) = Some p \<Longrightarrow> g_gen g' = gen' \<and>
      (\<exists>als. g_reservations g' = AList.update rid (mk_reservation g rid (fr_spec v1) (wr_boot reg) als) (g_reservations h)) \<and>
      (\<exists>x. g_flows g' = AList.update fid (v1\<lparr>fr_reservation := Some rid, fr_granted := x, fr_state := Reserved\<rparr>) (g_flows g))"
proof -
  note x = restart_grant_bounds [OF flow_ok_restart_attempt [OF inv_coreD(1) [OF inv look]], of reg attempt]
  have st: "set_flow_state Reserved v = Inr (v\<lparr>fr_state := Reserved\<rparr>)" if "fr_state v = Running" for v
    using that by (simp add: set_flow_state_def flow_transition_dispatch)
  show "map_of (g_paths g) (fs_path (fr_spec f)) = None \<Longrightarrow> g_gen g' = gen \<and> g_reservations g' = g_reservations h \<and>
      g_flows g' = AList.update fid (v1\<lparr>fr_state := Reserved\<rparr>) (g_flows g)"
    using run st [of v1] by (simp add: g'_def v1_def restart_flow_def Let_def frame_simps 1 h_def)
  show "map_of (g_paths g) (fs_path (fr_spec f)) = Some p \<Longrightarrow> g_gen g' = gen' \<and>
      (\<exists>als. g_reservations g' = AList.update rid (mk_reservation g rid (fr_spec v1) (wr_boot reg) als) (g_reservations h)) \<and>
      (\<exists>x. g_flows g' = AList.update fid (v1\<lparr>fr_reservation := Some rid, fr_granted := x, fr_state := Reserved\<rparr>) (g_flows g))"
    using run mk_allocations_ok [OF x(1), of "path_hops p"]
      st [of "(restart_attempt reg attempt f)\<lparr>fr_reservation := Some rid, fr_granted := restart_grant (restart_attempt reg attempt f)\<rparr>"]
    by (auto simp: g'_def v1_def restart_flow_def Let_def frame_simps 1 2 h_def mk_reservation_def)
qed

lemma restart_flow_effect:
  fixes reg :: WorkerRegistration
  assumes inv: "inv_core R g" and look: "map_of (g_flows g) fid = Some f" and run: "fr_state f = Running"
    and draws: "gen_draws (g_gen (snd (restart_flow reg fid f g))) \<le> 2 ^ 64"
  defines "g' \<equiv> snd (restart_flow reg fid f g)"
  shows "\<exists>f'. g_flows g' = AList.update fid f' (g_flows g) \<and> restarted reg f f' \<and>
      (map_of (g_paths g) (fs_path (fr_spec f)) \<noteq> None \<longrightarrow> renewed reg g' f') \<and>
      (\<forall>k. fr_reservation f' = Some k \<longrightarrow> fr_reservation f = Some k \<or> map_of (g_reservations g) k = None)"
    and "let_go g f g'"
    and "map_of (g_reservations g) k = Some r \<Longrightarrow> fr_reservation f \<noteq> Some k \<Longrightarrow> map_of (g_reservations g') k = Some r"
proof -
  obtain attempt :: AttemptId and gen where 1: "IdGen_next (g_gen g) = (attempt, gen)" by fastforce
  obtain rid :: ReservationId and gen' where 2: "IdGen_next gen = (rid, gen')" by fastforce
  define h where "h = (release_of f g)\<lparr>g_gen := gen\<rparr>"
  note cases = restart_flow_cases [OF inv look run 1 2, where reg = reg, folded h_def g'_def]
  have dom: "map_of (g_reservations h) k = map_option (release_entry (fr_reservation f) k) (map_of (g_reservations g) k)" for k
    by (simp add: h_def release_of_reservations)
  have "gens_ok (release_of f g) h"
    unfolding h_def using gens_ok_next(1) [of "release_of f g" attempt gen] 1 by (simp add: frame_simps)
  then have gh: "good_step R g h"
    unfolding h_def by (rule good_step_trans [OF good_step_release_of good_step_gen])
  have new: "map_of (g_reservations h) rid = None" if "g_gen g' = gen'"
  proof -
    have d: "gen_draws gen' \<le> 2 ^ 64" "gen_draws gen \<le> 2 ^ 64"
      using draws that gens_ok_next(2) [of "h" rid gen'] 2 by (simp_all add: h_def g'_def)
    have "gen_fresh h" using gh inv d(2) by (auto simp: good_step_def h_def intro: inv_coreD(6))
    then have "rid \<notin> set (keys (g_reservations h))"
      by (rule fresh_not_in_keys) (use 2 d(1) in \<open>simp_all add: h_def\<close>)
    then show ?thesis by (simp add: map_of_eq_None_iff)
  qed
  have frame: "g_epoch g' = g_epoch g" "g_capacity_generation g' = g_capacity_generation g" by (simp_all add: g'_def restart_flow_frame)
  show "\<exists>f'. g_flows g' = AList.update fid f' (g_flows g) \<and> restarted reg f f' \<and>
      (map_of (g_paths g) (fs_path (fr_spec f)) \<noteq> None \<longrightarrow> renewed reg g' f') \<and>
      (\<forall>k. fr_reservation f' = Some k \<longrightarrow> fr_reservation f = Some k \<or> map_of (g_reservations g) k = None)"
  proof (cases "map_of (g_paths g) (fs_path (fr_spec f))")
    case None
    then show ?thesis using cases(1) by (auto intro!: exI restart_attempt_restarted(1))
  next
    case (Some p)
    obtain als x where c: "g_gen g' = gen'"
      "g_reservations g' = AList.update rid (mk_reservation g rid (fr_spec (restart_attempt reg attempt f)) (wr_boot reg) als) (g_reservations h)"
      "g_flows g' = AList.update fid ((restart_attempt reg attempt f)\<lparr>fr_reservation := Some rid, fr_granted := x, fr_state := Reserved\<rparr>) (g_flows g)"
      using cases(2) [OF Some] by blast
    have "renewed reg g' ((restart_attempt reg attempt f)\<lparr>fr_reservation := Some rid, fr_granted := x, fr_state := Reserved\<rparr>)"
      by (simp add: renewed_def c(2) frame mk_reservation_def)
    then show ?thesis using c new restart_attempt_restarted(2) dom [of rid]
      by (intro exI [of _ "(restart_attempt reg attempt f)\<lparr>fr_reservation := Some rid, fr_granted := x, fr_state := Reserved\<rparr>"]) auto
  qed
  have keep: "map_of (g_reservations g') k = map_of (g_reservations h) k" if "map_of (g_reservations h) k \<noteq> None" for k
    using cases that new by (cases "map_of (g_paths g) (fs_path (fr_spec f))") auto
  show "let_go g f g'"
    unfolding let_go_def
  proof (intro allI impI)
    fix k r assume k: "fr_reservation f = Some k" "map_of (g_reservations g) k = Some r"
    have "resv_ok (g_flows g) k r" by (rule inv_coreD(2) [OF inv k(2)])
    then have "\<exists>r'. map_of (g_reservations h) k = Some r' \<and> rv_state r' = RReleased"
      using k by (auto simp: dom release_entry_def resv_ok_def)
    then show "\<exists>r'. map_of (g_reservations g') k = Some r' \<and> rv_state r' = RReleased" using keep by auto
  qed
  show "map_of (g_reservations g) k = Some r \<Longrightarrow> fr_reservation f \<noteq> Some k \<Longrightarrow> map_of (g_reservations g') k = Some r"
    using keep [of k] dom [of k] by (simp add: release_entry_def)
qed

lemma restart_loop_skips:
  assumes "map_of (g_flows g) fid = Some f" "fr_state f \<noteq> Running"
  shows "map_of (g_flows (snd (restart_loop reg fids g))) fid = Some f"
  using assms(1)
proof (induction fids arbitrary: g)
  case (Cons x xs)
  have other: "map_of (g_flows g1) fid = Some f"
    if "restart_flow reg x v g = (r, g1)" "map_of (g_flows g) x = Some v" "on_worker (wr_worker reg) v" for v r g1
  proof -
    have "x \<noteq> fid" using that(2,3) Cons.prems assms(2) by (auto simp: on_worker_def)
    moreover have "\<exists>v'. g_flows (snd (restart_flow reg x v g)) = AList.update x v' (g_flows g)"
      by (auto simp: restart_flow_def Let_def frame_simps split: option.split prod.split sum.split)
    ultimately show ?thesis using that(1) Cons.prems by auto
  qed
  show ?case
  proof (cases "\<exists>v. map_of (g_flows g) x = Some v \<and> on_worker (wr_worker reg) v")
    case True
    then obtain v where v: "map_of (g_flows g) x = Some v" "on_worker (wr_worker reg) v" by blast
    obtain r g1 where g1: "restart_flow reg x v g = (r, g1)" by fastforce
    show ?thesis using other [OF g1 v] Cons.IH [of g1] v g1 by (cases r) auto
  next
    case False
    then show ?thesis using Cons by (auto split: option.splits)
  qed
qed simp

text \<open>A reservation that only a flow that is skipped refers to is left alone.\<close>

lemma restart_loop_keeps:
  assumes "inv_core R g" "gen_draws (g_gen (snd (restart_loop reg fids g))) \<le> 2 ^ 64" "map_of (g_reservations g) k = Some r"
    and "\<forall>x v. map_of (g_flows g) x = Some v \<longrightarrow> fr_reservation v = Some k \<longrightarrow> fr_state v \<noteq> Running"
  shows "map_of (g_reservations (snd (restart_loop reg fids g))) k = Some r"
  using assms
proof (induction fids arbitrary: g)
  case (Cons x xs)
  show ?case
  proof (cases "\<exists>v. map_of (g_flows g) x = Some v \<and> on_worker (wr_worker reg) v")
    case False
    then show ?thesis using Cons.IH [of g] Cons.prems by (auto split: option.splits)
  next
    case True
    then obtain v where v: "map_of (g_flows g) x = Some v" "on_worker (wr_worker reg) v" by blast
    obtain g1 where g1: "restart_flow reg x v g = (Inr (), g1)"
      using restart_flow_step(2) [OF v Cons.prems(1)] by (metis prod.collapse)
    have eq: "restart_loop reg (x # xs) g = restart_loop reg xs g1" using v g1 by simp
    have d: "gen_draws (g_gen g1) \<le> 2 ^ 64"
      using restart_loop_gens [of g1 reg xs] Cons.prems(2) eq by (simp add: gens_ok_def)
    have inv1: "inv_core R g1" using restart_flow_step(1) [OF v, of R] Cons.prems(1) d g1 by (auto simp: good_step_def)
    have run: "fr_state v = Running" using v(2) by (simp add: on_worker_def)
    have other: "fr_reservation v \<noteq> Some k" using Cons.prems(4) v(1) run by blast
    note eff = restart_flow_effect [OF Cons.prems(1) v(1) run, of reg, unfolded g1 snd_conv, OF d]
    obtain f' where f': "g_flows g1 = AList.update x f' (g_flows g)" "restarted reg v f'" using eff(1) by blast
    have "fr_state f' \<noteq> Running" using f'(2) by (simp add: restarted_def)
    then have "\<forall>y v. map_of (g_flows g1) y = Some v \<longrightarrow> fr_reservation v = Some k \<longrightarrow> fr_state v \<noteq> Running"
      using Cons.prems(4) f'(1) by auto
    then show ?thesis using Cons.IH [OF inv1 _ eff(3) [OF Cons.prems(3) other]] Cons.prems(2) eq by simp
  qed
qed simp

lemma restart_loop_frame:
  "g_epoch (snd (restart_loop reg fids g)) = g_epoch g" "g_capacity_generation (snd (restart_loop reg fids g)) = g_capacity_generation g"
proof -
  have "g_epoch (snd (restart_loop reg fids g)) = g_epoch g \<and>
    g_capacity_generation (snd (restart_loop reg fids g)) = g_capacity_generation g"
  proof (induction fids arbitrary: g)
    case (Cons x xs)
    have "g_epoch g1 = g_epoch g \<and> g_capacity_generation g1 = g_capacity_generation g" if "restart_flow reg x v g = (r, g1)" for v r g1
      using restart_flow_frame [of reg x v g] that by simp
    then show ?case using Cons.IH by (auto split: option.split prod.split sum.split)
  qed simp
  then show "g_epoch (snd (restart_loop reg fids g)) = g_epoch g"
    "g_capacity_generation (snd (restart_loop reg fids g)) = g_capacity_generation g" by simp_all
qed

lemma restart_loop_effect:
  assumes "inv_core R g" "refs_ok g" "gen_draws (g_gen (snd (restart_loop reg fids g))) \<le> 2 ^ 64" "fid \<in> set fids"
    and "map_of (g_flows g) fid = Some f" "on_worker (wr_worker reg) f"
  shows "(\<exists>f'. map_of (g_flows (snd (restart_loop reg fids g))) fid = Some f' \<and> restarted reg f f' \<and>
      renewed reg (snd (restart_loop reg fids g)) f' \<and> fr_reservation f' \<noteq> fr_reservation f) \<and>
    let_go g f (snd (restart_loop reg fids g))"
  using assms(1-5)
proof (induction fids arbitrary: g)
  case (Cons x xs)
  let ?g' = "snd (restart_loop reg (x # xs) g)"
  show ?case
  proof (cases "\<exists>v. map_of (g_flows g) x = Some v \<and> on_worker (wr_worker reg) v")
    case False
    then have "x \<noteq> fid" using Cons.prems(5) assms(6) by auto
    then show ?thesis using False Cons.IH [of g] Cons.prems by (auto split: option.splits)
  next
    case True
    then obtain v where v: "map_of (g_flows g) x = Some v" "on_worker (wr_worker reg) v" by blast
    obtain g1 where g1: "restart_flow reg x v g = (Inr (), g1)"
      using restart_flow_step(2) [OF v Cons.prems(1)] by (metis prod.collapse)
    have eq: "restart_loop reg (x # xs) g = restart_loop reg xs g1" using v g1 by simp
    have d: "gen_draws (g_gen g1) \<le> 2 ^ 64"
      using restart_loop_gens [of g1 reg xs] Cons.prems(3) eq by (simp add: gens_ok_def)
    have inv1: "inv_core R g1" "evolves g g1"
      using restart_flow_step(1) [OF v, of R] Cons.prems(1) d g1 by (auto simp: good_step_def)
    have refs1: "refs_ok g1" using refs_restart_flow [OF Cons.prems(2) v(1), of reg] g1 by simp
    have ev: "evolves g1 ?g'" using restart_loop_good(1) [of R g1 reg xs] inv1(1) Cons.prems(3) eq by (auto simp: good_step_def)
    have run: "fr_state v = Running" using v(2) by (simp add: on_worker_def)
    note eff = restart_flow_effect [OF Cons.prems(1) v(1) run, of reg, unfolded g1 snd_conv, OF d]
    obtain v' where v': "g_flows g1 = AList.update x v' (g_flows g)" "restarted reg v v'" "renewed reg g1 v'"
      "\<And>k. fr_reservation v' = Some k \<Longrightarrow> fr_reservation v = Some k \<or> map_of (g_reservations g) k = None"
      using eff(1) Cons.prems(2) v(1) unfolding refs_ok_def by blast
    show ?thesis
    proof (cases "x = fid")
      case True
      then have vf: "v = f" using v(1) Cons.prems(5) by simp
      have look: "map_of (g_flows g1) fid = Some v'" using v'(1) True by simp
      obtain k r where k: "fr_reservation v' = Some k" "map_of (g_reservations g1) k = Some r" "rv_state r = RActive"
        using v'(3) by (auto simp: renewed_def)
      have old: "fr_reservation v \<noteq> Some k"
        using eff(2) k Cons.prems(2) v(1) unfolding let_go_def refs_ok_def by fastforce
      then have fresh: "map_of (g_reservations g) k = None" using v'(4) [OF k(1)] by blast
      have alone: "\<forall>y w. map_of (g_flows g1) y = Some w \<longrightarrow> fr_reservation w = Some k \<longrightarrow> fr_state w \<noteq> Running"
      proof (intro allI impI)
        fix y w assume y: "map_of (g_flows g1) y = Some w" "fr_reservation w = Some k"
        have "y = x"
        proof (rule ccontr)
          assume "y \<noteq> x"
          then have "map_of (g_flows g) y = Some w" using y(1) v'(1) by simp
          then show False using y(2) fresh Cons.prems(2) unfolding refs_ok_def by blast
        qed
        then show "fr_state w \<noteq> Running" using y(1) v'(1,2) by (simp add: restarted_def)
      qed
      have "map_of (g_reservations ?g') k = Some r"
        using restart_loop_keeps [OF inv1(1) _ k(2) alone] Cons.prems(3) eq by simp
      then have "renewed reg ?g' v'" using v'(3) k(1,2) eq by (auto simp: renewed_def restart_loop_frame)
      moreover have "map_of (g_flows ?g') fid = Some v'"
        using restart_loop_skips [OF look] v'(2) eq by (simp add: restarted_def)
      moreover have "let_go g f ?g'" using eff(2) released_stays [OF ev] unfolding let_go_def vf by blast
      ultimately show ?thesis using v'(2) vf old k(1) by auto
    next
      case False
      have look: "map_of (g_flows g1) fid = Some f" using v'(1) False Cons.prems(5) by auto
      have in_xs: "fid \<in> set xs" using False Cons.prems(4) by simp
      have "(\<exists>f'. map_of (g_flows (snd (restart_loop reg xs g1))) fid = Some f' \<and> restarted reg f f' \<and>
          renewed reg (snd (restart_loop reg xs g1)) f' \<and> fr_reservation f' \<noteq> fr_reservation f) \<and>
          let_go g1 f (snd (restart_loop reg xs g1))"
        by (rule Cons.IH [OF inv1(1) refs1 _ in_xs look]) (use Cons.prems(3) eq in simp)
      moreover have "let_go g f ?g'" if "let_go g1 f ?g'"
        using that inv1(2) unfolding let_go_def evolves_def by metis
      ultimately show ?thesis using eq by simp
    qed
  qed
qed simp

lemma register_worker_restart:
  assumes "inv_core R g" "refs_ok g" "register_worker R reg g = (Inr w, g')" "gen_draws (g_gen g') \<le> 2 ^ 64" "is_restart reg g"
    and "map_of (g_flows g) fid = Some f" "on_worker (wr_worker reg) f"
  shows "\<exists>f'. map_of (g_flows g') fid = Some f' \<and> restarted reg f f' \<and> renewed reg g' f' \<and> fr_reservation f' \<noteq> fr_reservation f"
    "let_go g f g'"
proof -
  let ?h = "registered reg g"
  let ?l = "restart_loop reg (keys (g_flows ?h)) ?h"
  have g': "g' = recompute_governed R (snd ?l)"
    using assms(3,5) by (auto simp: register_worker_eq split: prod.splits sum.splits)
  have d: "gen_draws (g_gen (snd ?l)) \<le> 2 ^ 64" using assms(4) by (simp add: g' frame_simps)
  have "gen_draws (g_gen ?h) \<le> 2 ^ 64" using restart_loop_gens [of ?h reg "keys (g_flows ?h)"] d by (simp add: gens_ok_def)
  then have inv: "inv_core R ?h" using good_step_registered [of R g reg] assms(1) by (simp add: good_step_def)
  have refs: "refs_ok ?h" using assms(2) by (simp add: refs_ok_def registered_tables)
  have mem: "fid \<in> set (keys (g_flows ?h))" using assms(6) by (force simp: registered_tables dest: map_of_SomeD)
  have look: "map_of (g_flows ?h) fid = Some f" using assms(6) by (simp add: registered_tables)
  note eff = restart_loop_effect [OF inv refs d mem look assms(7)]
  show "\<exists>f'. map_of (g_flows g') fid = Some f' \<and> restarted reg f f' \<and> renewed reg g' f' \<and> fr_reservation f' \<noteq> fr_reservation f"
    using eff by (simp add: g' frame_simps renewed_def)
  show "let_go g f g'" using eff by (simp add: g' frame_simps let_go_def registered_tables)
qed

end
