(* ===== verification/Governor_Overcommit.thy ===== *)
theory Governor_Overcommit
  imports Governor_Life
begin

text \<open>
  The scheduler in exact arithmetic: under a sane policy every tick returns, and the grants it
  hands out on a resource sum up to at most the governed capacity of the resource.
\<close>

section \<open>Weights are not vanishing\<close>

text \<open>
  The program takes any policy; these are the bounds under which the weights it computes stay away from zero. The default
  policy satisfies them.
\<close>

definition sane_policy :: "PolicyConfig \<Rightarrow> bool" where
  "sane_policy p \<longleftrightarrow> Fin 1 \<le> base_priority_weight p \<and> base_priority_weight p \<noteq> PInf \<and>
     Fin (1 / 1000) \<le> latency_sensitive_weight p \<and> Fin (1 / 1000) \<le> throughput_weight p \<and>
     Fin (1 / 1000) \<le> best_effort_weight p \<and> f0 \<le> deadline_weight p \<and> deadline_weight p \<noteq> PInf \<and>
     f0 \<le> starvation_weight p \<and> starvation_weight p \<noteq> PInf"

lemma default_policy_sane: "sane_policy PolicyConfig_default"
  by (simp add: sane_policy_def PolicyConfig_default_def)

text \<open>Not a number, infinite, or at least the bound.\<close>

definition heavy :: "rat \<Rightarrow> f64 \<Rightarrow> bool" where
  "heavy l w \<longleftrightarrow> w = NaN \<or> Fin l \<le> w"

lemma fl_above: "l \<le> x \<Longrightarrow> 0 \<le> l \<Longrightarrow> Fin l \<le> fl (\<lambda>x. x) x"
  using dbl_max_pos(1) by (auto simp: fl_def Let_def)

lemma heavy_fl: "l \<le> x \<Longrightarrow> 0 \<le> l \<Longrightarrow> heavy l (fl (\<lambda>x. x) x)"
  using fl_above by (simp add: heavy_def)

lemma heavy_mul:
  assumes "heavy l w" "heavy m v" "0 < l" "0 < m"
  shows "heavy (l * m) (fmul (\<lambda>x. x) w v)"
proof -
  have "l * m \<le> a * b" if "l \<le> a" "m \<le> b" for a b using that assms(3,4) by (intro mult_mono) auto
  moreover have "0 \<le> l * m" using assms(3,4) by simp
  ultimately show ?thesis
    using assms fl_above by (cases w; cases v) (auto simp: heavy_def)
qed

lemma heavy_mono: "heavy l w \<Longrightarrow> m \<le> l \<Longrightarrow> heavy m w"
  by (cases w) (auto simp: heavy_def)

lemma heavy_add1: "f0 \<le> x \<or> x = NaN \<Longrightarrow> heavy 1 (fadd (\<lambda>x. x) f1 x)"
  using fl_above by (cases x) (auto simp: heavy_def)

lemma fmul_nonneg_or: "f0 \<le> x \<Longrightarrow> f0 \<le> y \<or> y = NaN \<Longrightarrow> f0 \<le> fmul (\<lambda>x. x) x y \<or> fmul (\<lambda>x. x) x y = NaN"
  using exact.fmul_nonneg [of x y] by (cases x; cases y) auto

lemma fclamp_or: "Fin a \<le> Fin b \<Longrightarrow> Fin a \<le> fclamp x (Fin a) (Fin b) \<or> fclamp x (Fin a) (Fin b) = NaN"
  by (cases x) (auto simp: fclamp_def)

lemma heavy_fpow: "Fin 1 \<le> b \<Longrightarrow> b \<noteq> PInf \<Longrightarrow> heavy 1 (fpow (\<lambda>x. x) b n)"
  using fl_above [OF one_le_power] by (cases b) (auto simp: heavy_def)

lemma flow_weight_heavy:
  assumes "sane_policy (cfg_policy (g_config g))"
  shows "heavy (1 / 10000) (flow_weight (\<lambda>x. x) g f t)"
proof -
  let ?R = "\<lambda>x :: rat. x" let ?p = "cfg_policy (g_config g)"
  have one: "heavy (l * 1) (fmul ?R w v)" if "heavy l w" "heavy 1 v" "0 < l" for l w v
    using heavy_mul [OF that(1,2,3)] by simp
  have cls: "heavy (1 * (1 / 1000)) (class_weight ?R ?p c w)" if w: "heavy 1 w" for c w
  proof -
    have "heavy (1 * (1 / 1000)) (fmul ?R w v)" if "Fin (1 / 1000) \<le> v" for v
      by (rule heavy_mul [OF w]) (use that in \<open>simp_all add: heavy_def\<close>)
    then show ?thesis using assms w heavy_mono [OF w, of "1 / 1000"] by (auto simp: class_weight_def sane_policy_def split: LatencyClass.split)
  qed
  have dl: "heavy l (deadline_factor ?R ?p f t w)" if w: "heavy l w" "0 < l" for l w
  proof -
    have "heavy 1 (fadd ?R f1 (fmul ?R (deadline_weight ?p) (fclamp x f0 f1)))" for x
      using assms fclamp_or [of 0 1 x] by (intro heavy_add1 fmul_nonneg_or) (auto simp: sane_policy_def)
    then show ?thesis using w one [OF w(1)] by (auto simp: deadline_factor_def Let_def)
  qed
  have sv: "heavy l (starvation_factor ?R ?p f w)" if w: "heavy l w" "0 < l" for l w
  proof -
    have "heavy 1 (fadd ?R f1 (fmul ?R (starvation_weight ?p) (fmax f0 x)))" for x
      using assms by (intro heavy_add1 fmul_nonneg_or) (auto simp: sane_policy_def)
    then show ?thesis using w one [OF w(1)] by (auto simp: starvation_factor_def Let_def)
  qed
  have fair: "heavy (l * (1 / 4)) (fairness_factor ?R ?p ts f w)" if w: "heavy l w" "0 < l" for l w ts
  proof -
    have "heavy (1 / 4) (fclamp x (Fin (1 / 4)) (Fin 4))" for x using fclamp_or [of "1 / 4" 4 x] by (auto simp: heavy_def)
    then have "heavy (l * (1 / 4)) (fmul ?R w (fclamp x (Fin (1 / 4)) (Fin 4)))" for x
      using w by (intro heavy_mul) auto
    moreover have "heavy (l * (1 / 4)) w" by (rule heavy_mono [OF w(1)]) (use w(2) in simp)
    ultimately show ?thesis by (auto simp: fairness_factor_def Let_def split: option.split)
  qed
  have base: "heavy 1 (fpow ?R (base_priority_weight ?p) n)" for n
    using assms by (intro heavy_fpow) (auto simp: sane_policy_def)
  let ?w = "fairness_factor ?R ?p (g_tenants g) f (starvation_factor ?R ?p f (deadline_factor ?R ?p f t
      (class_weight ?R ?p (fs_latency_class (fr_spec f)) (fpow ?R (base_priority_weight ?p) (nat (max 0 (sint (fs_priority (fr_spec f)))))))))"
  have w: "heavy (1 * (1 / 1000) * (1 / 4)) ?w"
    by (intro fair sv dl cls base) simp_all
  have "heavy (1 * (1 / 1000) * (1 / 4) * 1) (fmul ?R ?w (flit ?R (11 / 10)))"
    by (rule one [OF w]) (auto simp: flit_def intro: heavy_mono [OF heavy_fl [of "11 / 10"]])
  then show ?thesis
    using heavy_mono [OF w, of "1 / 10000"] by (auto simp: flow_weight_def Let_def intro: heavy_mono)
qed

lemma heavy_entry:
  assumes "heavy l (ae_weight e)" "tiny \<le> l" "l \<le> 1"
  shows "tiny \<le> e_weight e"
  using assms by (cases "ae_weight e") (auto simp: heavy_def e_weight_def sanitise_weight_def kMaxRate_def)

lemma tiny_le: "tiny \<le> 1 / 10000"
proof -
  have "(10 :: rat) ^ 4 \<le> 10 ^ 100" by (rule power_increasing) simp_all
  then show ?thesis by (simp add: tiny_def field_simps)
qed

section \<open>The scheduler returns\<close>

lemma grant_loop_returns:
  assumes "\<And>rid es. (rid, es) \<in> set c \<Longrightarrow> tame_list es"
    and "\<And>rid r. map_of res rid = Some r \<Longrightarrow> is_valid_rate (resource_cap (\<lambda>x. x) r)"
  shows "\<exists>gm'. grant_loop (\<lambda>x. x) res c gm = Some gm'"
  using assms(1)
proof (induction c arbitrary: gm)
  case (Cons re c)
  obtain rid es where re: "re = (rid, es)" by fastforce
  have IH: "\<exists>gm'. grant_loop (\<lambda>x. x) res c gm = Some gm'" for gm
    using Cons.IH Cons.prems by (meson list.set_intros(2))
  show ?case
  proof (cases "map_of res rid")
    case (Some r)
    obtain a where a: "resource_cap (\<lambda>x. x) r = Fin a" using assms(2) [OF Some] by (auto simp: is_valid_rate_iff)
    have "tame_list es" using Cons.prems [of rid es] re by simp
    then obtain ar where "allocate_weighted (\<lambda>x. x) es (Fin a) = Some ar"
      using allocation_bounded_aux [of es a] assms(2) [OF Some] a by auto
    then show ?thesis using Some a IH re by simp
  qed (use IH re in simp)
qed simp

text \<open>The flows of the table are the same before and after the admission of the queue.\<close>

lemma admit_queued_flow_keys:
  "map_of (g_flows g) fid = Some f \<Longrightarrow> keys (g_flows (snd (admit_queued R fid' f' g))) = keys (g_flows g) \<or> fid' \<noteq> fid"
  by (auto simp: admit_queued_def Let_def frame_simps keys_update_in split: option.splits prod.splits sum.splits)

lemma admit_loop_flow_keys: "keys (g_flows (snd (admit_loop R fids g))) = keys (g_flows g)"
proof (induction fids arbitrary: g)
  case (Cons fid fids)
  have "keys (g_flows (snd (case admit_queued R fid f g of (Inl e, g) \<Rightarrow> (Inl e, g) | (Inr _, g) \<Rightarrow> admit_loop R fids g))) =
      keys (g_flows g)" if "map_of (g_flows g) fid = Some f" for f
    using admit_queued_flow_keys [OF that, of R fid f] Cons.IH
    by (cases "admit_queued R fid f g"; cases "fst (admit_queued R fid f g)") auto
  then show ?case using Cons.IH by (auto split: option.split)
qed simp

lemma tick_base_flow_keys: "keys (g_flows (tick_base R g)) = keys (g_flows g)"
  by (simp add: tick_base_def tick_queue_def Let_def frame_simps admit_loop_flow_keys advance_tenant_starvation_def)

lemma tick_base_flow_count: "length (g_flows (tick_base R g)) = length (g_flows g)"
  by (metis length_map tick_base_flow_keys)

lemma admit_queued_draws: "gen_draws (g_gen (snd (admit_queued R fid f g))) \<le> gen_draws (g_gen g) + 1"
  by (auto simp: admit_queued_def Let_def frame_simps IdGen_next_def IdGen_next64_def split: option.splits prod.splits sum.splits)

lemma admit_loop_draws: "gen_draws (g_gen (snd (admit_loop R fids g))) \<le> gen_draws (g_gen g) + length fids"
proof (induction fids arbitrary: g)
  case (Cons fid fids)
  have "gen_draws (g_gen (snd (case admit_queued R fid f g of (Inl e, g) \<Rightarrow> (Inl e, g) | (Inr _, g) \<Rightarrow> admit_loop R fids g))) \<le>
      gen_draws (g_gen g) + length (fid # fids)" for f
    using admit_queued_draws [of R fid f g] Cons.IH [of "snd (admit_queued R fid f g)"]
    by (cases "admit_queued R fid f g"; cases "fst (admit_queued R fid f g)") auto
  then show ?case using Cons.IH [of g] by (auto split: option.split)
qed simp

lemma tick_base_draws: "gen_draws (g_gen (tick_base R g)) \<le> gen_draws (g_gen g) + length (g_flows g)"
proof -
  let ?g = "advance_tenant_starvation R (now g) (now_next g)"
  have "length (queued_ids ?g) \<le> length (g_flows ?g)" unfolding queued_ids_def length_map by (rule length_filter_le)
  then show ?thesis using admit_loop_draws [of R "queued_ids ?g" ?g]
    by (simp add: tick_base_def tick_queue_def Let_def frame_simps advance_tenant_starvation_def map_vals_def)
qed

lemma users_tame:
  assumes "inv_core (\<lambda>x. x) b" "sane_policy (cfg_policy (g_config b))" "length (g_flows b) < 2 ^ 64"
  shows "tame_list (map (alloc_entry (\<lambda>x. x) b t) (users b rid))"
proof -
  have "tame (alloc_entry (\<lambda>x. x) b t f)" if f: "f \<in> set (users b rid)" for f
  proof -
    have "tiny \<le> e_weight (alloc_entry (\<lambda>x. x) b t f)"
      by (rule heavy_entry [OF _ tiny_le]) (simp_all add: alloc_entry_def flow_weight_heavy [OF assms(2)])
    then show ?thesis
      using alloc_entry_ok [OF users_lookup(3) [OF assms(1) f], of b t] by (simp add: tame_def entry_ok_def rate_ok_def)
  qed
  moreover have "length (users b rid) \<le> length (g_flows b)"
    unfolding users_def using length_filter_le [of _ "map snd (g_flows b)"] by simp
  ultimately show ?thesis using assms(3) by (simp add: tame_list_def list_all_iff)
qed

lemma tick_returns_aux:
  assumes "inv_core (\<lambda>x. x) g" "all_res (nominal_ok (\<lambda>x. x)) (g_resources g)" "sane_policy (cfg_policy (g_config g))"
    and "length (g_flows g) < 2 ^ 64" "gen_draws (g_gen (tick_base (\<lambda>x. x) g)) \<le> 2 ^ 64"
  shows "\<exists>gm. grant_loop (\<lambda>x. x) (g_resources (tick_base (\<lambda>x. x) g)) (contention_of (\<lambda>x. x) (tick_base (\<lambda>x. x) g) (now g)) [] = Some gm \<and>
    tick (\<lambda>x. x) g = Some (Inr (), tick_settle (\<lambda>x. x) (tick_base (\<lambda>x. x) g) (now g) gm)"
proof -
  let ?b = "tick_base (\<lambda>x. x) g"
  have b: "inv_core (\<lambda>x. x) ?b" "length (g_flows ?b) < 2 ^ 64" "sane_policy (cfg_policy (g_config ?b))"
    using tick_base_inv(1) [OF assms(1,5)] assms(3,4) by (simp_all add: frame_simps tick_base_flow_count)
  have "tame_list es" if "(rid, es) \<in> set (contention_of (\<lambda>x. x) ?b (now g))" for rid es
    using that users_tame [OF b(1,3,2)] contention_of_entries [OF inv_flow_ids(2) [OF b(1)]] by auto
  moreover have "is_valid_rate (resource_cap (\<lambda>x. x) r)" if "map_of (g_resources ?b) rid = Some r" for rid r
    using tick_caps [OF exact.rounding_axioms assms(1,5,2)] that by (auto simp: caps_ok_def rate_ok_def)
  ultimately obtain gm where gm: "grant_loop (\<lambda>x. x) (g_resources ?b) (contention_of (\<lambda>x. x) ?b (now g)) [] = Some gm"
    using grant_loop_returns by meson
  then show ?thesis using tick_eq [OF assms(1,5)] by auto
qed

section \<open>What is granted on a resource\<close>

definition granted_on :: "gov \<Rightarrow> ResourceId \<Rightarrow> rat" where
  "granted_on g rid =
     sum_list (map (\<lambda>f. fval (fr_granted f))
       (filter (\<lambda>f. (fr_state f = Running \<or> fr_state f = Throttled) \<and> crosses g rid f) (map snd (g_flows g))))"

definition governed_at :: "(ResourceId, ResRT) umap \<Rightarrow> ResourceId \<Rightarrow> f64 option" where
  "governed_at res rid = map_option rr_governed (map_of res rid)"

lemma governed_at_step [simp]:
  "governed_at (add_reserved R res al) = governed_at res" "governed_at (add_allocated R x res hop) = governed_at res"
  by (auto simp: governed_at_def add_reserved_def add_allocated_def fun_eq_iff split: option.split)

lemma governed_at_foldl:
  "(\<And>res x. governed_at (h res x) = governed_at res) \<Longrightarrow> governed_at (foldl h res xs) = governed_at res"
  by (induction xs arbitrary: res) simp_all

lemma governed_at_one [simp]:
  "governed_at (reserve_one R fs res rsv) = governed_at res" "governed_at (allocate_one R ps res f) = governed_at res"
  by (auto simp: reserve_one_def allocate_one_def governed_at_foldl split: option.split)

lemma governed_at_map_vals:
  "(\<And>r. rr_governed (h r) = rr_governed r) \<Longrightarrow> governed_at (map_vals h res) = governed_at res"
  by (auto simp: governed_at_def fun_eq_iff option.map_comp comp_def)

lemma governed_at_usage: "governed_at (g_resources (recompute_usage R g)) = governed_at (g_resources g)"
  by (simp add: recompute_saturation_def recompute_allocated_def recompute_reserved_def governed_at_foldl governed_at_map_vals)

lemma tick_base_resources:
  assumes "rounding R" "inv_core R g" "gen_draws (g_gen (tick_base R g)) \<le> 2 ^ 64" "all_res (nominal_ok R) (g_resources g)"
    and "map_of (g_resources (tick_base R g)) rid = Some r"
  shows "governed_ok R r" "f0 \<le> rr_reserved r"
proof -
  have "gen_draws (g_gen (snd (tick_queue R g))) \<le> 2 ^ 64" using assms(3) by (simp add: tick_base_def frame_simps)
  then have inv: "inv_core R (snd (tick_queue R g))"
    using tick_queue_good [of R g R] assms(2) by (simp add: good_step_def)
  have "all_res (nominal_ok R) (g_resources (snd (tick_queue R g)))"
    using assms(4) by (simp add: tick_queue_def Let_def frame_simps advance_tenant_starvation_def)
  from scheduling_resources [OF assms(1) inv this] show "governed_ok R r" "f0 \<le> rr_reserved r"
    using assms(5) by (simp_all add: tick_base_def)
qed

lemma resource_cap_le:
  assumes "governed_ok (\<lambda>x. x) r" "f0 \<le> rr_reserved r"
  shows "fval (resource_cap (\<lambda>x. x) r) \<le> max 0 (fval (rr_governed r))"
  using assms dbl_max_pos
  by (cases "rr_governed r"; cases "rr_reserved r")
     (auto simp: resource_cap_def fsub_def fl_def Let_def fmax_def governed_ok_def rate_ok_def is_valid_rate_iff split: if_splits)

lemma settled_granted_le:
  fixes gm :: grants
  assumes "\<And>f. f \<in> set fs \<Longrightarrow> \<not> scheduled (fr_state f) \<Longrightarrow> fr_state f \<noteq> Running \<and> fr_state f \<noteq> Throttled"
    and "\<And>f. f \<in> set fs \<Longrightarrow> f0 \<le> umap_entry f0 (fs_id (fr_spec f)) gm"
  shows "sum_list (map (\<lambda>f. fval (fr_granted f)) (filter (\<lambda>f. (fr_state f = Running \<or> fr_state f = Throttled) \<and> crosses g rid f)
      (map (settled R b gm t) fs))) \<le>
    sum_list (map (\<lambda>f. fval (umap_entry f0 (fs_id (fr_spec f)) gm)) (filter (\<lambda>f. scheduled (fr_state f) \<and> crosses g rid f) fs))"
  using assms
proof (induction fs)
  case (Cons f fs)
  have 0: "0 \<le> fval x" if "f0 \<le> x" for x using that by (cases x) auto
  have "crosses g rid (settled R b gm t f) = crosses g rid f" by (simp add: crosses_def settled_simps)
  then show ?case using Cons.IH Cons.prems(1) [of f] 0 [OF Cons.prems(2) [of f]] Cons.prems
    by (auto simp: settled_simps)
qed simp

lemma users_granted_le:
  assumes inv: "inv_core (\<lambda>x. x) b" and caps: "caps_ok (\<lambda>x. x) b"
    and tame: "\<And>rid. tame_list (map (alloc_entry (\<lambda>x. x) b t) (users b rid))"
    and gm: "grant_loop (\<lambda>x. x) (g_resources b) (contention_of (\<lambda>x. x) b t) [] = Some gm"
    and r: "map_of (g_resources b) rid = Some r"
  shows "sum_list (map (\<lambda>f. fval (umap_entry f0 (fs_id (fr_spec f)) gm)) (users b rid)) \<le> fval (resource_cap (\<lambda>x. x) r) + eps"
proof (cases "users b rid = []")
  case True
  have "rate_ok (\<lambda>x. x) (resource_cap (\<lambda>x. x) r)" using caps r by (simp add: caps_ok_def)
  then have "0 \<le> fval (resource_cap (\<lambda>x. x) r)" by (auto simp: rate_ok_def is_valid_rate_iff)
  then show ?thesis using True eps_pos by simp
next
  case False
  define us es where us: "us = users b rid" and es: "es = map (alloc_entry (\<lambda>x. x) b t) us"
  have ent: "(rid, es) \<in> set (contention_of (\<lambda>x. x) b t)"
    using contention_of_entries [OF inv_flow_ids(2) [OF inv]] False by (simp add: us es)
  obtain c where c: "resource_cap (\<lambda>x. x) r = Fin c" "is_valid_rate (Fin c)"
    using caps r by (auto simp: caps_ok_def rate_ok_def is_valid_rate_iff)
  obtain ar where ar: "allocate_weighted (\<lambda>x. x) es (Fin c) = Some ar"
    "\<And>i. i < length es \<Longrightarrow> ar_granted ar ! i = Fin (fval (ar_granted ar ! i))"
    "(\<Sum>i<length es. fval (ar_granted ar ! i)) \<le> c + eps"
    using allocation_bounded_aux [OF tame [of rid] c(2)] unfolding es us by blast
  have fill: "fill_of (\<lambda>x. x) (g_resources b) (contention_of (\<lambda>x. x) b t) rid es ar"
    using ent r c ar(1) by (simp add: fill_of_def)
  have "nonneg_map ([] :: grants)" by (simp add: nonneg_map_def)
  moreover have "length (ar_granted ar) = length es \<and> f0 \<le> ar_granted ar ! i"
    if "fill_of (\<lambda>x. x) (g_resources b) (contention_of (\<lambda>x. x) b t) rid es ar" "i < length es" for rid es ar i
    using tick_fill(2,3) [OF exact.rounding_axioms inv that(1) caps] that(2) by simp
  ultimately have "nonneg_map gm \<and> (\<forall>rid es ar i. fill_of (\<lambda>x. x) (g_resources b) (contention_of (\<lambda>x. x) b t) rid es ar \<longrightarrow>
      i < length es \<longrightarrow> (\<exists>y. map_of gm (ae_flow (es ! i)) = Some y \<and> y \<le> ar_granted ar ! i))"
    using grant_loop_le [OF gm] by simp
  then have le: "nonneg_map gm" "i < length es \<Longrightarrow> \<exists>y. map_of gm (ae_flow (es ! i)) = Some y \<and> y \<le> ar_granted ar ! i" for i
    using fill by blast+
  have "fval (umap_entry f0 (fs_id (fr_spec (us ! i))) gm) \<le> fval (ar_granted ar ! i)" if i: "i < length us" for i
  proof -
    have i': "i < length es" and "ae_flow (es ! i) = fs_id (fr_spec (us ! i))" using i by (simp_all add: es alloc_entry_def)
    then obtain y where y: "map_of gm (fs_id (fr_spec (us ! i))) = Some y" "y \<le> ar_granted ar ! i" using le(2) by metis
    moreover have "f0 \<le> y" using le y(1) unfolding nonneg_map_def by blast
    moreover
    obtain a where "ar_granted ar ! i = Fin a" using ar(2) [OF i'] by blast
    ultimately show ?thesis by (cases y) (auto simp: umap_entry_def)
  qed
  then have "(\<Sum>i<length us. fval (umap_entry f0 (fs_id (fr_spec (us ! i))) gm)) \<le> (\<Sum>i<length us. fval (ar_granted ar ! i))"
    by (intro sum_mono) auto
  then show ?thesis using ar(3) c(1) by (simp add: us [symmetric] es sum_list_sum_nth atLeast0LessThan)
qed

lemma settle_granted_le:
  assumes "inv_core (\<lambda>x. x) g" "all_res (nominal_ok (\<lambda>x. x)) (g_resources g)" "sane_policy (cfg_policy (g_config g))"
    and "length (g_flows g) < 2 ^ 64" "gen_draws (g_gen (tick_base (\<lambda>x. x) g)) \<le> 2 ^ 64"
  defines "b \<equiv> tick_base (\<lambda>x. x) g"
  assumes gm: "grant_loop (\<lambda>x. x) (g_resources b) (contention_of (\<lambda>x. x) b (now g)) [] = Some gm"
    and r: "map_of (g_resources (tick_settle (\<lambda>x. x) b (now g) gm)) rid = Some r"
  shows "granted_on (tick_settle (\<lambda>x. x) b (now g) gm) rid \<le> max 0 (fval (rr_governed r)) + eps"
proof -
  have inv: "inv_core (\<lambda>x. x) b" unfolding b_def by (rule tick_base_inv [OF assms(1,5)])
  have caps: "caps_ok (\<lambda>x. x) b" unfolding b_def by (rule tick_caps [OF exact.rounding_axioms assms(1,5,2)])
  have tame: "tame_list (map (alloc_entry (\<lambda>x. x) b t) (users b rid))" for t rid
    using assms(3,4) by (intro users_tame [OF inv]) (simp_all add: b_def frame_simps tick_base_flow_count)
  have "governed_at (g_resources (tick_settle (\<lambda>x. x) b (now g) gm)) rid = governed_at (g_resources b) rid"
    unfolding tick_settle_def governed_at_usage by simp
  then obtain r' where r': "map_of (g_resources b) rid = Some r'" "rr_governed r' = rr_governed r"
    using r by (cases "map_of (g_resources b) rid") (auto simp: governed_at_def)
  have ok: "governed_ok (\<lambda>x. x) r'" "f0 \<le> rr_reserved r'"
    using tick_base_resources [OF exact.rounding_axioms assms(1,5,2)] r'(1) by (simp_all add: b_def)
  have fls: "map snd (g_flows (tick_settle (\<lambda>x. x) b (now g) gm)) = map (settled (\<lambda>x. x) b gm (now g)) (map snd (g_flows b))"
    "crosses (tick_settle (\<lambda>x. x) b (now g) gm) = crosses b"
    by (simp_all add: tick_settle_def frame_simps map_vals_def crosses_def fun_eq_iff split_beta)
  have look: "map_of (g_flows b) (fs_id (fr_spec f)) = Some f" if "f \<in> set (map snd (g_flows b))" for f
    using that inv_coreD(1) [OF inv] inv_coreD(4) [OF inv] by (fastforce simp: flow_ok_def)
  have "granted_on (tick_settle (\<lambda>x. x) b (now g) gm) rid \<le>
      sum_list (map (\<lambda>f. fval (umap_entry f0 (fs_id (fr_spec f)) gm)) (users b rid))"
    unfolding granted_on_def fls users_def
    using tick_grants(1) [OF exact.rounding_axioms inv gm caps look]
    by (intro settled_granted_le) auto
  also have "\<dots> \<le> fval (resource_cap (\<lambda>x. x) r') + eps" by (rule users_granted_le [OF inv caps tame gm r'(1)])
  finally show ?thesis using resource_cap_le [OF ok] r'(2) by simp
qed

text \<open>A tick over states with the invariant, with enough identities left.\<close>

lemma tick_fits:
  assumes "gov_inv (\<lambda>x. x) g" "sane_policy (cfg_policy (g_config g))" "length (g_flows g) < 2 ^ 64"
    and "gen_draws (g_gen g) + length (g_flows g) \<le> 2 ^ 64"
  shows "\<exists>g'. tick (\<lambda>x. x) g = Some (Inr (), g') \<and>
    (\<forall>rid r. map_of (g_resources g') rid = Some r \<longrightarrow> granted_on g' rid \<le> max 0 (fval (rr_governed r)) + eps)"
proof -
  let ?b = "tick_base (\<lambda>x. x) g"
  have inv: "inv_core (\<lambda>x. x) g" "all_res (nominal_ok (\<lambda>x. x)) (g_resources g)" using assms(1) by (simp_all add: gov_inv_def)
  have d: "gen_draws (g_gen ?b) \<le> 2 ^ 64" using tick_base_draws [of "\<lambda>x. x" g] assms(4) by simp
  obtain gm where gm: "grant_loop (\<lambda>x. x) (g_resources ?b) (contention_of (\<lambda>x. x) ?b (now g)) [] = Some gm"
    "tick (\<lambda>x. x) g = Some (Inr (), tick_settle (\<lambda>x. x) ?b (now g) gm)"
    using tick_returns_aux [OF inv assms(2,3) d] by blast
  moreover have "granted_on (tick_settle (\<lambda>x. x) ?b (now g) gm) rid \<le> max 0 (fval (rr_governed r)) + eps"
    if r: "map_of (g_resources (tick_settle (\<lambda>x. x) ?b (now g) gm)) rid = Some r" for rid r
    by (rule settle_granted_le [OF inv assms(2,3) d gm(1) r])
  ultimately show ?thesis by blast
qed

section \<open>The properties\<close>

text \<open>
  Property C1. The scheduler returns and never overcommits, in exact arithmetic and under a sane policy: from a
  reachable state a tick comes to an end without throwing; in the state it leaves, the grants of the
  running and throttled flows that cross a resource add up to at most its governed capacity and the
  tolerance of the water-fill. A sane policy has class weights of at least a thousandth, a priority base of at least one and
  deadline and starvation weights that are not negative, all finite where they must be; the default policy is sane. The
  code does not check any of this, and with vanishing weights the statement is false (the theory Faint_Weights).
\<close>

theorem tick_never_overcommits:
  assumes "reachable (\<lambda>x. x) g" "sane_policy (cfg_policy (g_config g))" "length (g_flows g) < 2 ^ 64"
    and "gen_draws (g_gen g) + length (g_flows g) \<le> 2 ^ 64"
  shows "\<exists>g'. tick (\<lambda>x. x) g = Some (Inr (), g') \<and>
    (\<forall>rid r. map_of (g_resources g') rid = Some r \<longrightarrow> granted_on g' rid \<le> max 0 (fval (rr_governed r)) + eps)"
proof -
  have "gov_inv (\<lambda>x. x) g" by (rule reachable_inv [OF exact.rounding_axioms assms(1)]) (use assms(4) in simp)
  then show ?thesis by (rule tick_fits [OF _ assms(2-4)])
qed

lemma tick_resource_keys:
  assumes "inv_core R g" "gen_draws (g_gen (tick_base R g)) \<le> 2 ^ 64" "tick R g = Some (r, g')"
  shows "keys (g_resources g') = keys (g_resources g)"
  using assms tick_eq [OF assms(1,2)]
  by (auto simp: tick_settle_def tick_base_def tick_queue_def Let_def frame_simps recompute_governed_keys advance_tenant_starvation_def)

lemma life_2_config: "g_config life_2 = g_config life_1" "keys (g_resources life_2) = [demo_rid]"
  by (simp_all add: life_2_def submit_flow_def life_1_eq) (simp_all add: eval_defs eval_flow_defs)

theorem tick_never_overcommits_witness:
  "\<exists>g' r. tick (\<lambda>x. x) life_2 = Some (Inr (), g') \<and> map_of (g_resources g') demo_rid = Some r \<and>
     granted_on g' demo_rid \<le> max 0 (fval (rr_governed r)) + eps"
proof -
  have sane: "sane_policy (cfg_policy (g_config life_2))" by (simp add: life_2_config life_1_eq default_policy_sane)
  obtain g' where g': "tick (\<lambda>x. x) life_2 = Some (Inr (), g')"
    "\<And>rid r. map_of (g_resources g') rid = Some r \<Longrightarrow> granted_on g' rid \<le> max 0 (fval (rr_governed r)) + eps"
    using tick_never_overcommits [OF life_reachable(1) sane] by (auto simp: life_2_eq)
  have "inv_core (\<lambda>x. x) life_2"
    using reachable_inv [OF exact.rounding_axioms life_reachable(1)] by (simp add: gov_inv_def life_2_eq)
  then have "keys (g_resources g') = [demo_rid]"
    using tick_resource_keys [OF _ _ g'(1)] tick_base_draws [of "\<lambda>x. x" life_2] by (simp add: life_2_config life_2_eq)
  then obtain r where "map_of (g_resources g') demo_rid = Some r"
    by (metis list.set_intros(1) map_of_eq_None_iff not_None_eq set_map)
  then show ?thesis using g' by blast
qed

end
