(* ===== verification/Governor_Fencing.thy ===== *)
theory Governor_Fencing
  imports Governor_Restart Governor_Overcommit
begin

text \<open>
  A tick starts the reserved flows, and a restarted worker is fenced off; with a run of the governor
  that gets there: a worker registers, a flow is submitted and scheduled on it, and the worker comes
  back with a new boot.
\<close>

section \<open>A run with a worker\<close>

definition work_reg :: "WorkerBootId \<Rightarrow> WorkerRegistration" where
  "work_reg boot = \<lparr>wr_worker = demo_wid, wr_boot = boot, wr_inventory = [demo_rspec], wr_protocol_version = 1,
     wr_backend = ''synthetic''\<rparr>"

definition work_1 :: gov where
  "work_1 = snd (register_worker (\<lambda>x. x) (work_reg demo_boot) life_1)"

definition work_2 :: gov where
  "work_2 = snd (submit_flow (\<lambda>x. x) demo_spec work_1)"

lemma work_1_eq: "work_1 =
  \<lparr>g_config = \<lparr>cfg_policy = PolicyConfig_default, cfg_id_salt = 1, cfg_auto_clock = True\<rparr>,
   g_gen = \<lparr>gen_salt = 1, gen_counter = 3, gen_rng = word_of_nat, gen_draws = 3\<rparr>,
   g_coordinator = Id128 0 1, g_epoch = Id128 4294967298 1, g_capacity_generation = Id128 8589934599 1,
   g_auto_clock = True, g_virtual_now = f0,
   g_resources = [(demo_rid, ResRT_default\<lparr>rr_spec := demo_rspec, rr_governed := Fin 1000\<rparr>)],
   g_paths = [(demo_pid, demo_path)], g_flows = [], g_reservations = [], g_workers = [(demo_wid, demo_worker)], g_tenants = [],
   g_workloads = [], g_wall = \<lambda>_. f0, g_wall_pos = 2\<rparr>"
  by (simp add: work_1_def register_worker_def work_reg_def life_1_eq register_resource_def)
     (simp add: eval_defs demo_worker_def demo_wid_def demo_boot_def)

lemma work_2_eq:
  "gen_draws (g_gen work_2) = 4" "g_config work_2 = g_config life_1"
  "g_workers work_2 = [(demo_wid, demo_worker)]" "g_paths work_2 = [(demo_pid, demo_path)]"
  "g_flows work_2 = [(demo_fid, (FlowRT_of demo_spec)\<lparr>fr_state := Reserved, fr_granted := Fin 250, fr_reservation := Some life_resv\<rparr>)]"
  by (simp_all add: work_2_def submit_flow_def work_1_eq)
     (simp_all add: eval_defs eval_flow_defs life_resv_def life_1_eq)

lemma work_resv:
  "\<exists>rsv. map_of (g_reservations work_2) life_resv = Some rsv \<and> rv_epoch rsv = g_epoch work_2 \<and>
     rv_capacity_generation rsv = g_capacity_generation work_2"
  by (simp add: work_2_def submit_flow_def work_1_eq)
     (simp add: eval_defs eval_flow_defs life_resv_def life_1_eq)

lemma work_reachable: "reachable (\<lambda>x. x) work_2"
proof -
  have "gov_step (\<lambda>x. x) life_1 work_1" unfolding work_1_def
    by (rule gov_step.register_worker) (simp add: work_reg_def demo_request_ok)
  moreover have "gov_step (\<lambda>x. x) work_1 work_2"
    unfolding work_2_def by (rule gov_step.submit_flow [OF demo_request_ok(1)])
  ultimately have "gov_reaches (\<lambda>x. x) life_0 work_2" using life_steps(1) by (blast intro: gov_reaches_step)
  then show ?thesis unfolding reachable_def life_0_def by blast
qed

lemma default_sane: "g_config g = g_config life_1 \<Longrightarrow> sane_policy (cfg_policy (g_config g))"
  by (simp add: life_1_eq default_policy_sane)

text \<open>The scheduler runs the flow on the worker.\<close>

lemma work_tick:
  "\<exists>g f. tick (\<lambda>x. x) work_2 = Some (Inr (), g) \<and> reachable (\<lambda>x. x) g \<and> gen_draws (g_gen g) \<le> 5 \<and>
     g_workers g = [(demo_wid, demo_worker)] \<and> g_reservations g = g_reservations work_2 \<and> g_flows g = [(demo_fid, f)] \<and>
     fr_state f = Running \<and> fr_assigned_worker f = Some demo_wid \<and> fr_assigned_boot f = demo_boot \<and>
     fr_spec f = demo_spec \<and> fr_reservation f = Some life_resv \<and>
     report_ok g f (fs_attempt demo_spec) (fs_generation demo_spec) demo_boot"
proof -
  have d: "gen_draws (g_gen (tick_base (\<lambda>x. x) work_2)) \<le> 5"
    using tick_base_draws [of "\<lambda>x. x" work_2] by (simp add: work_2_eq)
  have inv: "gov_inv (\<lambda>x. x) work_2"
    by (rule reachable_inv [OF exact.rounding_axioms work_reachable]) (simp add: work_2_eq)
  obtain gm where gm: "tick (\<lambda>x. x) work_2 = Some (Inr (), tick_settle (\<lambda>x. x) (tick_base (\<lambda>x. x) work_2) (now work_2) gm)"
    using tick_returns_aux [of work_2] inv d default_sane [OF work_2_eq(2)] by (auto simp: gov_inv_def work_2_eq)
  let ?b = "tick_base (\<lambda>x. x) work_2" let ?g = "tick_settle (\<lambda>x. x) ?b (now work_2) gm"
  define f where "f = settled (\<lambda>x. x) ?b gm (now work_2)
    (starve (\<lambda>x. x) (now work_2) ((FlowRT_of demo_spec)\<lparr>fr_state := Reserved, fr_granted := Fin 250, fr_reservation := Some life_resv\<rparr>))"
  have "g_flows ?b = map_vals (starve (\<lambda>x. x) (now work_2)) (g_flows work_2)" "g_reservations ?b = g_reservations work_2"
    by (simp_all add: tick_base_def tick_queue_def Let_def frame_simps advance_tenant_starvation_def queued_ids_def work_2_eq)
  then have fl: "g_flows ?g = [(demo_fid, f)]" "g_reservations ?g = g_reservations work_2"
    by (simp_all add: tick_settle_def frame_simps work_2_eq f_def)
  have "g_workers ?g = [(demo_wid, demo_worker)]" by (simp add: tick_settle_def frame_simps work_2_eq)
  moreover have "pick_worker_for_path demo_pid ?b = Some (demo_wid, demo_worker)"
    by (simp add: pick_worker_for_path_def frame_simps work_2_eq demo_worker_def demo_path_def)
  then have "fr_state f = Running" "fr_assigned_worker f = Some demo_wid" "fr_assigned_boot f = demo_boot"
    "fr_spec f = demo_spec" "fr_reservation f = Some life_resv"
    by (simp_all add: f_def settled_def settle_flow_eq Let_def dispatch_def next_state_def demo_spec_def fixture_flow_def
        demo_pid_def FlowRT_of_def demo_worker_def starve_def)
  moreover have "reachable (\<lambda>x. x) ?g"
    using work_reachable gov_step.tick [OF gm] gov_reaches_step unfolding reachable_def by blast
  moreover have "gen_draws (g_gen ?g) \<le> 5" using d by (simp add: tick_settle_gen)
  moreover have "g_epoch ?g = g_epoch work_2" "g_capacity_generation ?g = g_capacity_generation work_2"
    by (simp_all add: tick_settle_def tick_base_def tick_queue_def Let_def frame_simps advance_tenant_starvation_def queued_ids_def work_2_eq)
  ultimately show ?thesis using fl gm work_resv
    by (intro exI [of _ ?g] exI [of _ f]) (auto simp: report_ok_def demo_worker_def)
qed

lemma work_ticked:
  "\<exists>g f. reachable (\<lambda>x. x) g \<and> gen_draws (g_gen g) \<le> 5 \<and> g_workers g = [(demo_wid, demo_worker)] \<and>
     map_of (g_flows g) demo_fid = Some f \<and> fr_state f = Running \<and> fr_assigned_worker f = Some demo_wid \<and>
     length (g_flows g) = 1"
proof -
  obtain g f where "reachable (\<lambda>x. x) g" "gen_draws (g_gen g) \<le> 5" "g_workers g = [(demo_wid, demo_worker)]"
    "g_flows g = [(demo_fid, f)]" "fr_state f = Running" "fr_assigned_worker f = Some demo_wid"
    using work_tick by blast
  then show ?thesis by (intro exI [of _ g] exI [of _ f]) simp
qed

section \<open>Flows that are not queued\<close>

lemma admit_loop_skips:
  assumes "map_of (g_flows g) fid = Some f" "fr_state f \<noteq> Queued"
  shows "map_of (g_flows (snd (admit_loop R fids g))) fid = Some f"
  using assms(1)
proof (induction fids arbitrary: g)
  case (Cons x xs)
  have other: "map_of (g_flows (snd (admit_queued R x v g))) fid = Some f"
    if "map_of (g_flows g) x = Some v" "fr_state v = Queued" for v
  proof -
    have "x \<noteq> fid" using that Cons.prems assms(2) by auto
    then show ?thesis using Cons.prems
      by (auto simp: admit_queued_def Let_def frame_simps split: option.splits prod.splits sum.splits)
  qed
  show ?case
  proof (cases "\<exists>v. map_of (g_flows g) x = Some v \<and> fr_state v = Queued")
    case True
    then obtain v where v: "map_of (g_flows g) x = Some v" "fr_state v = Queued" by blast
    obtain r g1 where g1: "admit_queued R x v g = (r, g1)" by fastforce
    show ?thesis using other [OF v] Cons.IH [of g1] v g1 by (cases r) auto
  next
    case False
    then show ?thesis using Cons by (auto split: option.splits)
  qed
qed simp

lemma tick_base_skips:
  assumes "map_of (g_flows g) fid = Some f" "fr_state f \<noteq> Queued"
  shows "map_of (g_flows (tick_base R g)) fid = Some (starve R (now g) f)"
proof -
  let ?g = "advance_tenant_starvation R (now g) (now_next g)"
  have "map_of (g_flows ?g) fid = Some (starve R (now g) f)"
    using assms(1) by (simp add: advance_tenant_starvation_def frame_simps)
  from admit_loop_skips [OF this] show ?thesis
    using assms(2) by (simp add: tick_base_def tick_queue_def Let_def frame_simps)
qed

text \<open>The assignment of a flow, without the search of \<^verbatim>\<open>pick_worker_for_path\<close>.\<close>

lemma dispatch_choice:
  "if \<exists>wid w. (wid, w) \<in> set (g_workers g) \<and> (wk_alive w \<and> (\<exists>p hop. map_of (g_paths g) (fs_path (fr_spec f)) = Some p \<and>
        hop \<in> set (path_hops p) \<and> hop_resource hop \<in> set (wk_back_resources w)))
   then \<exists>wid w. (wid, w) \<in> set (g_workers g) \<and> (wk_alive w \<and> (\<exists>p hop. map_of (g_paths g) (fs_path (fr_spec f)) = Some p \<and>
        hop \<in> set (path_hops p) \<and> hop_resource hop \<in> set (wk_back_resources w))) \<and>
        fr_assigned_worker (dispatch g f) = Some wid \<and> fr_assigned_boot (dispatch g f) = wk_boot w
   else fr_assigned_worker (dispatch g f) = fr_assigned_worker f \<and> fr_assigned_boot (dispatch g f) = fr_assigned_boot f"
proof (cases "pick_worker_for_path (fs_path (fr_spec f)) g")
  case None
  then show ?thesis by (auto simp: dispatch_def pick_worker_for_path_def find_None_iff split: option.splits)
next
  case (Some p)
  obtain wid w where p: "p = (wid, w)" by fastforce
  have "(wid, w) \<in> set (g_workers g)" "wk_alive w \<and> (\<exists>p hop. map_of (g_paths g) (fs_path (fr_spec f)) = Some p \<and>
      hop \<in> set (path_hops p) \<and> hop_resource hop \<in> set (wk_back_resources w))"
    using Some by (auto simp: p pick_worker_for_path_def find_Some_iff split: option.splits) (metis nth_mem)+
  moreover have "fr_assigned_worker (dispatch g f) = Some wid" "fr_assigned_boot (dispatch g f) = wk_boot w"
    using Some by (simp_all add: dispatch_def p)
  ultimately show ?thesis by auto
qed

section \<open>The properties\<close>

text \<open>
  Property C6. A restarted worker cannot be impersonated by its former self: when a live worker
  registers with a new boot, every flow that ran on it is put back to Reserved with one more retry,
  a later generation and no bytes done, assigned to the worker and its new boot; it holds a new
  active reservation for its new attempt and generation, bound to the new boot and minted under the
  current epoch and capacity generation; its former reservation is another one and is released; and
  progress and completion reports for the former generation are refused in the new state.
\<close>

theorem restart_fences_old_boot:
  assumes "rounding R" "reachable R g" "register_worker R reg g = (Inr w, g')" "gen_draws (g_gen g') \<le> 2 ^ 64"
    and "map_of (g_workers g) (wr_worker reg) = Some old" "wk_alive old" "wk_boot old \<noteq> wr_boot reg"
    and "map_of (g_flows g) fid = Some f" "fr_state f = Running" "fr_assigned_worker f = Some (wr_worker reg)"
  shows "(\<exists>f'. map_of (g_flows g') fid = Some f' \<and> fr_state f' = Reserved \<and> fr_retries f' = fr_retries f + 1 \<and>
       fs_generation (fr_spec f') = next_generation (fs_generation (fr_spec f)) \<and>
       fs_generation (fr_spec f') \<noteq> fs_generation (fr_spec f) \<and> fr_bytes_done f' = 0 \<and>
       fr_assigned_worker f' = Some (wr_worker reg) \<and> fr_assigned_boot f' = wr_boot reg \<and>
       fr_reservation f' \<noteq> fr_reservation f \<and>
       (\<exists>rid rsv. fr_reservation f' = Some rid \<and> map_of (g_reservations g') rid = Some rsv \<and> rv_state rsv = RActive \<and>
          rv_flow rsv = fs_id (fr_spec f') \<and> rv_attempt rsv = fs_attempt (fr_spec f') \<and>
          rv_flow_generation rsv = fs_generation (fr_spec f') \<and> rv_worker_boot rsv = wr_boot reg \<and>
          rv_epoch rsv = g_epoch g' \<and> rv_capacity_generation rsv = g_capacity_generation g')) \<and>
    (\<forall>rid r. fr_reservation f = Some rid \<longrightarrow> map_of (g_reservations g) rid = Some r \<longrightarrow>
       (\<exists>r'. map_of (g_reservations g') rid = Some r' \<and> rv_state r' = RReleased)) \<and>
    report_progress fid a (fs_generation (fr_spec f)) boot n g' = (False, g') \<and>
    report_completion R fid a (fs_generation (fr_spec f)) boot n g' = (Inr False, g')"
proof -
  have "gen_draws (g_gen g) \<le> gen_draws (g_gen g')"
    using good_step_gens [OF good_step_register_worker [of R g R reg]] assms(3) by (simp add: gens_ok_def)
  then have inv: "inv_core R g" using reachable_inv [OF assms(1,2)] assms(4) by (simp add: gov_inv_def)
  have rst: "is_restart reg g" using assms(5-7) by (simp add: is_restart_def)
  have on: "on_worker (wr_worker reg) f" using assms(9,10) by (simp add: on_worker_def)
  note eff = register_worker_restart [OF inv refs_reachable [OF assms(2)] assms(3,4) rst assms(8) on]
  obtain f' where f': "map_of (g_flows g') fid = Some f'" "restarted reg f f'" "renewed reg g' f'" "fr_reservation f' \<noteq> fr_reservation f"
    using eff(1) by blast
  have ne: "next_generation x \<noteq> x" for x :: FlowGeneration
    using next_generation_less [of x] by (cases "x = Id128 (- 1) (- 1)"; cases x) (auto simp: next_generation_def)
  have "\<not> report_ok g' f' a (fs_generation (fr_spec f)) boot" using f'(2) by (simp add: report_ok_def restarted_def)
  then have "report_progress fid a (fs_generation (fr_spec f)) boot n g' = (False, g')"
    "report_completion R fid a (fs_generation (fr_spec f)) boot n g' = (Inr False, g')"
    using f'(1) by (simp_all add: report_progress_def report_completion_def)
  then show ?thesis
    using f' eff(2) ne [of "fs_generation (fr_spec f)"] unfolding let_go_def restarted_def renewed_def
    by (intro conjI exI [of _ f']) simp_all
qed

lemma restart_flow_draws: "gen_draws (g_gen (snd (restart_flow reg fid f g))) \<le> gen_draws (g_gen g) + 2"
  by (auto simp: restart_flow_def Let_def frame_simps IdGen_next_def IdGen_next64_def split: option.splits prod.splits sum.splits)

lemma restart_loop_draws: "gen_draws (g_gen (snd (restart_loop reg fids g))) \<le> gen_draws (g_gen g) + 2 * length fids"
proof (induction fids arbitrary: g)
  case (Cons fid fids)
  have "gen_draws (g_gen (snd (case restart_flow reg fid f g of (Inl e, g) \<Rightarrow> (Inl e, g) | (Inr _, g) \<Rightarrow> restart_loop reg fids g))) \<le>
      gen_draws (g_gen g) + 2 * length (fid # fids)" for f
    using restart_flow_draws [of reg fid f g] Cons.IH [of "snd (restart_flow reg fid f g)"]
    by (cases "restart_flow reg fid f g"; cases "fst (restart_flow reg fid f g)") auto
  then show ?case using Cons.IH [of g] by (auto split: option.split)
qed simp

lemma register_worker_draws:
  assumes "wr_inventory reg = [rs]" "\<not> is_null (rs_generation rs)"
  shows "gen_draws (g_gen (snd (register_worker R reg g))) \<le> gen_draws (g_gen g) + 2 * length (g_flows g)"
proof -
  let ?h = "registered reg g"
  have h: "g_gen ?h = g_gen g" using assms by (simp add: registered_def register_resource_def Let_def frame_simps)
  have "gen_draws (g_gen (snd (restart_loop reg (keys (g_flows ?h)) ?h))) \<le> gen_draws (g_gen g) + 2 * length (g_flows g)"
    using restart_loop_draws [of reg "keys (g_flows ?h)" ?h] by (simp add: h registered_tables)
  then show ?thesis
    by (cases "restart_loop reg (keys (g_flows ?h)) ?h"; cases "fst (restart_loop reg (keys (g_flows ?h)) ?h)")
       (auto simp: register_worker_eq h frame_simps)
qed

lemma work_again_draws: "gen_draws (g_gen (snd (register_worker R (work_reg boot) g))) \<le> gen_draws (g_gen g) + 2 * length (g_flows g)"
  by (rule register_worker_draws [of _ demo_rspec]) (simp_all add: work_reg_def demo_rspec_def fresh_generation_def is_null_def null_id_def)

theorem restart_fences_old_boot_witness:
  "\<exists>g f g' f' rid rsv. map_of (g_flows g) demo_fid = Some f \<and> fr_state f = Running \<and>
     register_worker (\<lambda>x. x) (work_reg (Id128 0 52)) g = (Inr demo_wid, g') \<and>
     report_completion (\<lambda>x. x) demo_fid (Id128 0 1) (fs_generation (fr_spec f)) demo_boot 0 g' = (Inr False, g') \<and>
     map_of (g_flows g') demo_fid = Some f' \<and> fr_reservation f' = Some rid \<and> map_of (g_reservations g') rid = Some rsv \<and>
     rv_worker_boot rsv = Id128 0 52"
proof -
  obtain g f where g: "reachable (\<lambda>x. x) g" "gen_draws (g_gen g) \<le> 5" "g_workers g = [(demo_wid, demo_worker)]"
    "map_of (g_flows g) demo_fid = Some f" "fr_state f = Running" "fr_assigned_worker f = Some demo_wid" "length (g_flows g) = 1"
    using work_ticked by blast
  let ?reg = "work_reg (Id128 0 52)"
  have d: "gen_draws (g_gen (snd (register_worker (\<lambda>x. x) ?reg g))) \<le> 2 ^ 64"
    using work_again_draws [of "\<lambda>x. x" "Id128 0 52" g] g(2,7) by simp
  have "inv_core (\<lambda>x. x) g" using reachable_inv [OF exact.rounding_axioms g(1)] g(2) by (simp add: gov_inv_def)
  then obtain g' where g': "register_worker (\<lambda>x. x) ?reg g = (Inr demo_wid, g')"
    using register_worker_returns [of "\<lambda>x. x" g "\<lambda>x. x" ?reg] d by (metis prod.collapse WorkerRegistration.select_convs(1) work_reg_def)
  have w: "map_of (g_workers g) (wr_worker ?reg) = Some demo_worker" "wk_alive demo_worker" "wk_boot demo_worker \<noteq> wr_boot ?reg"
    "fr_assigned_worker f = Some (wr_worker ?reg)" "gen_draws (g_gen g') \<le> 2 ^ 64"
    using g(3,6) d g' by (simp_all add: work_reg_def demo_worker_def demo_boot_def)
  note eff = restart_fences_old_boot [OF exact.rounding_axioms g(1) g' w(5,1-3) g(4,5) w(4)]
  obtain f' rid rsv where "map_of (g_flows g') demo_fid = Some f'" "fr_reservation f' = Some rid" "map_of (g_reservations g') rid = Some rsv"
    "rv_worker_boot rsv = wr_boot ?reg" using eff by blast
  moreover have "report_completion (\<lambda>x. x) demo_fid (Id128 0 1) (fs_generation (fr_spec f)) demo_boot 0 g' = (Inr False, g')"
    using eff by blast
  moreover have "wr_boot ?reg = Id128 0 52" by (simp add: work_reg_def)
  ultimately show ?thesis using g(4,5) g'
    by (intro exI [of _ g] exI [of _ f] exI [of _ g'] exI [of _ f'] exI [of _ rid] exI [of _ rsv]) simp
qed

text \<open>
  Property C5. A flow completes at most once: after an accepted completion report the flow is
  Completed in every later state of every run without a load, and there every further progress or
  completion report for it is refused and changes nothing, whatever it carries.
\<close>

theorem completion_exactly_once:
  assumes "rounding R" "reachable R g" "report_completion R fid attempt fgen boot bytes g = (Inr True, g')"
    and "gov_reaches R g' h" "gen_draws (g_gen h) \<le> 2 ^ 64"
  shows "(\<exists>f. map_of (g_flows h) fid = Some f \<and> fr_state f = Completed) \<and>
    report_completion R fid attempt' fgen' boot' bytes' h = (Inr False, h) \<and>
    report_progress fid attempt' fgen' boot' bytes' h = (False, h)"
proof -
  have step: "gov_step R g g'" using gov_step.report_completion [of R g fid attempt fgen boot bytes] assms(3) by simp
  then have "reachable R g'" using assms(2) gov_reaches_step unfolding reachable_def by blast
  moreover have "gen_draws (g_gen g') \<le> 2 ^ 64" using gov_reaches_gens [OF assms(4)] assms(5) by (simp add: gens_ok_def)
  ultimately have ev: "evolves g' h" using gov_reaches_inv [OF assms(4,1) reachable_inv [OF assms(1)] assms(5)] by blast
  obtain f where f: "map_of (g_flows g') fid = Some f" "fr_state f = Completed" using completion_completes [OF assms(3)] by blast
  then obtain f' where f': "map_of (g_flows h) fid = Some f'" "flow_reaches (fr_state f) (fr_state f')"
    using ev unfolding evolves_def flow_evolves_def by blast
  have "fr_state f' = Completed" using flow_reaches_terminal [OF f'(2)] f(2) by (simp add: flow_terminal_def)
  then show ?thesis using f'(1) not_running_refused [OF f'(1)] by simp
qed

theorem completion_exactly_once_witness:
  "\<exists>g g'. report_completion (\<lambda>x. x) demo_fid (fs_attempt demo_spec) (fs_generation demo_spec) demo_boot 1048576 g = (Inr True, g') \<and>
     (let h = snd (register_worker (\<lambda>x. x) (work_reg (Id128 0 52)) (snd (cancel_flow (\<lambda>x. x) demo_fid ''late'' g'))) in
        report_completion (\<lambda>x. x) demo_fid (fs_attempt demo_spec) (fs_generation demo_spec) (Id128 0 52) 1048576 h = (Inr False, h))"
proof -
  obtain g f where g: "reachable (\<lambda>x. x) g" "gen_draws (g_gen g) \<le> 5" "g_flows g = [(demo_fid, f)]"
    "report_ok g f (fs_attempt demo_spec) (fs_generation demo_spec) demo_boot"
    using work_tick by blast
  then have look: "map_of (g_flows g) demo_fid = Some f" by simp
  obtain g' where g': "report_completion (\<lambda>x. x) demo_fid (fs_attempt demo_spec) (fs_generation demo_spec) demo_boot 1048576 g = (Inr True, g')"
    using report_completion_accepted [OF look g(4)] by blast
  let ?c = "snd (cancel_flow (\<lambda>x. x) demo_fid ''late'' g')"
  let ?h = "snd (register_worker (\<lambda>x. x) (work_reg (Id128 0 52)) ?c)"
  have "gov_step (\<lambda>x. x) g' ?c" by (rule gov_step.cancel_flow)
  moreover have "gov_step (\<lambda>x. x) ?c ?h" by (rule gov_step.register_worker) (simp add: work_reg_def demo_request_ok)
  ultimately have run: "gov_reaches (\<lambda>x. x) g' ?h" by (auto simp: gov_reaches_def)
  have fl: "length (g_flows g') = 1" "g_gen g' = g_gen g"
    using g' g(3) report_completion_accepted [OF look g(4), of "\<lambda>x. x" 1048576] by (auto simp: frame_simps)
  obtain f1 where "map_of (g_flows g') demo_fid = Some f1" "fr_state f1 = Completed" using completion_completes [OF g'] by blast
  then have "?c = g'" by (simp add: cancel_flow_def flow_terminal_def)
  then have "gen_draws (g_gen ?h) \<le> 2 ^ 64"
    using work_again_draws [of "\<lambda>x. x" "Id128 0 52" g'] g(2) fl by simp
  then show ?thesis
    using completion_exactly_once [OF exact.rounding_axioms g(1) g' run] g'
    by (intro exI [of _ g] exI [of _ g']) (simp add: Let_def)
qed

text \<open>
  Property C9. Every tick of the scheduler gives every reserved flow its first run: a flow that is
  Reserved before the tick is Running after it, in exact arithmetic and under a policy whose weights
  are not vanishing (\<open>sane_policy\<close>). When some registered live worker backs the resource of a hop of
  its path, the flow is assigned to such a worker, under the boot that worker has; when there is none
  its assignment is what it was.
\<close>

theorem tick_starts_reserved_flows:
  assumes "reachable (\<lambda>x. x) g" "sane_policy (cfg_policy (g_config g))" "length (g_flows g) < 2 ^ 64"
    and "gen_draws (g_gen g) + length (g_flows g) \<le> 2 ^ 64"
    and "map_of (g_flows g) fid = Some f" "fr_state f = Reserved"
  defines "backing \<equiv> \<lambda>w. wk_alive w \<and>
     (\<exists>p hop. map_of (g_paths g) (fs_path (fr_spec f)) = Some p \<and> hop \<in> set (path_hops p) \<and> hop_resource hop \<in> set (wk_back_resources w))"
  shows "\<exists>g' f'. tick (\<lambda>x. x) g = Some (Inr (), g') \<and> map_of (g_flows g') fid = Some f' \<and> fr_state f' = Running \<and>
    (if \<exists>wid w. (wid, w) \<in> set (g_workers g) \<and> backing w
     then \<exists>wid w. (wid, w) \<in> set (g_workers g) \<and> backing w \<and> fr_assigned_worker f' = Some wid \<and> fr_assigned_boot f' = wk_boot w
     else fr_assigned_worker f' = fr_assigned_worker f \<and> fr_assigned_boot f' = fr_assigned_boot f)"
proof -
  let ?b = "tick_base (\<lambda>x. x) g" let ?f = "starve (\<lambda>x. x) (now g) f"
  have "gov_inv (\<lambda>x. x) g" by (rule reachable_inv [OF exact.rounding_axioms assms(1)]) (use assms(4) in simp)
  then have inv: "inv_core (\<lambda>x. x) g" "all_res (nominal_ok (\<lambda>x. x)) (g_resources g)" by (simp_all add: gov_inv_def)
  have d: "gen_draws (g_gen ?b) \<le> 2 ^ 64" using tick_base_draws [of "\<lambda>x. x" g] assms(4) by simp
  obtain gm where gm: "tick (\<lambda>x. x) g = Some (Inr (), tick_settle (\<lambda>x. x) ?b (now g) gm)"
    using tick_returns_aux [OF inv assms(2,3) d] by blast
  have "map_of (g_flows ?b) fid = Some ?f" using tick_base_skips [OF assms(5)] assms(6) by simp
  then have look: "map_of (g_flows (tick_settle (\<lambda>x. x) ?b (now g) gm)) fid = Some (settled (\<lambda>x. x) ?b gm (now g) ?f)"
    by (simp add: tick_settle_def frame_simps)
  have same: "pick_worker_for_path p ?b = pick_worker_for_path p g" for p
    by (simp add: pick_worker_for_path_def frame_simps split: option.split)
  let ?s = "settled (\<lambda>x. x) ?b gm (now g) ?f"
  have s: "fr_state ?s = Running" "fr_assigned_worker ?s = fr_assigned_worker (dispatch g f)" "fr_assigned_boot ?s = fr_assigned_boot (dispatch g f)"
    using assms(6) by (auto simp: settled_def settle_flow_eq Let_def dispatch_def next_state_def same starve_def split: option.split prod.split)
  have "if \<exists>wid w. (wid, w) \<in> set (g_workers g) \<and> backing w
     then \<exists>wid w. (wid, w) \<in> set (g_workers g) \<and> backing w \<and> fr_assigned_worker ?s = Some wid \<and> fr_assigned_boot ?s = wk_boot w
     else fr_assigned_worker ?s = fr_assigned_worker f \<and> fr_assigned_boot ?s = fr_assigned_boot f"
    unfolding s backing_def by (rule dispatch_choice)
  then show ?thesis using gm look s(1) by blast
qed

theorem tick_starts_reserved_flows_witness:
  "\<exists>g' f'. tick (\<lambda>x. x) work_2 = Some (Inr (), g') \<and> map_of (g_flows g') demo_fid = Some f' \<and> fr_state f' = Running \<and>
     fr_assigned_worker f' = Some demo_wid \<and> fr_assigned_boot f' = demo_boot"
proof -
  let ?f = "(FlowRT_of demo_spec)\<lparr>fr_state := Reserved, fr_granted := Fin 250, fr_reservation := Some life_resv\<rparr>"
  have spec: "fs_path demo_spec = demo_pid" "map_of (g_paths work_2) demo_pid = Some demo_path" "wk_alive demo_worker" "wk_boot demo_worker = demo_boot"
    "\<exists>hop \<in> set (path_hops demo_path). hop_resource hop \<in> set (wk_back_resources demo_worker)"
    by (simp_all add: work_2_eq demo_spec_def fixture_flow_def demo_worker_def demo_path_def demo_pid_def)
  have look: "map_of (g_flows work_2) demo_fid = Some ?f" by (simp add: work_2_eq)
  have "length (g_flows work_2) < 2 ^ 64" "gen_draws (g_gen work_2) + length (g_flows work_2) \<le> 2 ^ 64" "fr_state ?f = Reserved"
    by (simp_all add: work_2_eq)
  from tick_starts_reserved_flows [OF work_reachable default_sane [OF work_2_eq(2)] this(1,2) look this(3)]
  show ?thesis using spec by (auto simp: work_2_eq(3) FlowRT_of_def split: if_splits)
qed

end
