(* ===== verification/Bytes.thy ===== *)
theory Bytes
  imports Core_Types
begin

text \<open>
  \<^verbatim>\<open>BinarySink\<close> and \<^verbatim>\<open>BinarySource\<close> of \<^verbatim>\<open>include/bg/persist.hpp\<close> and \<^verbatim>\<open>src/persist.cpp\<close>, the
  byte streams under the state files and the wire protocol.

  What a sink receives is a list of bytes; writing may throw, so a writer is a result. A source is the
  list of the bytes that remain between \<^verbatim>\<open>p_\<close> and \<^verbatim>\<open>end_\<close>, and a reader takes it to a value and the
  rest. The bytes of a double are those of the IEEE 754 binary64 format, which \<^verbatim>\<open>memcpy\<close> copies.
\<close>

section \<open>Readers and writers\<close>

type_synonym bytes = "byte list"
type_synonym writer = "bytes result"
type_synonym 'a reader = "bytes \<Rightarrow> ('a \<times> bytes) result"

text \<open>One write after the other: the first exception ends the writing.\<close>

fun emit :: "writer list \<Rightarrow> writer" where
  "emit [] = Inr []"
| "emit (w # ws) = rbind w (\<lambda>b. rbind (emit ws) (\<lambda>bs. Inr (b @ bs)))"

definition rd_return :: "'a \<Rightarrow> 'a reader" where
  "rd_return x bs = Inr (x, bs)"

definition rd_bind :: "'a reader \<Rightarrow> ('a \<Rightarrow> 'b reader) \<Rightarrow> 'b reader" where
  "rd_bind r f bs = (case r bs of Inl e \<Rightarrow> Inl e | Inr (x, bs') \<Rightarrow> f x bs')"

definition rd_throw :: "string \<Rightarrow> 'a reader" where
  "rd_throw msg bs = Inl (value_error msg)"

text \<open>A loop \<^verbatim>\<open>for (i = 0; i < n; ++i) xs.push_back(read(s))\<close>.\<close>

fun rd_repeat :: "nat \<Rightarrow> 'a reader \<Rightarrow> 'a list reader" where
  "rd_repeat 0 r = rd_return []"
| "rd_repeat (Suc n) r = rd_bind r (\<lambda>x. rd_bind (rd_repeat n r) (\<lambda>xs. rd_return (x # xs)))"

section \<open>Primitive values\<close>

definition kMaxString :: u32 where "kMaxString = 1048576"

text \<open>\<^verbatim>\<open>reinterpret_cast\<close> between \<^verbatim>\<open>char\<close> and \<^verbatim>\<open>uint8_t\<close>.\<close>

definition byte_of_char :: "char \<Rightarrow> byte" where
  "byte_of_char c = of_nat (of_char c)"

definition char_of_byte :: "byte \<Rightarrow> char" where
  "char_of_byte b = char_of (unat b)"

definition sink_u8 :: "u8 \<Rightarrow> writer" where
  "sink_u8 v = Inr [v]"

definition sink_u16 :: "u16 \<Rightarrow> writer" where
  "sink_u16 v = Inr [ucast (v AND 0xFF), ucast (drop_bit 8 v AND 0xFF)]"

definition sink_u32 :: "u32 \<Rightarrow> writer" where
  "sink_u32 v = Inr (map (\<lambda>i. ucast (drop_bit (8 * i) v AND 0xFF)) [0..<4])"

definition sink_u64 :: "u64 \<Rightarrow> writer" where
  "sink_u64 v = Inr (map (\<lambda>i. ucast (drop_bit (8 * i) v AND 0xFF)) [0..<8])"

text \<open>\<^verbatim>\<open>int64_t\<close> and \<^verbatim>\<open>int\<close> are words; the casts between them extend the sign or cut.\<close>

definition sink_i64 :: "u64 \<Rightarrow> writer" where
  "sink_i64 v = sink_u64 v"

definition sink_bytes :: "bytes \<Rightarrow> writer" where
  "sink_bytes p = Inr p"

definition sink_str :: "string \<Rightarrow> writer" where
  "sink_str s =
     (if unat kMaxString < length s then Inl (value_error ''string too long to persist'')
      else emit [sink_u32 (of_nat (length s)), sink_bytes (map byte_of_char s)])"

definition sink_id :: "'t Id128 \<Rightarrow> writer" where
  "sink_id v = emit [sink_u64 (id_hi v), sink_u64 (id_lo v)]"

definition sink_bool :: "bool \<Rightarrow> writer" where
  "sink_bool b = sink_u8 (if b then 1 else 0)"

definition rd_need :: "nat \<Rightarrow> unit reader" where
  "rd_need n bs = (if length bs < n then Inl (value_error ''truncated binary stream'') else Inr ((), bs))"

definition src_u8 :: "u8 reader" where
  "src_u8 = rd_bind (rd_need 1) (\<lambda>_ p. Inr (hd p, tl p))"

definition src_u16 :: "u16 reader" where
  "src_u16 = rd_bind (rd_need 2) (\<lambda>_ p. Inr (ucast (p ! 0) OR push_bit 8 (ucast (p ! 1)), drop 2 p))"

definition src_u32 :: "u32 reader" where
  "src_u32 = rd_bind (rd_need 4) (\<lambda>_ p.
     Inr (ucast (p ! 0) OR push_bit 8 (ucast (p ! 1)) OR push_bit 16 (ucast (p ! 2)) OR push_bit 24 (ucast (p ! 3)),
          drop 4 p))"

definition src_u64 :: "u64 reader" where
  "src_u64 = rd_bind (rd_need 8) (\<lambda>_ p.
     Inr (foldl (\<lambda>v i. v OR push_bit (8 * i) (ucast (p ! i))) 0 [0..<8], drop 8 p))"

definition src_i64 :: "u64 reader" where
  "src_i64 = src_u64"

definition src_bytes :: "nat \<Rightarrow> bytes reader" where
  "src_bytes n = rd_bind (rd_need n) (\<lambda>_ p. Inr (take n p, drop n p))"

definition src_raw :: "nat \<Rightarrow> bytes reader" where
  "src_raw n = rd_bind (rd_need n) (\<lambda>_ p. Inr (take n p, drop n p))"

definition src_str :: "string reader" where
  "src_str = rd_bind src_u32 (\<lambda>n.
     if kMaxString < n then rd_throw ''malformed string length''
     else rd_bind (rd_need (unat n)) (\<lambda>_ p. Inr (map char_of_byte (take (unat n) p), drop (unat n) p)))"

definition src_id :: "'t Id128 reader" where
  "src_id = rd_bind src_u64 (\<lambda>h. rd_bind src_u64 (\<lambda>l. rd_return (Id128 h l)))"

definition src_bool :: "bool reader" where
  "src_bool = rd_bind src_u8 (\<lambda>v. rd_return (v \<noteq> 0))"

section \<open>The bytes of a double\<close>

text \<open>
  Binary64: a sign bit, eleven bits of exponent and 52 bits of fraction. The bits below the sign are
  the number of units of the last place for subnormal numbers and grow with the value.
\<close>

definition f64_mag :: "rat \<Rightarrow> nat" where
  "f64_mag q = nat ((ulp_exp q + 1074) * 2 ^ 52 + \<lfloor>q / 2 powi ulp_exp q\<rfloor>)"

fun f64_bits :: "f64 \<Rightarrow> u64" where
  "f64_bits NaN = 0x7FF8000000000000"
| "f64_bits PInf = 0x7FF0000000000000"
| "f64_bits NInf = 0xFFF0000000000000"
| "f64_bits (Fin q) =
     (if q = 0 then 0 else if 0 < q then of_nat (f64_mag q) else of_nat (2 ^ 63 + f64_mag (- q)))"

definition f64_of_bits :: "u64 \<Rightarrow> f64" where
  "f64_of_bits w =
     (let n = unat w; E = n div 2 ^ 52 mod 2 ^ 11; F = n mod 2 ^ 52; neg = (2 ^ 63 \<le> n);
          sgn = (\<lambda>q. Fin (if neg then - q else q))
      in if E = 2047 then (if F \<noteq> 0 then NaN else if neg then NInf else PInf)
         else if E = 0 then sgn (of_nat F * 2 powi (- 1074))
         else sgn (of_nat (2 ^ 52 + F) * 2 powi (int E - 1075)))"

definition sink_f64 :: "f64 \<Rightarrow> writer" where
  "sink_f64 v = sink_u64 (f64_bits v)"

definition src_f64 :: "f64 reader" where
  "src_f64 = rd_bind src_u64 (\<lambda>bits.
     let v = f64_of_bits bits
     in if \<not> feq v v \<or> feq v PInf \<or> feq v NInf then rd_throw ''persisted non-finite double'' else rd_return v)"

definition sink_capacity :: "Capacity \<Rightarrow> writer" where
  "sink_capacity c = sink_f64 (cap_value c)"

definition src_capacity :: "Capacity reader" where
  "src_capacity = rd_bind src_f64 (\<lambda>v p. rbind (Capacity_make v) (\<lambda>c. Inr (c, p)))"

section \<open>Laws of readers\<close>

text \<open>
  A strict reader consumes a prefix of its bytes, depends on nothing behind it, and throws
  \<^const>\<open>value_error\<close> only.
\<close>

definition strict :: "'a reader \<Rightarrow> bool" where
  "strict r \<longleftrightarrow>
     (\<forall>bs x rest. r bs = Inr (x, rest) \<longrightarrow> (\<exists>p. bs = p @ rest \<and> (\<forall>rest'. r (p @ rest') = Inr (x, rest')))) \<and>
     (\<forall>bs e. r bs = Inl e \<longrightarrow> (\<exists>msg. e = value_error msg))"

text \<open>\<open>rt w r y\<close>: the writer succeeds, and the reader reads what it wrote as \<open>y\<close>, whatever follows.\<close>

definition rt :: "writer \<Rightarrow> 'a reader \<Rightarrow> 'a \<Rightarrow> bool" where
  "rt w r y \<longleftrightarrow> (\<exists>bs. w = Inr bs \<and> (\<forall>rest. r (bs @ rest) = Inr (y, rest)))"

named_theorems strict_intros \<open>strict readers\<close>
named_theorems rt_intros \<open>round trips\<close>

lemma rd_bind_eq_Inr: "rd_bind r f bs = Inr z \<longleftrightarrow> (\<exists>x bs'. r bs = Inr (x, bs') \<and> f x bs' = Inr z)"
  by (auto simp: rd_bind_def split: sum.splits)

lemma rd_bind_Inr: "r bs = Inr (x, bs') \<Longrightarrow> rd_bind r f bs = f x bs'"
  by (simp add: rd_bind_def)

lemma strict_return [strict_intros]: "strict (rd_return x)"
  by (auto simp: strict_def rd_return_def)

lemma strict_throw [strict_intros]: "strict (rd_throw msg)"
  by (auto simp: strict_def rd_throw_def)

lemma strict_bind [strict_intros]:
  assumes "strict r" "\<And>x. strict (f x)"
  shows "strict (rd_bind r f)"
  unfolding strict_def
proof (intro conjI allI impI)
  fix bs y rest assume "rd_bind r f bs = Inr (y, rest)"
  then obtain x bs' where 1: "r bs = Inr (x, bs')" and 2: "f x bs' = Inr (y, rest)" by (auto simp: rd_bind_eq_Inr)
  obtain p where p: "bs = p @ bs'" "\<And>rest'. r (p @ rest') = Inr (x, rest')" using assms(1) 1 unfolding strict_def by blast
  obtain q where q: "bs' = q @ rest" "\<And>rest'. f x (q @ rest') = Inr (y, rest')" using assms(2) 2 unfolding strict_def by blast
  have "rd_bind r f ((p @ q) @ rest') = Inr (y, rest')" for rest'
    using p(2) [of "q @ rest'"] q(2) by (simp add: rd_bind_def)
  then show "\<exists>p. bs = p @ rest \<and> (\<forall>rest'. rd_bind r f (p @ rest') = Inr (y, rest'))"
    using p(1) q(1) by (intro exI [of _ "p @ q"]) simp
next
  fix bs e assume "rd_bind r f bs = Inl e"
  then show "\<exists>msg. e = value_error msg"
    using assms unfolding strict_def rd_bind_def by (auto split: sum.splits)
qed

lemma strict_if [strict_intros]: "strict r \<Longrightarrow> strict r' \<Longrightarrow> strict (if c then r else r')"
  by simp

lemma strict_repeat [strict_intros]: "strict r \<Longrightarrow> strict (rd_repeat n r)"
  by (induction n) (auto intro!: strict_intros)

lemma strict_take:
  "strict (rd_bind (rd_need n) (\<lambda>_ p. Inr (f (take n p), drop n p)))"
  unfolding strict_def
proof (intro conjI allI impI)
  fix bs x rest assume *: "rd_bind (rd_need n) (\<lambda>_ p. Inr (f (take n p), drop n p)) bs = Inr (x, rest)"
  then have n: "n \<le> length bs" "x = f (take n bs)" "rest = drop n bs"
    by (auto simp: rd_bind_def rd_need_def split: if_splits)
  then show "\<exists>p. bs = p @ rest \<and> (\<forall>rest'. rd_bind (rd_need n) (\<lambda>_ p. Inr (f (take n p), drop n p)) (p @ rest') = Inr (x, rest'))"
    by (intro exI [of _ "take n bs"]) (auto simp: rd_bind_def rd_need_def)
qed (auto simp: rd_bind_def rd_need_def split: if_splits)

text \<open>The word readers look at the bytes they take only.\<close>

lemma rd_take_cong:
  assumes "\<And>p. n \<le> length p \<Longrightarrow> g p = f (take n p)"
  shows "rd_bind (rd_need n) (\<lambda>_ p. Inr (g p, drop n p)) = rd_bind (rd_need n) (\<lambda>_ p. Inr (f (take n p), drop n p))"
  using assms by (auto simp: rd_bind_def rd_need_def fun_eq_iff)

lemma strict_words [strict_intros]:
  "strict src_u8" "strict src_u16" "strict src_u32" "strict src_u64" "strict src_i64" "strict (src_bytes n)" "strict (src_raw n)"
proof -
  have 8: "src_u8 = rd_bind (rd_need 1) (\<lambda>_ p. Inr (hd (take 1 p), drop 1 p))"
    by (auto simp: src_u8_def rd_bind_def rd_need_def fun_eq_iff drop_Suc)
  show "strict src_u8" unfolding 8 by (rule strict_take)
  show "strict src_u16" unfolding src_u16_def
    by (subst rd_take_cong [where f = "\<lambda>p. ucast (p ! 0) OR push_bit 8 (ucast (p ! 1))"]) (simp, rule strict_take)
  show "strict src_u32" unfolding src_u32_def
    by (subst rd_take_cong [where f = "\<lambda>p. ucast (p ! 0) OR push_bit 8 (ucast (p ! 1)) OR push_bit 16 (ucast (p ! 2)) OR
        push_bit 24 (ucast (p ! 3))"]) (simp, rule strict_take)
  show u64: "strict src_u64" unfolding src_u64_def
    by (subst rd_take_cong [where f = "\<lambda>p. foldl (\<lambda>v i. v OR push_bit (8 * i) (ucast (p ! i))) 0 [0..<8]"])
       (simp add: upt_rec, rule strict_take)
  then show "strict src_i64" by (simp add: src_i64_def)
  show "strict (src_bytes n)" "strict (src_raw n)"
    unfolding src_bytes_def src_raw_def using strict_take [of n "\<lambda>x. x"] by simp_all
qed

lemma strict_str [strict_intros]: "strict src_str"
  unfolding src_str_def by (intro strict_intros strict_take)

lemma strict_id [strict_intros]: "strict src_id" "strict src_bool"
  unfolding src_id_def src_bool_def by (intro strict_intros)+

lemma strict_f64 [strict_intros]: "strict src_f64"
  unfolding src_f64_def Let_def by (intro strict_intros)

lemma strict_capacity [strict_intros]: "strict src_capacity"
proof -
  have "strict (\<lambda>p. rbind (Capacity_make v) (\<lambda>c. Inr (c, p)))" for v
    by (auto simp: strict_def Capacity_make_def)
  then show ?thesis unfolding src_capacity_def by (intro strict_intros)
qed

section \<open>Round trips\<close>

lemma rt_return [rt_intros]: "z = y \<Longrightarrow> rt (emit []) (rd_return z) y"
  by (simp add: rt_def rd_return_def)

lemma rt_bind [rt_intros]: "rt w r x \<Longrightarrow> rt (emit ws) (f x) y \<Longrightarrow> rt (emit (w # ws)) (rd_bind r f) y"
  by (fastforce simp: rt_def rd_bind_def)

lemma rt_if [rt_intros]: "\<not> c \<Longrightarrow> rt w r y \<Longrightarrow> rt w (if c then r' else r) y"
  by simp

lemma rt_repeat:
  "(\<And>x. x \<in> set xs \<Longrightarrow> rt (w x) r (h x)) \<Longrightarrow> rt (emit (map w xs)) (rd_repeat (length xs) r) (map h xs)"
proof (induction xs)
  case (Cons x xs)
  have "rt (emit [emit (map w xs)]) (rd_bind (rd_repeat (length xs) r) (\<lambda>ys. rd_return (h x # ys))) (h x # map h xs)"
    by (rule rt_bind [OF Cons.IH rt_return]) (use Cons.prems in simp_all)
  moreover have "rt (w x) r (h x)" using Cons.prems by simp
  moreover have "emit [emit (map w xs)] = emit (map w xs)" by (cases "emit (map w xs)") simp_all
  ultimately show ?case by (simp del: emit.simps add: rt_bind)
qed (simp add: rt_def rd_return_def)

lemma byte_mask: "(0xFF :: 'a::len word) = mask 8"
  by (simp add: mask_eq_exp_minus_1)

lemma bit_byte: "bit (push_bit k (ucast (ucast (drop_bit k v AND 0xFF) :: u8)) :: 'a::len word) n \<longleftrightarrow>
    k \<le> n \<and> n < k + 8 \<and> n < LENGTH('a) \<and> bit (v :: 'a word) n"
  unfolding byte_mask by (auto simp: bit_simps simp del: mask_numeral)

lemmas bit_byte_0 = bit_byte [where k = 0, unfolded push_bit_0_id drop_bit_0 id_apply]

lemma bytes_u16: "ucast (ucast (v AND 0xFF) :: u8) OR push_bit 8 (ucast (ucast (drop_bit 8 v AND 0xFF) :: u8)) = (v :: u16)"
  by (rule bit_word_eqI) (simp only: bit_or_iff bit_byte bit_byte_0, auto)

lemma bytes_u32:
  "ucast (ucast (v AND 0xFF) :: u8) OR push_bit 8 (ucast (ucast (drop_bit 8 v AND 0xFF) :: u8)) OR
     push_bit 16 (ucast (ucast (drop_bit 16 v AND 0xFF) :: u8)) OR push_bit 24 (ucast (ucast (drop_bit 24 v AND 0xFF) :: u8)) = (v :: u32)"
  by (rule bit_word_eqI) (simp only: bit_or_iff bit_byte bit_byte_0, auto)

lemma bytes_foldl: "bit (foldl (\<lambda>v i. v OR push_bit (8 * i) (ucast (p ! i))) a is :: u64) n \<longleftrightarrow>
    bit a n \<or> (\<exists>i \<in> set is. bit (push_bit (8 * i) (ucast (p ! i)) :: u64) n)"
  by (induction "is" arbitrary: a) (auto simp: bit_or_iff)

lemma bytes_u64:
  fixes p :: bytes
  assumes "\<And>i. i < 8 \<Longrightarrow> p ! i = ucast (drop_bit (8 * i) v AND 0xFF)"
  shows "foldl (\<lambda>v i. v OR push_bit (8 * i) (ucast (p ! i))) 0 [0..<8] = (v :: u64)"
proof (rule bit_word_eqI)
  fix n assume n: "n < LENGTH(64)"
  have "bit (push_bit (8 * i) (ucast (p ! i)) :: u64) n \<longleftrightarrow> 8 * i \<le> n \<and> n < 8 * i + 8 \<and> bit v n" if "i < 8" for i
    unfolding assms [OF that] bit_byte using n by simp
  then have "(\<exists>i\<in>set [0..<8]. bit (push_bit (8 * i) (ucast (p ! i)) :: u64) n) \<longleftrightarrow> (\<exists>i \<in> {0..<8}. 8 * i \<le> n \<and> n < 8 * i + 8 \<and> bit v n)"
    by (intro bex_cong) auto
  also have "\<dots> \<longleftrightarrow> bit v n"
    using n by (auto intro!: bexI [of _ "n div 8"])
  finally show "bit (foldl (\<lambda>v i. v OR push_bit (8 * i) (ucast (p ! i))) 0 [0..<8] :: u64) n = bit v n"
    unfolding bytes_foldl by simp
qed

lemma rt_words [rt_intros]:
  "rt (sink_u8 a) src_u8 a" "rt (sink_u16 b) src_u16 b" "rt (sink_u32 c) src_u32 c"
  "rt (sink_u64 d) src_u64 d" "rt (sink_i64 d) src_i64 d"
proof -
  show "rt (sink_u8 a) src_u8 a" by (simp add: rt_def sink_u8_def src_u8_def rd_bind_def rd_need_def)
  show "rt (sink_u16 b) src_u16 b"
    by (simp add: rt_def sink_u16_def src_u16_def rd_bind_def rd_need_def bytes_u16)
  show "rt (sink_u32 c) src_u32 c"
    using bytes_u32 [of c] by (simp add: rt_def sink_u32_def src_u32_def rd_bind_def rd_need_def upt_rec numeral_nat)
  have u64: "foldl (\<lambda>v i. v OR push_bit (8 * i) (ucast ((map (\<lambda>i. ucast (drop_bit (8 * i) d AND 0xFF)) [0..<8] @ rest) ! i))) 0 [0..<8] = d"
    for rest :: bytes by (rule bytes_u64) (simp add: nth_append)
  show "rt (sink_u64 d) src_u64 d"
    using u64 by (auto simp: rt_def sink_u64_def src_u64_def rd_bind_def rd_need_def)
  then show "rt (sink_i64 d) src_i64 d" by (simp add: sink_i64_def src_i64_def)
qed

lemma rt_bool [rt_intros]: "rt (sink_bool b) src_bool b"
  using rt_words(1) [of "if b then 1 else 0"]
  by (auto simp: rt_def sink_bool_def src_bool_def rd_bind_def rd_return_def)

lemma rt_id [rt_intros]: "rt (sink_id i) src_id i"
  unfolding sink_id_def src_id_def by (rule rt_intros | simp)+

lemma rt_bytes [rt_intros]: "rt (sink_bytes p) (src_bytes (length p)) p" "rt (sink_bytes p) (src_raw (length p)) p"
  by (simp_all add: rt_def sink_bytes_def src_bytes_def src_raw_def rd_bind_def rd_need_def)

lemma char_byte [simp]: "char_of_byte (byte_of_char c) = c"
proof -
  have "of_char c < (2 ^ LENGTH(8) :: nat)" by simp
  then show ?thesis by (simp add: char_of_byte_def byte_of_char_def unat_of_nat)
qed

lemma byte_char [simp]: "byte_of_char (char_of_byte b) = b"
proof -
  have "unat b < 256" using unsigned_less [of b, where 'a = nat] by simp
  then show ?thesis by (simp add: char_of_byte_def byte_of_char_def)
qed

lemma rt_str [rt_intros]:
  assumes "length s \<le> 1048576"
  shows "rt (sink_str s) src_str s"
proof -
  have n: "unat (of_nat (length s) :: u32) = length s" using assms by (simp add: unat_of_nat)
  then have "\<not> kMaxString < of_nat (length s)" using assms by (simp add: kMaxString_def word_less_nat_alt)
  moreover have "rt (emit [sink_bytes (map byte_of_char s)])
      (rd_bind (rd_need (length s)) (\<lambda>_ p. Inr (map char_of_byte (take (length s) p), drop (length s) p))) s"
    by (simp add: rt_def sink_bytes_def rd_bind_def rd_need_def comp_def)
  ultimately show ?thesis
    using assms rt_bind [OF rt_words(3) [of "of_nat (length s)"], of _ "\<lambda>n. if kMaxString < n then rd_throw ''malformed string length''
     else rd_bind (rd_need (unat n)) (\<lambda>_ p. Inr (map char_of_byte (take (unat n) p), drop (unat n) p))"]
    unfolding sink_str_def src_str_def by (simp add: n kMaxString_def del: emit.simps)
qed

subsection \<open>Doubles\<close>

lemma ulp_range:
  assumes "0 < q" "q \<le> dbl_max"
  shows "- 1074 \<le> ulp_exp q" "ulp_exp q \<le> 971" "q / 2 powi ulp_exp q < 2 ^ 53"
    "- 1074 < ulp_exp q \<Longrightarrow> 2 ^ 52 \<le> q / 2 powi ulp_exp q"
proof -
  have e: "ulp_exp q = max (flog2 q - 52) (- 1074)" by (simp add: ulp_exp_def)
  show "- 1074 \<le> ulp_exp q" by (simp add: e)
  have "dbl_max < 2 powi 1024" unfolding dbl_max_def by (simp add: power_int_numeral)
  then have "(2 :: rat) powi flog2 q < 2 powi 1024" using flog2_bounds(1) [OF assms(1)] assms(2) by linarith
  then have "flog2 q < 1024" using powi2_mono [of 1024 "flog2 q"] by (meson leD leI)
  then show "ulp_exp q \<le> 971" by (simp add: e)
  have "q < 2 powi (flog2 q + 1)" by (rule flog2_bounds [OF assms(1)])
  also have "\<dots> \<le> 2 powi (ulp_exp q + 53)" by (rule powi2_mono) (simp add: e)
  also have "\<dots> = 2 powi ulp_exp q * 2 ^ 53" by (simp add: powi2_add power_int_numeral)
  finally show "q / 2 powi ulp_exp q < 2 ^ 53" by (simp add: field_simps)
  show "2 ^ 52 \<le> q / 2 powi ulp_exp q" if "- 1074 < ulp_exp q"
  proof -
    have k: "ulp_exp q = flog2 q - 52" using that by (simp add: e max_def split: if_splits)
    have "(2 :: rat) ^ 52 * 2 powi ulp_exp q = 2 powi (52 + ulp_exp q)" by (simp only: powi2_add) (simp add: power_int_numeral)
    also have "\<dots> \<le> q" using flog2_bounds(1) [OF assms(1)] by (simp add: k)
    finally show ?thesis by (simp add: field_simps)
  qed
qed

lemma rne64_fixed:
  assumes "rne64 q = q" "0 < q"
  shows "q / 2 powi ulp_exp q = of_int \<lfloor>q / 2 powi ulp_exp q\<rfloor>"
proof -
  have "of_int (round_even (q / 2 powi ulp_exp q)) * 2 powi ulp_exp q = q"
    using assms by (simp add: rne64_def Let_def)
  then have "q / 2 powi ulp_exp q = of_int (round_even (q / 2 powi ulp_exp q))" by (simp add: field_simps)
  then show ?thesis by (metis floor_of_int)
qed

text \<open>The magnitude bits determine exponent and fraction.\<close>

lemma f64_mag_split:
  assumes "rne64 q = q" "0 < q" "q \<le> dbl_max"
  defines "n \<equiv> f64_mag q"
  shows "n < 2047 * 2 ^ 52" "n div 2 ^ 52 = 0 \<Longrightarrow> of_nat (n mod 2 ^ 52) * 2 powi (- 1074) = q"
    "n div 2 ^ 52 \<noteq> 0 \<Longrightarrow> of_nat (2 ^ 52 + n mod 2 ^ 52) * 2 powi (int (n div 2 ^ 52) - 1075) = q"
proof -
  define k m where "k = ulp_exp q" and "m = \<lfloor>q / 2 powi ulp_exp q\<rfloor>"
  note r = ulp_range [OF assms(2,3)]
  have q: "q = of_int m * 2 powi k" using rne64_fixed [OF assms(1,2)] by (simp add: k_def m_def field_simps)
  have "of_int m < (of_int (2 ^ 53) :: rat)" using r(3) rne64_fixed [OF assms(1,2)] by (simp add: m_def)
  then have m: "m < 2 ^ 53" by (simp only: of_int_less_iff)
  have m0: "0 \<le> m" using assms(2) by (simp add: m_def)
  have m': "2 ^ 52 \<le> m" if "- 1074 < k"
  proof -
    have "(of_int (2 ^ 52) :: rat) \<le> of_int m" using r(4) that rne64_fixed [OF assms(1,2)] by (simp add: k_def m_def)
    then show ?thesis by (simp only: of_int_le_iff)
  qed
  have k: "- 1074 \<le> k" "k \<le> 971" using r(1,2) by (simp_all add: k_def)
  have n: "int n = (k + 1074) * 2 ^ 52 + m" using k m0 by (simp add: n_def f64_mag_def k_def m_def)
  have "(k + 1074) * 2 ^ 52 \<le> 2045 * 2 ^ 52" using k by (intro mult_right_mono) auto
  then have "int n < int (2047 * 2 ^ 52)" using n m by simp
  then show "n < 2047 * 2 ^ 52" by (simp only: of_nat_less_iff)
  have parts: "int (n div 2 ^ 52) = int n div 2 ^ 52" "int (n mod 2 ^ 52) = int n mod 2 ^ 52"
    by (simp_all add: zdiv_int zmod_int)
  show "of_nat (n mod 2 ^ 52) * 2 powi (- 1074) = q" if "n div 2 ^ 52 = 0"
  proof -
    have small: "int n < 2 ^ 52" using that by (simp add: div_eq_0_iff)
    then have k0: "k = - 1074" using n m' k by (cases "- 1074 < k") auto
    have "n mod 2 ^ 52 = n" using that by (simp add: div_eq_0_iff)
    moreover have "int n = m" using n k0 by simp
    ultimately show ?thesis using q k0 by (metis of_int_of_nat_eq)
  qed
  show "of_nat (2 ^ 52 + n mod 2 ^ 52) * 2 powi (int (n div 2 ^ 52) - 1075) = q" if "n div 2 ^ 52 \<noteq> 0"
  proof -
    have big: "2 ^ 52 \<le> m"
    proof (cases "k = - 1074")
      case True
      have "\<not> n < 2 ^ 52" using that by (simp add: div_eq_0_iff)
      then show ?thesis using n True by simp
    qed (use m' k in simp)
    have nn: "int n = (k + 1075) * 2 ^ 52 + (m - 2 ^ 52)" using n by (simp add: algebra_simps)
    have eq: "int n = 2 ^ 52 * (k + 1075) + (m - 2 ^ 52)" using nn by simp
    have "int n div 2 ^ 52 = k + 1075" by (rule int_div_pos_eq [OF eq]) (use big m in simp_all)
    moreover have "int n mod 2 ^ 52 = m - 2 ^ 52" by (rule int_mod_pos_eq [OF eq]) (use big m in simp_all)
    ultimately have "int (n div 2 ^ 52) - 1075 = k" "int (2 ^ 52 + n mod 2 ^ 52) = m" using parts by simp_all
    then show ?thesis using q by (metis of_int_of_nat_eq)
  qed
qed

lemma f64_bits_inverse:
  assumes "is_double rne64 (Fin q)"
  shows "f64_of_bits (f64_bits (Fin q)) = Fin q"
proof -
  have dec: "f64_of_bits (of_nat (s + n)) = Fin (if s = 0 then x else - x)"
    if n: "n < 2047 * 2 ^ 52" "s = 0 \<or> s = 2 ^ 63"
      "n div 2 ^ 52 = 0 \<Longrightarrow> of_nat (n mod 2 ^ 52) * 2 powi (- 1074) = x"
      "n div 2 ^ 52 \<noteq> 0 \<Longrightarrow> of_nat (2 ^ 52 + n mod 2 ^ 52) * 2 powi (int (n div 2 ^ 52) - 1075) = x" for s n x
  proof -
    have "s + n < 2 ^ LENGTH(64)" using n(1,2) by auto
    then have u: "unat (of_nat (s + n) :: u64) = s + n" unfolding unat_of_nat by (rule mod_less)
    have e: "n div 2 ^ 52 < 2047" using n(1) by (simp add: div_less_iff_less_mult)
    obtain t where t: "s = t * 2 ^ 52" "t = 0 \<or> t = 2048" using n(2) by (cases "s = 0") auto
    have d: "(s + n) div 2 ^ 52 mod 2 ^ 11 = n div 2 ^ 52" "(s + n) mod 2 ^ 52 = n mod 2 ^ 52"
      unfolding t(1) div_mult_self3 [OF power_not_zero [OF zero_neq_numeral [symmetric]]] mod_mult_self3
      using t(2) e by auto
    have d': "2 ^ 63 \<le> s + n \<longleftrightarrow> s \<noteq> 0" using n(1,2) by auto
    show ?thesis unfolding f64_of_bits_def Let_def u d d' using e n(3,4) by auto
  qed
  have dbl: "rne64 q = q" "\<bar>q\<bar> \<le> dbl_max" using assms by (auto simp: is_double_def)
  consider "q = 0" | "0 < q" | "q < 0" by linarith
  then show ?thesis
  proof cases
    case 1
    then show ?thesis by (simp add: f64_of_bits_def)
  next
    case 2
    then show ?thesis using dec [of "f64_mag q" 0 q] f64_mag_split [of q] dbl by simp
  next
    case 3
    have "rne64 (- q) = - q" using dbl by (simp add: rne64_minus)
    then show ?thesis using dec [of "f64_mag (- q)" "2 ^ 63" "- q"] f64_mag_split [of "- q"] dbl 3 by simp
  qed
qed

definition storable :: "f64 \<Rightarrow> bool" where
  "storable x \<longleftrightarrow> finite64 x \<and> is_double rne64 x"

lemma rt_f64 [rt_intros]: "storable x \<Longrightarrow> rt (sink_f64 x) src_f64 x"
  using rt_words(4) [of "f64_bits x"] f64_bits_inverse
  by (auto simp: storable_def finite64_def rt_def sink_f64_def src_f64_def rd_bind_def rd_return_def feq_def)

lemma rt_capacity [rt_intros]: "valid_cap c \<Longrightarrow> storable (cap_value c) \<Longrightarrow> rt (sink_capacity c) src_capacity c"
  using rt_f64 [of "cap_value c"]
  by (cases c) (auto simp: rt_def sink_capacity_def src_capacity_def rd_bind_def Capacity_make_def valid_cap_def)

section \<open>Codecs\<close>

text \<open>
  The contract between a writer and its reader: on the values the format can carry, the reader
  reads back what was written, up to what the format leaves out (\<open>norm\<close>), and it is strict.
\<close>

locale codec =
  fixes enc :: "'a \<Rightarrow> writer" and dec :: "'a reader" and ok :: "'a \<Rightarrow> bool" and norm :: "'a \<Rightarrow> 'a"
  assumes round_trip: "ok x \<Longrightarrow> rt (enc x) dec (norm x)"
    and strict_dec: "strict dec"
begin

lemma written: "ok x \<Longrightarrow> \<exists>bs. enc x = Inr bs"
  using round_trip by (auto simp: rt_def)

lemma reads_back: "ok x \<Longrightarrow> enc x = Inr bs \<Longrightarrow> dec (bs @ rest) = Inr (norm x, rest)"
  using round_trip by (force simp: rt_def)

lemma injective: "ok x \<Longrightarrow> ok y \<Longrightarrow> enc x = enc y \<Longrightarrow> norm x = norm y"
  using reads_back written by (metis Inr_inject fst_conv)

lemma truncated:
  assumes "ok x" "enc x = Inr bs" "k < length bs"
  shows "\<exists>msg. dec (take k bs) = Inl (value_error msg)"
proof (cases "dec (take k bs)")
  case (Inl e)
  then show ?thesis using strict_dec unfolding strict_def by blast
next
  case (Inr z)
  obtain y r where z: "z = (y, r)" by fastforce
  obtain p where p: "take k bs = p @ r" "\<And>rest. dec (p @ rest) = Inr (y, rest)"
    using strict_dec Inr z unfolding strict_def by metis
  have "bs = p @ (r @ drop k bs)" using p(1) append_take_drop_id [of k bs] by (metis append_assoc)
  then have "dec bs = Inr (y, r @ drop k bs)" using p(2) by metis
  moreover have "dec bs = Inr (norm x, [])" using reads_back [OF assms(1,2), of "[]"] by simp
  ultimately show ?thesis using assms(3) by simp
qed

lemma list_round_trip:
  "list_all ok xs \<Longrightarrow> rt (emit (map enc xs)) (rd_repeat (length xs) dec) (map norm xs)"
  using round_trip by (intro rt_repeat) (simp add: list_all_iff)

end

interpretation u8: codec sink_u8 src_u8 "\<lambda>_. True" "\<lambda>x. x"
  by unfold_locales (rule rt_words strict_words)+

interpretation u32: codec sink_u32 src_u32 "\<lambda>_. True" "\<lambda>x. x"
  by unfold_locales (rule rt_words strict_words)+

interpretation u64: codec sink_u64 src_u64 "\<lambda>_. True" "\<lambda>x. x"
  by unfold_locales (rule rt_words strict_words)+

interpretation double: codec sink_f64 src_f64 storable "\<lambda>x. x"
  by unfold_locales (simp_all add: rt_f64 strict_f64)

interpretation str: codec sink_str src_str "\<lambda>s. length s \<le> 1048576" "\<lambda>x. x"
  by unfold_locales (simp_all add: rt_str strict_str)

interpretation ident: codec sink_id src_id "\<lambda>_. True" "\<lambda>x. x"
  by unfold_locales (simp_all add: rt_id strict_id)

interpretation capacity: codec sink_capacity src_capacity "\<lambda>c. valid_cap c \<and> storable (cap_value c)" "\<lambda>x. x"
  by unfold_locales (simp_all add: rt_capacity strict_capacity)

end
