(* ===== verification/Crc.thy ===== *)
theory Crc
  imports Bytes
begin

text \<open>
  The checksum of \<^verbatim>\<open>src/persist.cpp\<close>: CRC32 with the IEEE 802.3 polynomial, table-driven. The table
  is proved to be the one of the bitwise definition, and the checksum to notice every corrupted byte.
\<close>

section \<open>Model\<close>

definition kCrcTable :: "u32 list" where
  "kCrcTable =
     [0x00000000, 0x77073096, 0xEE0E612C, 0x990951BA, 0x076DC419, 0x706AF48F,
      0xE963A535, 0x9E6495A3, 0x0EDB8832, 0x79DCB8A4, 0xE0D5E91E, 0x97D2D988,
      0x09B64C2B, 0x7EB17CBD, 0xE7B82D07, 0x90BF1D91, 0x1DB71064, 0x6AB020F2,
      0xF3B97148, 0x84BE41DE, 0x1ADAD47D, 0x6DDDE4EB, 0xF4D4B551, 0x83D385C7,
      0x136C9856, 0x646BA8C0, 0xFD62F97A, 0x8A65C9EC, 0x14015C4F, 0x63066CD9,
      0xFA0F3D63, 0x8D080DF5, 0x3B6E20C8, 0x4C69105E, 0xD56041E4, 0xA2677172,
      0x3C03E4D1, 0x4B04D447, 0xD20D85FD, 0xA50AB56B, 0x35B5A8FA, 0x42B2986C,
      0xDBBBC9D6, 0xACBCF940, 0x32D86CE3, 0x45DF5C75, 0xDCD60DCF, 0xABD13D59,
      0x26D930AC, 0x51DE003A, 0xC8D75180, 0xBFD06116, 0x21B4F4B5, 0x56B3C423,
      0xCFBA9599, 0xB8BDA50F, 0x2802B89E, 0x5F058808, 0xC60CD9B2, 0xB10BE924,
      0x2F6F7C87, 0x58684C11, 0xC1611DAB, 0xB6662D3D, 0x76DC4190, 0x01DB7106,
      0x98D220BC, 0xEFD5102A, 0x71B18589, 0x06B6B51F, 0x9FBFE4A5, 0xE8B8D433,
      0x7807C9A2, 0x0F00F934, 0x9609A88E, 0xE10E9818, 0x7F6A0DBB, 0x086D3D2D,
      0x91646C97, 0xE6635C01, 0x6B6B51F4, 0x1C6C6162, 0x856530D8, 0xF262004E,
      0x6C0695ED, 0x1B01A57B, 0x8208F4C1, 0xF50FC457, 0x65B0D9C6, 0x12B7E950,
      0x8BBEB8EA, 0xFCB9887C, 0x62DD1DDF, 0x15DA2D49, 0x8CD37CF3, 0xFBD44C65,
      0x4DB26158, 0x3AB551CE, 0xA3BC0074, 0xD4BB30E2, 0x4ADFA541, 0x3DD895D7,
      0xA4D1C46D, 0xD3D6F4FB, 0x4369E96A, 0x346ED9FC, 0xAD678846, 0xDA60B8D0,
      0x44042D73, 0x33031DE5, 0xAA0A4C5F, 0xDD0D7CC9, 0x5005713C, 0x270241AA,
      0xBE0B1010, 0xC90C2086, 0x5768B525, 0x206F85B3, 0xB966D409, 0xCE61E49F,
      0x5EDEF90E, 0x29D9C998, 0xB0D09822, 0xC7D7A8B4, 0x59B33D17, 0x2EB40D81,
      0xB7BD5C3B, 0xC0BA6CAD, 0xEDB88320, 0x9ABFB3B6, 0x03B6E20C, 0x74B1D29A,
      0xEAD54739, 0x9DD277AF, 0x04DB2615, 0x73DC1683, 0xE3630B12, 0x94643B84,
      0x0D6D6A3E, 0x7A6A5AA8, 0xE40ECF0B, 0x9309FF9D, 0x0A00AE27, 0x7D079EB1,
      0xF00F9344, 0x8708A3D2, 0x1E01F268, 0x6906C2FE, 0xF762575D, 0x806567CB,
      0x196C3671, 0x6E6B06E7, 0xFED41B76, 0x89D32BE0, 0x10DA7A5A, 0x67DD4ACC,
      0xF9B9DF6F, 0x8EBEEFF9, 0x17B7BE43, 0x60B08ED5, 0xD6D6A3E8, 0xA1D1937E,
      0x38D8C2C4, 0x4FDFF252, 0xD1BB67F1, 0xA6BC5767, 0x3FB506DD, 0x48B2364B,
      0xD80D2BDA, 0xAF0A1B4C, 0x36034AF6, 0x41047A60, 0xDF60EFC3, 0xA867DF55,
      0x316E8EEF, 0x4669BE79, 0xCB61B38C, 0xBC66831A, 0x256FD2A0, 0x5268E236,
      0xCC0C7795, 0xBB0B4703, 0x220216B9, 0x5505262F, 0xC5BA3BBE, 0xB2BD0B28,
      0x2BB45A92, 0x5CB36A04, 0xC2D7FFA7, 0xB5D0CF31, 0x2CD99E8B, 0x5BDEAE1D,
      0x9B64C2B0, 0xEC63F226, 0x756AA39C, 0x026D930A, 0x9C0906A9, 0xEB0E363F,
      0x72076785, 0x05005713, 0x95BF4A82, 0xE2B87A14, 0x7BB12BAE, 0x0CB61B38,
      0x92D28E9B, 0xE5D5BE0D, 0x7CDCEFB7, 0x0BDBDF21, 0x86D3D2D4, 0xF1D4E242,
      0x68DDB3F8, 0x1FDA836E, 0x81BE16CD, 0xF6B9265B, 0x6FB077E1, 0x18B74777,
      0x88085AE6, 0xFF0F6A70, 0x66063BCA, 0x11010B5C, 0x8F659EFF, 0xF862AE69,
      0x616BFFD3, 0x166CCF45, 0xA00AE278, 0xD70DD2EE, 0x4E048354, 0x3903B3C2,
      0xA7672661, 0xD06016F7, 0x4969474D, 0x3E6E77DB, 0xAED16A4A, 0xD9D65ADC,
      0x40DF0B66, 0x37D83BF0, 0xA9BCAE53, 0xDEBB9EC5, 0x47B2CF7F, 0x30B5FFE9,
      0xBDBDF21C, 0xCABAC28A, 0x53B39330, 0x24B4A3A6, 0xBAD03605, 0xCDD70693,
      0x54DE5729, 0x23D967BF, 0xB3667A2E, 0xC4614AB8, 0x5D681B02, 0x2A6F2B94,
      0xB40BBE37, 0xC30C8EA1, 0x5A05DF1B, 0x2D02EF8D]"

text \<open>The object \<^verbatim>\<open>Crc32\<close> is its register \<^verbatim>\<open>crc_\<close>.\<close>

definition Crc32_init :: u32 where "Crc32_init = 0xFFFFFFFF"

definition crc_byte :: "u32 \<Rightarrow> byte \<Rightarrow> u32" where
  "crc_byte crc d = (kCrcTable ! unat ((crc XOR ucast d) AND 0xFF)) XOR drop_bit 8 crc"

definition Crc32_update :: "bytes \<Rightarrow> u32 \<Rightarrow> u32" where
  "Crc32_update data crc = foldl crc_byte crc data"

definition Crc32_value :: "u32 \<Rightarrow> u32" where
  "Crc32_value crc = NOT crc"

definition crc32 :: "bytes \<Rightarrow> u32" where
  "crc32 data = Crc32_value (Crc32_update data Crc32_init)"

section \<open>The bitwise definition\<close>

text \<open>One bit of the division by the reflected polynomial 0xEDB88320.\<close>

definition crc_bit :: "u32 \<Rightarrow> u32" where
  "crc_bit c = (if bit c 0 then drop_bit 1 c XOR 0xEDB88320 else drop_bit 1 c)"

definition crc_bits :: "u32 \<Rightarrow> u32" where
  "crc_bits c = (crc_bit ^^ 8) c"

definition crc_ref :: "bytes \<Rightarrow> u32" where
  "crc_ref data = NOT (foldl (\<lambda>c d. crc_bits (c XOR ucast d)) 0xFFFFFFFF data)"

section \<open>The table\<close>

lemma kCrcTable_length: "length kCrcTable = 256"
  by (simp add: kCrcTable_def)

lemma crc_bit_eval: "crc_bit 0 = 0" "crc_bit 1 = 0xEDB88320"
  "crc_bit (numeral w) = (if bit (numeral w :: u32) 0 then drop_bit 1 (numeral w) XOR 0xEDB88320 else drop_bit 1 (numeral w))"
  by (simp_all add: crc_bit_def)

lemma crc_bits_eval: "crc_bits c = crc_bit (crc_bit (crc_bit (crc_bit (crc_bit (crc_bit (crc_bit (crc_bit c)))))))"
  by (simp add: crc_bits_def eval_nat_numeral)

definition byte_values :: "u32 list" where
  "byte_values =
     [0, 1, 2, 3, 4, 5, 6, 7, 8, 9, 10, 11, 12, 13, 14, 15, 16, 17, 18, 19, 20, 21, 22, 23, 24, 25, 26, 27, 28, 29, 30, 31,
      32, 33, 34, 35, 36, 37, 38, 39, 40, 41, 42, 43, 44, 45, 46, 47, 48, 49, 50, 51, 52, 53, 54, 55, 56, 57, 58, 59, 60, 61, 62, 63,
      64, 65, 66, 67, 68, 69, 70, 71, 72, 73, 74, 75, 76, 77, 78, 79, 80, 81, 82, 83, 84, 85, 86, 87, 88, 89, 90, 91, 92, 93, 94, 95,
      96, 97, 98, 99, 100, 101, 102, 103, 104, 105, 106, 107, 108, 109, 110, 111, 112, 113, 114, 115, 116, 117, 118, 119, 120, 121, 122, 123, 124, 125, 126, 127,
      128, 129, 130, 131, 132, 133, 134, 135, 136, 137, 138, 139, 140, 141, 142, 143, 144, 145, 146, 147, 148, 149, 150, 151, 152, 153, 154, 155, 156, 157, 158, 159,
      160, 161, 162, 163, 164, 165, 166, 167, 168, 169, 170, 171, 172, 173, 174, 175, 176, 177, 178, 179, 180, 181, 182, 183, 184, 185, 186, 187, 188, 189, 190, 191,
      192, 193, 194, 195, 196, 197, 198, 199, 200, 201, 202, 203, 204, 205, 206, 207, 208, 209, 210, 211, 212, 213, 214, 215, 216, 217, 218, 219, 220, 221, 222, 223,
      224, 225, 226, 227, 228, 229, 230, 231, 232, 233, 234, 235, 236, 237, 238, 239, 240, 241, 242, 243, 244, 245, 246, 247, 248, 249, 250, 251, 252, 253, 254, 255]"

lemma kCrcTable_rows: "kCrcTable = map crc_bits byte_values"
  by (simp add: kCrcTable_def byte_values_def crc_bits_eval crc_bit_eval)

lemma byte_values_eq: "byte_values = map of_nat [0..<256]"
  by (simp add: byte_values_def upt_rec)

lemma kCrcTable_nth: "n < 256 \<Longrightarrow> kCrcTable ! n = crc_bits (of_nat n)"
  by (simp add: kCrcTable_rows byte_values_eq)

section \<open>Linearity\<close>

lemma crc_bit_xor: "crc_bit (a XOR b) = crc_bit a XOR crc_bit b"
  by (rule bit_word_eqI) (auto simp: crc_bit_def bit_xor_iff bit_drop_bit_eq)

lemma crc_bits_xor: "crc_bits (a XOR b) = crc_bits a XOR crc_bits b"
  by (simp add: crc_bits_eval crc_bit_xor)

lemma crc_bit_shift: "(\<And>i. i < n \<Longrightarrow> \<not> bit y i) \<Longrightarrow> (crc_bit ^^ n) y = drop_bit n y"
proof (induction n)
  case (Suc n)
  then have "(crc_bit ^^ n) y = drop_bit n y" "\<not> bit (drop_bit n y) 0" by (simp_all add: bit_drop_bit_eq)
  moreover have "crc_bit c = drop_bit 1 c" if "\<not> bit c 0" for c using that by (simp add: crc_bit_def)
  ultimately show ?case by (simp add: drop_bit_drop_bit)
qed simp

lemma crc_bits_shift: "(\<And>i. i < 8 \<Longrightarrow> \<not> bit y i) \<Longrightarrow> crc_bits y = drop_bit 8 y"
  unfolding crc_bits_def by (rule crc_bit_shift)

lemma byte_index: "unat ((x :: u32) AND 0xFF) < 256"
proof -
  have "x AND 0xFF \<le> 0xFF" by (rule word_and_le1)
  then show ?thesis by (simp add: word_le_nat_alt)
qed

lemma xor_cancel: "a XOR p = b XOR p \<Longrightarrow> a = (b :: u32)"
  by (metis xor.assoc xor.right_neutral xor_self_eq)

lemma xor_move: "a XOR b = c \<Longrightarrow> a = b XOR (c :: u32)"
  by (rule bit_word_eqI) (auto simp: bit_xor_iff)

lemma crc_byte_eq: "crc_byte c d = crc_bits (c XOR ucast d)"
proof -
  let ?x = "c XOR ucast d :: u32"
  have low: "bit (?x AND 0xFF) n \<longleftrightarrow> n < 8 \<and> bit ?x n" for n
    unfolding byte_mask by (auto simp: bit_and_iff bit_mask_iff simp del: mask_numeral dest: bit_imp_le_length)
  have "unat (?x AND 0xFF) < 256" by (rule byte_index)
  then have t: "kCrcTable ! unat (?x AND 0xFF) = crc_bits (?x AND 0xFF)" by (simp add: kCrcTable_nth)
  have high: "crc_bits (?x XOR (?x AND 0xFF)) = drop_bit 8 (?x XOR (?x AND 0xFF))"
    by (rule crc_bits_shift) (simp add: bit_xor_iff low)
  also have "\<dots> = drop_bit 8 c"
    by (rule bit_word_eqI) (auto simp: bit_drop_bit_eq bit_xor_iff low bit_ucast_iff dest: bit_imp_le_length)
  finally have "crc_bits ?x XOR crc_bits (?x AND 0xFF) = drop_bit 8 c" by (simp only: crc_bits_xor)
  then have "crc_bits ?x = crc_bits (?x AND 0xFF) XOR drop_bit 8 c" by (rule xor_move)
  then show ?thesis by (simp add: crc_byte_def t)
qed

text \<open>A step of the division can be undone: the top bit of the result is the bit that was shifted out.\<close>

lemma crc_bit_inj: "crc_bit a = crc_bit b \<Longrightarrow> a = b"
proof -
  assume eq: "crc_bit a = crc_bit b"
  have top: "bit (crc_bit c) 31 \<longleftrightarrow> bit c 0" for c
    by (auto simp: crc_bit_def bit_xor_iff bit_drop_bit_eq dest: bit_imp_le_length)
  have 0: "bit a 0 = bit b 0" using top [of a] top [of b] eq by simp
  then have "drop_bit 1 a = drop_bit 1 b"
    using eq xor_cancel [of "drop_bit 1 a" _ "drop_bit 1 b"] by (simp add: crc_bit_def split: if_splits)
  then have "bit a (Suc n) = bit b (Suc n)" for n by (metis bit_drop_bit_eq comp_apply plus_1_eq_Suc)
  then show "a = b" using 0 by (intro bit_eqI) (metis not0_implies_Suc)
qed

lemma crc_bits_inj: "crc_bits a = crc_bits b \<Longrightarrow> a = b"
  by (auto simp: crc_bits_eval dest!: crc_bit_inj)

section \<open>Bursts\<close>

text \<open>The bytes of a burst, little-endian.\<close>

fun le_word :: "bytes \<Rightarrow> u32" where
  "le_word [] = 0"
| "le_word (d # ds) = ucast d XOR push_bit 8 (le_word ds)"

lemma le_word_bits: "8 * length ds \<le> n \<Longrightarrow> \<not> bit (le_word ds) n"
  by (induction ds arbitrary: n) (auto simp: bit_xor_iff bit_push_bit_iff bit_ucast_iff dest: bit_imp_le_length)

lemma drop_push_le: "length ds \<le> 3 \<Longrightarrow> drop_bit 8 (push_bit 8 (le_word ds)) = le_word ds"
proof (rule bit_word_eqI)
  fix n assume "length ds \<le> 3"
  then have "n < 24" if "bit (le_word ds) n" using le_word_bits [of ds n] that by (cases "8 * length ds \<le> n") auto
  then show "bit (drop_bit 8 (push_bit 8 (le_word ds))) n = bit (le_word ds) n"
    by (auto simp: bit_drop_bit_eq bit_push_bit_iff)
qed

lemma foldl_crc_burst:
  "length ds \<le> 4 \<Longrightarrow> foldl crc_byte c ds = (crc_bits ^^ length ds) (c XOR le_word ds)"
proof (induction ds arbitrary: c)
  case (Cons d ds)
  have "crc_bits (push_bit 8 (le_word ds)) = drop_bit 8 (push_bit 8 (le_word ds))"
    by (rule crc_bits_shift) (simp add: bit_push_bit_iff)
  also have "\<dots> = le_word ds" using Cons.prems by (intro drop_push_le) simp
  finally have "crc_byte c d XOR le_word ds = crc_bits (c XOR le_word (d # ds))"
    by (simp add: crc_byte_eq crc_bits_xor xor.assoc)
  then show ?case using Cons.IH [of "crc_byte c d"] Cons.prems by (simp add: funpow_swap1)
qed simp

lemma crc_bits_pow_inj: "(crc_bits ^^ n) a = (crc_bits ^^ n) b \<Longrightarrow> a = b"
  by (induction n) (auto dest: crc_bits_inj)

lemma le_word_inj: "length ds = length es \<Longrightarrow> length ds \<le> 4 \<Longrightarrow> le_word ds = le_word es \<Longrightarrow> ds = es"
proof (induction ds es rule: list_induct2)
  case (Cons d ds e es)
  have low: "take_bit 8 (le_word (x # xs)) = ucast x" for x xs
    by (rule bit_word_eqI) (auto simp: bit_take_bit_iff bit_xor_iff bit_push_bit_iff bit_ucast_iff dest: bit_imp_le_length)
  have "(ucast d :: u32) = ucast e" using low [of d ds] low [of e es] Cons.prems(2) by metis
  then have "bit d n = bit e n" if "n < 32" for n
    using that bit_ucast_iff [of d n, where 'a = 32] bit_ucast_iff [of e n, where 'a = 32] by simp
  then have de: "d = e" by (intro bit_word_eqI) simp
  have "push_bit 8 (le_word ds) = push_bit 8 (le_word es)"
    using Cons.prems(2) xor_cancel [of "push_bit 8 (le_word ds)" "ucast d" "push_bit 8 (le_word es)"] by (simp add: de xor.commute)
  moreover have "length ds \<le> 3" "length es \<le> 3" using Cons.prems(1) Cons.hyps by simp_all
  ultimately have "le_word ds = le_word es" using drop_push_le by metis
  then show ?case using Cons de by simp
qed simp

lemma foldl_crc_inj: "foldl crc_byte c ds = foldl crc_byte c' ds \<Longrightarrow> c = c'"
  by (induction ds arbitrary: c c') (auto simp: crc_byte_eq dest: crc_bits_inj xor_cancel)

lemma crc_register_burst:
  assumes "length m = length m'" "length m \<le> 4"
    and "foldl crc_byte c (pre @ m @ post) = foldl crc_byte c (pre @ m' @ post)"
  shows "m = m'"
proof -
  have "foldl crc_byte (foldl crc_byte c pre) m = foldl crc_byte (foldl crc_byte c pre) m'"
    using assms(3) by (auto dest: foldl_crc_inj)
  then have "foldl crc_byte c pre XOR le_word m = foldl crc_byte c pre XOR le_word m'"
    using foldl_crc_burst assms(1,2) by (metis crc_bits_pow_inj)
  then have "le_word m = le_word m'" by (metis xor_cancel xor.commute)
  then show ?thesis using le_word_inj assms(1,2) by blast
qed

section \<open>Properties\<close>

text \<open>
  Property C35. The table-driven checksum is CRC32: the table has the remainders of all 256 bytes,
  and \<^verbatim>\<open>crc32\<close> of every byte sequence is the bit-by-bit division by the IEEE polynomial.
\<close>

theorem crc32_is_bitwise_crc: "length kCrcTable = 256 \<and> crc32 data = crc_ref data"
proof -
  have "crc_byte = (\<lambda>c d. crc_bits (c XOR ucast d))" by (simp add: crc_byte_eq fun_eq_iff)
  then show ?thesis
    by (simp add: kCrcTable_length crc32_def crc_ref_def Crc32_update_def Crc32_value_def Crc32_init_def)
qed

text \<open>
  The checksum notices every burst of corruption of up to four bytes: two byte
  sequences of the same length that differ within at most four neighbouring bytes have different
  checksums.
\<close>

lemma crc32_detects_bursts:
  assumes "length m = length m'" "length m \<le> 4" "m \<noteq> m'"
  shows "crc32 (pre @ m @ post) \<noteq> crc32 (pre @ m' @ post)"
proof
  assume "crc32 (pre @ m @ post) = crc32 (pre @ m' @ post)"
  then have "foldl crc_byte Crc32_init (pre @ m @ post) = foldl crc_byte Crc32_init (pre @ m' @ post)"
    by (simp add: crc32_def Crc32_value_def Crc32_update_def)
  then show False using crc_register_burst [OF assms(1,2)] assms(3) by blast
qed

end
