(* ===== verification/Persist.thy ===== *)
theory Persist
  imports Governor_Snapshot Crc
begin

text \<open>
  The state format of \<^verbatim>\<open>src/persist.cpp\<close>: one writer and one reader per record, the sections, the
  envelope with its magic, version, length and checksum, and \<^verbatim>\<open>Governor::save\<close> and \<^verbatim>\<open>load\<close> on top.
\<close>

section \<open>Records\<close>

definition kMaxList :: u32 where "kMaxList = 1048576"
definition kMaxPayload :: u64 where "kMaxPayload = 1073741824"

definition valid_flow_state :: "u32 \<Rightarrow> bool" where "valid_flow_state v \<longleftrightarrow> v \<le> 8"
definition valid_latency_class :: "u32 \<Rightarrow> bool" where "valid_latency_class v \<longleftrightarrow> v \<le> 2"
definition valid_reservation_state :: "u32 \<Rightarrow> bool" where "valid_reservation_state v \<longleftrightarrow> v \<le> 5"
definition valid_resource_class :: "u32 \<Rightarrow> bool" where "valid_resource_class v \<longleftrightarrow> v \<le> 7"
definition valid_direction :: "u32 \<Rightarrow> bool" where "valid_direction v \<longleftrightarrow> v \<le> 1"
definition valid_health :: "u32 \<Rightarrow> bool" where "valid_health v \<longleftrightarrow> v \<le> 2"

definition write_policy :: "PolicyConfig \<Rightarrow> writer" where
  "write_policy p = emit
     [sink_f64 (base_priority_weight p), sink_f64 (latency_sensitive_weight p), sink_f64 (throughput_weight p),
      sink_f64 (best_effort_weight p), sink_f64 (deadline_weight p), sink_f64 (deadline_slack_seconds p),
      sink_f64 (starvation_weight p), sink_f64 (starvation_slow_seconds p), sink_f64 (fairness_gain p),
      sink_f64 (reservation_honour p), sink_i64 (scast (max_retries p)), sink_bool (defer_if_min_infeasible p),
      sink_bool (reject_if_no_slack p), sink_u32 (max_admitted p), sink_bool (deterministic_ties p),
      sink_f64 (fairness_window_ms p)]"

definition read_policy :: "PolicyConfig reader" where
  "read_policy =
     rd_bind src_f64 (\<lambda>base. rd_bind src_f64 (\<lambda>lat. rd_bind src_f64 (\<lambda>thr. rd_bind src_f64 (\<lambda>best.
     rd_bind src_f64 (\<lambda>dl. rd_bind src_f64 (\<lambda>slack. rd_bind src_f64 (\<lambda>starv. rd_bind src_f64 (\<lambda>slow.
     rd_bind src_f64 (\<lambda>gain. rd_bind src_f64 (\<lambda>honour. rd_bind src_i64 (\<lambda>retries.
     rd_bind src_bool (\<lambda>defr. rd_bind src_bool (\<lambda>rej. rd_bind src_u32 (\<lambda>adm. rd_bind src_bool (\<lambda>det.
     rd_bind src_f64 (\<lambda>window.
     rd_return \<lparr>base_priority_weight = base, latency_sensitive_weight = lat, throughput_weight = thr,
       best_effort_weight = best, deadline_weight = dl, deadline_slack_seconds = slack, starvation_weight = starv,
       starvation_slow_seconds = slow, fairness_gain = gain, reservation_honour = honour,
       max_retries = ucast retries, defer_if_min_infeasible = defr, reject_if_no_slack = rej,
       max_admitted = adm, deterministic_ties = det, fairness_window_ms = window\<rparr>))))))))))))))))"

definition write_resource_spec :: "ResourceSpec \<Rightarrow> writer" where
  "write_resource_spec r = emit
     [sink_id (rs_id r), sink_u32 (ResourceClass_code (rs_class r)), sink_str (rs_source r),
      sink_str (rs_destination r), sink_u32 (Directionality_code (rs_direction r)), sink_capacity (rs_nominal r),
      sink_id (rs_generation r), sink_bool (rs_enabled r)]"

definition read_resource_spec :: "ResourceSpec reader" where
  "read_resource_spec =
     rd_bind src_id (\<lambda>i. rd_bind src_u32 (\<lambda>cls.
     if \<not> valid_resource_class cls then rd_throw ''invalid resource class'' else
     rd_bind src_str (\<lambda>source. rd_bind src_str (\<lambda>dest. rd_bind src_u32 (\<lambda>dir.
     if \<not> valid_direction dir then rd_throw ''invalid resource direction'' else
     rd_bind src_capacity (\<lambda>nominal. rd_bind src_id (\<lambda>gen. rd_bind src_bool (\<lambda>en.
     rd_return \<lparr>rs_id = i, rs_class = ResourceClass_cast cls, rs_source = source, rs_destination = dest,
       rs_direction = Directionality_cast dir, rs_nominal = nominal, rs_generation = gen, rs_enabled = en\<rparr>))))))))"

definition write_hop :: "PathHop \<Rightarrow> writer" where
  "write_hop h = emit [sink_id (hop_resource h), sink_id (hop_generation h)]"

definition read_hop :: "PathHop reader" where
  "read_hop = rd_bind src_id (\<lambda>r. rd_bind src_id (\<lambda>gen. rd_return \<lparr>hop_resource = r, hop_generation = gen\<rparr>))"

definition write_path :: "Path \<Rightarrow> writer" where
  "write_path p = emit
     [sink_id (path_id p), sink_id (path_generation p), sink_u32 (of_nat (length (path_hops p))),
      emit (map write_hop (path_hops p))]"

definition read_path :: "Path reader" where
  "read_path =
     rd_bind src_id (\<lambda>i. rd_bind src_id (\<lambda>gen. rd_bind src_u32 (\<lambda>n.
     if 256 < n then rd_throw ''path has too many hops'' else
     rd_bind (rd_repeat (unat n) read_hop) (\<lambda>hops.
     rd_return \<lparr>path_id = i, path_hops = hops, path_generation = gen\<rparr>))))"

definition write_flow_spec :: "FlowSpec \<Rightarrow> writer" where
  "write_flow_spec f = emit
     [sink_id (fs_id f), sink_id (fs_tenant f), sink_id (fs_workload f), sink_id (fs_attempt f),
      sink_id (fs_generation f), sink_str (fs_source f), sink_str (fs_destination f), sink_id (fs_path f),
      sink_u64 (fs_byte_count f), sink_u32 (Directionality_code (fs_direction f)), sink_i64 (scast (fs_priority f)),
      sink_u32 (LatencyClass_code (fs_latency_class f)), sink_f64 (fs_deadline_seconds f),
      sink_capacity (fs_requested_min f), sink_capacity (fs_requested_preferred f), sink_capacity (fs_requested_max f),
      sink_u64 (fs_burst_bytes f), sink_bool (fs_preemptible f), sink_bool (fs_resumable f)]"

definition read_flow_spec :: "FlowSpec reader" where
  "read_flow_spec =
     rd_bind src_id (\<lambda>i. rd_bind src_id (\<lambda>tenant. rd_bind src_id (\<lambda>workload. rd_bind src_id (\<lambda>attempt.
     rd_bind src_id (\<lambda>gen. rd_bind src_str (\<lambda>source. rd_bind src_str (\<lambda>dest. rd_bind src_id (\<lambda>path.
     rd_bind src_u64 (\<lambda>bytes. rd_bind src_u32 (\<lambda>dir.
     if \<not> valid_direction dir then rd_throw ''invalid flow direction'' else
     rd_bind src_i64 (\<lambda>prio. rd_bind src_u32 (\<lambda>lc.
     if \<not> valid_latency_class lc then rd_throw ''invalid latency class'' else
     rd_bind src_f64 (\<lambda>deadline. rd_bind src_capacity (\<lambda>mi. rd_bind src_capacity (\<lambda>pref.
     rd_bind src_capacity (\<lambda>ma. rd_bind src_u64 (\<lambda>burst. rd_bind src_bool (\<lambda>pre. rd_bind src_bool (\<lambda>resu.
     rd_return \<lparr>fs_id = i, fs_tenant = tenant, fs_workload = workload, fs_attempt = attempt, fs_generation = gen,
       fs_source = source, fs_destination = dest, fs_path = path, fs_byte_count = bytes,
       fs_direction = Directionality_cast dir, fs_priority = ucast prio, fs_latency_class = LatencyClass_cast lc,
       fs_deadline_seconds = deadline, fs_requested_min = mi, fs_requested_preferred = pref,
       fs_requested_max = ma, fs_burst_bytes = burst, fs_preemptible = pre, fs_resumable = resu\<rparr>)))))))))))))))))))"

text \<open>The assigned worker and boot of a flow are not written; the reader leaves them default-constructed.\<close>

definition write_flow_snapshot :: "FlowSnapshot \<Rightarrow> writer" where
  "write_flow_snapshot f = emit
     [write_flow_spec (fn_spec f), sink_u32 (FlowState_code (fn_state f)), sink_capacity (fn_granted f),
      sink_f64 (fn_admitted_ms f), sink_f64 (fn_last_update_ms f), sink_u64 (fn_bytes_transferred f),
      sink_u64 (fn_burst_remaining f), sink_u64 (fn_retry_count f), sink_f64 (fn_starvation_ms f),
      sink_bool (fn_reservation f \<noteq> None),
      (case fn_reservation f of None \<Rightarrow> Inr [] | Some i \<Rightarrow> sink_id i), sink_str (fn_last_error f)]"

definition read_flow_snapshot :: "FlowSnapshot reader" where
  "read_flow_snapshot =
     rd_bind read_flow_spec (\<lambda>spec. rd_bind src_u32 (\<lambda>st.
     if \<not> valid_flow_state st then rd_throw ''invalid flow state'' else
     rd_bind src_capacity (\<lambda>granted. rd_bind src_f64 (\<lambda>adm. rd_bind src_f64 (\<lambda>last.
     rd_bind src_u64 (\<lambda>done. rd_bind src_u64 (\<lambda>burst. rd_bind src_u64 (\<lambda>retries. rd_bind src_f64 (\<lambda>starv.
     rd_bind src_bool (\<lambda>has_res.
     rd_bind (if has_res then rd_bind src_id (\<lambda>i. rd_return (Some i)) else rd_return None) (\<lambda>res.
     rd_bind src_str (\<lambda>err.
     rd_return \<lparr>fn_spec = spec, fn_state = FlowState_cast st, fn_granted = granted, fn_admitted_ms = adm,
       fn_last_update_ms = last, fn_bytes_transferred = done, fn_burst_remaining = burst,
       fn_retry_count = retries, fn_starvation_ms = starv, fn_reservation = res, fn_assigned_worker = None,
       fn_assigned_boot = null_id, fn_last_error = err\<rparr>))))))))))))"

definition write_resource_allocation :: "ResourceAllocation \<Rightarrow> writer" where
  "write_resource_allocation a = emit [sink_id (al_resource a), sink_capacity (al_allocated a)]"

definition read_resource_allocation :: "ResourceAllocation reader" where
  "read_resource_allocation =
     rd_bind src_id (\<lambda>r. rd_bind src_capacity (\<lambda>c. rd_return \<lparr>al_resource = r, al_allocated = c\<rparr>))"

definition write_reservation :: "Reservation \<Rightarrow> writer" where
  "write_reservation r = emit
     [sink_id (rv_id r), sink_id (rv_flow r), sink_id (rv_attempt r), sink_id (rv_flow_generation r),
      sink_id (rv_path r), sink_u32 (of_nat (length (rv_allocations r))),
      emit (map write_resource_allocation (rv_allocations r)), sink_id (rv_epoch r), sink_id (rv_worker_boot r),
      sink_id (rv_capacity_generation r), sink_u32 (ReservationState_code (rv_state r))]"

definition read_reservation :: "Reservation reader" where
  "read_reservation =
     rd_bind src_id (\<lambda>i. rd_bind src_id (\<lambda>flow. rd_bind src_id (\<lambda>attempt. rd_bind src_id (\<lambda>fgen.
     rd_bind src_id (\<lambda>path. rd_bind src_u32 (\<lambda>n.
     if 256 < n then rd_throw ''reservation has too many allocations'' else
     rd_bind (rd_repeat (unat n) read_resource_allocation) (\<lambda>als.
     rd_bind src_id (\<lambda>epoch. rd_bind src_id (\<lambda>boot. rd_bind src_id (\<lambda>cgen. rd_bind src_u32 (\<lambda>st.
     if \<not> valid_reservation_state st then rd_throw ''invalid reservation state'' else
     rd_return \<lparr>rv_id = i, rv_flow = flow, rv_attempt = attempt, rv_flow_generation = fgen, rv_path = path,
       rv_allocations = als, rv_epoch = epoch, rv_worker_boot = boot, rv_capacity_generation = cgen,
       rv_state = ReservationState_cast st\<rparr>)))))))))))"

definition write_tenant_acc :: "TenantAccounting \<Rightarrow> writer" where
  "write_tenant_acc t = emit
     [sink_id (tn_tenant t), sink_f64 (tn_allocated_now t), sink_f64 (tn_served_bytes t), sink_u64 (tn_submitted t),
      sink_u64 (tn_completed t), sink_u64 (tn_failed t), sink_f64 (tn_weight t)]"

definition read_tenant_acc :: "TenantAccounting reader" where
  "read_tenant_acc =
     rd_bind src_id (\<lambda>i. rd_bind src_f64 (\<lambda>alloc. rd_bind src_f64 (\<lambda>served. rd_bind src_u64 (\<lambda>sub.
     rd_bind src_u64 (\<lambda>comp. rd_bind src_u64 (\<lambda>fail. rd_bind src_f64 (\<lambda>weight.
     rd_return \<lparr>tn_tenant = i, tn_allocated_now = alloc, tn_served_bytes = served, tn_submitted = sub,
       tn_completed = comp, tn_failed = fail, tn_weight = weight\<rparr>)))))))"

definition write_workload_acc :: "WorkloadAccounting \<Rightarrow> writer" where
  "write_workload_acc w = emit
     [sink_id (wn_workload w), sink_f64 (wn_allocated_now w), sink_f64 (wn_served_bytes w), sink_u64 (wn_submitted w),
      sink_u64 (wn_completed w), sink_u64 (wn_failed w), sink_f64 (wn_weight w)]"

definition read_workload_acc :: "WorkloadAccounting reader" where
  "read_workload_acc =
     rd_bind src_id (\<lambda>i. rd_bind src_f64 (\<lambda>alloc. rd_bind src_f64 (\<lambda>served. rd_bind src_u64 (\<lambda>sub.
     rd_bind src_u64 (\<lambda>comp. rd_bind src_u64 (\<lambda>fail. rd_bind src_f64 (\<lambda>weight.
     rd_return \<lparr>wn_workload = i, wn_allocated_now = alloc, wn_served_bytes = served, wn_submitted = sub,
       wn_completed = comp, wn_failed = fail, wn_weight = weight\<rparr>)))))))"

definition write_resource_snapshot :: "ResourceSnapshot \<Rightarrow> writer" where
  "write_resource_snapshot r = emit
     [sink_id (rn_id r), sink_u32 (ResourceClass_code (rn_class r)), sink_str (rn_source r), sink_str (rn_destination r),
      sink_u32 (Directionality_code (rn_direction r)), sink_capacity (rn_nominal r), sink_capacity (rn_measured r),
      sink_capacity (rn_governed r), sink_capacity (rn_reserved r), sink_capacity (rn_allocated r),
      sink_f64 (rn_instantaneous_util r), sink_f64 (rn_moving_average_util r), sink_u64 (rn_queue_depth r),
      sink_bool (rn_saturated r), sink_f64 (rn_measured_latency_ms r), sink_f64 (rn_confidence r),
      sink_str (rn_provenance r), sink_f64 (rn_staleness_ms r), sink_f64 (rn_staleness_threshold_ms r),
      sink_id (rn_capacity_generation r), sink_u32 (ResourceHealth_code (rn_health r)), sink_bool (rn_enabled r)]"

definition read_resource_snapshot :: "ResourceSnapshot reader" where
  "read_resource_snapshot =
     rd_bind src_id (\<lambda>i. rd_bind src_u32 (\<lambda>cls.
     if \<not> valid_resource_class cls then rd_throw ''invalid resource class in snapshot'' else
     rd_bind src_str (\<lambda>source. rd_bind src_str (\<lambda>dest. rd_bind src_u32 (\<lambda>dir.
     if \<not> valid_direction dir then rd_throw ''invalid direction in snapshot'' else
     rd_bind src_capacity (\<lambda>nominal. rd_bind src_capacity (\<lambda>measured. rd_bind src_capacity (\<lambda>governed.
     rd_bind src_capacity (\<lambda>reserved. rd_bind src_capacity (\<lambda>allocated. rd_bind src_f64 (\<lambda>inst.
     rd_bind src_f64 (\<lambda>mov. rd_bind src_u64 (\<lambda>depth. rd_bind src_bool (\<lambda>sat. rd_bind src_f64 (\<lambda>lat.
     rd_bind src_f64 (\<lambda>conf. rd_bind src_str (\<lambda>prov. rd_bind src_f64 (\<lambda>stale. rd_bind src_f64 (\<lambda>thr.
     rd_bind src_id (\<lambda>gen. rd_bind src_u32 (\<lambda>h.
     if \<not> valid_health h then rd_throw ''invalid resource health'' else
     rd_bind src_bool (\<lambda>en.
     rd_return \<lparr>rn_id = i, rn_class = ResourceClass_cast cls, rn_source = source, rn_destination = dest,
       rn_direction = Directionality_cast dir, rn_nominal = nominal, rn_measured = measured, rn_governed = governed,
       rn_reserved = reserved, rn_allocated = allocated, rn_instantaneous_util = inst,
       rn_moving_average_util = mov, rn_queue_depth = depth, rn_saturated = sat, rn_measured_latency_ms = lat,
       rn_confidence = conf, rn_provenance = prov, rn_staleness_ms = stale, rn_staleness_threshold_ms = thr,
       rn_capacity_generation = gen, rn_health = ResourceHealth_cast h, rn_enabled = en\<rparr>))))))))))))))))))))))"

section \<open>Sections\<close>

definition KPolicy :: u8 where "KPolicy = 1"
definition KCoord :: u8 where "KCoord = 2"
definition KResources :: u8 where "KResources = 3"
definition KPaths :: u8 where "KPaths = 4"
definition KFlows :: u8 where "KFlows = 5"
definition KReservations :: u8 where "KReservations = 6"
definition KTenants :: u8 where "KTenants = 7"
definition KWorkloads :: u8 where "KWorkloads = 8"
definition KResourceState :: u8 where "KResourceState = 9"

definition write_section :: "u8 \<Rightarrow> writer \<Rightarrow> writer" where
  "write_section tag w = rbind w (\<lambda>body. emit [sink_u8 tag, sink_u32 (of_nat (length body)), sink_bytes body])"

definition write_list :: "('a \<Rightarrow> writer) \<Rightarrow> 'a list \<Rightarrow> writer" where
  "write_list w xs = emit [sink_u32 (of_nat (length xs)), emit (map w xs)]"

definition write_coord :: "GovernorSnapshot \<Rightarrow> writer" where
  "write_coord snap = emit
     [sink_id (gs_coordinator snap), sink_id (gs_epoch snap), sink_id (gs_capacity_generation snap),
      sink_f64 (gs_saved_at_ms snap)]"

definition encode_payload :: "GovernorSnapshot \<Rightarrow> writer" where
  "encode_payload snap = emit
     [write_section KPolicy (write_policy (gs_policy snap)),
      write_section KCoord (write_coord snap),
      write_section KResources (write_list write_resource_spec (gs_resources snap)),
      write_section KPaths (write_list write_path (gs_paths snap)),
      write_section KFlows (write_list write_flow_snapshot (gs_flows snap)),
      write_section KReservations (write_list write_reservation (gs_reservations snap)),
      write_section KTenants (write_list (write_tenant_acc \<circ> snd) (gs_tenants snap)),
      write_section KWorkloads (write_list (write_workload_acc \<circ> snd) (gs_workloads snap)),
      write_section KResourceState (write_list (write_resource_snapshot \<circ> snd) (gs_resource_state snap))]"

definition kEnvelopeMagic :: string where "kEnvelopeMagic = ''BGWOVR01''"

definition encode_snapshot :: "GovernorSnapshot \<Rightarrow> writer" where
  "encode_snapshot snap =
     rbind (encode_payload snap) (\<lambda>payload.
       emit [sink_bytes (map byte_of_char kEnvelopeMagic), sink_u32 kFormatVersion,
             sink_u64 (of_nat (length payload)), sink_bytes payload, sink_u32 (crc32 payload)])"

text \<open>
  The loops over a section: a list whose identities must not repeat, and a table that is filled by
  \<^verbatim>\<open>m[key(x)] = x\<close>, which is a \<^verbatim>\<open>std::map\<close> for the accounting and an unordered one for the resources.
\<close>

fun read_unique :: "nat \<Rightarrow> 'a reader \<Rightarrow> ('a \<Rightarrow> 'k) \<Rightarrow> string \<Rightarrow> 'k list \<Rightarrow> 'a list reader" where
  "read_unique 0 r key dup ids = rd_return []"
| "read_unique (Suc n) r key dup ids =
     rd_bind r (\<lambda>x. if key x \<in> set ids then rd_throw dup
       else rd_bind (read_unique n r key dup (key x # ids)) (\<lambda>xs. rd_return (x # xs)))"

definition read_unique_list :: "'a reader \<Rightarrow> ('a \<Rightarrow> 'k) \<Rightarrow> string \<Rightarrow> string \<Rightarrow> 'a list reader" where
  "read_unique_list r key bound dup =
     rd_bind src_u32 (\<lambda>count. if kMaxList < count then rd_throw bound else read_unique (unat count) r key dup [])"

fun omap_update :: "'k::linorder \<Rightarrow> 'v \<Rightarrow> ('k \<times> 'v) list \<Rightarrow> ('k \<times> 'v) list" where
  "omap_update k v [] = [(k, v)]"
| "omap_update k v ((k', v') # m) =
     (if k < k' then (k, v) # (k', v') # m else if k' < k then (k', v') # omap_update k v m else (k, v) # m)"

definition read_table ::
    "'a reader \<Rightarrow> ('k \<Rightarrow> 'a \<Rightarrow> ('k \<times> 'a) list \<Rightarrow> ('k \<times> 'a) list) \<Rightarrow> ('a \<Rightarrow> 'k) \<Rightarrow> string \<Rightarrow> ('k \<times> 'a) list reader" where
  "read_table r put key bound =
     rd_bind src_u32 (\<lambda>count. if kMaxList < count then rd_throw bound
       else rd_bind (rd_repeat (unat count) r) (\<lambda>xs. rd_return (foldl (\<lambda>m x. put (key x) x m) [] xs)))"

text \<open>The \<^verbatim>\<open>switch\<close> over the tag: what the body of the section makes of the snapshot.\<close>

definition read_body :: "u8 \<Rightarrow> GovernorSnapshot \<Rightarrow> GovernorSnapshot reader" where
  "read_body tag snap =
     (if tag = KPolicy then rd_bind read_policy (\<lambda>p. rd_return (snap\<lparr>gs_policy := p\<rparr>))
      else if tag = KCoord then
        rd_bind src_id (\<lambda>c. rd_bind src_id (\<lambda>e. rd_bind src_id (\<lambda>cg. rd_bind src_f64 (\<lambda>t.
        rd_return (snap\<lparr>gs_coordinator := c, gs_epoch := e, gs_capacity_generation := cg, gs_saved_at_ms := t\<rparr>)))))
      else if tag = KResources then
        rd_bind (read_unique_list read_resource_spec rs_id ''resource count exceeds bound'' ''duplicate resource id'')
          (\<lambda>xs. rd_return (snap\<lparr>gs_resources := xs\<rparr>))
      else if tag = KPaths then
        rd_bind (read_unique_list read_path path_id ''path count exceeds bound'' ''duplicate path id'')
          (\<lambda>xs. rd_return (snap\<lparr>gs_paths := xs\<rparr>))
      else if tag = KFlows then
        rd_bind (read_unique_list read_flow_snapshot (fs_id \<circ> fn_spec) ''flow count exceeds bound'' ''duplicate flow id'')
          (\<lambda>xs. rd_return (snap\<lparr>gs_flows := xs\<rparr>))
      else if tag = KReservations then
        rd_bind (read_unique_list read_reservation rv_id ''reservation count exceeds bound'' ''duplicate reservation id'')
          (\<lambda>xs. rd_return (snap\<lparr>gs_reservations := xs\<rparr>))
      else if tag = KTenants then
        rd_bind (read_table read_tenant_acc omap_update tn_tenant ''tenant count exceeds bound'')
          (\<lambda>m. rd_return (snap\<lparr>gs_tenants := m\<rparr>))
      else if tag = KWorkloads then
        rd_bind (read_table read_workload_acc omap_update wn_workload ''workload count exceeds bound'')
          (\<lambda>m. rd_return (snap\<lparr>gs_workloads := m\<rparr>))
      else if tag = KResourceState then
        rd_bind (read_table read_resource_snapshot AList.update rn_id ''resource state count exceeds bound'')
          (\<lambda>m. rd_return (snap\<lparr>gs_resource_state := m\<rparr>))
      else rd_throw ''unknown section tag'')"

text \<open>The head of a section and its bytes.\<close>

definition read_section :: "u8 list \<Rightarrow> (u8 \<times> bytes) reader" where
  "read_section seen =
     rd_bind src_u8 (\<lambda>tag. rd_bind src_u32 (\<lambda>len p.
       if length p < unat len then Inl (value_error ''section length exceeds payload'')
       else if tag \<in> set seen then Inl (value_error ''duplicate section field'')
       else rd_bind (src_raw (unat len)) (\<lambda>body. rd_return (tag, body)) p))"

lemma src_u8_shorter: "src_u8 bs = Inr (x, rest) \<Longrightarrow> length rest < length bs"
  by (cases bs) (auto simp: src_u8_def rd_bind_def rd_need_def)

lemma strict_shorter: "strict r \<Longrightarrow> r bs = Inr (x, rest) \<Longrightarrow> length rest \<le> length bs"
  by (fastforce simp: strict_def)

lemma read_section_shorter:
  assumes "read_section seen bs = Inr (x, rest)"
  shows "length rest < length bs"
proof -
  obtain tag b1 len b2 body where 1: "src_u8 bs = Inr (tag, b1)" "src_u32 b1 = Inr (len, b2)"
    and 3: "src_raw (unat len) b2 = Inr (body, rest)"
    using assms by (auto simp: read_section_def rd_bind_eq_Inr rd_return_def split: if_splits)
  show ?thesis
    using src_u8_shorter [OF 1(1)] strict_shorter [OF strict_words(3) 1(2)] strict_shorter [OF strict_words(7) 3] by simp
qed

text \<open>The loop over the sections; \<open>seen\<close> and \<open>present\<close> collect the tags.\<close>

function read_sections ::
    "bytes \<Rightarrow> u8 list \<Rightarrow> u8 list \<Rightarrow> GovernorSnapshot \<Rightarrow> (u8 list \<times> GovernorSnapshot) result" where
  "read_sections sec seen present snap =
     (if sec = [] then Inr (present, snap)
      else case read_section seen sec of
             Inl e \<Rightarrow> Inl e
           | Inr ((tag, body), rest) \<Rightarrow>
               (case read_body tag snap body of
                  Inl e \<Rightarrow> Inl e
                | Inr (snap, left) \<Rightarrow>
                    if left \<noteq> [] then Inl (value_error ''trailing garbage in section'')
                    else read_sections rest (tag # seen) (tag # present) snap))"
  by auto

termination
  by (relation "measure (length \<circ> fst)") (auto dest: read_section_shorter)

declare read_sections.simps [simp del]

definition GovernorSnapshot_default :: GovernorSnapshot where
  "GovernorSnapshot_default =
     \<lparr>gs_format_version = 1, gs_coordinator = null_id, gs_epoch = null_id, gs_capacity_generation = null_id,
      gs_policy = PolicyConfig_default, gs_resources = [], gs_paths = [], gs_flows = [], gs_reservations = [],
      gs_tenants = [], gs_workloads = [], gs_resource_state = [], gs_saved_at_ms = f0\<rparr>"

definition decode_payload :: "u32 \<Rightarrow> bytes \<Rightarrow> GovernorSnapshot result" where
  "decode_payload version payload =
     rbind (read_sections payload [] [] (GovernorSnapshot_default\<lparr>gs_format_version := version\<rparr>)) (\<lambda>(present, snap).
       if \<exists>tag \<in> set [1, 2, 3, 4, 5, 6, 7, 8, 9]. tag \<notin> set present
       then Inl (value_error ''missing required section'') else Inr snap)"

definition read_envelope :: "(u32 \<times> bytes) reader" where
  "read_envelope =
     rd_bind (src_raw (length kEnvelopeMagic)) (\<lambda>magic.
     if magic \<noteq> map byte_of_char kEnvelopeMagic then rd_throw ''bad magic: not a Bandwidth Governor state'' else
     rd_bind src_u32 (\<lambda>version.
     if version \<noteq> kFormatVersion then rd_throw ''incompatible state version'' else
     rd_bind src_u64 (\<lambda>payload_len.
     if kMaxPayload < payload_len then rd_throw ''payload length exceeds bound'' else
     rd_bind (src_bytes (unat payload_len)) (\<lambda>payload. rd_bind src_u32 (\<lambda>stored_crc.
     if stored_crc \<noteq> crc32 payload then rd_throw ''checksum mismatch: state corrupted''
     else rd_return (version, payload))))))"

definition decode_snapshot :: "bytes \<Rightarrow> GovernorSnapshot result" where
  "decode_snapshot data =
     (if length data < length kEnvelopeMagic + 4 + 8 + 4 then Inl (value_error ''envelope too short'')
      else rbind (read_envelope data) (\<lambda>((version, payload), rest).
        if rest \<noteq> [] then Inl (value_error ''trailing garbage after payload'')
        else decode_payload version payload))"

section \<open>Saving and loading the governor\<close>

definition save :: "(rat \<Rightarrow> rat) \<Rightarrow> gov \<Rightarrow> bytes result \<times> gov" where
  "save R g = (case build_snapshot R g of (r, g) \<Rightarrow> (rbind r encode_snapshot, g))"

definition load :: "(rat \<Rightarrow> rat) \<Rightarrow> bytes \<Rightarrow> gov \<Rightarrow> unit result \<times> gov" where
  "load R data g =
     (case decode_snapshot data of
        Inl e \<Rightarrow> (Inl e, g)
      | Inr snap \<Rightarrow> (Inr (), restore R snap g))"

end
