(* ===== verification/Persist_Codecs.thy ===== *)
theory Persist_Codecs
  imports Persist
begin

text \<open>
  Every record of the state format is a codec: its reader reads back what its writer wrote. The
  predicates say which values the format can carry: doubles that are finite binary64 numbers, strings
  up to a megabyte, valid capacities, enumerators, and up to 256 hops and allocations.
\<close>

section \<open>What the format carries\<close>

definition short :: "string \<Rightarrow> bool" where "short s \<longleftrightarrow> length s \<le> 1048576"

definition cap_storable :: "Capacity \<Rightarrow> bool" where
  "cap_storable c \<longleftrightarrow> valid_cap c \<and> storable (cap_value c)"

text \<open>An enumeration survives the cast to its number and back, and its number is valid.\<close>

definition enum_ok :: "('e \<Rightarrow> u32) \<Rightarrow> (u32 \<Rightarrow> 'e) \<Rightarrow> (u32 \<Rightarrow> bool) \<Rightarrow> 'e \<Rightarrow> bool" where
  "enum_ok code cast valid e \<longleftrightarrow> valid (code e) \<and> cast (code e) = e"

abbreviation class_ok :: "ResourceClass \<Rightarrow> bool" where
  "class_ok \<equiv> enum_ok ResourceClass_code ResourceClass_cast valid_resource_class"
abbreviation dir_ok :: "Directionality \<Rightarrow> bool" where
  "dir_ok \<equiv> enum_ok Directionality_code Directionality_cast valid_direction"
abbreviation health_ok :: "ResourceHealth \<Rightarrow> bool" where
  "health_ok \<equiv> enum_ok ResourceHealth_code ResourceHealth_cast valid_health"
abbreviation latency_ok :: "LatencyClass \<Rightarrow> bool" where
  "latency_ok \<equiv> enum_ok LatencyClass_code LatencyClass_cast valid_latency_class"
abbreviation fstate_ok :: "FlowState \<Rightarrow> bool" where
  "fstate_ok \<equiv> enum_ok FlowState_code FlowState_cast valid_flow_state"
abbreviation rstate_ok :: "ReservationState \<Rightarrow> bool" where
  "rstate_ok \<equiv> enum_ok ReservationState_code ReservationState_cast valid_reservation_state"

definition policy_storable :: "PolicyConfig \<Rightarrow> bool" where
  "policy_storable p \<longleftrightarrow>
     storable (base_priority_weight p) \<and> storable (latency_sensitive_weight p) \<and> storable (throughput_weight p) \<and>
     storable (best_effort_weight p) \<and> storable (deadline_weight p) \<and> storable (deadline_slack_seconds p) \<and>
     storable (starvation_weight p) \<and> storable (starvation_slow_seconds p) \<and> storable (fairness_gain p) \<and>
     storable (reservation_honour p) \<and> storable (fairness_window_ms p)"

definition rspec_storable :: "ResourceSpec \<Rightarrow> bool" where
  "rspec_storable r \<longleftrightarrow> class_ok (rs_class r) \<and> short (rs_source r) \<and> short (rs_destination r) \<and>
     dir_ok (rs_direction r) \<and> cap_storable (rs_nominal r)"

definition path_storable :: "Path \<Rightarrow> bool" where
  "path_storable p \<longleftrightarrow> length (path_hops p) \<le> 256"

definition fspec_storable :: "FlowSpec \<Rightarrow> bool" where
  "fspec_storable f \<longleftrightarrow> short (fs_source f) \<and> short (fs_destination f) \<and> dir_ok (fs_direction f) \<and>
     latency_ok (fs_latency_class f) \<and> storable (fs_deadline_seconds f) \<and> cap_storable (fs_requested_min f) \<and>
     cap_storable (fs_requested_preferred f) \<and> cap_storable (fs_requested_max f)"

definition flow_storable :: "FlowSnapshot \<Rightarrow> bool" where
  "flow_storable f \<longleftrightarrow> fspec_storable (fn_spec f) \<and> fstate_ok (fn_state f) \<and> cap_storable (fn_granted f) \<and>
     storable (fn_admitted_ms f) \<and> storable (fn_last_update_ms f) \<and> storable (fn_starvation_ms f) \<and>
     short (fn_last_error f)"

definition flow_stored :: "FlowSnapshot \<Rightarrow> FlowSnapshot" where
  "flow_stored f = f\<lparr>fn_assigned_worker := None, fn_assigned_boot := null_id\<rparr>"

definition alloc_storable :: "ResourceAllocation \<Rightarrow> bool" where
  "alloc_storable a \<longleftrightarrow> cap_storable (al_allocated a)"

definition resv_storable :: "Reservation \<Rightarrow> bool" where
  "resv_storable r \<longleftrightarrow> length (rv_allocations r) \<le> 256 \<and> list_all alloc_storable (rv_allocations r) \<and> rstate_ok (rv_state r)"

definition tenant_storable :: "TenantAccounting \<Rightarrow> bool" where
  "tenant_storable t \<longleftrightarrow> storable (tn_allocated_now t) \<and> storable (tn_served_bytes t) \<and> storable (tn_weight t)"

definition workload_storable :: "WorkloadAccounting \<Rightarrow> bool" where
  "workload_storable w \<longleftrightarrow> storable (wn_allocated_now w) \<and> storable (wn_served_bytes w) \<and> storable (wn_weight w)"

definition rsnap_storable :: "ResourceSnapshot \<Rightarrow> bool" where
  "rsnap_storable r \<longleftrightarrow> class_ok (rn_class r) \<and> short (rn_source r) \<and> short (rn_destination r) \<and> dir_ok (rn_direction r) \<and>
     cap_storable (rn_nominal r) \<and> cap_storable (rn_measured r) \<and> cap_storable (rn_governed r) \<and>
     cap_storable (rn_reserved r) \<and> cap_storable (rn_allocated r) \<and> storable (rn_instantaneous_util r) \<and>
     storable (rn_moving_average_util r) \<and> storable (rn_measured_latency_ms r) \<and> storable (rn_confidence r) \<and>
     short (rn_provenance r) \<and> storable (rn_staleness_ms r) \<and> storable (rn_staleness_threshold_ms r) \<and>
     health_ok (rn_health r)"

section \<open>The codecs\<close>

lemma rt_short [rt_intros]: "short s \<Longrightarrow> rt (sink_str s) src_str s"
  by (simp add: short_def rt_str)

lemma rt_cap [rt_intros]: "cap_storable c \<Longrightarrow> rt (sink_capacity c) src_capacity c"
  by (simp add: cap_storable_def rt_capacity)

lemma int_word [simp]: "ucast (scast (x :: u32) :: u64) = x"
  by (rule bit_word_eqI) (simp add: bit_ucast_iff bit_signed_iff)

lemma small_count: "n \<le> 256 \<Longrightarrow> unat (of_nat n :: u32) = n" "n \<le> 256 \<Longrightarrow> \<not> 256 < (of_nat n :: u32)"
  by (simp_all add: unat_of_nat word_less_nat_alt)

lemma rt_policy: "policy_storable p \<Longrightarrow> rt (write_policy p) read_policy p"
  unfolding write_policy_def read_policy_def policy_storable_def by (rule rt_intros | simp)+

lemma strict_policy: "strict read_policy"
  unfolding read_policy_def by (intro strict_intros)

interpretation policy: codec write_policy read_policy policy_storable "\<lambda>x. x"
  by unfold_locales (simp_all add: rt_policy strict_policy)

lemma rt_resource_spec: "rspec_storable r \<Longrightarrow> rt (write_resource_spec r) read_resource_spec r"
  unfolding write_resource_spec_def read_resource_spec_def rspec_storable_def enum_ok_def by (rule rt_intros | simp)+

lemma strict_resource_spec: "strict read_resource_spec"
  unfolding read_resource_spec_def by (intro strict_intros)

interpretation rspec: codec write_resource_spec read_resource_spec rspec_storable "\<lambda>x. x"
  by unfold_locales (simp_all add: rt_resource_spec strict_resource_spec)

interpretation hop: codec write_hop read_hop "\<lambda>_. True" "\<lambda>x. x"
proof unfold_locales
  show "rt (write_hop h) read_hop h" for h unfolding write_hop_def read_hop_def by (rule rt_intros | simp)+
  show "strict read_hop" unfolding read_hop_def by (intro strict_intros)
qed

lemma rt_hops:
  "length hs \<le> 256 \<Longrightarrow> rt (emit (map write_hop hs)) (rd_repeat (unat (of_nat (length hs) :: u32)) read_hop) hs"
  using hop.list_round_trip [of hs] by (simp add: small_count list_all_iff)

lemma rt_path: "path_storable p \<Longrightarrow> rt (write_path p) read_path p"
  unfolding write_path_def read_path_def path_storable_def
  by (rule rt_hops rt_intros | simp add: small_count)+

lemma strict_path: "strict read_path"
  unfolding read_path_def by (intro strict_intros hop.strict_dec)

interpretation path: codec write_path read_path path_storable "\<lambda>x. x"
  by unfold_locales (simp_all add: rt_path strict_path)

lemma rt_flow_spec: "fspec_storable f \<Longrightarrow> rt (write_flow_spec f) read_flow_spec f"
  unfolding write_flow_spec_def read_flow_spec_def fspec_storable_def enum_ok_def by (rule rt_intros | simp)+

lemma strict_flow_spec: "strict read_flow_spec"
  unfolding read_flow_spec_def by (intro strict_intros)

interpretation fspec: codec write_flow_spec read_flow_spec fspec_storable "\<lambda>x. x"
  by unfold_locales (simp_all add: rt_flow_spec strict_flow_spec)

lemma rt_optional:
  "rt (case r of None \<Rightarrow> Inr [] | Some i \<Rightarrow> sink_id i)
      (if r \<noteq> None then rd_bind src_id (\<lambda>i. rd_return (Some i)) else rd_return None) r"
  using rt_id [of "the r"] by (cases r) (auto simp: rt_def rd_bind_def rd_return_def)

lemma rt_flow_snapshot: "flow_storable f \<Longrightarrow> rt (write_flow_snapshot f) read_flow_snapshot (flow_stored f)"
  unfolding write_flow_snapshot_def read_flow_snapshot_def flow_storable_def enum_ok_def flow_stored_def
  by (rule rt_optional rt_flow_spec rt_intros | simp)+

lemma strict_flow_snapshot: "strict read_flow_snapshot"
  unfolding read_flow_snapshot_def by (intro strict_intros strict_flow_spec)

interpretation flow: codec write_flow_snapshot read_flow_snapshot flow_storable flow_stored
  by unfold_locales (simp_all add: rt_flow_snapshot strict_flow_snapshot)

interpretation alloc: codec write_resource_allocation read_resource_allocation alloc_storable "\<lambda>x. x"
proof unfold_locales
  show "alloc_storable a \<Longrightarrow> rt (write_resource_allocation a) read_resource_allocation a" for a
    unfolding write_resource_allocation_def read_resource_allocation_def alloc_storable_def by (rule rt_intros | simp)+
  show "strict read_resource_allocation" unfolding read_resource_allocation_def by (intro strict_intros)
qed

lemma rt_allocations:
  "length as \<le> 256 \<Longrightarrow> list_all alloc_storable as \<Longrightarrow>
     rt (emit (map write_resource_allocation as)) (rd_repeat (unat (of_nat (length as) :: u32)) read_resource_allocation) as"
  using alloc.list_round_trip [of as] by (simp add: small_count)

lemma rt_reservation: "resv_storable r \<Longrightarrow> rt (write_reservation r) read_reservation r"
  unfolding write_reservation_def read_reservation_def resv_storable_def enum_ok_def
  by (rule rt_allocations rt_intros | simp add: small_count)+

lemma strict_reservation: "strict read_reservation"
  unfolding read_reservation_def by (intro strict_intros alloc.strict_dec)

interpretation resv: codec write_reservation read_reservation resv_storable "\<lambda>x. x"
  by unfold_locales (simp_all add: rt_reservation strict_reservation)

interpretation tenant: codec write_tenant_acc read_tenant_acc tenant_storable "\<lambda>x. x"
proof unfold_locales
  show "tenant_storable t \<Longrightarrow> rt (write_tenant_acc t) read_tenant_acc t" for t
    unfolding write_tenant_acc_def read_tenant_acc_def tenant_storable_def by (rule rt_intros | simp)+
  show "strict read_tenant_acc" unfolding read_tenant_acc_def by (intro strict_intros)
qed

interpretation workload: codec write_workload_acc read_workload_acc workload_storable "\<lambda>x. x"
proof unfold_locales
  show "workload_storable w \<Longrightarrow> rt (write_workload_acc w) read_workload_acc w" for w
    unfolding write_workload_acc_def read_workload_acc_def workload_storable_def by (rule rt_intros | simp)+
  show "strict read_workload_acc" unfolding read_workload_acc_def by (intro strict_intros)
qed

lemma rt_resource_snapshot: "rsnap_storable r \<Longrightarrow> rt (write_resource_snapshot r) read_resource_snapshot r"
  unfolding write_resource_snapshot_def read_resource_snapshot_def rsnap_storable_def enum_ok_def
  by (rule rt_intros | simp)+

lemma strict_resource_snapshot: "strict read_resource_snapshot"
  unfolding read_resource_snapshot_def by (intro strict_intros)

interpretation rsnap: codec write_resource_snapshot read_resource_snapshot rsnap_storable "\<lambda>x. x"
  by unfold_locales (simp_all add: rt_resource_snapshot strict_resource_snapshot)

end
