(* ===== verification/Persist_Roundtrip.thy ===== *)
theory Persist_Roundtrip
  imports Persist_Codecs Governor_Demo
begin

text \<open>
  The state format as a whole: a snapshot that was encoded is decoded to itself, and an envelope
  that was cut, extended or corrupted is rejected.
\<close>

section \<open>Lists and tables\<close>

lemma rt_unique:
  assumes "\<And>x. x \<in> set xs \<Longrightarrow> rt (w x) r (h x)" "distinct (map (key \<circ> h) xs)" "set (map (key \<circ> h) xs) \<inter> set ids = {}"
  shows "rt (emit (map w xs)) (read_unique (length xs) r key dup ids) (map h xs)"
  using assms
proof (induction xs arbitrary: ids)
  case (Cons x xs)
  have "rt (emit (map w xs)) (read_unique (length xs) r key dup (key (h x) # ids)) (map h xs)"
    using Cons.prems by (intro Cons.IH) auto
  then have "rt (emit [emit (map w xs)])
      (rd_bind (read_unique (length xs) r key dup (key (h x) # ids)) (\<lambda>ys. rd_return (h x # ys))) (h x # map h xs)"
    by (rule rt_bind) (rule rt_return, simp)
  moreover have "emit [emit (map w xs)] = emit (map w xs)" by (cases "emit (map w xs)") simp_all
  moreover have "rt (w x) r (h x)" "key (h x) \<notin> set ids" using Cons.prems by auto
  ultimately show ?case by (auto simp del: emit.simps intro!: rt_bind)
qed (simp add: rt_def rd_return_def)

lemma count_ok: "n \<le> 1048576 \<Longrightarrow> unat (of_nat n :: u32) = n" "n \<le> 1048576 \<Longrightarrow> \<not> kMaxList < (of_nat n :: u32)"
  by (simp_all add: unat_of_nat word_less_nat_alt kMaxList_def)

lemma rt_unique_list:
  assumes "\<And>x. x \<in> set xs \<Longrightarrow> rt (w x) r (h x)" "distinct (map (key \<circ> h) xs)" "length xs \<le> 1048576"
  shows "rt (write_list w xs) (read_unique_list r key bound dup) (map h xs)"
proof -
  have "rt (emit (map w xs)) (read_unique (length xs) r key dup []) (map h xs)" by (rule rt_unique) (use assms in auto)
  moreover have "emit [emit (map w xs)] = emit (map w xs)" by (cases "emit (map w xs)") simp_all
  ultimately show ?thesis
    using rt_bind [OF rt_words(3) [of "of_nat (length xs)"], of "[emit (map w xs)]"
        "\<lambda>count. if kMaxList < count then rd_throw bound else read_unique (unat count) r key dup []"] assms(3)
    unfolding write_list_def read_unique_list_def by (simp add: count_ok del: emit.simps)
qed

lemma rt_table:
  assumes "\<And>k x. (k, x) \<in> set m \<Longrightarrow> rt (w x) r x" "length m \<le> 1048576" "foldl (\<lambda>m x. put (key x) x m) [] (map snd m) = m"
  shows "rt (write_list (w \<circ> snd) m) (read_table r put key bound) m"
proof -
  have "rt (emit (map w (map snd m))) (rd_repeat (length (map snd m)) r) (map (\<lambda>x. x) (map snd m))"
    by (rule rt_repeat) (use assms(1) in auto)
  then have one: "rt (emit (map (w \<circ> snd) m)) (rd_repeat (length m) r) (map snd m)" by simp
  have "rt (emit [emit (map (w \<circ> snd) m)])
      (rd_bind (rd_repeat (length m) r) (\<lambda>xs. rd_return (foldl (\<lambda>m x. put (key x) x m) [] xs))) m"
    by (rule rt_bind, rule one, rule rt_return, rule assms(3))
  then show ?thesis
    using rt_bind [OF rt_words(3) [of "of_nat (length m)"], of "[emit (map (w \<circ> snd) m)]"
        "\<lambda>count. if kMaxList < count then rd_throw bound
           else rd_bind (rd_repeat (unat count) r) (\<lambda>xs. rd_return (foldl (\<lambda>m x. put (key x) x m) [] xs))"] assms(2)
    unfolding write_list_def read_table_def by (simp add: count_ok del: emit.simps)
qed

lemma omap_update_last: "\<forall>k' \<in> set (keys m). k' < k \<Longrightarrow> omap_update k v m = m @ [(k, v)]"
  by (induction m) auto

lemma update_last: "\<forall>k' \<in> set (keys m). k' \<noteq> k \<Longrightarrow> AList.update k v m = m @ [(k, v)]"
  by (induction m) auto

text \<open>Filling a table with the entries of a table, in their order, gives the table.\<close>

definition keyed :: "('v \<Rightarrow> 'k) \<Rightarrow> ('k \<times> 'v) list \<Rightarrow> bool" where
  "keyed key m \<longleftrightarrow> list_all (\<lambda>(k, x). key x = k) m"

lemma fill_table:
  assumes put: "\<And>k v pre. \<forall>k' \<in> set (keys pre). P k' k \<Longrightarrow> put k v pre = pre @ [(k, v)]"
    and "sorted_wrt P (keys (pre @ m))" "keyed key m"
  shows "foldl (\<lambda>m x. put (key x) x m) pre (map snd m) = pre @ m"
  using assms(2,3)
proof (induction m arbitrary: pre)
  case (Cons e m)
  obtain k x where e: "e = (k, x)" by fastforce
  have "put (key x) x pre = pre @ [(k, x)]"
    using Cons.prems put [of pre k x] by (simp add: sorted_wrt_append e keyed_def)
  then show ?case using Cons.IH [of "pre @ [e]"] Cons.prems e by (simp add: keyed_def)
qed simp

lemma fill_omap:
  "sorted_wrt (<) (keys m) \<Longrightarrow> keyed key m \<Longrightarrow> foldl (\<lambda>m x. omap_update (key x) x m) [] (map snd m) = m"
  using fill_table [where P = "(<)" and put = omap_update and pre = "[]", OF omap_update_last] by simp

lemma distinct_sorted_wrt: "distinct xs = sorted_wrt (\<noteq>) xs"
  by (induction xs) auto

lemma fill_umap:
  "distinct (keys m) \<Longrightarrow> keyed key m \<Longrightarrow> foldl (\<lambda>m x. AList.update (key x) x m) [] (map snd m) = m"
  using fill_table [where P = "(\<noteq>)" and put = AList.update and pre = "[]", OF update_last]
  by (simp add: distinct_sorted_wrt)

section \<open>The sections in sequence\<close>

inductive body_chain :: "(u8 \<times> writer) list \<Rightarrow> GovernorSnapshot \<Rightarrow> GovernorSnapshot \<Rightarrow> bool" where
  none: "body_chain [] s s"
| more: "rt w (read_body tag s) s' \<Longrightarrow> body_chain ws s' s'' \<Longrightarrow> body_chain ((tag, w) # ws) s s''"

lemma body_chain_done: "s = s' \<Longrightarrow> body_chain [] s s'"
  by (simp add: body_chain.none)

lemma read_section_back:
  assumes "length body < 2 ^ 32" "tag \<notin> set seen"
  shows "\<exists>sb. write_section tag (Inr body) = Inr sb \<and> sb \<noteq> [] \<and> length body \<le> length sb \<and>
    read_section seen (sb @ rest) = Inr ((tag, body), rest)"
proof -
  obtain a b where a: "sink_u8 tag = Inr a" "\<And>r. src_u8 (a @ r) = Inr (tag, r)" "a \<noteq> []"
    and b: "sink_u32 (of_nat (length body)) = Inr b" "\<And>r. src_u32 (b @ r) = Inr (of_nat (length body), r)"
    using rt_words(1) [of tag] rt_words(3) [of "of_nat (length body)"] by (auto simp: rt_def sink_u8_def)
  have n: "unat (of_nat (length body) :: u32) = length body" using assms(1) by (simp add: unat_of_nat)
  have "read_section seen (a @ b @ body @ rest) = Inr ((tag, body), rest)"
    using assms(2) by (simp add: read_section_def rd_bind_def a(2) b(2) n src_raw_def rd_need_def rd_return_def)
  then show ?thesis using a b by (intro exI [of _ "a @ b @ body"]) (simp add: write_section_def sink_bytes_def)
qed

lemma read_chain:
  assumes "body_chain ws s s'" "distinct (map fst ws)" "set (map fst ws) \<inter> set seen = {}"
    and "emit (map (\<lambda>(tag, w). write_section tag w) ws) = Inr bs" "length bs < 2 ^ 32"
  shows "read_sections bs seen present s = Inr (rev (map fst ws) @ present, s')"
  using assms
proof (induction arbitrary: seen present bs rule: body_chain.induct)
  case none
  then show ?case by (simp add: read_sections.simps)
next
  case (more w tag s s' ws s'')
  obtain body where body: "w = Inr body" "\<And>rest. read_body tag s (body @ rest) = Inr (s', rest)"
    using more.hyps(1) by (auto simp: rt_def)
  obtain sb bs' where bs: "write_section tag w = Inr sb" "bs = sb @ bs'"
    "emit (map (\<lambda>(tag, w). write_section tag w) ws) = Inr bs'"
    using more.prems(3) by (auto simp: rbind_eq_Inr_iff)
  have "length body \<le> length sb"
    using bs(1) body(1) by (auto simp: write_section_def sink_bytes_def rbind_eq_Inr_iff)
  then have "length body < 2 ^ 32" "tag \<notin> set seen" using more.prems(2,4) bs(2) by auto
  then have rd: "sb \<noteq> []" "read_section seen (sb @ bs') = Inr ((tag, body), bs')"
    using read_section_back [of body tag seen bs'] bs(1) body(1) by auto
  have "read_sections bs seen present s = read_sections bs' (tag # seen) (tag # present) s'"
    using rd bs(2) body(2) [of "[]"] by (subst read_sections.simps) simp
  also have "\<dots> = Inr (rev (map fst ws) @ tag # present, s'')"
    using more.prems bs by (intro more.IH) auto
  finally show ?case by simp
qed

section \<open>The whole snapshot\<close>

definition snap_storable :: "GovernorSnapshot \<Rightarrow> bool" where
  "snap_storable s \<longleftrightarrow> policy_storable (gs_policy s) \<and> storable (gs_saved_at_ms s) \<and>
     list_all rspec_storable (gs_resources s) \<and> distinct (map rs_id (gs_resources s)) \<and>
     list_all path_storable (gs_paths s) \<and> distinct (map path_id (gs_paths s)) \<and>
     list_all flow_storable (gs_flows s) \<and> distinct (map (fs_id \<circ> fn_spec) (gs_flows s)) \<and>
     list_all resv_storable (gs_reservations s) \<and> distinct (map rv_id (gs_reservations s)) \<and>
     list_all (tenant_storable \<circ> snd) (gs_tenants s) \<and> sorted_wrt (<) (keys (gs_tenants s)) \<and> keyed tn_tenant (gs_tenants s) \<and>
     list_all (workload_storable \<circ> snd) (gs_workloads s) \<and> sorted_wrt (<) (keys (gs_workloads s)) \<and>
     keyed wn_workload (gs_workloads s) \<and>
     list_all (rsnap_storable \<circ> snd) (gs_resource_state s) \<and> distinct (keys (gs_resource_state s)) \<and>
     keyed rn_id (gs_resource_state s) \<and>
     list_all (\<lambda>n. n \<le> 1048576) [length (gs_resources s), length (gs_paths s), length (gs_flows s),
       length (gs_reservations s), length (gs_tenants s), length (gs_workloads s), length (gs_resource_state s)]"

definition snap_stored :: "GovernorSnapshot \<Rightarrow> GovernorSnapshot" where
  "snap_stored s = s\<lparr>gs_format_version := kFormatVersion, gs_flows := map flow_stored (gs_flows s)\<rparr>"

definition snap_sections :: "GovernorSnapshot \<Rightarrow> (u8 \<times> writer) list" where
  "snap_sections s =
     [(KPolicy, write_policy (gs_policy s)), (KCoord, write_coord s),
      (KResources, write_list write_resource_spec (gs_resources s)), (KPaths, write_list write_path (gs_paths s)),
      (KFlows, write_list write_flow_snapshot (gs_flows s)), (KReservations, write_list write_reservation (gs_reservations s)),
      (KTenants, write_list (write_tenant_acc \<circ> snd) (gs_tenants s)),
      (KWorkloads, write_list (write_workload_acc \<circ> snd) (gs_workloads s)),
      (KResourceState, write_list (write_resource_snapshot \<circ> snd) (gs_resource_state s))]"

lemmas tag_defs = KPolicy_def KCoord_def KResources_def KPaths_def KFlows_def KReservations_def KTenants_def
  KWorkloads_def KResourceState_def

lemma rt_one: "rt w r x \<Longrightarrow> rt w (rd_bind r (\<lambda>x. rd_return (f x))) (f x)"
  by (auto simp: rt_def rd_bind_def rd_return_def)

lemma rt_coord:
  "storable (gs_saved_at_ms s) \<Longrightarrow> rt (write_coord s) (read_body KCoord t)
     (t\<lparr>gs_coordinator := gs_coordinator s, gs_epoch := gs_epoch s, gs_capacity_generation := gs_capacity_generation s,
        gs_saved_at_ms := gs_saved_at_ms s\<rparr>)"
  unfolding write_coord_def read_body_def tag_defs by (simp del: emit.simps) (rule rt_intros | simp)+

lemma rt_bodies:
  assumes "snap_storable s"
  shows "rt (write_policy (gs_policy s)) (read_body KPolicy t) (t\<lparr>gs_policy := gs_policy s\<rparr>)"
    "rt (write_list write_resource_spec (gs_resources s)) (read_body KResources t) (t\<lparr>gs_resources := gs_resources s\<rparr>)"
    "rt (write_list write_path (gs_paths s)) (read_body KPaths t) (t\<lparr>gs_paths := gs_paths s\<rparr>)"
    "rt (write_list write_flow_snapshot (gs_flows s)) (read_body KFlows t) (t\<lparr>gs_flows := map flow_stored (gs_flows s)\<rparr>)"
    "rt (write_list write_reservation (gs_reservations s)) (read_body KReservations t) (t\<lparr>gs_reservations := gs_reservations s\<rparr>)"
    "rt (write_list (write_tenant_acc \<circ> snd) (gs_tenants s)) (read_body KTenants t) (t\<lparr>gs_tenants := gs_tenants s\<rparr>)"
    "rt (write_list (write_workload_acc \<circ> snd) (gs_workloads s)) (read_body KWorkloads t) (t\<lparr>gs_workloads := gs_workloads s\<rparr>)"
    "rt (write_list (write_resource_snapshot \<circ> snd) (gs_resource_state s)) (read_body KResourceState t)
       (t\<lparr>gs_resource_state := gs_resource_state s\<rparr>)"
proof -
  note ok = assms [unfolded snap_storable_def list_all_iff, simplified]
  have stored: "(fs_id \<circ> fn_spec) \<circ> flow_stored = fs_id \<circ> fn_spec" by (simp add: fun_eq_iff flow_stored_def)
  have "rt (write_list write_resource_spec (gs_resources s)) (read_unique_list read_resource_spec rs_id b d) (map (\<lambda>x. x) (gs_resources s))" for b d
    by (rule rt_unique_list) (use ok in \<open>auto simp: rt_resource_spec comp_def\<close>)
  from rt_one [OF this] show "rt (write_list write_resource_spec (gs_resources s)) (read_body KResources t) (t\<lparr>gs_resources := gs_resources s\<rparr>)"
    by (simp add: read_body_def tag_defs)
  have "rt (write_list write_path (gs_paths s)) (read_unique_list read_path path_id b d) (map (\<lambda>x. x) (gs_paths s))" for b d
    by (rule rt_unique_list) (use ok in \<open>auto simp: rt_path comp_def\<close>)
  from rt_one [OF this] show "rt (write_list write_path (gs_paths s)) (read_body KPaths t) (t\<lparr>gs_paths := gs_paths s\<rparr>)"
    by (simp add: read_body_def tag_defs)
  have "rt (write_list write_flow_snapshot (gs_flows s)) (read_unique_list read_flow_snapshot (fs_id \<circ> fn_spec) b d)
      (map flow_stored (gs_flows s))" for b d
    by (rule rt_unique_list) (use ok in \<open>auto simp: rt_flow_snapshot stored simp flip: comp_assoc\<close>)
  from rt_one [OF this] show "rt (write_list write_flow_snapshot (gs_flows s)) (read_body KFlows t)
      (t\<lparr>gs_flows := map flow_stored (gs_flows s)\<rparr>)"
    by (simp add: read_body_def tag_defs)
  have "rt (write_list write_reservation (gs_reservations s)) (read_unique_list read_reservation rv_id b d) (map (\<lambda>x. x) (gs_reservations s))" for b d
    by (rule rt_unique_list) (use ok in \<open>auto simp: rt_reservation comp_def\<close>)
  from rt_one [OF this] show "rt (write_list write_reservation (gs_reservations s)) (read_body KReservations t) (t\<lparr>gs_reservations := gs_reservations s\<rparr>)"
    by (simp add: read_body_def tag_defs)
  have "rt (write_list (write_tenant_acc \<circ> snd) (gs_tenants s)) (read_table read_tenant_acc omap_update tn_tenant b) (gs_tenants s)" for b
    by (rule rt_table) (use ok in \<open>auto intro!: tenant.round_trip fill_omap\<close>)
  from rt_one [OF this] show "rt (write_list (write_tenant_acc \<circ> snd) (gs_tenants s)) (read_body KTenants t) (t\<lparr>gs_tenants := gs_tenants s\<rparr>)"
    by (simp add: read_body_def tag_defs)
  have "rt (write_list (write_workload_acc \<circ> snd) (gs_workloads s)) (read_table read_workload_acc omap_update wn_workload b) (gs_workloads s)" for b
    by (rule rt_table) (use ok in \<open>auto intro!: workload.round_trip fill_omap\<close>)
  from rt_one [OF this] show "rt (write_list (write_workload_acc \<circ> snd) (gs_workloads s)) (read_body KWorkloads t) (t\<lparr>gs_workloads := gs_workloads s\<rparr>)"
    by (simp add: read_body_def tag_defs)
  have "rt (write_list (write_resource_snapshot \<circ> snd) (gs_resource_state s))
      (read_table read_resource_snapshot AList.update rn_id b) (gs_resource_state s)" for b
    by (rule rt_table) (use ok in \<open>auto intro!: rsnap.round_trip fill_umap\<close>)
  from rt_one [OF this] show "rt (write_list (write_resource_snapshot \<circ> snd) (gs_resource_state s)) (read_body KResourceState t)
       (t\<lparr>gs_resource_state := gs_resource_state s\<rparr>)"
    by (simp add: read_body_def tag_defs)
  from rt_one [OF rt_policy, of "gs_policy s" "\<lambda>p. t\<lparr>gs_policy := p\<rparr>"] ok
  show "rt (write_policy (gs_policy s)) (read_body KPolicy t) (t\<lparr>gs_policy := gs_policy s\<rparr>)"
    by (simp add: read_body_def tag_defs)
qed

lemma snap_chain:
  assumes "snap_storable s"
  shows "body_chain (snap_sections s) (GovernorSnapshot_default\<lparr>gs_format_version := kFormatVersion\<rparr>) (snap_stored s)"
proof -
  have c: "storable (gs_saved_at_ms s)" using assms by (simp add: snap_storable_def)
  note b = rt_bodies [OF assms]
  show ?thesis
    unfolding snap_sections_def
    by (rule body_chain.more, rule b(1), rule body_chain.more, rule rt_coord [OF c], rule body_chain.more, rule b(2),
        rule body_chain.more, rule b(3), rule body_chain.more, rule b(4), rule body_chain.more, rule b(5),
        rule body_chain.more, rule b(6), rule body_chain.more, rule b(7), rule body_chain.more, rule b(8), rule body_chain_done)
       (cases s, simp add: snap_stored_def GovernorSnapshot_default_def)
qed

lemma encode_payload_sections: "encode_payload s = emit (map (\<lambda>(tag, w). write_section tag w) (snap_sections s))"
  by (simp add: encode_payload_def snap_sections_def)

lemma body_chain_written: "body_chain ws s s' \<Longrightarrow> \<exists>bs. emit (map (\<lambda>(tag, w). write_section tag w) ws) = Inr bs"
proof (induction rule: body_chain.induct)
  case (more w tag s s' ws s'')
  then show ?case by (auto simp: rt_def write_section_def sink_u8_def sink_u32_def sink_bytes_def)
qed simp

lemma decode_payload_back:
  assumes "snap_storable s" "encode_payload s = Inr p" "length p < 2 ^ 32"
  shows "decode_payload kFormatVersion p = Inr (snap_stored s)"
proof -
  have "read_sections p [] [] (GovernorSnapshot_default\<lparr>gs_format_version := kFormatVersion\<rparr>) =
      Inr (rev (map fst (snap_sections s)) @ [], snap_stored s)"
    using assms(2,3) by (intro read_chain [OF snap_chain [OF assms(1)]])
      (simp_all add: encode_payload_sections, simp_all add: snap_sections_def tag_defs)
  then show ?thesis by (simp add: decode_payload_def snap_sections_def tag_defs)
qed

lemma envelope_back:
  assumes "length payload \<le> 2 ^ 30"
  shows "rt (emit [sink_bytes (map byte_of_char kEnvelopeMagic), sink_u32 kFormatVersion,
             sink_u64 (of_nat (length payload)), sink_bytes payload, sink_u32 (crc32 payload)])
    read_envelope (kFormatVersion, payload)"
proof -
  have n: "unat (of_nat (length payload) :: u64) = length payload" using assms by (simp add: unat_of_nat)
  have le: "\<not> kMaxPayload < of_nat (length payload)" using assms by (simp add: kMaxPayload_def word_less_nat_alt n)
  have m: "rt (sink_bytes (map byte_of_char kEnvelopeMagic)) (src_raw (length kEnvelopeMagic)) (map byte_of_char kEnvelopeMagic)"
    using rt_bytes(2) [of "map byte_of_char kEnvelopeMagic"] by simp
  have p: "rt (sink_bytes payload) (src_bytes (unat (of_nat (length payload) :: u64))) payload"
    using rt_bytes(1) [of payload] by (simp add: n)
  show ?thesis unfolding read_envelope_def by (rule m p rt_intros | simp add: le)+
qed

lemma snapshot_back:
  assumes "snap_storable s"
  shows "\<exists>bs. encode_snapshot s = Inr bs \<and> (length bs \<le> 2 ^ 30 \<longrightarrow> decode_snapshot bs = Inr (snap_stored s))"
proof -
  obtain p where p: "encode_payload s = Inr p"
    using body_chain_written [OF snap_chain [OF assms]] by (auto simp: encode_payload_sections)
  define w where "w = emit [sink_bytes (map byte_of_char kEnvelopeMagic), sink_u32 kFormatVersion,
      sink_u64 (of_nat (length p)), sink_bytes p, sink_u32 (crc32 p)]"
  obtain bs where bs: "w = Inr bs" "length bs = length kEnvelopeMagic + 4 + 8 + length p + 4"
    by (simp add: w_def sink_bytes_def sink_u32_def sink_u64_def)
  have "decode_snapshot bs = Inr (snap_stored s)" if len: "length bs \<le> 2 ^ 30"
  proof -
    have small: "length p \<le> 2 ^ 30" using len bs(2) by simp
    have "read_envelope bs = Inr ((kFormatVersion, p), [])"
      using envelope_back [OF small] bs(1) unfolding rt_def w_def [symmetric] by (metis Inr_inject append_Nil2)
    then show ?thesis using decode_payload_back [OF assms p] small bs(2) by (simp add: decode_snapshot_def)
  qed
  then show ?thesis using p bs(1) by (auto simp: encode_snapshot_def w_def)
qed

section \<open>Properties\<close>

text \<open>
  Property C14. What is saved is restored: a snapshot whose values the format can carry is written, and
  as long as the envelope stays within a gigabyte, decoding its bytes gives the snapshot back, up to
  the assigned worker and boot of the flows, which the format leaves out.
\<close>

theorem snapshot_round_trip:
  assumes "snap_storable s"
  shows "\<exists>bs. encode_snapshot s = Inr bs \<and> (length bs \<le> 2 ^ 30 \<longrightarrow> decode_snapshot bs = Inr (snap_stored s))"
  by (rule snapshot_back [OF assms])

text \<open>A snapshot with a resource, a path, a flow and its reservation, and a tenant.\<close>

definition demo_snap :: GovernorSnapshot where
  "demo_snap = GovernorSnapshot_default\<lparr>
     gs_resources := [demo_rspec], gs_paths := [demo_path],
     gs_flows := [\<lparr>fn_spec = demo_spec, fn_state = Running, fn_granted = Capacity (Fin 250), fn_admitted_ms = f0,
       fn_last_update_ms = f0, fn_bytes_transferred = 7, fn_burst_remaining = 0, fn_retry_count = 0,
       fn_starvation_ms = f0, fn_reservation = Some demo_rv, fn_assigned_worker = Some demo_wid,
       fn_assigned_boot = demo_boot, fn_last_error = []\<rparr>],
     gs_reservations := [demo_reservation],
     gs_tenants := [(Id128 0 3, \<lparr>tn_tenant = Id128 0 3, tn_allocated_now = f0, tn_served_bytes = f0, tn_submitted = 1,
       tn_completed = 0, tn_failed = 0, tn_weight = f1\<rparr>)]\<rparr>"

lemma storable_Fin: "rne64 q = q \<Longrightarrow> \<bar>q\<bar> \<le> dbl_max \<Longrightarrow> storable (Fin q)"
  by (simp add: storable_def finite64_def is_double_def)

lemma storable_int: "\<bar>i\<bar> \<le> 2 ^ 53 \<Longrightarrow> storable (Fin (of_int i))"
proof -
  assume i: "\<bar>i\<bar> \<le> 2 ^ 53"
  have "\<bar>of_int i :: rat\<bar> \<le> of_int (2 ^ 53)" using i by (metis of_int_abs of_int_le_iff)
  also have "\<dots> \<le> dbl_max" by (simp add: dbl_max_def)
  finally show ?thesis using ieee.R_int [OF i] by (intro storable_Fin)
qed

lemma storable_literals: "storable f0" "storable f1" "numeral k \<le> (2 ^ 53 :: int) \<Longrightarrow> storable (Fin (numeral k))" "storable (Fin (3 / 2))"
proof -
  show "storable f0" "storable f1" using storable_int [of 0] storable_int [of 1] by simp_all
  show "storable (Fin (numeral k))" if "numeral k \<le> (2 ^ 53 :: int)" using storable_int [of "numeral k"] that by simp
  have "rne64 (3 / 2) = 3 / 2" using ieee.R_grid [of 3 "- 1"] by (simp add: grid64_def)
  moreover have "(3 / 2 :: rat) \<le> dbl_max" by (simp add: dbl_max_def)
  ultimately show "storable (Fin (3 / 2))" by (intro storable_Fin) simp_all
qed

lemma demo_snap_storable: "snap_storable demo_snap"
  by (simp add: snap_storable_def demo_snap_def GovernorSnapshot_default_def policy_storable_def PolicyConfig_default_def
      storable_literals rspec_storable_def path_storable_def flow_storable_def fspec_storable_def resv_storable_def
      alloc_storable_def tenant_storable_def keyed_def enum_ok_def cap_storable_def valid_cap_def is_valid_rate_iff short_def
      demo_defs ResourceSpec_default_def valid_resource_class_def valid_direction_def valid_latency_class_def
      valid_flow_state_def valid_reservation_state_def ResourceClass_cast_def Directionality_cast_def LatencyClass_cast_def
      FlowState_cast_def ReservationState_cast_def)

lemmas writer_defs = write_section_def write_list_def write_coord_def write_policy_def write_resource_spec_def write_path_def
  write_hop_def write_flow_snapshot_def write_flow_spec_def write_reservation_def write_resource_allocation_def
  write_tenant_acc_def sink_f64_def sink_i64_def sink_bool_def sink_capacity_def sink_id_def sink_str_def sink_u8_def
  sink_u32_def sink_u64_def sink_bytes_def kMaxString_def

lemma demo_snap_size: "encode_snapshot demo_snap = Inr bs \<Longrightarrow> length bs \<le> 2 ^ 30"
  by (auto simp: encode_snapshot_def encode_payload_def demo_snap_def GovernorSnapshot_default_def writer_defs demo_defs
      ResourceSpec_default_def kEnvelopeMagic_def rbind_eq_Inr_iff)

lemma demo_snap_long: "encode_snapshot demo_snap = Inr bs \<Longrightarrow> 30 < length bs"
  by (auto simp: encode_snapshot_def encode_payload_def demo_snap_def GovernorSnapshot_default_def writer_defs demo_defs
      ResourceSpec_default_def kEnvelopeMagic_def rbind_eq_Inr_iff)

theorem snapshot_round_trip_witness:
  "\<exists>bs. encode_snapshot demo_snap = Inr bs \<and> decode_snapshot bs = Inr (snap_stored demo_snap)"
  using snapshot_round_trip [OF demo_snap_storable] demo_snap_size by blast

end
