(* ===== verification/Integrity.thy ===== *)
theory Integrity
  imports Crc
begin

text \<open>
  What the state files and the wire frames share: strict readers reject every proper prefix of what
  they accept, a word is determined by its bytes, and data followed by its own checksum leaves a
  fixed value in the checksum register.
\<close>

section \<open>Strict readers\<close>

lemma strict_error: "strict r \<Longrightarrow> r bs = Inl e \<Longrightarrow> \<exists>msg. e = value_error msg"
  unfolding strict_def by blast

lemma strict_prefix:
  assumes "strict r" "r bs = Inr (x, [])"
  shows "k < length bs \<Longrightarrow> \<exists>msg. r (take k bs) = Inl (value_error msg)" "r (bs @ z) = Inr (x, z)"
proof -
  show ext: "r (bs @ z) = Inr (x, z)" using assms unfolding strict_def by (metis append_Nil2)
  show "\<exists>msg. r (take k bs) = Inl (value_error msg)" if k: "k < length bs"
  proof (cases "r (take k bs)")
    case (Inl e)
    then show ?thesis using strict_error [OF assms(1)] by blast
  next
    case (Inr y)
    obtain v l where y: "y = (v, l)" by fastforce
    obtain p where p: "take k bs = p @ l" "\<And>rest. r (p @ rest) = Inr (v, rest)"
      using assms(1) Inr y unfolding strict_def by metis
    have "bs = p @ (l @ drop k bs)" using p(1) append_take_drop_id [of k bs] by (metis append_assoc)
    then have "r bs = Inr (v, l @ drop k bs)" using p(2) by metis
    then show ?thesis using assms(2) k by simp
  qed
qed

section \<open>Words and their bytes\<close>

abbreviation word_of :: "nat \<Rightarrow> bytes \<Rightarrow> 'a::len word" where
  "word_of m p \<equiv> foldl (\<lambda>v i. v OR push_bit (8 * i) (ucast (p ! i))) 0 [0..<m]"

lemma bit_foldl_or:
  "bit (foldl (\<lambda>v i. v OR push_bit (8 * i) (ucast (p ! i))) (a :: 'a::len word) is) n \<longleftrightarrow>
     bit a n \<or> (\<exists>i \<in> set is. bit (push_bit (8 * i) (ucast ((p :: bytes) ! i)) :: 'a word) n)"
  by (induction "is" arbitrary: a) (auto simp: bit_or_iff)

lemma bit_word_of:
  assumes "8 * m \<le> LENGTH('a)" "k < m" "j < 8"
  shows "bit (word_of m p :: 'a::len word) (8 * k + j) = bit (p ! k) j"
proof -
  have "bit (push_bit (8 * i) (ucast (p ! i)) :: 'a word) (8 * k + j) \<longleftrightarrow> i = k \<and> bit (p ! k) j" for i
  proof -
    have "i = k" if "8 * i \<le> 8 * k + j" "bit (p ! i) (8 * k + j - 8 * i)"
      using bit_imp_le_length [OF that(2)] that(1) assms(3) by simp
    moreover have "8 * k + j < LENGTH('a)" using assms by linarith
    ultimately show ?thesis using assms(3) by (auto simp: bit_push_bit_iff bit_ucast_iff)
  qed
  then show ?thesis using assms(2) by (auto simp: bit_foldl_or)
qed

lemma word_of_inj:
  assumes "(word_of m p :: 'a::len word) = word_of m q" "8 * m \<le> LENGTH('a)" "m \<le> length p" "m \<le> length q"
  shows "take m p = take m q"
proof (rule nth_equalityI)
  fix k assume "k < length (take m p)"
  then have k: "k < m" using assms(3) by simp
  have "bit (p ! k) j = bit (q ! k) j" if "j < 8" for j
    using bit_word_of [OF assms(2) k that, of p] bit_word_of [OF assms(2) k that, of q] assms(1) by simp
  then have "p ! k = q ! k" by (intro bit_word_eqI) simp
  then show "take m p ! k = take m q ! k" using k by simp
qed (use assms in simp)

lemma src_u32_word: "src_u32 p = Inr (v, r) \<longleftrightarrow> 4 \<le> length p \<and> v = word_of 4 p \<and> r = drop 4 p"
  by (auto simp: src_u32_def rd_bind_def rd_need_def upt_rec or.assoc numeral_2_eq_2 numeral_3_eq_3)

lemma src_u64_word: "src_u64 p = Inr (v, r) \<longleftrightarrow> 8 \<le> length p \<and> v = word_of 8 p \<and> r = drop 8 p"
  by (auto simp: src_u64_def rd_bind_def rd_need_def)

text \<open>The little-endian word of four bytes, as the checksum sees it.\<close>

lemma le_word_of: "length p = 4 \<Longrightarrow> le_word p = word_of 4 p"
proof (rule bit_word_eqI)
  fix n assume "length p = 4" "n < LENGTH(32)"
  then have nj: "n div 8 < 4" "n mod 8 < 8" by auto
  have le: "bit (le_word q) n \<longleftrightarrow> n div 8 < length q \<and> bit (q ! (n div 8)) (n mod 8)" if "length q \<le> 4" "n < 32" for q n
    using that
  proof (induction q arbitrary: n)
    case (Cons x q)
    show ?case
    proof (cases "n < 8")
      case True
      then show ?thesis by (simp add: bit_xor_iff bit_push_bit_iff bit_ucast_iff)
    next
      case False
      then have "n div 8 = Suc ((n - 8) div 8)" "n mod 8 = (n - 8) mod 8" by (simp_all add: le_div_geq le_mod_geq)
      moreover have "\<not> bit x n" using bit_imp_le_length [of x n] False by auto
      ultimately show ?thesis using Cons.IH [of "n - 8"] Cons.prems False
        by (auto simp: bit_xor_iff bit_push_bit_iff bit_ucast_iff)
    qed
  qed simp
  show "bit (le_word p) n = bit (word_of 4 p :: u32) n"
    using le [of p n] bit_word_of [of 4 "n div 8" "n mod 8" p, where 'a = 32] nj \<open>length p = 4\<close> \<open>n < LENGTH(32)\<close> by simp
qed

section \<open>Data followed by its checksum\<close>

lemma crc_residue:
  assumes "length q = 4" "le_word q = crc32 p"
  shows "foldl crc_byte Crc32_init (p @ q) = (crc_bits ^^ 4) (- 1)"
proof -
  let ?c = "foldl crc_byte Crc32_init p"
  have "?c XOR le_word q = - 1"
    using assms(2) by (simp add: crc32_def Crc32_value_def Crc32_update_def)
  then show ?thesis using foldl_crc_burst [of q ?c] assms(1) by simp
qed

end
