(* ===== verification/Persist_Corruption.thy ===== *)
theory Persist_Corruption
  imports Persist_Roundtrip Integrity
begin

text \<open>
  Recovery is strict: an envelope that was accepted is not accepted any more once it is cut, extended
  or corrupted in up to four neighbouring bytes, and a failed load leaves the governor alone.
\<close>

section \<open>Everything is thrown as a value error\<close>

lemma strict_unique: "strict r \<Longrightarrow> strict (read_unique n r key dup ids)"
  by (induction n arbitrary: ids) (auto intro!: strict_intros)

lemma strict_body: "strict (read_body tag s)"
  unfolding read_body_def read_unique_list_def read_table_def
  by (intro strict_intros strict_unique strict_policy strict_resource_spec strict_path strict_flow_snapshot
      strict_reservation tenant.strict_dec workload.strict_dec strict_resource_snapshot)

lemma strict_envelope: "strict read_envelope"
  unfolding read_envelope_def by (intro strict_intros)

lemma read_section_error:
  assumes "read_section seen bs = Inl e"
  shows "\<exists>msg. e = value_error msg"
proof -
  have "strict (rd_bind (src_raw n) (\<lambda>body. rd_return (tag, body)))" for n and tag :: u8 by (intro strict_intros)
  from strict_error [OF this] show ?thesis
    using assms strict_error [OF strict_words(1)] strict_error [OF strict_words(3)]
    by (auto simp: read_section_def rd_bind_def [of src_u8] rd_bind_def [of src_u32] split: sum.splits if_splits)
qed

lemma read_sections_error: "read_sections sec seen present s = Inl e \<Longrightarrow> \<exists>msg. e = value_error msg"
proof (induction sec seen present s rule: read_sections.induct)
  case (1 sec seen present s)
  show ?case
  proof (cases "read_section seen sec")
    case (Inl e')
    then show ?thesis using 1(2) read_section_error by (subst (asm) read_sections.simps) (auto split: if_splits)
  next
    case (Inr z)
    obtain tag body rest where z: "z = ((tag, body), rest)" by (metis surj_pair)
    show ?thesis
    proof (cases "read_body tag s body")
      case (Inl e')
      then show ?thesis using 1(2) Inr z strict_error [OF strict_body Inl]
        by (subst (asm) read_sections.simps) (auto split: if_splits)
    next
      case (Inr y)
      then show ?thesis using 1(1,2) \<open>read_section seen sec = Inr z\<close> z
        by (cases y) (subst (asm) (2) read_sections.simps, auto split: if_splits)
    qed
  qed
qed

lemma decode_error: "decode_snapshot bs = Inl e \<Longrightarrow> \<exists>msg. e = value_error msg"
  using strict_error [OF strict_envelope] read_sections_error
  by (auto simp: decode_snapshot_def decode_payload_def rbind_eq_Inl_iff split: if_splits)

section \<open>What an accepted envelope looks like\<close>

lemma envelope_accepted:
  assumes "read_envelope bs = Inr ((version, payload), [])"
  shows "24 \<le> length bs" "take 8 bs = map byte_of_char kEnvelopeMagic" "word_of 4 (drop 8 bs) = kFormatVersion"
    "length payload = length bs - 24" "word_of 8 (drop 12 bs) = (of_nat (length bs - 24) :: u64)"
    "foldl crc_byte Crc32_init (drop 20 bs) = (crc_bits ^^ 4) (- 1)"
proof -
  have m: "length kEnvelopeMagic = 8" by (simp add: kEnvelopeMagic_def)
  obtain n :: u64 and crc where
    1: "8 \<le> length bs" "take 8 bs = map byte_of_char kEnvelopeMagic"
    and 2: "4 \<le> length (drop 8 bs)" "word_of 4 (drop 8 bs) = kFormatVersion"
    and 3: "8 \<le> length (drop 12 bs)" "n = word_of 8 (drop 12 bs)"
    and 4: "unat n \<le> length (drop 20 bs)" "payload = take (unat n) (drop 20 bs)"
    and 5: "4 \<le> length (drop (unat n) (drop 20 bs))" "crc = word_of 4 (drop (unat n) (drop 20 bs))"
      "drop 4 (drop (unat n) (drop 20 bs)) = []" "crc = crc32 payload"
    using assms
    unfolding read_envelope_def m
    by (auto simp: rd_bind_eq_Inr src_u32_word src_u64_word rd_return_def rd_throw_def src_raw_def src_bytes_def
        rd_need_def rd_bind_def [of "rd_need _"] split: if_splits)
  show "24 \<le> length bs" "take 8 bs = map byte_of_char kEnvelopeMagic" "word_of 4 (drop 8 bs) = kFormatVersion"
    using 1 2 5(1) by simp_all
  have n: "unat n = length bs - 24" using 5(1,3) by simp
  show "length payload = length bs - 24" using 4 n by simp
  have "of_nat (unat n) = n" by simp
  then show "word_of 8 (drop 12 bs) = (of_nat (length bs - 24) :: u64)" using 3(2) n by metis
  let ?q = "drop (unat n) (drop 20 bs)"
  have q: "length ?q = 4" using 5(1,3) by simp
  have "le_word ?q = crc32 payload" using 5(2,4) le_word_of [OF q] by simp
  from crc_residue [OF q this] show "foldl crc_byte Crc32_init (drop 20 bs) = (crc_bits ^^ 4) (- 1)"
    using 4(2) by (metis append_take_drop_id)
qed

lemma accepted_head:
  assumes "read_envelope bs = Inr (x, [])" "read_envelope bs' = Inr (x', [])" "length bs = length bs'"
  shows "take 20 bs = take 20 bs'"
proof -
  obtain v p v' p' where x: "x = (v, p)" "x' = (v', p')" by fastforce
  note a = envelope_accepted [OF assms(1) [unfolded x]] envelope_accepted [OF assms(2) [unfolded x]]
  have "take 4 (drop 8 bs) = take 4 (drop 8 bs')"
    by (rule word_of_inj [where 'a = 32]) (use a in simp_all)
  moreover have "take 8 (drop 12 bs) = take 8 (drop 12 bs')"
    by (rule word_of_inj [where 'a = 64]) (use a assms(3) in simp_all)
  moreover have "take 20 l = take 8 l @ take 4 (drop 8 l) @ take 8 (drop 12 l)" for l :: bytes
    using take_add [of 8 12 l] take_add [of 4 8 "drop 8 l"] by (simp add: drop_drop)
  ultimately show ?thesis using a(2,8) by simp
qed

lemma burst_rejected:
  assumes "read_envelope (pre @ m @ post) = Inr (x, [])" "read_envelope (pre @ m' @ post) = Inr (x', [])"
    and "length m = length m'" "length m \<le> 4"
  shows "m = m'"
proof -
  let ?k = "20 - length pre"
  obtain v p v' p' where x: "x = (v, p)" "x' = (v', p')" by fastforce
  have "foldl crc_byte Crc32_init (drop 20 (pre @ m @ post)) = foldl crc_byte Crc32_init (drop 20 (pre @ m' @ post))"
    using envelope_accepted(6) [OF assms(1) [unfolded x]] envelope_accepted(6) [OF assms(2) [unfolded x]] by simp
  then have "drop ?k m = drop ?k m'"
    using crc_register_burst [of "drop ?k m" "drop ?k m'" Crc32_init "drop 20 pre"] assms(3,4) by simp
  moreover have "take 20 (pre @ m @ post) = take 20 (pre @ m' @ post)"
    by (rule accepted_head [OF assms(1,2)]) (use assms(3) in simp)
  then have "take ?k m = take ?k m'" using assms(3) by (simp add: append_eq_append_conv)
  ultimately show ?thesis by (metis append_take_drop_id)
qed

lemma decode_accepted:
  assumes "decode_snapshot bs = Inr s"
  shows "\<exists>x. read_envelope bs = Inr (x, [])" "24 \<le> length bs"
  using assms by (auto simp: decode_snapshot_def rbind_eq_Inr_iff kEnvelopeMagic_def split: if_splits)

lemma decode_rejects:
  "(\<exists>msg. read_envelope bs = Inl (value_error msg)) \<or> (\<exists>x z. read_envelope bs = Inr (x, z) \<and> z \<noteq> []) \<Longrightarrow>
     \<exists>msg. decode_snapshot bs = Inl (value_error msg)"
  by (auto simp: decode_snapshot_def)

section \<open>Properties\<close>

text \<open>
  Property C15. Recovery is strict: when an envelope is accepted, every proper prefix of it is
  rejected, every extension of it is rejected, and so is every envelope that differs from it in a
  burst of up to four neighbouring bytes, be it in the magic, the version, the length, the payload or
  the checksum.
\<close>

theorem corrupted_state_rejected:
  assumes "decode_snapshot bs = Inr s"
  shows "(k < length bs \<longrightarrow> (\<exists>msg. decode_snapshot (take k bs) = Inl (value_error msg))) \<and>
    (z \<noteq> [] \<longrightarrow> (\<exists>msg. decode_snapshot (bs @ z) = Inl (value_error msg))) \<and>
    (bs = pre @ m @ post \<longrightarrow> length m' = length m \<longrightarrow> length m \<le> 4 \<longrightarrow> m' \<noteq> m \<longrightarrow>
       (\<exists>msg. decode_snapshot (pre @ m' @ post) = Inl (value_error msg)))"
proof (intro conjI impI)
  obtain x where x: "read_envelope bs = Inr (x, [])" using decode_accepted(1) [OF assms] by blast
  show "\<exists>msg. decode_snapshot (take k bs) = Inl (value_error msg)" if "k < length bs"
    using strict_prefix(1) [OF strict_envelope x that] by (intro decode_rejects) blast
  show "\<exists>msg. decode_snapshot (bs @ z) = Inl (value_error msg)" if "z \<noteq> []"
    using strict_prefix(2) [OF strict_envelope x] that by (intro decode_rejects) blast
  assume *: "bs = pre @ m @ post" "length m' = length m" "length m \<le> 4" "m' \<noteq> m"
  show "\<exists>msg. decode_snapshot (pre @ m' @ post) = Inl (value_error msg)"
  proof (cases "read_envelope (pre @ m' @ post)")
    case (Inl e)
    then show ?thesis using strict_error [OF strict_envelope Inl] by (intro decode_rejects) blast
  next
    case (Inr y)
    have "snd y \<noteq> []" using burst_rejected [of pre m post x m' "fst y"] x Inr * by (metis prod.collapse)
    then show ?thesis using Inr by (intro decode_rejects) (metis prod.collapse)
  qed
qed

theorem corrupted_state_rejected_witness:
  "\<exists>bs msg. encode_snapshot demo_snap = Inr bs \<and> decode_snapshot (take 30 bs) = Inl (value_error msg)"
proof -
  obtain bs where bs: "encode_snapshot demo_snap = Inr bs" "decode_snapshot bs = Inr (snap_stored demo_snap)"
    using snapshot_back [OF demo_snap_storable] demo_snap_size by blast
  have "30 < length bs" using bs(1) by (rule demo_snap_long)
  then show ?thesis using corrupted_state_rejected [OF bs(2)] bs(1) by blast
qed

text \<open>
  A state that cannot be decoded is refused with a \<^verbatim>\<open>value_error\<close> and leaves the governor
  as it was: \<^verbatim>\<open>load\<close> either throws a \<^verbatim>\<open>value_error\<close> and changes nothing, or restores a decoded snapshot.
\<close>

lemma load_all_or_nothing:
  "(\<exists>msg. load R data g = (Inl (value_error msg), g)) \<or>
   (\<exists>s. decode_snapshot data = Inr s \<and> load R data g = (Inr (), restore R s g))"
  using decode_error [of data] by (cases "decode_snapshot data") (auto simp: load_def)

end
