(* ===== verification/Wire.thy ===== *)
theory Wire
  imports Explain Reservation Governor_Ops Crc
begin

text \<open>
  The wire protocol of \<^verbatim>\<open>include/bg/wire.hpp\<close> and \<^verbatim>\<open>src/wire.cpp\<close>: the frame with its magic, version,
  type, length and checksum, and one writer and one reader per message body. Unlike the state format,
  the bodies cast whatever number they read to an enumeration and ignore bytes behind the message.
\<close>

section \<open>Frames\<close>

definition kWireMagic :: u32 where "kWireMagic = 0x46474257"
definition kWireVersion :: u32 where "kWireVersion = 1"

datatype WireType =
    Register | RegisterAck | SubmitFlow | SubmitAck | FlowDispatch | FlowGrant | FlowCancel | Progress | Completion
  | Ack | QueryResources | QueryFlows | QueryReservations | Snapshot | Save | Load | Response | RegisterReject | Shutdown
  | WireType_raw u32

fun WireType_code :: "WireType \<Rightarrow> u32" where
  "WireType_code Register = 0"
| "WireType_code RegisterAck = 1"
| "WireType_code SubmitFlow = 2"
| "WireType_code SubmitAck = 3"
| "WireType_code FlowDispatch = 4"
| "WireType_code FlowGrant = 5"
| "WireType_code FlowCancel = 6"
| "WireType_code Progress = 7"
| "WireType_code Completion = 8"
| "WireType_code Ack = 9"
| "WireType_code QueryResources = 10"
| "WireType_code QueryFlows = 11"
| "WireType_code QueryReservations = 12"
| "WireType_code Snapshot = 13"
| "WireType_code Save = 14"
| "WireType_code Load = 15"
| "WireType_code Response = 16"
| "WireType_code RegisterReject = 17"
| "WireType_code Shutdown = 18"
| "WireType_code (WireType_raw w) = w"

definition wire_types :: "WireType list" where
  "wire_types = [Register, RegisterAck, SubmitFlow, SubmitAck, FlowDispatch, FlowGrant, FlowCancel, Progress, Completion,
     Ack, QueryResources, QueryFlows, QueryReservations, Snapshot, Save, Load, Response, RegisterReject, Shutdown]"

definition WireType_cast :: "u32 \<Rightarrow> WireType" where
  "WireType_cast w = (if w < 19 then wire_types ! unat w else WireType_raw w)"

fun wire_type_name :: "WireType \<Rightarrow> string" where
  "wire_type_name Register = ''register''"
| "wire_type_name RegisterAck = ''register_ack''"
| "wire_type_name SubmitFlow = ''submit_flow''"
| "wire_type_name SubmitAck = ''submit_ack''"
| "wire_type_name FlowDispatch = ''flow_dispatch''"
| "wire_type_name FlowGrant = ''flow_grant''"
| "wire_type_name FlowCancel = ''flow_cancel''"
| "wire_type_name Progress = ''progress''"
| "wire_type_name Completion = ''completion''"
| "wire_type_name Ack = ''ack''"
| "wire_type_name QueryResources = ''query_resources''"
| "wire_type_name QueryFlows = ''query_flows''"
| "wire_type_name QueryReservations = ''query_reservations''"
| "wire_type_name Snapshot = ''snapshot''"
| "wire_type_name Save = ''save''"
| "wire_type_name Load = ''load''"
| "wire_type_name Response = ''response''"
| "wire_type_name RegisterReject = ''register_reject''"
| "wire_type_name Shutdown = ''shutdown''"
| "wire_type_name (WireType_raw w) = ''unknown''"

definition frame_crc :: "bytes \<Rightarrow> bytes \<Rightarrow> u32" where
  "frame_crc hdr payload = Crc32_value (Crc32_update payload (Crc32_update hdr Crc32_init))"

text \<open>The bytes of a \<^verbatim>\<open>uint32_t\<close>; \<^verbatim>\<open>crc_hdr\<close> is those of the type and of the length.\<close>

definition u32_bytes :: "u32 \<Rightarrow> bytes" where
  "u32_bytes v = map (\<lambda>i. ucast (drop_bit (8 * i) v AND 0xFF)) [0..<4]"

definition crc_hdr :: "u32 \<Rightarrow> u32 \<Rightarrow> bytes" where
  "crc_hdr type len = u32_bytes type @ u32_bytes len"

definition encode_frame :: "WireType \<Rightarrow> bytes \<Rightarrow> bytes" where
  "encode_frame type payload =
     (let t = WireType_code type; len = of_nat (length payload)
      in u32_bytes kWireMagic @ u32_bytes kWireVersion @ u32_bytes t @ u32_bytes len @ payload @
         u32_bytes (frame_crc (crc_hdr t len) payload))"

record DecodedFrame =
  df_type :: WireType
  df_payload :: bytes

definition decode_frame :: "bytes \<Rightarrow> DecodedFrame result" where
  "decode_frame data = rbind
     (rd_bind src_u32 (\<lambda>magic.
      if magic \<noteq> kWireMagic then rd_throw ''bad wire frame magic'' else
      rd_bind src_u32 (\<lambda>ver.
      if ver \<noteq> kWireVersion then rd_throw ''incompatible wire protocol version'' else
      rd_bind src_u32 (\<lambda>type. rd_bind src_u32 (\<lambda>len p.
      if length p < unat len then Inl (value_error ''frame payload length exceeds buffer'')
      else rd_bind (src_raw (unat len)) (\<lambda>payload. rd_bind src_u32 (\<lambda>crc.
        rd_return (type, len, payload, crc))) p)))) data)
     (\<lambda>((type, len, payload, crc), rest).
        if rest \<noteq> [] then Inl (value_error ''trailing garbage in wire frame'')
        else if crc \<noteq> frame_crc (crc_hdr type len) payload then Inl (value_error ''wire frame checksum mismatch'')
        else Inr \<lparr>df_type = WireType_cast type, df_payload = payload\<rparr>)"

section \<open>Parts of messages\<close>

text \<open>A decoder reads one value from the bytes of a message and ignores the rest.\<close>

definition run :: "'a reader \<Rightarrow> bytes \<Rightarrow> 'a result" where
  "run r bs = rbind (r bs) (\<lambda>(x, _). Inr x)"

text \<open>A count and the elements; an optional value behind a flag.\<close>

definition w_list :: "('a \<Rightarrow> writer) \<Rightarrow> 'a list \<Rightarrow> writer" where
  "w_list w xs = emit [sink_u32 (of_nat (length xs)), emit (map w xs)]"

definition r_list :: "'a reader \<Rightarrow> 'a list reader" where
  "r_list r = rd_bind src_u32 (\<lambda>n. rd_repeat (unat n) r)"

definition w_opt :: "('a \<Rightarrow> writer) \<Rightarrow> 'a option \<Rightarrow> writer" where
  "w_opt w x = emit [sink_bool (x \<noteq> None), (case x of None \<Rightarrow> Inr [] | Some v \<Rightarrow> w v)]"

definition r_opt :: "'a reader \<Rightarrow> 'a option reader" where
  "r_opt r = rd_bind src_bool (\<lambda>has. if has then rd_bind r (\<lambda>v. rd_return (Some v)) else rd_return None)"

definition w_res :: "ResourceSpec \<Rightarrow> writer" where
  "w_res r = emit
     [sink_id (rs_id r), sink_u32 (ResourceClass_code (rs_class r)), sink_str (rs_source r),
      sink_str (rs_destination r), sink_u32 (Directionality_code (rs_direction r)), sink_f64 (cap_value (rs_nominal r)),
      sink_id (rs_generation r), sink_bool (rs_enabled r)]"

definition r_res :: "ResourceSpec reader" where
  "r_res =
     rd_bind src_id (\<lambda>i. rd_bind src_u32 (\<lambda>cls. rd_bind src_str (\<lambda>source. rd_bind src_str (\<lambda>dest.
     rd_bind src_u32 (\<lambda>dir. rd_bind src_capacity (\<lambda>nominal. rd_bind src_id (\<lambda>gen. rd_bind src_bool (\<lambda>en.
     rd_return \<lparr>rs_id = i, rs_class = ResourceClass_cast cls, rs_source = source, rs_destination = dest,
       rs_direction = Directionality_cast dir, rs_nominal = nominal, rs_generation = gen, rs_enabled = en\<rparr>))))))))"

definition w_spec :: "FlowSpec \<Rightarrow> writer" where
  "w_spec f = emit
     [sink_id (fs_id f), sink_id (fs_tenant f), sink_id (fs_workload f), sink_id (fs_attempt f),
      sink_id (fs_generation f), sink_str (fs_source f), sink_str (fs_destination f), sink_id (fs_path f),
      sink_u64 (fs_byte_count f), sink_u32 (Directionality_code (fs_direction f)), sink_i64 (scast (fs_priority f)),
      sink_u32 (LatencyClass_code (fs_latency_class f)), sink_f64 (fs_deadline_seconds f),
      sink_capacity (fs_requested_min f), sink_capacity (fs_requested_preferred f), sink_capacity (fs_requested_max f),
      sink_u64 (fs_burst_bytes f), sink_bool (fs_preemptible f), sink_bool (fs_resumable f)]"

definition r_spec :: "FlowSpec reader" where
  "r_spec =
     rd_bind src_id (\<lambda>i. rd_bind src_id (\<lambda>tenant. rd_bind src_id (\<lambda>workload. rd_bind src_id (\<lambda>attempt.
     rd_bind src_id (\<lambda>gen. rd_bind src_str (\<lambda>source. rd_bind src_str (\<lambda>dest. rd_bind src_id (\<lambda>path.
     rd_bind src_u64 (\<lambda>bytes. rd_bind src_u32 (\<lambda>dir. rd_bind src_i64 (\<lambda>prio. rd_bind src_u32 (\<lambda>lc.
     rd_bind src_f64 (\<lambda>deadline. rd_bind src_capacity (\<lambda>mi. rd_bind src_capacity (\<lambda>pref.
     rd_bind src_capacity (\<lambda>ma. rd_bind src_u64 (\<lambda>burst. rd_bind src_bool (\<lambda>pre. rd_bind src_bool (\<lambda>resu.
     rd_return \<lparr>fs_id = i, fs_tenant = tenant, fs_workload = workload, fs_attempt = attempt, fs_generation = gen,
       fs_source = source, fs_destination = dest, fs_path = path, fs_byte_count = bytes,
       fs_direction = Directionality_cast dir, fs_priority = ucast prio, fs_latency_class = LatencyClass_cast lc,
       fs_deadline_seconds = deadline, fs_requested_min = mi, fs_requested_preferred = pref,
       fs_requested_max = ma, fs_burst_bytes = burst, fs_preemptible = pre, fs_resumable = resu\<rparr>)))))))))))))))))))"

definition w_res_alloc :: "ResourceAllocation \<Rightarrow> writer" where
  "w_res_alloc a = emit [sink_id (al_resource a), sink_capacity (al_allocated a)]"

definition r_res_alloc :: "ResourceAllocation reader" where
  "r_res_alloc = rd_bind src_id (\<lambda>r. rd_bind src_capacity (\<lambda>c. rd_return \<lparr>al_resource = r, al_allocated = c\<rparr>))"

definition w_reservation :: "Reservation \<Rightarrow> writer" where
  "w_reservation r = emit
     [sink_id (rv_id r), sink_id (rv_flow r), sink_id (rv_attempt r), sink_id (rv_flow_generation r),
      sink_id (rv_path r), w_list w_res_alloc (rv_allocations r), sink_id (rv_epoch r), sink_id (rv_worker_boot r),
      sink_id (rv_capacity_generation r), sink_u32 (ReservationState_code (rv_state r))]"

definition r_reservation :: "Reservation reader" where
  "r_reservation =
     rd_bind src_id (\<lambda>i. rd_bind src_id (\<lambda>flow. rd_bind src_id (\<lambda>attempt. rd_bind src_id (\<lambda>fgen.
     rd_bind src_id (\<lambda>path. rd_bind (r_list r_res_alloc) (\<lambda>als.
     rd_bind src_id (\<lambda>epoch. rd_bind src_id (\<lambda>boot. rd_bind src_id (\<lambda>cgen. rd_bind src_u32 (\<lambda>st.
     rd_return \<lparr>rv_id = i, rv_flow = flow, rv_attempt = attempt, rv_flow_generation = fgen, rv_path = path,
       rv_allocations = als, rv_epoch = epoch, rv_worker_boot = boot, rv_capacity_generation = cgen,
       rv_state = ReservationState_cast st\<rparr>))))))))))"

definition w_factor :: "DecisionFactor \<Rightarrow> writer" where
  "w_factor f = emit [sink_str (df_name f), sink_f64 (df_value f), sink_f64 (df_weight f), sink_str (df_rationale f)]"

definition r_factor :: "DecisionFactor reader" where
  "r_factor = rd_bind src_str (\<lambda>n. rd_bind src_f64 (\<lambda>v. rd_bind src_f64 (\<lambda>w. rd_bind src_str (\<lambda>r.
     rd_return \<lparr>df_name = n, df_value = v, df_weight = w, df_rationale = r\<rparr>))))"

definition w_decision :: "Decision \<Rightarrow> writer" where
  "w_decision d = emit
     [sink_id (d_flow d), sink_id (d_tenant d), sink_id (d_workload d), sink_u32 (DecisionKind_code (d_kind d)),
      sink_capacity (d_requested d), sink_capacity (d_granted d), sink_capacity (d_minimum_guarantee d),
      sink_capacity (d_preferred d), sink_capacity (d_maximum d), w_opt sink_id (d_bottleneck d), sink_id (d_path d),
      sink_i64 (scast (d_priority d)), sink_u32 (LatencyClass_code (d_latency_class d)),
      sink_f64 (d_deadline_pressure d), sink_f64 (d_tenant_fairness d), sink_f64 (d_workload_fairness d),
      sink_f64 (d_starvation_age d), sink_u64 (d_burst_remaining d), sink_bool (d_saturated d),
      w_list sink_id (d_competing_flows d), sink_f64 (d_reservation_pressure d), sink_id (d_resource_generation d),
      sink_id (d_capacity_generation d), sink_str (d_kind_reason d), sink_str (d_defer_reason d),
      sink_str (d_reject_reason d), sink_str (d_throttle_reason d), sink_str (d_preemption_reason d),
      w_list w_factor (d_factors d)]"

definition r_decision :: "Decision reader" where
  "r_decision =
     rd_bind src_id (\<lambda>flow. rd_bind src_id (\<lambda>tenant. rd_bind src_id (\<lambda>workload. rd_bind src_u32 (\<lambda>kind.
     rd_bind src_capacity (\<lambda>requested. rd_bind src_capacity (\<lambda>granted. rd_bind src_capacity (\<lambda>mi.
     rd_bind src_capacity (\<lambda>pref. rd_bind src_capacity (\<lambda>ma. rd_bind (r_opt src_id) (\<lambda>bottleneck.
     rd_bind src_id (\<lambda>path. rd_bind src_i64 (\<lambda>prio. rd_bind src_u32 (\<lambda>lc. rd_bind src_f64 (\<lambda>dl.
     rd_bind src_f64 (\<lambda>tf. rd_bind src_f64 (\<lambda>wf. rd_bind src_f64 (\<lambda>age. rd_bind src_u64 (\<lambda>burst.
     rd_bind src_bool (\<lambda>sat. rd_bind (r_list src_id) (\<lambda>comp. rd_bind src_f64 (\<lambda>rp. rd_bind src_id (\<lambda>rg.
     rd_bind src_id (\<lambda>cg. rd_bind src_str (\<lambda>kr. rd_bind src_str (\<lambda>der. rd_bind src_str (\<lambda>rer.
     rd_bind src_str (\<lambda>thr. rd_bind src_str (\<lambda>prr. rd_bind (r_list r_factor) (\<lambda>factors.
     rd_return \<lparr>d_flow = flow, d_tenant = tenant, d_workload = workload, d_kind = DecisionKind_cast kind,
       d_requested = requested, d_granted = granted, d_minimum_guarantee = mi, d_preferred = pref, d_maximum = ma,
       d_bottleneck = bottleneck, d_path = path, d_priority = ucast prio, d_latency_class = LatencyClass_cast lc,
       d_deadline_pressure = dl, d_tenant_fairness = tf, d_workload_fairness = wf, d_starvation_age = age,
       d_burst_remaining = burst, d_saturated = sat, d_competing_flows = comp, d_reservation_pressure = rp,
       d_resource_generation = rg, d_capacity_generation = cg, d_kind_reason = kr, d_defer_reason = der,
       d_reject_reason = rer, d_throttle_reason = thr, d_preemption_reason = prr, d_factors = factors\<rparr>)))))))))))))))))))))))))))))"

section \<open>Message bodies\<close>

record payload_Register =
  pr_worker :: WorkerId
  pr_boot :: WorkerBootId
  pr_protocol :: u32
  pr_backend :: string
  pr_inventory :: "ResourceSpec list"

definition encode_register :: "payload_Register \<Rightarrow> writer" where
  "encode_register r = emit
     [sink_id (pr_worker r), sink_id (pr_boot r), sink_u32 (pr_protocol r), sink_str (pr_backend r),
      w_list w_res (pr_inventory r)]"

definition r_register :: "payload_Register reader" where
  "r_register = rd_bind src_id (\<lambda>w. rd_bind src_id (\<lambda>b. rd_bind src_u32 (\<lambda>pr. rd_bind src_str (\<lambda>be.
     rd_bind (r_list r_res) (\<lambda>invt.
     rd_return \<lparr>pr_worker = w, pr_boot = b, pr_protocol = pr, pr_backend = be, pr_inventory = invt\<rparr>)))))"

definition decode_register :: "bytes \<Rightarrow> payload_Register result" where
  "decode_register = run r_register"

record payload_RegisterAck =
  pa_ok :: bool
  pa_coordinator :: CoordinatorId
  pa_epoch :: CoordinatorEpoch
  pa_generation :: CapacityGeneration
  pa_reason :: string

definition encode_register_ack :: "payload_RegisterAck \<Rightarrow> writer" where
  "encode_register_ack a = emit
     [sink_bool (pa_ok a), sink_id (pa_coordinator a), sink_id (pa_epoch a), sink_id (pa_generation a), sink_str (pa_reason a)]"

definition r_register_ack :: "payload_RegisterAck reader" where
  "r_register_ack = rd_bind src_bool (\<lambda>ok. rd_bind src_id (\<lambda>c. rd_bind src_id (\<lambda>e. rd_bind src_id (\<lambda>gen.
     rd_bind src_str (\<lambda>reason.
     rd_return \<lparr>pa_ok = ok, pa_coordinator = c, pa_epoch = e, pa_generation = gen, pa_reason = reason\<rparr>)))))"

definition decode_register_ack :: "bytes \<Rightarrow> payload_RegisterAck result" where
  "decode_register_ack = run r_register_ack"

definition encode_flow_spec :: "FlowSpec \<Rightarrow> writer" where
  "encode_flow_spec f = w_spec f"

definition decode_flow_spec :: "bytes \<Rightarrow> FlowSpec result" where
  "decode_flow_spec = run r_spec"

record AdmissionWire =
  aw_admitted :: bool
  aw_flow :: FlowSpec
  aw_decision :: Decision
  aw_reservation :: "Reservation option"

definition encode_admission :: "AdmissionWire \<Rightarrow> writer" where
  "encode_admission a = emit
     [sink_bool (aw_admitted a), w_spec (aw_flow a), w_decision (aw_decision a), w_opt w_reservation (aw_reservation a)]"

definition r_admission :: "AdmissionWire reader" where
  "r_admission = rd_bind src_bool (\<lambda>adm. rd_bind r_spec (\<lambda>f. rd_bind r_decision (\<lambda>d. rd_bind (r_opt r_reservation) (\<lambda>rsv.
     rd_return \<lparr>aw_admitted = adm, aw_flow = f, aw_decision = d, aw_reservation = rsv\<rparr>))))"

definition decode_admission :: "bytes \<Rightarrow> AdmissionWire result" where
  "decode_admission = run r_admission"

record payload_Dispatch =
  pd_flow :: FlowSpec
  pd_attempt :: AttemptId
  pd_fgen :: FlowGeneration
  pd_boot :: WorkerBootId
  pd_grant :: Capacity
  pd_reservation :: ReservationId

definition encode_dispatch :: "payload_Dispatch \<Rightarrow> writer" where
  "encode_dispatch d = emit
     [w_spec (pd_flow d), sink_id (pd_attempt d), sink_id (pd_fgen d), sink_id (pd_boot d), sink_capacity (pd_grant d),
      sink_id (pd_reservation d)]"

definition r_dispatch :: "payload_Dispatch reader" where
  "r_dispatch = rd_bind r_spec (\<lambda>f. rd_bind src_id (\<lambda>a. rd_bind src_id (\<lambda>fgen. rd_bind src_id (\<lambda>b.
     rd_bind src_capacity (\<lambda>gr. rd_bind src_id (\<lambda>rsv.
     rd_return \<lparr>pd_flow = f, pd_attempt = a, pd_fgen = fgen, pd_boot = b, pd_grant = gr, pd_reservation = rsv\<rparr>))))))"

definition decode_dispatch :: "bytes \<Rightarrow> payload_Dispatch result" where
  "decode_dispatch = run r_dispatch"

record payload_Grant =
  pg_flow :: FlowId
  pg_attempt :: AttemptId
  pg_fgen :: FlowGeneration
  pg_boot :: WorkerBootId
  pg_grant :: Capacity

definition encode_grant :: "payload_Grant \<Rightarrow> writer" where
  "encode_grant g = emit
     [sink_id (pg_flow g), sink_id (pg_attempt g), sink_id (pg_fgen g), sink_id (pg_boot g), sink_capacity (pg_grant g)]"

definition r_grant :: "payload_Grant reader" where
  "r_grant = rd_bind src_id (\<lambda>f. rd_bind src_id (\<lambda>a. rd_bind src_id (\<lambda>fgen. rd_bind src_id (\<lambda>b. rd_bind src_capacity (\<lambda>gr.
     rd_return \<lparr>pg_flow = f, pg_attempt = a, pg_fgen = fgen, pg_boot = b, pg_grant = gr\<rparr>)))))"

definition decode_grant :: "bytes \<Rightarrow> payload_Grant result" where
  "decode_grant = run r_grant"

record payload_Report =
  pt_flow :: FlowId
  pt_attempt :: AttemptId
  pt_fgen :: FlowGeneration
  pt_boot :: WorkerBootId
  pt_bytes :: u64
  pt_completed :: bool

definition encode_report :: "payload_Report \<Rightarrow> writer" where
  "encode_report r = emit
     [sink_id (pt_flow r), sink_id (pt_attempt r), sink_id (pt_fgen r), sink_id (pt_boot r), sink_u64 (pt_bytes r),
      sink_bool (pt_completed r)]"

definition r_report :: "payload_Report reader" where
  "r_report = rd_bind src_id (\<lambda>f. rd_bind src_id (\<lambda>a. rd_bind src_id (\<lambda>fgen. rd_bind src_id (\<lambda>b. rd_bind src_u64 (\<lambda>n.
     rd_bind src_bool (\<lambda>c.
     rd_return \<lparr>pt_flow = f, pt_attempt = a, pt_fgen = fgen, pt_boot = b, pt_bytes = n, pt_completed = c\<rparr>))))))"

definition decode_report :: "bytes \<Rightarrow> payload_Report result" where
  "decode_report = run r_report"

record payload_Ack =
  pk_ok :: bool
  pk_reason :: string

definition encode_ack :: "payload_Ack \<Rightarrow> writer" where
  "encode_ack a = emit [sink_bool (pk_ok a), sink_str (pk_reason a)]"

definition r_ack :: "payload_Ack reader" where
  "r_ack = rd_bind src_bool (\<lambda>ok. rd_bind src_str (\<lambda>reason. rd_return \<lparr>pk_ok = ok, pk_reason = reason\<rparr>))"

definition decode_ack :: "bytes \<Rightarrow> payload_Ack result" where
  "decode_ack = run r_ack"

record payload_Response =
  ps_ok :: bool
  ps_message :: string
  ps_body :: bytes

definition encode_response :: "payload_Response \<Rightarrow> writer" where
  "encode_response r = emit
     [sink_bool (ps_ok r), sink_str (ps_message r), sink_u32 (of_nat (length (ps_body r))), sink_bytes (ps_body r)]"

definition r_response :: "payload_Response reader" where
  "r_response = rd_bind src_bool (\<lambda>ok. rd_bind src_str (\<lambda>msg. rd_bind src_u32 (\<lambda>len. rd_bind (src_raw (unat len)) (\<lambda>body.
     rd_return \<lparr>ps_ok = ok, ps_message = msg, ps_body = body\<rparr>))))"

definition decode_response :: "bytes \<Rightarrow> payload_Response result" where
  "decode_response = run r_response"

definition w_rsnap :: "ResourceSnapshot \<Rightarrow> writer" where
  "w_rsnap r = emit
     [sink_id (rn_id r), sink_u32 (ResourceClass_code (rn_class r)), sink_str (rn_source r), sink_str (rn_destination r),
      sink_u32 (Directionality_code (rn_direction r)), sink_capacity (rn_nominal r), sink_capacity (rn_measured r),
      sink_capacity (rn_governed r), sink_capacity (rn_reserved r), sink_capacity (rn_allocated r),
      sink_f64 (rn_instantaneous_util r), sink_f64 (rn_moving_average_util r), sink_u64 (rn_queue_depth r),
      sink_bool (rn_saturated r), sink_f64 (rn_measured_latency_ms r), sink_f64 (rn_confidence r),
      sink_str (rn_provenance r), sink_f64 (rn_staleness_ms r), sink_f64 (rn_staleness_threshold_ms r),
      sink_id (rn_capacity_generation r), sink_u32 (ResourceHealth_code (rn_health r)), sink_bool (rn_enabled r)]"

definition r_rsnap :: "ResourceSnapshot reader" where
  "r_rsnap =
     rd_bind src_id (\<lambda>i. rd_bind src_u32 (\<lambda>cls. rd_bind src_str (\<lambda>source. rd_bind src_str (\<lambda>dest.
     rd_bind src_u32 (\<lambda>dir. rd_bind src_capacity (\<lambda>nominal. rd_bind src_capacity (\<lambda>measured.
     rd_bind src_capacity (\<lambda>governed. rd_bind src_capacity (\<lambda>reserved. rd_bind src_capacity (\<lambda>allocated.
     rd_bind src_f64 (\<lambda>inst. rd_bind src_f64 (\<lambda>mov. rd_bind src_u64 (\<lambda>depth. rd_bind src_bool (\<lambda>sat.
     rd_bind src_f64 (\<lambda>lat. rd_bind src_f64 (\<lambda>conf. rd_bind src_str (\<lambda>prov. rd_bind src_f64 (\<lambda>stale.
     rd_bind src_f64 (\<lambda>thr. rd_bind src_id (\<lambda>gen. rd_bind src_u32 (\<lambda>h. rd_bind src_bool (\<lambda>en.
     rd_return \<lparr>rn_id = i, rn_class = ResourceClass_cast cls, rn_source = source, rn_destination = dest,
       rn_direction = Directionality_cast dir, rn_nominal = nominal, rn_measured = measured, rn_governed = governed,
       rn_reserved = reserved, rn_allocated = allocated, rn_instantaneous_util = inst,
       rn_moving_average_util = mov, rn_queue_depth = depth, rn_saturated = sat, rn_measured_latency_ms = lat,
       rn_confidence = conf, rn_provenance = prov, rn_staleness_ms = stale, rn_staleness_threshold_ms = thr,
       rn_capacity_generation = gen, rn_health = ResourceHealth_cast h, rn_enabled = en\<rparr>))))))))))))))))))))))"

definition encode_resource_snapshot :: "ResourceSnapshot list \<Rightarrow> writer" where
  "encode_resource_snapshot v = w_list w_rsnap v"

definition decode_resource_snapshot :: "bytes \<Rightarrow> ResourceSnapshot list result" where
  "decode_resource_snapshot = run (r_list r_rsnap)"

definition w_fsnap :: "FlowSnapshot \<Rightarrow> writer" where
  "w_fsnap f = emit
     [w_spec (fn_spec f), sink_u32 (FlowState_code (fn_state f)), sink_capacity (fn_granted f),
      sink_f64 (fn_admitted_ms f), sink_f64 (fn_last_update_ms f), sink_u64 (fn_bytes_transferred f),
      sink_u64 (fn_burst_remaining f), sink_u64 (fn_retry_count f), sink_f64 (fn_starvation_ms f),
      w_opt sink_id (fn_reservation f), w_opt sink_id (fn_assigned_worker f), sink_id (fn_assigned_boot f),
      sink_str (fn_last_error f)]"

definition r_fsnap :: "FlowSnapshot reader" where
  "r_fsnap =
     rd_bind r_spec (\<lambda>spec. rd_bind src_u32 (\<lambda>st. rd_bind src_capacity (\<lambda>granted. rd_bind src_f64 (\<lambda>adm.
     rd_bind src_f64 (\<lambda>last. rd_bind src_u64 (\<lambda>done. rd_bind src_u64 (\<lambda>burst. rd_bind src_u64 (\<lambda>retries.
     rd_bind src_f64 (\<lambda>starv. rd_bind (r_opt src_id) (\<lambda>res. rd_bind (r_opt src_id) (\<lambda>worker.
     rd_bind src_id (\<lambda>boot. rd_bind src_str (\<lambda>err.
     rd_return \<lparr>fn_spec = spec, fn_state = FlowState_cast st, fn_granted = granted, fn_admitted_ms = adm,
       fn_last_update_ms = last, fn_bytes_transferred = done, fn_burst_remaining = burst,
       fn_retry_count = retries, fn_starvation_ms = starv, fn_reservation = res, fn_assigned_worker = worker,
       fn_assigned_boot = boot, fn_last_error = err\<rparr>)))))))))))))"

definition encode_flow_snapshot :: "FlowSnapshot list \<Rightarrow> writer" where
  "encode_flow_snapshot v = w_list w_fsnap v"

definition decode_flow_snapshot :: "bytes \<Rightarrow> FlowSnapshot list result" where
  "decode_flow_snapshot = run (r_list r_fsnap)"

definition encode_reservation_snapshot :: "Reservation list \<Rightarrow> writer" where
  "encode_reservation_snapshot v = w_list w_reservation v"

definition decode_reservation_snapshot :: "bytes \<Rightarrow> Reservation list result" where
  "decode_reservation_snapshot = run (r_list r_reservation)"

end
