(* ===== verification/Wire_Codecs.thy ===== *)
theory Wire_Codecs
  imports Wire Persist_Codecs
begin

text \<open>
  Every message body of the wire protocol is a codec. The predicates say which values a message can
  carry: doubles that are finite binary64 numbers, strings up to a megabyte, valid capacities,
  lists shorter than \<open>2 ^ 32\<close>, and enumerations that survive the cast to their number and back. The
  values the governor sends satisfy them; a reader also accepts numbers outside an enumeration.
\<close>

section \<open>Lists and optional values\<close>

definition fits :: "('e \<Rightarrow> u32) \<Rightarrow> (u32 \<Rightarrow> 'e) \<Rightarrow> 'e \<Rightarrow> bool" where
  "fits code cast e \<longleftrightarrow> cast (code e) = e"

definition few :: "('a \<Rightarrow> bool) \<Rightarrow> 'a list \<Rightarrow> bool" where
  "few ok xs \<longleftrightarrow> list_all ok xs \<and> length xs < 2 ^ 32"

lemma emit_one: "emit [w] = w"
  by (cases w) simp_all

lemma unat_few: "n < 2 ^ 32 \<Longrightarrow> unat (of_nat n :: u32) = n"
  by (simp add: unat_of_nat)

lemma strict_list [strict_intros]: "strict r \<Longrightarrow> strict (r_list r)"
  unfolding r_list_def by (intro strict_intros)

lemma strict_opt [strict_intros]: "strict r \<Longrightarrow> strict (r_opt r)"
  unfolding r_opt_def by (intro strict_intros)

text \<open>A codec gives one for lists with a count and one for optional values.\<close>

context codec
begin

lemma counted_round_trip:
  assumes "few ok xs"
  shows "rt (w_list enc xs) (r_list dec) (map norm xs)"
proof -
  have "rt (emit [emit (map enc xs)]) (rd_repeat (unat (of_nat (length xs) :: u32)) dec) (map norm xs)"
    using assms list_round_trip [of xs] by (simp add: few_def unat_few emit_one del: emit.simps)
  then show ?thesis unfolding w_list_def r_list_def by (rule rt_bind [OF rt_words(3)])
qed

lemma option_round_trip:
  assumes "pred_option ok x"
  shows "rt (w_opt enc x) (r_opt dec) (map_option norm x)"
proof (cases x)
  case None
  then show ?thesis using rt_bool [of False] by (auto simp: w_opt_def r_opt_def rt_def rd_bind_def rd_return_def)
next
  case (Some v)
  then have "rt (emit [enc v]) (rd_bind dec (\<lambda>v. rd_return (Some v))) (Some (norm v))"
    using assms round_trip [of v] by (intro rt_bind rt_return) simp_all
  then have "rt (emit [sink_bool True, enc v]) (r_opt dec) (Some (norm v))"
    unfolding r_opt_def by (intro rt_bind [OF rt_bool]) simp
  then show ?thesis by (simp add: w_opt_def Some del: emit.simps)
qed

end

text \<open>
  A message: a codec that carries values unchanged, and the decoder that runs its reader over a body.
\<close>

locale message = codec enc dec ok "\<lambda>x. x" for enc :: "'a \<Rightarrow> writer" and dec ok +
  fixes decode :: "bytes \<Rightarrow> 'a result"
  assumes decode_eq: "decode = run dec"
begin

lemma received: "ok x \<Longrightarrow> \<exists>bs. enc x = Inr bs \<and> decode (bs @ rest) = Inr x"
  using written [of x] reads_back [of x] by (auto simp: decode_eq run_def)

lemma cut_off: "ok x \<Longrightarrow> enc x = Inr bs \<Longrightarrow> k < length bs \<Longrightarrow> \<exists>msg. decode (take k bs) = Inl (value_error msg)"
  using truncated [of x bs k] by (auto simp: decode_eq run_def)

lemma refused: "decode bs = Inl e \<Longrightarrow> \<exists>msg. e = value_error msg"
  using strict_dec by (auto simp: decode_eq run_def strict_def rbind_eq_Inl_iff)

end

section \<open>What the messages carry\<close>

definition res_wire :: "ResourceSpec \<Rightarrow> bool" where
  "res_wire r \<longleftrightarrow> fits ResourceClass_code ResourceClass_cast (rs_class r) \<and> short (rs_source r) \<and>
     short (rs_destination r) \<and> fits Directionality_code Directionality_cast (rs_direction r) \<and> cap_storable (rs_nominal r)"

definition spec_wire :: "FlowSpec \<Rightarrow> bool" where
  "spec_wire f \<longleftrightarrow> short (fs_source f) \<and> short (fs_destination f) \<and>
     fits Directionality_code Directionality_cast (fs_direction f) \<and>
     fits LatencyClass_code LatencyClass_cast (fs_latency_class f) \<and> storable (fs_deadline_seconds f) \<and>
     cap_storable (fs_requested_min f) \<and> cap_storable (fs_requested_preferred f) \<and> cap_storable (fs_requested_max f)"

definition resv_wire :: "Reservation \<Rightarrow> bool" where
  "resv_wire r \<longleftrightarrow> few alloc_storable (rv_allocations r) \<and>
     fits ReservationState_code ReservationState_cast (rv_state r)"

definition factor_wire :: "DecisionFactor \<Rightarrow> bool" where
  "factor_wire f \<longleftrightarrow> short (df_name f) \<and> storable (df_value f) \<and> storable (df_weight f) \<and> short (df_rationale f)"

definition decision_wire :: "Decision \<Rightarrow> bool" where
  "decision_wire d \<longleftrightarrow> fits DecisionKind_code DecisionKind_cast (d_kind d) \<and> cap_storable (d_requested d) \<and>
     cap_storable (d_granted d) \<and> cap_storable (d_minimum_guarantee d) \<and> cap_storable (d_preferred d) \<and>
     cap_storable (d_maximum d) \<and> fits LatencyClass_code LatencyClass_cast (d_latency_class d) \<and>
     storable (d_deadline_pressure d) \<and> storable (d_tenant_fairness d) \<and> storable (d_workload_fairness d) \<and>
     storable (d_starvation_age d) \<and> few (\<lambda>_. True) (d_competing_flows d) \<and> storable (d_reservation_pressure d) \<and>
     short (d_kind_reason d) \<and> short (d_defer_reason d) \<and> short (d_reject_reason d) \<and>
     short (d_throttle_reason d) \<and> short (d_preemption_reason d) \<and> few factor_wire (d_factors d)"

definition register_wire :: "payload_Register \<Rightarrow> bool" where
  "register_wire r \<longleftrightarrow> short (pr_backend r) \<and> few res_wire (pr_inventory r)"

definition admission_wire :: "AdmissionWire \<Rightarrow> bool" where
  "admission_wire a \<longleftrightarrow> spec_wire (aw_flow a) \<and> decision_wire (aw_decision a) \<and> pred_option resv_wire (aw_reservation a)"

definition dispatch_wire :: "payload_Dispatch \<Rightarrow> bool" where
  "dispatch_wire d \<longleftrightarrow> spec_wire (pd_flow d) \<and> cap_storable (pd_grant d)"

definition response_wire :: "payload_Response \<Rightarrow> bool" where
  "response_wire r \<longleftrightarrow> short (ps_message r) \<and> length (ps_body r) < 2 ^ 32"

definition rsnap_wire :: "ResourceSnapshot \<Rightarrow> bool" where
  "rsnap_wire r \<longleftrightarrow> fits ResourceClass_code ResourceClass_cast (rn_class r) \<and> short (rn_source r) \<and>
     short (rn_destination r) \<and> fits Directionality_code Directionality_cast (rn_direction r) \<and>
     cap_storable (rn_nominal r) \<and> cap_storable (rn_measured r) \<and> cap_storable (rn_governed r) \<and>
     cap_storable (rn_reserved r) \<and> cap_storable (rn_allocated r) \<and> storable (rn_instantaneous_util r) \<and>
     storable (rn_moving_average_util r) \<and> storable (rn_measured_latency_ms r) \<and> storable (rn_confidence r) \<and>
     short (rn_provenance r) \<and> storable (rn_staleness_ms r) \<and> storable (rn_staleness_threshold_ms r) \<and>
     fits ResourceHealth_code ResourceHealth_cast (rn_health r)"

definition fsnap_wire :: "FlowSnapshot \<Rightarrow> bool" where
  "fsnap_wire f \<longleftrightarrow> spec_wire (fn_spec f) \<and> fits FlowState_code FlowState_cast (fn_state f) \<and>
     cap_storable (fn_granted f) \<and> storable (fn_admitted_ms f) \<and> storable (fn_last_update_ms f) \<and>
     storable (fn_starvation_ms f) \<and> short (fn_last_error f)"

section \<open>The codecs\<close>

lemmas rt_count_id = ident.counted_round_trip [simplified]
lemmas rt_option_id = ident.option_round_trip [simplified option.map_ident option.pred_True, OF TrueI]

lemma rt_res: "res_wire r \<Longrightarrow> rt (w_res r) r_res r"
  unfolding w_res_def r_res_def res_wire_def fits_def sink_capacity_def [symmetric] by (rule rt_intros | simp)+

interpretation wire_res: codec w_res r_res res_wire "\<lambda>x. x"
  by unfold_locales (simp_all add: rt_res, unfold r_res_def, intro strict_intros)

lemma rt_spec: "spec_wire f \<Longrightarrow> rt (w_spec f) r_spec f"
  unfolding w_spec_def r_spec_def spec_wire_def fits_def by (rule rt_intros | simp)+

lemma strict_spec [strict_intros]: "strict r_spec"
  unfolding r_spec_def by (intro strict_intros)

lemma rt_res_alloc: "alloc_storable a \<Longrightarrow> rt (w_res_alloc a) r_res_alloc a"
  unfolding w_res_alloc_def r_res_alloc_def alloc_storable_def by (rule rt_intros | simp)+

interpretation wire_alloc: codec w_res_alloc r_res_alloc alloc_storable "\<lambda>x. x"
  by unfold_locales (simp_all add: rt_res_alloc, unfold r_res_alloc_def, intro strict_intros)

lemmas rt_count_alloc = wire_alloc.counted_round_trip [unfolded list.map_ident]
lemmas rt_count_res = wire_res.counted_round_trip [unfolded list.map_ident]

lemma rt_wire_reservation: "resv_wire r \<Longrightarrow> rt (w_reservation r) r_reservation r"
  unfolding w_reservation_def r_reservation_def resv_wire_def fits_def by (rule rt_count_alloc rt_intros | simp)+

interpretation wire_resv: codec w_reservation r_reservation resv_wire "\<lambda>x. x"
  by unfold_locales (simp_all add: rt_wire_reservation, unfold r_reservation_def, intro strict_intros wire_alloc.strict_dec)

lemma rt_factor: "factor_wire f \<Longrightarrow> rt (w_factor f) r_factor f"
  unfolding w_factor_def r_factor_def factor_wire_def by (rule rt_intros | simp)+

interpretation wire_factor: codec w_factor r_factor factor_wire "\<lambda>x. x"
  by unfold_locales (simp_all add: rt_factor, unfold r_factor_def, intro strict_intros)

lemmas rt_count_factor = wire_factor.counted_round_trip [unfolded list.map_ident]
lemmas rt_option_resv = wire_resv.option_round_trip [unfolded option.map_ident]

lemma rt_decision: "decision_wire d \<Longrightarrow> rt (w_decision d) r_decision d"
  unfolding w_decision_def r_decision_def decision_wire_def fits_def
  by (rule rt_count_factor rt_count_id rt_option_id rt_intros | simp)+

lemma strict_decision [strict_intros]: "strict r_decision"
  unfolding r_decision_def by (intro strict_intros wire_factor.strict_dec)

lemma rt_rsnap: "rsnap_wire r \<Longrightarrow> rt (w_rsnap r) r_rsnap r"
  unfolding w_rsnap_def r_rsnap_def rsnap_wire_def fits_def by (rule rt_intros | simp)+

interpretation wire_rsnap: codec w_rsnap r_rsnap rsnap_wire "\<lambda>x. x"
  by unfold_locales (simp_all add: rt_rsnap, unfold r_rsnap_def, intro strict_intros)

lemma rt_fsnap: "fsnap_wire f \<Longrightarrow> rt (w_fsnap f) r_fsnap f"
  unfolding w_fsnap_def r_fsnap_def fsnap_wire_def fits_def by (rule rt_spec rt_option_id rt_intros | simp)+

interpretation wire_fsnap: codec w_fsnap r_fsnap fsnap_wire "\<lambda>x. x"
  by unfold_locales (simp_all add: rt_fsnap, unfold r_fsnap_def, intro strict_intros)

section \<open>The messages\<close>

lemma rt_register: "register_wire r \<Longrightarrow> rt (encode_register r) r_register r"
  unfolding encode_register_def r_register_def register_wire_def by (rule rt_count_res rt_intros | simp)+

interpretation register: message encode_register r_register register_wire decode_register
  by unfold_locales (simp_all add: rt_register decode_register_def, unfold r_register_def, intro strict_intros wire_res.strict_dec)

lemma rt_register_ack: "short (pa_reason a) \<Longrightarrow> rt (encode_register_ack a) r_register_ack a"
  unfolding encode_register_ack_def r_register_ack_def by (rule rt_intros | simp)+

interpretation register_ack: message encode_register_ack r_register_ack "\<lambda>a. short (pa_reason a)" decode_register_ack
  by unfold_locales (simp_all add: rt_register_ack decode_register_ack_def, unfold r_register_ack_def, intro strict_intros)

interpretation flow_spec: message encode_flow_spec r_spec spec_wire decode_flow_spec
  by unfold_locales (simp_all add: encode_flow_spec_def rt_spec strict_spec decode_flow_spec_def)

lemma rt_admission: "admission_wire a \<Longrightarrow> rt (encode_admission a) r_admission a"
  unfolding encode_admission_def r_admission_def admission_wire_def
  by (rule rt_spec rt_decision rt_option_resv rt_intros | simp)+

interpretation admission: message encode_admission r_admission admission_wire decode_admission
  by unfold_locales (simp_all add: rt_admission decode_admission_def, unfold r_admission_def, intro strict_intros wire_resv.strict_dec)

lemma rt_dispatch: "dispatch_wire d \<Longrightarrow> rt (encode_dispatch d) r_dispatch d"
  unfolding encode_dispatch_def r_dispatch_def dispatch_wire_def by (rule rt_spec rt_intros | simp)+

interpretation dispatch_msg: message encode_dispatch r_dispatch dispatch_wire decode_dispatch
  by unfold_locales (simp_all add: rt_dispatch decode_dispatch_def, unfold r_dispatch_def, intro strict_intros)

lemma rt_grant: "cap_storable (pg_grant g) \<Longrightarrow> rt (encode_grant g) r_grant g"
  unfolding encode_grant_def r_grant_def by (rule rt_intros | simp)+

interpretation grant_msg: message encode_grant r_grant "\<lambda>g. cap_storable (pg_grant g)" decode_grant
  by unfold_locales (simp_all add: rt_grant decode_grant_def, unfold r_grant_def, intro strict_intros)

lemma rt_report: "rt (encode_report r) r_report r"
  unfolding encode_report_def r_report_def by (rule rt_intros | simp)+

interpretation report: message encode_report r_report "\<lambda>_. True" decode_report
  by unfold_locales (simp_all add: rt_report decode_report_def, unfold r_report_def, intro strict_intros)

lemma rt_ack: "short (pk_reason a) \<Longrightarrow> rt (encode_ack a) r_ack a"
  unfolding encode_ack_def r_ack_def by (rule rt_intros | simp)+

interpretation ack: message encode_ack r_ack "\<lambda>a. short (pk_reason a)" decode_ack
  by unfold_locales (simp_all add: rt_ack decode_ack_def, unfold r_ack_def, intro strict_intros)

lemma rt_response: "response_wire r \<Longrightarrow> rt (encode_response r) r_response r"
  unfolding encode_response_def r_response_def response_wire_def
  by (rule rt_intros | simp add: unat_few)+

interpretation response: message encode_response r_response response_wire decode_response
  by unfold_locales (simp_all add: rt_response decode_response_def, unfold r_response_def, intro strict_intros)

interpretation resources_msg: message encode_resource_snapshot "r_list r_rsnap" "few rsnap_wire" decode_resource_snapshot
  by unfold_locales (simp_all add: wire_rsnap.counted_round_trip [unfolded list.map_ident] encode_resource_snapshot_def
      decode_resource_snapshot_def strict_list wire_rsnap.strict_dec)

interpretation flows_msg: message encode_flow_snapshot "r_list r_fsnap" "few fsnap_wire" decode_flow_snapshot
  by unfold_locales (simp_all add: wire_fsnap.counted_round_trip [unfolded list.map_ident] encode_flow_snapshot_def
      decode_flow_snapshot_def strict_list wire_fsnap.strict_dec)

interpretation reservations_msg: message encode_reservation_snapshot "r_list r_reservation" "few resv_wire" decode_reservation_snapshot
  by unfold_locales (simp_all add: wire_resv.counted_round_trip [unfolded list.map_ident] encode_reservation_snapshot_def
      decode_reservation_snapshot_def strict_list wire_resv.strict_dec)

end
