(* ===== verification/Wire_Frames.thy ===== *)
theory Wire_Frames
  imports Wire_Codecs Integrity
begin

text \<open>
  Frames: what \<^verbatim>\<open>encode_frame\<close> writes is decoded to the type and the payload, and a frame that was
  accepted is not accepted any more once it is cut, extended or corrupted in up to four neighbouring
  bytes.
\<close>

section \<open>Frames read back\<close>

lemma u32_sink: "sink_u32 v = Inr (u32_bytes v)"
  by (simp add: sink_u32_def u32_bytes_def)

lemma src_u32_bytes [simp]: "src_u32 (u32_bytes v @ r) = Inr (v, r)"
  using rt_words(3) [of v] by (simp add: rt_def u32_sink)

lemma length_u32_bytes [simp]: "length (u32_bytes v) = 4"
  by (simp add: u32_bytes_def)

lemma src_raw_append [simp]: "src_raw (length p) (p @ r) = Inr (p, r)"
  by (simp add: src_raw_def rd_need_def rd_bind_def)

lemma src_u32_bytes_end [simp]: "src_u32 (u32_bytes v) = Inr (v, [])"
  using src_u32_bytes [of v "[]"] by simp

lemma decode_encode_frame:
  assumes "length payload < 2 ^ 32"
  shows "decode_frame (encode_frame t payload) = Inr \<lparr>df_type = WireType_cast (WireType_code t), df_payload = payload\<rparr>"
  using assms by (simp add: decode_frame_def encode_frame_def Let_def rd_bind_def rd_return_def unat_few)

lemma WireType_fits: "t \<in> set wire_types \<Longrightarrow> WireType_cast (WireType_code t) = t"
  by (auto simp: wire_types_def WireType_cast_def)

section \<open>Frames that are refused\<close>

lemma strict_guard [strict_intros]:
  assumes "strict r" "\<And>p. length p < n \<Longrightarrow> \<exists>msg. r p = Inl (value_error msg)"
  shows "strict (\<lambda>p. if length p < n then Inl (value_error msg) else r p)"
  unfolding strict_def
proof (intro conjI allI impI)
  fix bs e assume "(if length bs < n then Inl (value_error msg) else r bs) = Inl e"
  then show "\<exists>msg. e = value_error msg" using strict_error [OF assms(1)] by (auto split: if_splits)
next
  fix bs x rest assume "(if length bs < n then Inl (value_error msg) else r bs) = Inr (x, rest)"
  then obtain p where p: "bs = p @ rest" "\<And>rest'. r (p @ rest') = Inr (x, rest')"
    using assms(1) unfolding strict_def by (metis Inl_Inr_False)
  then have "\<not> length (p @ rest') < n" for rest' using assms(2) [of "p @ rest'"] by auto
  then show "\<exists>p. bs = p @ rest \<and> (\<forall>rest'. (if length (p @ rest') < n then Inl (value_error msg) else r (p @ rest')) = Inr (x, rest'))"
    using p by auto
qed

text \<open>The part of \<^verbatim>\<open>decode_frame\<close> that reads the fields.\<close>

definition read_frame :: "(u32 \<times> u32 \<times> bytes \<times> u32) reader" where
  "read_frame = rd_bind src_u32 (\<lambda>magic.
      if magic \<noteq> kWireMagic then rd_throw ''bad wire frame magic'' else
      rd_bind src_u32 (\<lambda>ver.
      if ver \<noteq> kWireVersion then rd_throw ''incompatible wire protocol version'' else
      rd_bind src_u32 (\<lambda>type. rd_bind src_u32 (\<lambda>len p.
      if length p < unat len then Inl (value_error ''frame payload length exceeds buffer'')
      else rd_bind (src_raw (unat len)) (\<lambda>payload. rd_bind src_u32 (\<lambda>crc.
        rd_return (type, len, payload, crc))) p))))"

lemma strict_read_frame: "strict read_frame"
  unfolding read_frame_def
  by (intro strict_intros) (simp add: rd_bind_def src_raw_def rd_need_def)

lemma decode_frame_read:
  "decode_frame bs = rbind (read_frame bs) (\<lambda>((type, len, payload, crc), rest).
     if rest \<noteq> [] then Inl (value_error ''trailing garbage in wire frame'')
     else if crc \<noteq> frame_crc (crc_hdr type len) payload then Inl (value_error ''wire frame checksum mismatch'')
     else Inr \<lparr>df_type = WireType_cast type, df_payload = payload\<rparr>)"
  unfolding decode_frame_def read_frame_def by (rule refl)

lemma decode_frame_error: "decode_frame bs = Inl e \<Longrightarrow> \<exists>msg. e = value_error msg"
  using strict_error [OF strict_read_frame] by (auto simp: decode_frame_read rbind_eq_Inl_iff split: if_splits)

lemma frame_crc_eq: "frame_crc h p = crc32 (h @ p)"
  by (simp add: frame_crc_def crc32_def Crc32_update_def)

lemma word_of_u32_bytes: "word_of 4 (u32_bytes v) = v"
  using src_u32_bytes_end [of v] unfolding src_u32_word by (elim conjE) (rule sym)

lemma u32_bytes_of:
  assumes "length p = 4"
  shows "u32_bytes (word_of 4 p) = p"
proof -
  have "take 4 (u32_bytes (word_of 4 p)) = take 4 p"
    using assms by (intro word_of_inj [where 'a = 32]) (simp_all only: length_u32_bytes word_of_u32_bytes, simp_all)
  then show ?thesis using assms by simp
qed

text \<open>What was read is what the bytes say.\<close>

lemma src_u32_Inr: "src_u32 p = Inr (v, r) \<longleftrightarrow> p = u32_bytes v @ r"
proof
  assume "src_u32 p = Inr (v, r)"
  then have p: "4 \<le> length p" "v = word_of 4 p" "r = drop 4 p" unfolding src_u32_word by simp_all
  have "word_of 4 p = (word_of 4 (take 4 p) :: u32)" by (rule foldl_cong) simp_all
  then show "p = u32_bytes v @ r" using p u32_bytes_of [of "take 4 p"] append_take_drop_id [of 4 p] by simp
qed simp

lemma src_raw_Inr: "src_raw n p = Inr (q, r) \<longleftrightarrow> p = q @ r \<and> length q = n"
  by (auto simp: src_raw_def rd_need_def rd_bind_def)

lemma read_frame_Inr:
  "read_frame bs = Inr ((t, len, payload, crc), rest) \<longleftrightarrow>
     bs = u32_bytes kWireMagic @ u32_bytes kWireVersion @ u32_bytes t @ u32_bytes len @ payload @ u32_bytes crc @ rest \<and>
     length payload = unat len" (is "_ \<longleftrightarrow> ?bytes")
proof
  assume "read_frame bs = Inr ((t, len, payload, crc), rest)"
  then show ?bytes
    by (auto simp: read_frame_def rd_bind_eq_Inr src_u32_Inr src_raw_Inr rd_return_def rd_throw_def split: if_splits)
next
  assume ?bytes
  then show "read_frame bs = Inr ((t, len, payload, crc), rest)"
    using src_raw_append [of payload "u32_bytes crc @ rest"] by (simp add: read_frame_def rd_bind_def rd_return_def)
qed

lemma unat_len: "length payload = unat (len :: u32) \<longleftrightarrow> len = of_nat (length payload) \<and> length payload < 2 ^ 32"
  using unsigned_less [of len, where 'a = nat] by (auto simp: unat_of_nat)

text \<open>The accepted frames are the encoded ones; the type may be any number.\<close>

lemma decode_frame_iff:
  "decode_frame bs = Inr f \<longleftrightarrow>
     (\<exists>t. bs = encode_frame (WireType_raw t) (df_payload f) \<and> df_type f = WireType_cast t \<and> length (df_payload f) < 2 ^ 32)"
proof
  assume "decode_frame bs = Inr f"
  then show "\<exists>t. bs = encode_frame (WireType_raw t) (df_payload f) \<and> df_type f = WireType_cast t \<and> length (df_payload f) < 2 ^ 32"
    by (auto simp: decode_frame_read rbind_eq_Inr_iff read_frame_Inr unat_len encode_frame_def Let_def split: if_splits)
next
  assume "\<exists>t. bs = encode_frame (WireType_raw t) (df_payload f) \<and> df_type f = WireType_cast t \<and> length (df_payload f) < 2 ^ 32"
  then show "decode_frame bs = Inr f" using decode_encode_frame [of "df_payload f"] by auto
qed

text \<open>An accepted frame starts with magic and version, and what follows is sealed by the checksum.\<close>

lemma frame_accepted:
  assumes "decode_frame bs = Inr f"
  shows "take 8 bs = u32_bytes kWireMagic @ u32_bytes kWireVersion"
    "foldl crc_byte Crc32_init (drop 8 bs) = (crc_bits ^^ 4) (- 1)"
proof -
  obtain t len where bs: "bs = u32_bytes kWireMagic @ u32_bytes kWireVersion @ (crc_hdr t len @ df_payload f) @
      u32_bytes (frame_crc (crc_hdr t len) (df_payload f))"
    using assms by (auto simp: decode_frame_iff encode_frame_def crc_hdr_def Let_def)
  show "take 8 bs = u32_bytes kWireMagic @ u32_bytes kWireVersion" by (simp add: bs)
  have "le_word (u32_bytes c) = c" for c using le_word_of [of "u32_bytes c"] word_of_u32_bytes [of c] by simp
  then show "foldl crc_byte Crc32_init (drop 8 bs) = (crc_bits ^^ 4) (- 1)"
    using crc_residue [of "u32_bytes (frame_crc (crc_hdr t len) (df_payload f))" "crc_hdr t len @ df_payload f"]
    by (simp add: bs frame_crc_eq)
qed

lemma frame_burst:
  assumes "decode_frame (pre @ m @ post) = Inr f" "decode_frame (pre @ m' @ post) = Inr f'"
    and "length m = length m'" "length m \<le> 4"
  shows "m = m'"
proof -
  let ?k = "8 - length pre"
  have "foldl crc_byte Crc32_init (drop 8 (pre @ m @ post)) = foldl crc_byte Crc32_init (drop 8 (pre @ m' @ post))"
    using frame_accepted(2) [OF assms(1)] frame_accepted(2) [OF assms(2)] by simp
  then have "drop ?k m = drop ?k m'"
    using crc_register_burst [of "drop ?k m" "drop ?k m'" Crc32_init "drop 8 pre"] assms(3,4) by simp
  moreover have "take 8 (pre @ m @ post) = take 8 (pre @ m' @ post)"
    using frame_accepted(1) [OF assms(1)] frame_accepted(1) [OF assms(2)] by simp
  then have "take ?k m = take ?k m'" using assms(3) by (simp add: append_eq_append_conv)
  ultimately show ?thesis by (metis append_take_drop_id)
qed

section \<open>Properties\<close>

text \<open>
  A frame with a payload of less than \<open>2 ^ 32\<close> bytes is decoded to its type and its
  payload.
\<close>

lemma frame_round_trip:
  assumes "length payload < 2 ^ 32" "t \<in> set wire_types"
  shows "decode_frame (encode_frame t payload) = Inr \<lparr>df_type = t, df_payload = payload\<rparr>"
  using decode_encode_frame [OF assms(1), of t] WireType_fits [OF assms(2)] by simp

text \<open>
  Property C33. A damaged frame is refused: when a frame is accepted, every proper prefix, every
  extension and every frame that differs from it in a burst of up to four neighbouring bytes is
  rejected with a \<^verbatim>\<open>value_error\<close>, wherever the damage is.
\<close>

theorem corrupted_frame_rejected:
  assumes "decode_frame bs = Inr f"
  shows "(k < length bs \<longrightarrow> (\<exists>msg. decode_frame (take k bs) = Inl (value_error msg))) \<and>
    (z \<noteq> [] \<longrightarrow> (\<exists>msg. decode_frame (bs @ z) = Inl (value_error msg))) \<and>
    (bs = pre @ m @ post \<longrightarrow> length m' = length m \<longrightarrow> length m \<le> 4 \<longrightarrow> m' \<noteq> m \<longrightarrow>
       (\<exists>msg. decode_frame (pre @ m' @ post) = Inl (value_error msg)))"
proof (intro conjI impI)
  obtain x where x: "read_frame bs = Inr (x, [])"
    using assms by (auto simp: decode_frame_read rbind_eq_Inr_iff split: if_splits)
  show "\<exists>msg. decode_frame (take k bs) = Inl (value_error msg)" if "k < length bs"
    using strict_prefix(1) [OF strict_read_frame x that] by (auto simp: decode_frame_read)
  show "\<exists>msg. decode_frame (bs @ z) = Inl (value_error msg)" if "z \<noteq> []"
    using strict_prefix(2) [OF strict_read_frame x] that by (cases x) (simp add: decode_frame_read)
  assume *: "bs = pre @ m @ post" "length m' = length m" "length m \<le> 4" "m' \<noteq> m"
  then show "\<exists>msg. decode_frame (pre @ m' @ post) = Inl (value_error msg)"
    using frame_burst [of pre m post f m'] assms decode_frame_error [of "pre @ m' @ post"]
    by (cases "decode_frame (pre @ m' @ post)") auto
qed

theorem corrupted_frame_rejected_witness:
  "\<exists>msg msg'. decode_frame (take 10 (encode_frame Progress [1, 2, 3])) = Inl (value_error msg) \<and>
     decode_frame (encode_frame Progress [1, 2, 3] @ [0]) = Inl (value_error msg')"
proof -
  have "decode_frame (encode_frame Progress [1, 2, 3]) = Inr \<lparr>df_type = Progress, df_payload = [1, 2, 3]\<rparr>"
    using decode_encode_frame [of "[1, 2, 3]" Progress] WireType_fits [of Progress] by (simp add: wire_types_def)
  note bad = corrupted_frame_rejected [OF this]
  have "10 < length (encode_frame Progress [1, 2, 3])" by (simp add: encode_frame_def Let_def)
  then have "\<exists>msg. decode_frame (take 10 (encode_frame Progress [1, 2, 3])) = Inl (value_error msg)"
    using bad [of 10] by blast
  moreover have "\<exists>msg. decode_frame (encode_frame Progress [1, 2, 3] @ [0]) = Inl (value_error msg)"
    using bad [of 0 "[0]"] by blast
  ultimately show ?thesis by blast
qed

text \<open>A body that is read back whatever follows it, and refused when it is cut off.\<close>

definition reads_back :: "('a \<Rightarrow> writer) \<Rightarrow> (bytes \<Rightarrow> 'a result) \<Rightarrow> 'a \<Rightarrow> bool" where
  "reads_back enc dec x \<longleftrightarrow> (\<exists>bs. enc x = Inr bs \<and> (\<forall>rest. dec (bs @ rest) = Inr x) \<and>
     (\<forall>k < length bs. \<exists>msg. dec (take k bs) = Inl (value_error msg)))"

context message
begin

lemma reads_back: "ok x \<Longrightarrow> reads_back enc decode x"
  using received cut_off unfolding reads_back_def by (metis Inr_inject)

end

text \<open>
  Property C34. Every message of the protocol whose contents fit the format is read back as it was written, whatever
  bytes follow it, and when it is cut off anywhere it is refused with a \<^verbatim>\<open>value_error\<close>. What fits: strings of
  at most \<open>2 ^ 20\<close> bytes, lists of less than \<open>2 ^ 32\<close> elements, finite doubles, valid capacities, and enumerators with a
  number of their own. A report always fits.
\<close>

theorem message_round_trips:
  "(register_wire a \<longrightarrow> reads_back encode_register decode_register a) \<and>
   (short (pa_reason b) \<longrightarrow> reads_back encode_register_ack decode_register_ack b) \<and>
   (spec_wire c \<longrightarrow> reads_back encode_flow_spec decode_flow_spec c) \<and>
   (admission_wire d \<longrightarrow> reads_back encode_admission decode_admission d) \<and>
   (dispatch_wire e \<longrightarrow> reads_back encode_dispatch decode_dispatch e) \<and>
   (cap_storable (pg_grant f) \<longrightarrow> reads_back encode_grant decode_grant f) \<and>
   reads_back encode_report decode_report g \<and>
   (short (pk_reason h) \<longrightarrow> reads_back encode_ack decode_ack h) \<and>
   (response_wire i \<longrightarrow> reads_back encode_response decode_response i) \<and>
   (few rsnap_wire rs \<longrightarrow> reads_back encode_resource_snapshot decode_resource_snapshot rs) \<and>
   (few fsnap_wire fs \<longrightarrow> reads_back encode_flow_snapshot decode_flow_snapshot fs) \<and>
   (few resv_wire vs \<longrightarrow> reads_back encode_reservation_snapshot decode_reservation_snapshot vs)"
  by (intro conjI impI) (assumption | rule TrueI register.reads_back register_ack.reads_back flow_spec.reads_back
    admission.reads_back dispatch_msg.reads_back grant_msg.reads_back report.reads_back ack.reads_back response.reads_back
    resources_msg.reads_back flows_msg.reads_back reservations_msg.reads_back)+

theorem message_round_trips_witness:
  "reads_back encode_ack decode_ack \<lparr>pk_ok = False, pk_reason = ''unknown flow''\<rparr>"
proof -
  have "short (pk_reason \<lparr>pk_ok = False, pk_reason = ''unknown flow''\<rparr>)" by (simp add: short_def)
  then show ?thesis
    by (rule message_round_trips [THEN conjunct2, THEN conjunct2, THEN conjunct2, THEN conjunct2, THEN conjunct2,
        THEN conjunct2, THEN conjunct2, THEN conjunct1, THEN mp])
qed

end
