(* ===== verification/State_Files.thy ===== *)
theory State_Files
  imports Persist_Corruption
begin

text \<open>
  \<^verbatim>\<open>Governor::save_file\<close> and \<^verbatim>\<open>Governor::load_file\<close> of \<^verbatim>\<open>src/governor.cpp\<close>.

  The disk is a map from file names to contents. What the operating system answers to the calls of one
  \<^verbatim>\<open>save_file\<close> is a parameter, the record \<open>disk_answers\<close>: whether the stream could be opened, whether it
  was still good after the write and after the flush, how many bytes reached the file, whether the
  file could be opened again, and whether the rename succeeded. The changes a call makes on the disk are
  a list of operations, so that a crash of the process is a prefix of the list. (The code never syncs the file;
  what a crash of the machine leaves on the disk is not modelled.)
\<close>

section \<open>The disk\<close>

type_synonym disk = "string \<rightharpoonup> bytes"

record disk_answers =
  da_open :: bool
  da_write :: bool
  da_flush :: bool
  da_stored :: nat
  da_reopen :: bool
  da_rename :: bool

text \<open>
  Opening with \<^verbatim>\<open>ios::trunc\<close> empties the file; bytes arrive in order; a rename replaces the target in
  one step.
\<close>

datatype disk_op =
    Truncate string
  | Store string bytes
  | Rename string string

fun disk_step :: "disk_op \<Rightarrow> disk \<Rightarrow> disk" where
  "disk_step (Truncate p) d = d(p \<mapsto> [])"
| "disk_step (Store p bs) d = d(p := map_option (\<lambda>c. c @ bs) (d p))"
| "disk_step (Rename p q) d = (case d p of None \<Rightarrow> d | Some c \<Rightarrow> d(p := None, q \<mapsto> c))"

section \<open>Saving and loading\<close>

text \<open>
  The body of \<^verbatim>\<open>save_file\<close> behind \<^verbatim>\<open>save\<close>: what it does on the disk, one byte after the other, and how
  it ends. The size check is skipped when the file cannot be opened again.
\<close>

definition write_state :: "disk_answers \<Rightarrow> string \<Rightarrow> bytes \<Rightarrow> disk_op list \<times> unit result" where
  "write_state os path bytes =
     (let tmp = path @ ''.tmp'';
          written = Truncate tmp # map (\<lambda>b. Store tmp [b]) (take (da_stored os) bytes)
      in if \<not> da_open os then ([], Inl (plain_error (''could not open state file for write: '' @ path)))
         else if \<not> da_write os then (written, Inl (plain_error (''failed to write state file: '' @ path)))
         else if \<not> da_flush os then (written, Inl (plain_error (''failed to flush state file: '' @ path)))
         else if da_reopen os \<and> length (take (da_stored os) bytes) \<noteq> length bytes
         then (written, Inl (plain_error (''state file size mismatch after write: '' @ path)))
         else if \<not> da_rename os then (written, Inl (plain_error (''failed to atomically replace state file: '' @ path)))
         else (written @ [Rename tmp path], Inr ()))"

definition save_file ::
    "(rat \<Rightarrow> rat) \<Rightarrow> disk_answers \<Rightarrow> string \<Rightarrow> gov \<Rightarrow> disk \<Rightarrow> unit result \<times> gov \<times> disk" where
  "save_file R os path g d =
     (case save R g of
        (Inl e, g) \<Rightarrow> (Inl e, g, d)
      | (Inr bytes, g) \<Rightarrow> let (ops, r) = write_state os path bytes in (r, g, fold disk_step ops d))"

text \<open>\<^verbatim>\<open>readable\<close> says whether the stream could be opened.\<close>

definition load_file :: "(rat \<Rightarrow> rat) \<Rightarrow> bool \<Rightarrow> string \<Rightarrow> disk \<Rightarrow> gov \<Rightarrow> unit result \<times> gov" where
  "load_file R readable path d g =
     (case (if readable then d path else None) of
        None \<Rightarrow> (Inl (plain_error (''could not open state file for read: '' @ path)), g)
      | Some data \<Rightarrow>
          if data = [] then (Inl (value_error ''state file is empty''), g)
          else load R data g)"

section \<open>Only the temporary file is touched before the rename\<close>

fun touches :: "string \<Rightarrow> disk_op \<Rightarrow> bool" where
  "touches p (Truncate q) \<longleftrightarrow> q = p"
| "touches p (Store q bs) \<longleftrightarrow> q = p"
| "touches p (Rename q r) \<longleftrightarrow> q = p \<or> r = p"

lemma disk_step_other: "\<not> touches p a \<Longrightarrow> disk_step a d p = d p"
  by (cases a) (auto split: option.splits)

lemma disk_steps_other: "(\<And>a. a \<in> set ops \<Longrightarrow> \<not> touches p a) \<Longrightarrow> fold disk_step ops d p = d p"
  by (induction ops arbitrary: d) (simp_all add: disk_step_other)

lemma tmp_distinct [simp]: "path @ ''.tmp'' \<noteq> path" "path \<noteq> path @ ''.tmp''"
  by simp_all

definition fill :: "string \<Rightarrow> bytes \<Rightarrow> disk_op list" where
  "fill tmp bs = Truncate tmp # map (\<lambda>b. Store tmp [b]) bs"

lemma fill_touches: "a \<in> set (fill tmp bs) \<Longrightarrow> p \<noteq> tmp \<Longrightarrow> \<not> touches p a"
  by (auto simp: fill_def)

lemma fill_appends: "d tmp = Some c \<Longrightarrow> fold disk_step (map (\<lambda>b. Store tmp [b]) bs) d = d(tmp \<mapsto> c @ bs)"
  by (induction bs arbitrary: d c) (simp_all add: fun_upd_idem)

lemma fill_result: "fold disk_step (fill tmp bs) d = d(tmp \<mapsto> bs)"
  using fill_appends [of "d(tmp \<mapsto> [])" tmp "[]" bs] by (simp add: fill_def)

text \<open>
  The operations of a save are a filling of the temporary file, and when it succeeds the rename of
  what was stored.
\<close>

lemma write_state_cases:
  "(\<exists>e. snd (write_state os path bytes) = Inl e) \<and>
     (fst (write_state os path bytes) = [] \<or> fst (write_state os path bytes) = fill (path @ ''.tmp'') (take (da_stored os) bytes)) \<or>
   snd (write_state os path bytes) = Inr () \<and> (da_reopen os \<longrightarrow> take (da_stored os) bytes = bytes) \<and>
     fst (write_state os path bytes) = fill (path @ ''.tmp'') (take (da_stored os) bytes) @ [Rename (path @ ''.tmp'') path]"
  by (auto simp: write_state_def fill_def Let_def min_def split: if_splits)

lemma take_snoc_cases: "take k (xs @ [x]) = take k xs \<or> take k (xs @ [x]) = xs @ [x]"
  by (cases "k \<le> length xs") auto

lemma save_prefix:
  assumes "p \<noteq> path @ ''.tmp''"
  shows "fold disk_step (take k (fst (write_state os path bytes))) d p = d p \<or>
    p = path \<and> snd (write_state os path bytes) = Inr () \<and>
    fold disk_step (take k (fst (write_state os path bytes))) d path = Some (take (da_stored os) bytes)"
proof (cases "snd (write_state os path bytes)")
  case (Inl e)
  then have "fst (write_state os path bytes) = [] \<or> fst (write_state os path bytes) = fill (path @ ''.tmp'') (take (da_stored os) bytes)"
    using write_state_cases [of os path bytes] by simp
  then show ?thesis using assms by (auto intro!: disk_steps_other dest!: in_set_takeD fill_touches)
next
  case (Inr u)
  then have saved: "snd (write_state os path bytes) = Inr ()"
    "fst (write_state os path bytes) = fill (path @ ''.tmp'') (take (da_stored os) bytes) @ [Rename (path @ ''.tmp'') path]"
    using write_state_cases [of os path bytes] by simp_all
  let ?tmp = "path @ ''.tmp''" and ?bs = "take (da_stored os) bytes"
  have quiet: "fold disk_step (take k (fill ?tmp ?bs)) d p = d p"
    using assms by (auto intro!: disk_steps_other dest!: in_set_takeD fill_touches)
  have whole: "fold disk_step (fill ?tmp ?bs @ [Rename ?tmp path]) d = d(?tmp := None, path \<mapsto> ?bs)"
    by (simp add: fill_result fun_upd_twist)
  from take_snoc_cases [of k "fill ?tmp ?bs" "Rename ?tmp path"] show ?thesis
  proof
    assume "take k (fill ?tmp ?bs @ [Rename ?tmp path]) = take k (fill ?tmp ?bs)"
    then show ?thesis using quiet saved(2) by simp
  next
    assume "take k (fill ?tmp ?bs @ [Rename ?tmp path]) = fill ?tmp ?bs @ [Rename ?tmp path]"
    then show ?thesis using whole saved(1,2) assms by (cases "p = path") simp_all
  qed
qed

section \<open>Properties\<close>

text \<open>
  What a client of the state file may observe: outside the temporary file the disk is as before, or
  exactly the target was replaced.
\<close>

definition atomic_replace :: "string \<Rightarrow> bytes \<Rightarrow> disk \<Rightarrow> disk \<Rightarrow> bool" where
  "atomic_replace path bytes d d' \<longleftrightarrow>
     (\<forall>p. p \<noteq> path @ ''.tmp'' \<longrightarrow> d' p = d p) \<or> (\<forall>p. p \<noteq> path @ ''.tmp'' \<longrightarrow> d' p = (d(path \<mapsto> bytes)) p)"

text \<open>
  Property C16. Saving refines an atomic replacement of the state file. Whatever the operating system
  answers, and wherever a crash of the process cuts the operations off, every file but the temporary one is as it
  was, or only the state file was replaced, by what the operating system stored of the new state; when
  \<^verbatim>\<open>save_file\<close> throws, the old state is still there, and when it returns, the state file holds what was stored. That
  is the complete new state if the temporary file could be opened again, since only then is its size checked.
\<close>

theorem save_file_atomic:
  fixes path :: string and os :: disk_answers
  assumes "save R g = (Inr bytes, g')"
  defines "ops \<equiv> fst (write_state os path bytes)" and "stored \<equiv> take (da_stored os) bytes"
  shows "(\<exists>r. save_file R os path g d = (r, g', fold disk_step ops d) \<and>
       (r = Inr () \<longrightarrow> fold disk_step ops d path = Some stored \<and> (da_reopen os \<longrightarrow> stored = bytes)) \<and>
       (r \<noteq> Inr () \<longrightarrow> (\<forall>p. p \<noteq> path @ ''.tmp'' \<longrightarrow> fold disk_step ops d p = d p))) \<and>
    atomic_replace path stored d (fold disk_step (take k ops) d)"
proof -
  let ?r = "snd (write_state os path bytes)"
  have full: "stored = bytes" if "?r = Inr ()" "da_reopen os"
    using that write_state_cases [of os path bytes] by (auto simp: stored_def)
  have pre: "fold disk_step (take k ops) d p = d p \<or>
      p = path \<and> ?r = Inr () \<and> fold disk_step (take k ops) d path = Some stored" if "p \<noteq> path @ ''.tmp''" for p k
    using save_prefix [OF that, of k os bytes d] by (auto simp: ops_def stored_def)
  have "save_file R os path g d = (?r, g', fold disk_step ops d)"
    using assms(1) by (simp add: save_file_def ops_def split: prod.split)
  moreover have "fold disk_step ops d path = Some stored" if "?r = Inr ()"
    using that write_state_cases [of os path bytes] by (auto simp: ops_def stored_def fill_result)
  moreover have "fold disk_step ops d p = d p" if "?r \<noteq> Inr ()" "p \<noteq> path @ ''.tmp''" for p
    using pre [OF that(2), of "length ops"] that(1) by auto
  moreover have "atomic_replace path stored d (fold disk_step (take k ops) d)"
  proof (cases "fold disk_step (take k ops) d path = Some stored")
    case True
    then show ?thesis using pre by (fastforce simp: atomic_replace_def)
  next
    case False
    then show ?thesis using pre by (fastforce simp: atomic_replace_def)
  qed
  ultimately show ?thesis using full by blast
qed

definition demo_answers :: disk_answers where
  "demo_answers = \<lparr>da_open = True, da_write = True, da_flush = True, da_stored = 2 ^ 30, da_reopen = True, da_rename = True\<rparr>"

text \<open>What the governor of the witnesses saves.\<close>

definition demo_rsnap :: ResourceSnapshot where
  "demo_rsnap = \<lparr>rn_id = demo_rid, rn_class = GenericTransport, rn_source = [], rn_destination = [],
     rn_direction = Unidirectional, rn_nominal = Capacity (Fin 1000), rn_measured = Capacity f0,
     rn_governed = Capacity (Fin 1000), rn_reserved = Capacity f0, rn_allocated = Capacity (Fin 250),
     rn_instantaneous_util = Fin (1 / 4), rn_moving_average_util = f0, rn_queue_depth = 0, rn_saturated = False,
     rn_measured_latency_ms = Fin (- 1), rn_confidence = f0, rn_provenance = [], rn_staleness_ms = f0,
     rn_staleness_threshold_ms = Fin 2000, rn_capacity_generation = fresh_generation 5, rn_health = Healthy,
     rn_enabled = True\<rparr>"

definition demo_saved :: GovernorSnapshot where
  "demo_saved = demo_snap\<lparr>gs_tenants := [], gs_coordinator := Id128 0 2, gs_epoch := fresh_generation 3,
     gs_capacity_generation := fresh_generation 4, gs_resource_state := [(demo_rid, demo_rsnap)],
     gs_flows := map (fn_bytes_transferred_update (\<lambda>_. 0)) (gs_flows demo_snap)\<rparr>"

lemma demo_built: "build_snapshot (\<lambda>x. x) demo_gov = (Inr demo_saved, demo_gov)"
  by (simp add: build_snapshot_def to_resource_snap_def resource_snap_def to_flow_snap_def demo_defs ResRT_default_def
      ResourceSpec_default_def now_def now_next_def Capacity_make_def is_valid_rate_iff fmax_def demo_saved_def demo_snap_def
      demo_rsnap_def GovernorSnapshot_default_def policy_window_def PolicyConfig_default_def kFormatVersion_def Let_def
      feq_def fl_def dbl_max_def fclamp_def)

lemma storable_quarter: "storable (Fin (1 / 4))" "storable (Fin (- 1))"
proof -
  have "rne64 (1 / 4) = 1 / 4" using ieee.R_grid [of 1 "- 2"] by (simp add: grid64_def)
  moreover have "(1 / 4 :: rat) \<le> dbl_max" by (simp add: dbl_max_def)
  ultimately show "storable (Fin (1 / 4))" by (intro storable_Fin) simp_all
  show "storable (Fin (- 1))" using storable_int [of "- 1"] by simp
qed

lemma demo_rsnap_storable: "rsnap_storable demo_rsnap"
  by (simp add: rsnap_storable_def demo_rsnap_def storable_literals storable_quarter enum_ok_def cap_storable_def valid_cap_def
      is_valid_rate_iff short_def valid_resource_class_def valid_direction_def valid_health_def ResourceClass_cast_def
      Directionality_cast_def ResourceHealth_cast_def)

lemma demo_saved_storable: "snap_storable demo_saved"
  using demo_snap_storable demo_rsnap_storable
  by (simp add: snap_storable_def demo_saved_def demo_snap_def GovernorSnapshot_default_def keyed_def flow_storable_def
      demo_rsnap_def)

lemma demo_saved_size: "encode_snapshot demo_saved = Inr bs \<Longrightarrow> bs \<noteq> [] \<and> length bs \<le> 2 ^ 30"
  by (auto simp: encode_snapshot_def encode_payload_def demo_saved_def demo_snap_def demo_rsnap_def GovernorSnapshot_default_def
      writer_defs write_resource_snapshot_def demo_defs ResourceSpec_default_def kEnvelopeMagic_def rbind_eq_Inr_iff)

lemma demo_saves: "\<exists>bs. save (\<lambda>x. x) demo_gov = (Inr bs, demo_gov) \<and> encode_snapshot demo_saved = Inr bs"
  using snapshot_back [OF demo_saved_storable] by (auto simp: save_def demo_built)

theorem save_file_atomic_witness:
  "\<exists>bs. save (\<lambda>x. x) demo_gov = (Inr bs, demo_gov) \<and>
     atomic_replace ''state'' (take (da_stored demo_answers) bs) Map.empty
       (fold disk_step (take 9 (fst (write_state demo_answers ''state'' bs))) Map.empty)"
proof -
  obtain bs where "save (\<lambda>x. x) demo_gov = (Inr bs, demo_gov)" using demo_saves by blast
  then show ?thesis using save_file_atomic by blast
qed

text \<open>
  Property C27. What was saved is loaded, when the state can be stored (no NaN, strings and lists within the
  bounds of the format, at most \<open>2 ^ 30\<close> bytes) and the temporary file could be opened again: after a successful \<^verbatim>\<open>save_file\<close>, \<^verbatim>\<open>load_file\<close> of the same path
  (of a file that can be read) restores the snapshot that was taken, into any governor, up to the worker assignments, which the
  format leaves out.
\<close>

theorem save_file_load_file:
  assumes "build_snapshot R g = (Inr s, g')" "snap_storable s" "\<And>bs. encode_snapshot s = Inr bs \<Longrightarrow> length bs \<le> 2 ^ 30"
    and "da_reopen os" "save_file R os path g d = (Inr (), g', d')"
  shows "load_file R' True path d' h = (Inr (), restore R' (snap_stored s) h)"
proof -
  obtain bs where bs: "encode_snapshot s = Inr bs" "decode_snapshot bs = Inr (snap_stored s)"
    using snapshot_back [OF assms(2)] assms(3) by blast
  then have "save R g = (Inr bs, g')" using assms(1) by (simp add: save_def)
  then have ws: "write_state os path bs = (fst (write_state os path bs), Inr ())"
    "d' = fold disk_step (fst (write_state os path bs)) d"
    using assms(5) by (auto simp: save_file_def split: prod.splits)
  then have "d' path = Some (take (da_stored os) bs)" "take (da_stored os) bs = bs"
    using write_state_cases [of os path bs] assms(4) by (auto simp: fill_result)
  moreover have "bs \<noteq> []" using decode_accepted(2) [OF bs(2)] by auto
  ultimately show ?thesis using bs(2) by (simp add: load_file_def load_def)
qed

theorem save_file_load_file_witness:
  "\<exists>d'. save_file (\<lambda>x. x) demo_answers ''state'' demo_gov Map.empty = (Inr (), demo_gov, d') \<and>
     load_file (\<lambda>x. x) True ''state'' d' demo_gov = (Inr (), restore (\<lambda>x. x) (snap_stored demo_saved) demo_gov)"
proof -
  obtain bs where bs: "save (\<lambda>x. x) demo_gov = (Inr bs, demo_gov)" "encode_snapshot demo_saved = Inr bs"
    using demo_saves by blast
  have "length bs \<le> 2 ^ 30" using demo_saved_size [OF bs(2)] by simp
  then obtain d' where d': "save_file (\<lambda>x. x) demo_answers ''state'' demo_gov Map.empty = (Inr (), demo_gov, d')"
    using bs(1) by (auto simp: save_file_def write_state_def demo_answers_def Let_def)
  moreover have "da_reopen demo_answers" by (simp add: demo_answers_def)
  ultimately show ?thesis
    using save_file_load_file [OF demo_built demo_saved_storable _ _ d'] demo_saved_size by blast
qed

end
