(* ===== verification/Transport.thy ===== *)
theory Transport
  imports State_Files Wire_Frames
begin

text \<open>
  The transport of \<^verbatim>\<open>src/transport.cpp\<close>: whole messages over a byte stream, and the coordinator server
  with its connection handler and its scheduler.

  The operating system is a parameter. What a socket will receive is the list of segments that \<^verbatim>\<open>recv\<close>
  finds, one after the other; an empty segment or the end of the list is the answer 0 or an error, after
  which the stream is over. What \<^verbatim>\<open>send\<close> answers is a list of numbers. A connection is a number that
  identifies its \<^verbatim>\<open>Conn\<close> object. Every call of the governor holds its mutex and is atomic. Here the
  handler of one message and one pass of the scheduler are functions; the theory Coordinator composes the
  same steps with the other threads in between. The
  write mutex of a connection makes a frame on a stream atomic, so the frames sent on a connection are a
  list.
\<close>

section \<open>Streams\<close>

fun recv_exact :: "nat \<Rightarrow> bytes list \<Rightarrow> bytes option \<times> bytes list" where
  "recv_exact n [] = (if n = 0 then Some [] else None, [])"
| "recv_exact n (c # cs) =
     (if n = 0 then (Some [], c # cs)
      else if c = [] then (None, cs)
      else if length c \<le> n
      then (case recv_exact (n - length c) cs of (r, cs) \<Rightarrow> (map_option (\<lambda>bs. c @ bs) r, cs))
      else (Some (take n c), drop n c # cs))"

fun send_all :: "bytes \<Rightarrow> int list \<Rightarrow> bool \<times> bytes" where
  "send_all data [] = (data = [], [])"
| "send_all data (sent # answers) =
     (if data = [] then (True, [])
      else if sent \<le> 0 then (False, [])
      else (case send_all (drop (nat sent) data) answers of (ok, out) \<Rightarrow> (ok, take (nat sent) data @ out)))"

section \<open>Frames on a stream\<close>

definition send_frame :: "WireType \<Rightarrow> bytes \<Rightarrow> int list \<Rightarrow> bool \<times> bytes" where
  "send_frame type payload answers = send_all (encode_frame type payload) answers"

definition kMaxFrame :: u32 where "kMaxFrame = push_bit 28 1"

definition read_header :: "(u32 \<times> u32 \<times> u32 \<times> u32) reader" where
  "read_header = rd_bind src_u32 (\<lambda>magic. rd_bind src_u32 (\<lambda>ver. rd_bind src_u32 (\<lambda>type. rd_bind src_u32 (\<lambda>len.
     rd_return (magic, ver, type, len)))))"

definition recv_body :: "u32 \<Rightarrow> u32 \<Rightarrow> bytes list \<Rightarrow> DecodedFrame option result \<times> bytes list" where
  "recv_body type len cs =
     (case recv_exact (unat len) cs of
        (None, cs) \<Rightarrow> (Inr None, cs)
      | (Some payload, cs) \<Rightarrow>
          (case recv_exact 4 cs of
             (None, cs) \<Rightarrow> (Inr None, cs)
           | (Some crcb, cs) \<Rightarrow>
               (rbind (src_u32 crcb) (\<lambda>(crc, _).
                  if crc \<noteq> frame_crc (crc_hdr type len) payload
                  then Inl (value_error ''wire frame checksum mismatch on stream'')
                  else Inr (Some \<lparr>df_type = WireType_cast type, df_payload = payload\<rparr>)), cs)))"

definition recv_frame :: "bytes list \<Rightarrow> DecodedFrame option result \<times> bytes list" where
  "recv_frame cs =
     (case recv_exact 16 cs of
        (None, cs) \<Rightarrow> (Inr None, cs)
      | (Some hdr, cs) \<Rightarrow>
          (case read_header hdr of
             Inl e \<Rightarrow> (Inl e, cs)
           | Inr ((magic, ver, type, len), _) \<Rightarrow>
               if magic \<noteq> kWireMagic then (Inl (value_error ''bad wire magic on stream''), cs)
               else if ver \<noteq> kWireVersion then (Inl (value_error ''bad wire version on stream''), cs)
               else if kMaxFrame < len then (Inl (value_error ''wire frame too large''), cs)
               else recv_body type len cs))"

section \<open>The connection handler\<close>

record server =
  sv_gov :: gov
  sv_workers :: "(WorkerId, nat) umap"
  sv_dispatched :: "(FlowId, AttemptId) umap"
  sv_disk :: disk

text \<open>\<^verbatim>\<open>e.what()\<close>.\<close>

fun error_what :: "error \<Rightarrow> string" where
  "error_what (plain_error msg) = msg"
| "error_what (value_error msg) = msg"
| "error_what (authority_error msg) = msg"
| "error_what (transition_error msg) = msg"

type_synonym frames = "(WireType \<times> bytes) list"

definition reply :: "WireType \<Rightarrow> writer \<Rightarrow> frames result" where
  "reply t w = rbind w (\<lambda>bs. Inr [(t, bs)])"

definition respond :: "bytes \<Rightarrow> frames result" where
  "respond body = reply Response (encode_response \<lparr>ps_ok = True, ps_message = [], ps_body = body\<rparr>)"

text \<open>
  The registration of a worker in the steps of the source: the governor registers it, the connection is published
  in \<^verbatim>\<open>workers_\<close>, and the acknowledgement is built and sent.
\<close>

definition admit_worker :: "(rat \<Rightarrow> rat) \<Rightarrow> bytes \<Rightarrow> gov \<Rightarrow> WorkerId result \<times> gov" where
  "admit_worker R body g =
     (case decode_register body of
        Inl e \<Rightarrow> (Inl e, g)
      | Inr reg \<Rightarrow>
          (case register_worker R \<lparr>wr_worker = pr_worker reg, wr_boot = pr_boot reg, wr_inventory = pr_inventory reg,
                  wr_protocol_version = pr_protocol reg, wr_backend = pr_backend reg\<rparr> g of
             (Inl e, g) \<Rightarrow> (Inl e, g)
           | (Inr _, g) \<Rightarrow> (Inr (pr_worker reg), g)))"

definition publish_worker :: "nat \<Rightarrow> WorkerId \<Rightarrow> server \<Rightarrow> server" where
  "publish_worker conn w sv = sv\<lparr>sv_workers := AList.update w conn (AList.delete w (sv_workers sv))\<rparr>"

definition registration_ack :: "gov \<Rightarrow> frames result" where
  "registration_ack g =
     reply RegisterAck (encode_register_ack
       \<lparr>pa_ok = True, pa_coordinator = g_coordinator g, pa_epoch = g_epoch g,
        pa_generation = g_capacity_generation g, pa_reason = []\<rparr>)"

definition handle_register :: "(rat \<Rightarrow> rat) \<Rightarrow> nat \<Rightarrow> bytes \<Rightarrow> server \<Rightarrow> frames result \<times> server" where
  "handle_register R conn body sv =
     (case admit_worker R body (sv_gov sv) of
        (Inl e, g) \<Rightarrow> (Inl e, sv\<lparr>sv_gov := g\<rparr>)
      | (Inr w, g) \<Rightarrow> (registration_ack g, publish_worker conn w (sv\<lparr>sv_gov := g\<rparr>)))"

definition handle_submit :: "(rat \<Rightarrow> rat) \<Rightarrow> bytes \<Rightarrow> gov \<Rightarrow> frames result \<times> gov" where
  "handle_submit R body g =
     (case decode_flow_spec body of
        Inl e \<Rightarrow> (Inl e, g)
      | Inr spec \<Rightarrow>
          (case submit_flow R spec g of
             (Inl e, g) \<Rightarrow> (Inl e, g)
           | (Inr r, g) \<Rightarrow>
               (reply SubmitAck (encode_admission
                  \<lparr>aw_admitted = ad_admitted r, aw_flow = spec, aw_decision = ad_decision r,
                   aw_reservation = ad_reservation r\<rparr>), g)))"

definition handle_progress :: "bytes \<Rightarrow> gov \<Rightarrow> frames result \<times> gov" where
  "handle_progress body g =
     (case decode_report body of
        Inl e \<Rightarrow> (Inl e, g)
      | Inr rep \<Rightarrow>
          (case report_progress (pt_flow rep) (pt_attempt rep) (pt_fgen rep) (pt_boot rep) (pt_bytes rep) g of
             (ok, g) \<Rightarrow> (reply Ack (encode_ack \<lparr>pk_ok = ok, pk_reason = []\<rparr>), g)))"

definition handle_completion :: "(rat \<Rightarrow> rat) \<Rightarrow> bytes \<Rightarrow> gov \<Rightarrow> frames result \<times> gov" where
  "handle_completion R body g =
     (case decode_report body of
        Inl e \<Rightarrow> (Inl e, g)
      | Inr rep \<Rightarrow>
          (case report_completion R (pt_flow rep) (pt_attempt rep) (pt_fgen rep) (pt_boot rep) (pt_bytes rep) g of
             (Inl e, g) \<Rightarrow> (Inl e, g)
           | (Inr ok, g) \<Rightarrow> (reply Ack (encode_ack \<lparr>pk_ok = ok, pk_reason = []\<rparr>), g)))"

definition handle_query_resources :: "(rat \<Rightarrow> rat) \<Rightarrow> gov \<Rightarrow> frames result \<times> gov" where
  "handle_query_resources R g =
     (case list_resources R g of (r, g) \<Rightarrow> (rbind (rbind r encode_resource_snapshot) respond, g))"

definition handle_query_flows :: "gov \<Rightarrow> frames result" where
  "handle_query_flows g = rbind (rbind (list_flows g) encode_flow_snapshot) respond"

definition handle_query_reservations :: "gov \<Rightarrow> frames result" where
  "handle_query_reservations g = rbind (encode_reservation_snapshot (list_reservations g)) respond"

definition handle_snapshot :: "(rat \<Rightarrow> rat) \<Rightarrow> gov \<Rightarrow> frames result \<times> gov" where
  "handle_snapshot R g = (case save R g of (r, g) \<Rightarrow> (rbind r respond, g))"

definition kStateFile :: string where "kStateFile = ''bandwidth.entity''"

definition handle_save :: "(rat \<Rightarrow> rat) \<Rightarrow> disk_answers \<Rightarrow> server \<Rightarrow> frames result \<times> server" where
  "handle_save R os sv =
     (case save_file R os kStateFile (sv_gov sv) (sv_disk sv) of
        (r, g, d) \<Rightarrow> (rbind r (\<lambda>_. respond []), sv\<lparr>sv_gov := g, sv_disk := d\<rparr>))"

definition handle_load :: "(rat \<Rightarrow> rat) \<Rightarrow> bool \<Rightarrow> server \<Rightarrow> frames result \<times> server" where
  "handle_load R readable sv =
     (case load_file R readable kStateFile (sv_disk sv) (sv_gov sv) of
        (r, g) \<Rightarrow> (rbind r (\<lambda>_. respond []), sv\<lparr>sv_gov := g\<rparr>))"

text \<open>The \<^verbatim>\<open>switch\<close> over the type. Messages the coordinator does not expect are ignored.\<close>

definition on_gov :: "(gov \<Rightarrow> frames result \<times> gov) \<Rightarrow> server \<Rightarrow> frames result \<times> server" where
  "on_gov h sv = (case h (sv_gov sv) of (r, g) \<Rightarrow> (r, sv\<lparr>sv_gov := g\<rparr>))"

definition handle_request ::
    "(rat \<Rightarrow> rat) \<Rightarrow> disk_answers \<Rightarrow> bool \<Rightarrow> nat \<Rightarrow> DecodedFrame \<Rightarrow> server \<Rightarrow> frames result \<times> server" where
  "handle_request R os readable conn fr sv =
     (let body = df_payload fr
      in case df_type fr of
           Register \<Rightarrow> handle_register R conn body sv
         | SubmitFlow \<Rightarrow> on_gov (handle_submit R body) sv
         | Progress \<Rightarrow> on_gov (handle_progress body) sv
         | Completion \<Rightarrow> on_gov (handle_completion R body) sv
         | QueryResources \<Rightarrow> on_gov (handle_query_resources R) sv
         | QueryFlows \<Rightarrow> (handle_query_flows (sv_gov sv), sv)
         | QueryReservations \<Rightarrow> (handle_query_reservations (sv_gov sv), sv)
         | Snapshot \<Rightarrow> on_gov (handle_snapshot R) sv
         | Save \<Rightarrow> handle_save R os sv
         | Load \<Rightarrow> handle_load R readable sv
         | _ \<Rightarrow> (Inr [], sv))"

text \<open>The \<^verbatim>\<open>catch\<close>: an exception becomes a negative acknowledgement.\<close>

text \<open>The \<^verbatim>\<open>catch\<close> block: a negative acknowledgement with the text of the exception.\<close>

definition nack :: "frames result \<Rightarrow> frames result" where
  "nack r = (case r of
     Inr out \<Rightarrow> Inr out
   | Inl e \<Rightarrow> reply Ack (encode_ack \<lparr>pk_ok = False, pk_reason = error_what e\<rparr>))"

definition handle_frame ::
    "(rat \<Rightarrow> rat) \<Rightarrow> disk_answers \<Rightarrow> bool \<Rightarrow> nat \<Rightarrow> DecodedFrame \<Rightarrow> server \<Rightarrow> frames result \<times> server" where
  "handle_frame R os readable conn fr sv =
     (case handle_request R os readable conn fr sv of (r, sv) \<Rightarrow> (nack r, sv))"

definition unregister_connection :: "WorkerId \<Rightarrow> server \<Rightarrow> server" where
  "unregister_connection w sv = sv\<lparr>sv_workers := AList.delete w (sv_workers sv)\<rparr>"

definition disconnect :: "nat \<Rightarrow> server \<Rightarrow> server" where
  "disconnect conn sv = sv\<lparr>sv_workers := filter (\<lambda>(w, c). c \<noteq> conn) (sv_workers sv)\<rparr>"

text \<open>
  The loop of a connection: frames are handled until the stream ends or is damaged, then the connection
  is forgotten. \<open>os k\<close> and \<open>rd k\<close> are what the operating system answers to the file operations of the
  \<open>k\<close>-th frame. An exception out of the \<^verbatim>\<open>catch\<close> block would end the process.
\<close>

lemma recv_exact_Some: "recv_exact n cs = (Some bs, cs') \<Longrightarrow> concat cs = bs @ concat cs' \<and> length bs = n"
proof (induction n cs arbitrary: bs cs' rule: recv_exact.induct)
  case (2 n c cs)
  show ?case
  proof (cases "n \<noteq> 0 \<and> c \<noteq> [] \<and> length c \<le> n")
    case True
    obtain r cs'' where r: "recv_exact (n - length c) cs = (r, cs'')" by fastforce
    then obtain b where "r = Some b" "bs = c @ b" "cs' = cs''" using 2(2) True by auto
    then show ?thesis using 2(1) True r by simp
  next
    case False
    then show ?thesis using 2(2) by (auto split: if_splits)
  qed
qed (auto split: if_splits)

lemma recv_body_Some: "recv_body type len cs = (Inr (Some fr), cs') \<Longrightarrow> length (concat cs') \<le> length (concat cs)"
  by (auto simp: recv_body_def split: prod.splits option.splits dest!: recv_exact_Some)

lemma recv_frame_Some: "recv_frame cs = (Inr (Some fr), cs') \<Longrightarrow> length (concat cs') < length (concat cs)"
  by (auto simp: recv_frame_def split: prod.splits option.splits sum.splits if_splits dest!: recv_exact_Some recv_body_Some)

function handle_connection ::
    "(rat \<Rightarrow> rat) \<Rightarrow> (nat \<Rightarrow> disk_answers) \<Rightarrow> (nat \<Rightarrow> bool) \<Rightarrow> nat \<Rightarrow> nat \<Rightarrow> bytes list \<Rightarrow> server \<Rightarrow> frames result \<times> server" where
  "handle_connection R os rd conn k cs sv =
     (case recv_frame cs of
        (Inr (Some fr), cs) \<Rightarrow>
          (case handle_frame R (os k) (rd k) conn fr sv of
             (Inl e, sv) \<Rightarrow> (Inl e, sv)
           | (Inr out, sv) \<Rightarrow>
               (case handle_connection R os rd conn (Suc k) cs sv of
                  (r, sv) \<Rightarrow> (rbind r (\<lambda>more. Inr (out @ more)), sv)))
      | _ \<Rightarrow> (Inr [], disconnect conn sv))"
  by pat_completeness auto
termination
  by (relation "measure (\<lambda>(R, os, rd, conn, k, cs, sv). length (concat cs))") (auto dest!: recv_frame_Some [OF sym])

declare handle_connection.simps [simp del]

section \<open>The scheduler\<close>

type_synonym sends = "(nat \<times> WireType \<times> bytes) list"

definition dispatch_of :: "FlowSnapshot \<Rightarrow> ReservationId \<Rightarrow> payload_Dispatch" where
  "dispatch_of f rid =
     \<lparr>pd_flow = fn_spec f, pd_attempt = fs_attempt (fn_spec f), pd_fgen = fs_generation (fn_spec f),
      pd_boot = fn_assigned_boot f, pd_grant = fn_granted f, pd_reservation = rid\<rparr>"

definition grant_of :: "FlowSnapshot \<Rightarrow> payload_Grant" where
  "grant_of f =
     \<lparr>pg_flow = fs_id (fn_spec f), pg_attempt = fs_attempt (fn_spec f), pg_fgen = fs_generation (fn_spec f),
      pg_boot = fn_assigned_boot f, pg_grant = fn_granted f\<rparr>"

text \<open>The connection to which a flow's messages go, with the flow's reservation, if there is one.\<close>

definition target :: "gov \<Rightarrow> (WorkerId, nat) umap \<Rightarrow> FlowSnapshot \<Rightarrow> (nat \<times> ReservationId) option" where
  "target g workers f =
     (if fn_state f \<noteq> Running then None
      else case (fn_assigned_worker f, fn_reservation f) of
             (Some w, Some rid) \<Rightarrow>
               if reservation_query rid g = None then None
               else map_option (\<lambda>conn. (conn, rid)) (map_of workers w)
           | _ \<Rightarrow> None)"

definition send_flow ::
    "FlowSnapshot \<Rightarrow> ReservationId \<Rightarrow> nat \<Rightarrow> (FlowId, AttemptId) umap \<Rightarrow> (sends \<times> (FlowId, AttemptId) umap) result" where
  "send_flow f rid conn disp =
     (if map_of disp (fs_id (fn_spec f)) \<noteq> Some (fs_attempt (fn_spec f))
      then rbind (encode_dispatch (dispatch_of f rid)) (\<lambda>bs.
             Inr ([(conn, FlowDispatch, bs)], AList.update (fs_id (fn_spec f)) (fs_attempt (fn_spec f)) disp))
      else rbind (encode_grant (grant_of f)) (\<lambda>bs. Inr ([(conn, FlowGrant, bs)], disp)))"

definition dispatch_flow ::
    "gov \<Rightarrow> (WorkerId, nat) umap \<Rightarrow> FlowSnapshot \<Rightarrow> (FlowId, AttemptId) umap \<Rightarrow> (sends \<times> (FlowId, AttemptId) umap) result" where
  "dispatch_flow g workers f disp =
     (case target g workers f of
        None \<Rightarrow> Inr ([], disp)
      | Some (conn, rid) \<Rightarrow> send_flow f rid conn disp)"

fun dispatch_loop ::
    "gov \<Rightarrow> (WorkerId, nat) umap \<Rightarrow> FlowSnapshot list \<Rightarrow> (FlowId, AttemptId) umap \<Rightarrow> (sends \<times> (FlowId, AttemptId) umap) result" where
  "dispatch_loop g workers [] disp = Inr ([], disp)"
| "dispatch_loop g workers (f # fs) disp =
     rbind (dispatch_flow g workers f disp) (\<lambda>(out, disp).
     rbind (dispatch_loop g workers fs disp) (\<lambda>(more, disp). Inr (out @ more, disp)))"

definition prune_dispatched :: "FlowSnapshot list \<Rightarrow> (FlowId, AttemptId) umap \<Rightarrow> (FlowId, AttemptId) umap" where
  "prune_dispatched flows disp =
     (let running_ids = map (fs_id \<circ> fn_spec) (filter (\<lambda>f. fn_state f = Running) flows)
      in filter (\<lambda>(fid, _). fid \<in> set running_ids) disp)"

text \<open>
  One round of \<^verbatim>\<open>scheduler_loop\<close> without an interruption; the rounds in which the other threads take steps
  between the calls are in the theory Coordinator. The exceptions of \<^verbatim>\<open>tick\<close> are swallowed; one that is thrown behind it
  ends the process and is the error here. \<^const>\<open>None\<close> would be a tick that never returns.
\<close>

definition scheduler_pass :: "(rat \<Rightarrow> rat) \<Rightarrow> server \<Rightarrow> (sends result \<times> server) option" where
  "scheduler_pass R sv =
     (case tick R (sv_gov sv) of
        None \<Rightarrow> None
      | Some (_, g) \<Rightarrow>
          let sv = sv\<lparr>sv_gov := g\<rparr>
          in Some (case list_flows g of
                     Inl e \<Rightarrow> (Inl e, sv)
                   | Inr flows \<Rightarrow>
                       (case dispatch_loop g (sv_workers sv) flows (sv_dispatched sv) of
                          Inl e \<Rightarrow> (Inl e, sv)
                        | Inr (out, disp) \<Rightarrow> (Inr out, sv\<lparr>sv_dispatched := prune_dispatched flows disp\<rparr>))))"

end
