(* ===== verification/Transport_Streams.thy ===== *)
theory Transport_Streams
  imports Transport
begin

text \<open>
  Frames over a stream: how the network cuts the bytes into segments does not matter, a receiver gets
  exactly the frames that were sent, and the decoder of the stream accepts the same frames as
  \<^verbatim>\<open>decode_frame\<close>, up to its size limit.
\<close>

section \<open>Segments do not matter\<close>

definition segments :: "bytes list \<Rightarrow> bool" where
  "segments cs \<longleftrightarrow> list_all (\<lambda>c. c \<noteq> []) cs"

lemma recv_exact_enough:
  assumes "segments cs" "concat cs = bs @ rest" "length bs = n"
  shows "\<exists>cs'. recv_exact n cs = (Some bs, cs') \<and> segments cs' \<and> concat cs' = rest"
  using assms
proof (induction n cs arbitrary: bs rest rule: recv_exact.induct)
  case (2 n c cs)
  show ?case
  proof (cases "n \<noteq> 0 \<and> length c \<le> n")
    case True
    have c: "c \<noteq> []" "segments cs" using 2(2) by (simp_all add: segments_def)
    then obtain b where b: "bs = c @ b" "concat cs = b @ rest"
      using 2(3,4) True by (auto simp: append_eq_append_conv2)
    then have "length b = n - length c" using 2(4) by simp
    then obtain cs' where "recv_exact (n - length c) cs = (Some b, cs')" "segments cs'" "concat cs' = rest"
      using 2(1) [of b rest] True c b by blast
    then show ?thesis using True c b by simp
  next
    case False
    have c: "c \<noteq> []" using 2(2) by (simp add: segments_def)
    show ?thesis
    proof (cases "n = 0")
      case True
      then show ?thesis using 2(2-4) by simp
    next
      case n: False
      then have less: "n < length c" using False by simp
      have "take n c = bs" "drop n c @ concat cs = rest"
        using 2(3,4) less by (auto simp: append_eq_append_conv2)
      then show ?thesis using n less c 2(2) by (simp add: segments_def)
    qed
  qed
qed (simp add: segments_def)

section \<open>The decoder of the stream\<close>

lemma read_header_bytes:
  "read_header (u32_bytes a @ u32_bytes b @ u32_bytes c @ u32_bytes d) = Inr ((a, b, c, d), [])"
  by (simp add: read_header_def rd_bind_def rd_return_def)

lemma read_header_Inr:
  "read_header hdr = Inr ((a, b, c, d), rest) \<Longrightarrow> hdr = u32_bytes a @ u32_bytes b @ u32_bytes c @ u32_bytes d @ rest"
  by (auto simp: read_header_def rd_bind_eq_Inr src_u32_Inr rd_return_def)

lemma kMaxFrame_nat: "kMaxFrame < len \<longleftrightarrow> 2 ^ 28 < unat len"
  by (simp add: kMaxFrame_def word_less_nat_alt)

lemma recv_frame_encoded:
  assumes "segments cs" "concat cs = encode_frame (WireType_raw t) payload @ rest" "length payload \<le> 2 ^ 28"
  shows "\<exists>cs'. recv_frame cs = (Inr (Some \<lparr>df_type = WireType_cast t, df_payload = payload\<rparr>), cs') \<and> segments cs' \<and> concat cs' = rest"
proof -
  define len :: u32 where "len = of_nat (length payload)"
  have len: "unat len = length payload" using assms(3) by (simp add: len_def unat_of_nat)
  define hdr crcb where "hdr = u32_bytes kWireMagic @ u32_bytes kWireVersion @ u32_bytes t @ u32_bytes len"
    and "crcb = u32_bytes (frame_crc (crc_hdr t len) payload)"
  have cs: "concat cs = hdr @ payload @ crcb @ rest" using assms(2) by (simp add: encode_frame_def Let_def len_def hdr_def crcb_def)
  obtain c1 where 1: "recv_exact 16 cs = (Some hdr, c1)" "segments c1" "concat c1 = payload @ crcb @ rest"
    using recv_exact_enough [OF assms(1) cs, of 16] by (auto simp: hdr_def)
  obtain c2 where 2: "recv_exact (unat len) c1 = (Some payload, c2)" "segments c2" "concat c2 = crcb @ rest"
    using recv_exact_enough [OF 1(2,3) len [symmetric]] by blast
  obtain c3 where 3: "recv_exact 4 c2 = (Some crcb, c3)" "segments c3" "concat c3 = rest"
    using recv_exact_enough [OF 2(2,3), of 4] by (auto simp: crcb_def)
  have "src_u32 crcb = Inr (frame_crc (crc_hdr t len) payload, [])" by (simp add: crcb_def)
  then have "recv_body t len c1 = (Inr (Some \<lparr>df_type = WireType_cast t, df_payload = payload\<rparr>), c3)"
    using 2 3 by (simp add: recv_body_def)
  moreover have "read_header hdr = Inr ((kWireMagic, kWireVersion, t, len), [])" by (simp add: hdr_def read_header_bytes)
  ultimately have "recv_frame cs = (Inr (Some \<lparr>df_type = WireType_cast t, df_payload = payload\<rparr>), c3)"
    using 1 assms(3) len by (simp add: recv_frame_def kMaxFrame_nat)
  then show ?thesis using 3 by blast
qed

lemma recv_frame_accepted:
  assumes "recv_frame cs = (Inr (Some fr), cs')"
  shows "\<exists>t. concat cs = encode_frame (WireType_raw t) (df_payload fr) @ concat cs' \<and> df_type fr = WireType_cast t \<and>
    length (df_payload fr) \<le> 2 ^ 28"
proof -
  obtain hdr c1 t len rest where 1: "recv_exact 16 cs = (Some hdr, c1)"
    "read_header hdr = Inr ((kWireMagic, kWireVersion, t, len), rest)" "\<not> kMaxFrame < len"
    and body: "recv_body t len c1 = (Inr (Some fr), cs')"
    using assms by (auto simp: recv_frame_def split: prod.splits option.splits sum.splits if_splits)
  obtain payload c2 crcb crc z where 2: "recv_exact (unat len) c1 = (Some payload, c2)" "recv_exact 4 c2 = (Some crcb, cs')"
    "src_u32 crcb = Inr (crc, z)" "crc = frame_crc (crc_hdr t len) payload"
    and fr: "fr = \<lparr>df_type = WireType_cast t, df_payload = payload\<rparr>"
    using body by (auto simp: recv_body_def rbind_eq_Inr_iff split: prod.splits option.splits if_splits)
  note r = recv_exact_Some [OF 1(1)] recv_exact_Some [OF 2(1)] recv_exact_Some [OF 2(2)]
  have "hdr = u32_bytes kWireMagic @ u32_bytes kWireVersion @ u32_bytes t @ u32_bytes len"
    using read_header_Inr [OF 1(2)] r(1) by simp
  moreover have "crcb = u32_bytes crc" using 2(3) r(3) by (simp add: src_u32_Inr)
  moreover have "len = of_nat (length payload)" "length payload \<le> 2 ^ 28"
    using r(2) 1(3) unat_len [of payload len] by (simp_all add: kMaxFrame_nat)
  moreover have "concat cs = hdr @ payload @ crcb @ concat cs'" using r by simp
  ultimately have "concat cs = encode_frame (WireType_raw t) payload @ concat cs'" "length payload \<le> 2 ^ 28"
    unfolding encode_frame_def Let_def 2(4) by simp_all
  then show ?thesis unfolding fr by auto
qed

section \<open>Sending\<close>

lemma send_all_True: "send_all data answers = (True, out) \<Longrightarrow> out = data"
  by (induction data answers arbitrary: out rule: send_all.induct) (auto split: if_splits prod.splits)

lemma send_all_sends:
  assumes "data = [] \<or> list_all (\<lambda>a. 0 < a) answers" "int (length data) \<le> sum_list answers"
  shows "send_all data answers = (True, data)"
  using assms
proof (induction data answers rule: send_all.induct)
  case (2 data sent answers)
  show ?case
  proof (cases "data = []")
    case False
    moreover have "0 \<le> sum_list answers" if "list_all (\<lambda>a. 0 < a) answers"
      using that by (induction answers) auto
    ultimately have "send_all (drop (nat sent) data) answers = (True, drop (nat sent) data)"
      using 2(2,3) by (intro 2(1)) auto
    then show ?thesis using False 2(2) by simp
  qed simp
qed simp

section \<open>Sequences of frames\<close>

inductive receives :: "bytes list \<Rightarrow> DecodedFrame list \<Rightarrow> bytes list \<Rightarrow> bool" where
  none: "receives cs [] cs"
| frame: "recv_frame cs = (Inr (Some fr), cs') \<Longrightarrow> receives cs' frs cs'' \<Longrightarrow> receives cs (fr # frs) cs''"

inductive_cases receives_NilE: "receives cs [] cs'"
inductive_cases receives_ConsE: "receives cs (fr # frs) cs'"

lemma receives_snoc: "receives cs frs cs' \<Longrightarrow> recv_frame cs' = (Inr (Some fr), cs'') \<Longrightarrow> receives cs (frs @ [fr]) cs''"
  by (induction rule: receives.induct) (auto intro: receives.intros)

text \<open>Of two sequences received from the same stream one begins with the other.\<close>

lemma receives_deterministic:
  "receives cs xs c \<Longrightarrow> receives cs ys c' \<Longrightarrow> length xs \<le> length ys \<Longrightarrow> \<exists>zs. ys = xs @ zs \<and> receives c zs c'"
proof (induction arbitrary: ys rule: receives.induct)
  case (frame cs fr cs1 frs c)
  then obtain y ys' where ys: "ys = y # ys'" by (cases ys) auto
  then have "y = fr" "receives cs1 ys' c'" using frame.hyps(1) frame.prems(1) by (auto elim: receives_ConsE)
  then show ?case using frame.IH [of ys'] frame.prems(2) ys by auto
qed auto

text \<open>The frames of a sequence of messages.\<close>

abbreviation frames_of :: "frames \<Rightarrow> DecodedFrame list" where
  "frames_of msgs \<equiv> map (\<lambda>(t, payload). \<lparr>df_type = t, df_payload = payload\<rparr>) msgs"

text \<open>\<open>sent_ok msgs outs\<close>: every message was sent with success, and \<open>outs\<close> are the bytes written.\<close>

definition sent_ok :: "frames \<Rightarrow> bytes list \<Rightarrow> bool" where
  "sent_ok msgs outs \<longleftrightarrow> list_all2 (\<lambda>(t, payload) out. \<exists>answers. send_frame t payload answers = (True, out)) msgs outs \<and>
     list_all (\<lambda>(t, payload). t \<in> set wire_types \<and> length payload \<le> 2 ^ 28) msgs"

lemma sent_frames_received:
  assumes "sent_ok msgs outs" "segments cs" "concat cs = concat outs @ rest"
  shows "\<exists>cs'. receives cs (frames_of msgs) cs' \<and> concat cs' = rest"
proof -
  have "list_all2 (\<lambda>(t, payload) out. \<exists>answers. send_frame t payload answers = (True, out)) msgs outs"
    and "list_all (\<lambda>(t, payload). t \<in> set wire_types \<and> length payload \<le> 2 ^ 28) msgs" using assms(1) by (auto simp: sent_ok_def)
  then show ?thesis using assms(2,3)
  proof (induction arbitrary: cs rule: list_all2_induct)
    case Nil
    then show ?case by (auto intro: receives.none)
  next
    case (Cons m msgs out outs)
    obtain t payload where m: "m = (t, payload)" by fastforce
    have ok: "t \<in> set wire_types" "length payload \<le> 2 ^ 28" using Cons.prems(1) by (simp_all add: m)
    have "out = encode_frame t payload" using Cons.hyps(1) by (auto simp: m send_frame_def dest: send_all_True)
    also have "\<dots> = encode_frame (WireType_raw (WireType_code t)) payload" by (simp add: encode_frame_def)
    finally have "concat cs = encode_frame (WireType_raw (WireType_code t)) payload @ concat outs @ rest"
      using Cons.prems(3) by simp
    from recv_frame_encoded [OF Cons.prems(2) this ok(2)]
    obtain c where c: "recv_frame cs = (Inr (Some \<lparr>df_type = t, df_payload = payload\<rparr>), c)" "segments c" "concat c = concat outs @ rest"
      using WireType_fits [OF ok(1)] by auto
    obtain cs' where "receives c (frames_of msgs) cs'" "concat cs' = rest" using Cons.IH [OF _ c(2,3)] Cons.prems(1) by auto
    then show ?case using receives.frame [OF c(1)] by (auto simp: m)
  qed
qed

section \<open>Properties\<close>

text \<open>
  Property C31. What is sent is received: when every \<^verbatim>\<open>send_frame\<close> of a sequence of messages of named types, with
  payloads of at most \<open>2 ^ 28\<close> bytes, reported success, the receiver gets the same messages in the same order, however the network cut the bytes
  into segments, and the bytes behind them stay on the stream.
\<close>

theorem frames_over_stream:
  assumes "list_all2 (\<lambda>(t, payload) out. \<exists>answers. send_frame t payload answers = (True, out)) msgs outs"
    and "list_all (\<lambda>(t, payload). t \<in> set wire_types \<and> length payload \<le> 2 ^ 28) msgs"
    and "segments cs" "concat cs = concat outs @ rest"
  shows "\<exists>cs'. receives cs (map (\<lambda>(t, payload). \<lparr>df_type = t, df_payload = payload\<rparr>) msgs) cs' \<and> concat cs' = rest"
  using assms by (intro sent_frames_received) (simp_all add: sent_ok_def)

theorem frames_over_stream_witness:
  "\<exists>cs'. receives [encode_frame Progress [1] @ take 5 (encode_frame Completion [2]), drop 5 (encode_frame Completion [2])]
     [\<lparr>df_type = Progress, df_payload = [1]\<rparr>, \<lparr>df_type = Completion, df_payload = [2]\<rparr>] cs' \<and> concat cs' = []"
proof -
  have len: "length (encode_frame t [x]) = 21" for t x by (simp add: encode_frame_def Let_def)
  then have sent: "send_frame t [x] [21] = (True, encode_frame t [x])" for t x
    unfolding send_frame_def by (intro send_all_sends) (simp_all add: len)
  have "length (drop 5 (encode_frame Completion [2])) = 16" "length (encode_frame Progress [1]) = 21" by (simp_all add: len)
  then have "drop 5 (encode_frame Completion [2]) \<noteq> []" "encode_frame Progress [1] \<noteq> []" by force+
  then have "segments [encode_frame Progress [1] @ take 5 (encode_frame Completion [2]), drop 5 (encode_frame Completion [2])]"
    by (simp add: segments_def)
  moreover have "\<exists>answers. send_frame t [x] answers = (True, encode_frame t [x])" for t x using sent by blast
  moreover have "Progress \<in> set wire_types" "Completion \<in> set wire_types" by (simp_all add: wire_types_def)
  ultimately show ?thesis
    using frames_over_stream [of "[(Progress, [1]), (Completion, [2])]" "[encode_frame Progress [1], encode_frame Completion [2]]"
        "[encode_frame Progress [1] @ take 5 (encode_frame Completion [2]), drop 5 (encode_frame Completion [2])]" "[]"]
    by simp
qed

text \<open>
  Property C32. The decoder of the stream and the decoder of a buffer accept the same frames, except
  that the stream has a limit of \<open>2 ^ 28\<close> bytes.
\<close>

theorem stream_decoder_agrees:
  assumes "segments cs"
  shows "(\<exists>cs'. recv_frame cs = (Inr (Some fr), cs') \<and> concat cs' = rest) \<longleftrightarrow>
    (\<exists>bs. concat cs = bs @ rest \<and> decode_frame bs = Inr fr \<and> length (df_payload fr) \<le> 2 ^ 28)"
proof
  assume "\<exists>cs'. recv_frame cs = (Inr (Some fr), cs') \<and> concat cs' = rest"
  then show "\<exists>bs. concat cs = bs @ rest \<and> decode_frame bs = Inr fr \<and> length (df_payload fr) \<le> 2 ^ 28"
    by (fastforce simp: decode_frame_iff dest: recv_frame_accepted)
next
  assume "\<exists>bs. concat cs = bs @ rest \<and> decode_frame bs = Inr fr \<and> length (df_payload fr) \<le> 2 ^ 28"
  then obtain t where "concat cs = encode_frame (WireType_raw t) (df_payload fr) @ rest" "df_type fr = WireType_cast t"
    "length (df_payload fr) \<le> 2 ^ 28" by (auto simp: decode_frame_iff)
  then show "\<exists>cs'. recv_frame cs = (Inr (Some fr), cs') \<and> concat cs' = rest"
    using recv_frame_encoded [OF assms, of t "df_payload fr" rest] by (cases fr) auto
qed

theorem stream_decoder_agrees_witness:
  "(\<exists>cs'. recv_frame [encode_frame Progress [1]] = (Inr (Some \<lparr>df_type = Progress, df_payload = [1]\<rparr>), cs') \<and> concat cs' = []) \<longleftrightarrow>
   (\<exists>bs. concat [encode_frame Progress [1]] = bs @ [] \<and> decode_frame bs = Inr \<lparr>df_type = Progress, df_payload = [1]\<rparr> \<and>
      length (df_payload \<lparr>df_type = Progress, df_payload = [1]\<rparr>) \<le> 2 ^ 28)"
  by (rule stream_decoder_agrees) (simp add: segments_def encode_frame_def Let_def u32_bytes_def)

end
