(* ===== verification/Transport_Server.thy ===== *)
theory Transport_Server
  imports Transport Governor_Life
begin

text \<open>
  The handlers of the coordinator server: whatever a message carries, the governor takes the steps of its
  public operations with validated arguments, or it loads a state. Every request is answered exactly once,
  and an exception becomes a negative answer. The threads that run the handlers are in the theory
  Coordinator.
\<close>

section \<open>What the decoders let through\<close>

context rounding
begin

lemma grid_double:
  assumes "\<bar>i\<bar> < 2 ^ 53" "- 1074 \<le> k" "k \<le> 971"
  shows "is_double R (Fin (of_int i * 2 powi k))"
proof -
  have "R (of_int i * 2 powi k) = of_int i * 2 powi k" using assms by (intro R_grid) (simp add: grid64_def)
  moreover have "\<bar>of_int i :: rat\<bar> \<le> 2 ^ 53 - 1"
  proof -
    have "\<bar>i\<bar> \<le> 2 ^ 53 - 1" using assms(1) by simp
    then have "of_int \<bar>i\<bar> \<le> (of_int (2 ^ 53 - 1) :: rat)" by (simp only: of_int_le_iff)
    then show ?thesis by simp
  qed
  moreover have "(2 :: rat) powi k \<le> 2 ^ 971"
    using powi2_mono [OF assms(3)] by (simp add: power_int_numeral)
  ultimately have "R (of_int i * 2 powi k) = of_int i * 2 powi k" "\<bar>of_int i :: rat\<bar> * 2 powi k \<le> (2 ^ 53 - 1) * 2 ^ 971"
    by (simp, intro mult_mono) simp_all
  then show ?thesis by (simp add: is_double_def dbl_max_def abs_mult)
qed

lemma f64_of_bits_double: "is_double R (f64_of_bits w)"
proof -
  define n E F where "n = unat w" and "E = n div 2 ^ 52 mod 2 ^ 11" and "F = n mod 2 ^ 52"
  have F: "F < 2 ^ 52" and E: "E < 2 ^ 11" by (simp_all add: F_def E_def)
  have pos: "is_double R (Fin (of_nat m * 2 powi k)) \<and> is_double R (Fin (- (of_nat m * 2 powi k)))"
    if "m < 2 ^ 53" "- 1074 \<le> k" "k \<le> 971" for m k
    using grid_double [of "int m" k] grid_double [of "- int m" k] that by simp
  have "is_double R (Fin (of_nat F * 2 powi (- 1074)))" "is_double R (Fin (- (of_nat F * 2 powi (- 1074))))"
    using pos [of F "- 1074"] F by simp_all
  moreover have "is_double R (Fin (of_nat (2 ^ 52 + F) * 2 powi (int E - 1075)))"
      "is_double R (Fin (- (of_nat (2 ^ 52 + F) * 2 powi (int E - 1075))))" if "E \<noteq> 0" "E \<noteq> 2047"
    using pos [of "2 ^ 52 + F" "int E - 1075"] F E that by simp_all
  moreover have "is_double R NaN" "is_double R PInf" "is_double R NInf" by (simp_all add: is_double_def)
  ultimately show ?thesis unfolding f64_of_bits_def Let_def n_def [symmetric] E_def [symmetric] F_def [symmetric]
    by (simp del: of_nat_add of_nat_power of_nat_numeral)
qed

end

text \<open>\<open>gives P r\<close>: every value the reader returns satisfies \<open>P\<close>.\<close>

definition gives :: "('a \<Rightarrow> bool) \<Rightarrow> 'a reader \<Rightarrow> bool" where
  "gives P r \<longleftrightarrow> (\<forall>bs x rest. r bs = Inr (x, rest) \<longrightarrow> P x)"

lemma gives_bind: "gives P r \<Longrightarrow> (\<And>x. P x \<Longrightarrow> gives Q (f x)) \<Longrightarrow> gives Q (rd_bind r f)"
  by (fastforce simp: gives_def rd_bind_eq_Inr)

lemma gives_any: "(\<And>x. gives Q (f x)) \<Longrightarrow> gives Q (rd_bind r f)"
  by (rule gives_bind [where P = "\<lambda>_. True"]) (simp_all add: gives_def)

lemma gives_return: "P x \<Longrightarrow> gives P (rd_return x)"
  by (simp add: gives_def rd_return_def)

lemma gives_repeat: "gives P r \<Longrightarrow> gives (list_all P) (rd_repeat n r)"
  by (induction n) (auto intro!: gives_return gives_bind)

lemma gives_list: "gives P r \<Longrightarrow> gives (list_all P) (r_list r)"
  unfolding r_list_def by (rule gives_any) (rule gives_repeat)

lemma gives_run: "gives P r \<Longrightarrow> run r bs = Inr x \<Longrightarrow> P x"
  by (auto simp: gives_def run_def rbind_eq_Inr_iff)

context rounding
begin

lemma gives_capacity: "gives (\<lambda>c. rate_ok R (cap_value c)) src_capacity"
proof -
  have "gives (is_double R) src_f64"
    using f64_of_bits_double unfolding src_f64_def Let_def
    by (intro gives_any) (simp add: gives_def rd_throw_def rd_return_def)
  then show ?thesis
    unfolding src_capacity_def
    by (rule gives_bind) (auto simp: gives_def rbind_eq_Inr_iff Capacity_make_Inr rate_ok_def)
qed

lemmas gives_intros = gives_bind [OF gives_capacity] gives_any gives_return

lemma gives_spec: "gives (request_ok R) r_spec"
  unfolding r_spec_def by (rule gives_intros | simp add: request_ok_def)+

lemma gives_res: "gives (\<lambda>rs. rate_ok R (cap_value (rs_nominal rs))) r_res"
  unfolding r_res_def by (rule gives_intros | simp)+

lemma decoded_spec: "decode_flow_spec bs = Inr spec \<Longrightarrow> request_ok R spec"
  unfolding decode_flow_spec_def by (rule gives_run [OF gives_spec])

lemma decoded_register:
  "decode_register bs = Inr reg \<Longrightarrow> list_all (\<lambda>rs. rate_ok R (cap_value (rs_nominal rs))) (pr_inventory reg)"
proof -
  have "gives (\<lambda>reg. list_all (\<lambda>rs. rate_ok R (cap_value (rs_nominal rs))) (pr_inventory reg)) r_register"
    unfolding r_register_def
    by (rule gives_any, rule gives_any, rule gives_any, rule gives_any, rule gives_bind [OF gives_list [OF gives_res]])
      (rule gives_return, simp)
  then show "decode_register bs = Inr reg \<Longrightarrow> ?thesis" unfolding decode_register_def by (rule gives_run)
qed

end

section \<open>Moves of a governor\<close>

text \<open>
  A move of a governor is a call of any public operation: a step of \<^const>\<open>gov_step\<close>, or the operation
  that replaces the tables by those of a saved state, \<^verbatim>\<open>restore\<close>, through which \<^verbatim>\<open>load\<close> and \<^verbatim>\<open>load_file\<close> go.
\<close>

inductive gov_move :: "(rat \<Rightarrow> rat) \<Rightarrow> gov \<Rightarrow> gov \<Rightarrow> bool" for R where
  step: "gov_step R g g' \<Longrightarrow> gov_move R g g'"
| restore: "gov_move R g (restore R snap g)"

abbreviation gov_moves :: "(rat \<Rightarrow> rat) \<Rightarrow> gov \<Rightarrow> gov \<Rightarrow> bool" where
  "gov_moves R \<equiv> (gov_move R)\<^sup>*\<^sup>*"

lemma reaches_moves: "gov_reaches R g g' \<Longrightarrow> gov_moves R g g'"
  unfolding gov_reaches_def
proof (induction rule: rtranclp_induct)
  case (step h k)
  then show ?case using gov_move.step [of R h k] by (simp add: rtranclp.rtrancl_into_rtrancl)
qed simp

lemma load_moves: "gov_moves R g (snd (load R bytes g))"
  by (auto simp: load_def intro: gov_move.restore split: sum.split)

lemma load_file_moves: "gov_moves R g (snd (load_file R readable path d g))"
  using load_moves by (auto simp: load_file_def split: option.split)

lemma load_file_unreadable: "snd (load_file R False path d g) = g"
  by (simp add: load_file_def)

section \<open>Queries only read the clock\<close>

lemma reaches_refl [simp]: "gov_reaches R g g"
  by (simp add: gov_reaches_def)

lemma reaches_step: "gov_step R g g' \<Longrightarrow> gov_reaches R g g'"
  by (simp add: gov_reaches_def r_into_rtranclp)

lemma list_resources_loop_reaches: "gov_reaches R g (snd (list_resources_loop R' rs g))"
proof (induction rs arbitrary: g)
  case (Cons r rs)
  obtain st g' where s: "staleness_of R' g r = (st, g')" by fastforce
  then have "gov_reaches R g g'"
    by (auto simp: staleness_of_def intro: reaches_step gov_step.read_clock split: if_splits)
  then show ?case using Cons [of g'] gov_reaches_trans
    by (auto simp: s split: sum.splits prod.splits)
qed simp

lemma list_resources_reaches: "gov_reaches R g (snd (list_resources R' g))"
  using list_resources_loop_reaches [of R g R' "map snd (g_resources g)"]
  by (auto simp: list_resources_def split: prod.splits sum.splits)

lemma save_reaches: "gov_reaches R g (snd (save R' g))"
  by (auto simp: save_def build_snapshot_def Let_def intro: reaches_step gov_step.read_clock split: prod.splits)

lemma save_file_reaches: "save_file R' os path g d = (r, g', d') \<Longrightarrow> gov_reaches R g g'"
  using save_reaches [of R g R'] by (auto simp: save_file_def split: prod.splits sum.splits)

section \<open>The server refines the governor\<close>

lemma on_gov_reaches: "gov_reaches R (sv_gov sv) (snd (h (sv_gov sv))) \<Longrightarrow> gov_reaches R (sv_gov sv) (sv_gov (snd (on_gov h sv)))"
  by (cases "h (sv_gov sv)") (simp add: on_gov_def)

lemma admit_worker_reaches:
  assumes "rounding R"
  shows "gov_reaches R g (snd (admit_worker R body g))"
proof (cases "decode_register body")
  case (Inr reg)
  then have "list_all (\<lambda>rs. rate_ok R (cap_value (rs_nominal rs))) (pr_inventory reg)"
    using rounding.decoded_register [OF assms] by blast
  then have "gov_reaches R g (snd (register_worker R \<lparr>wr_worker = pr_worker reg, wr_boot = pr_boot reg,
      wr_inventory = pr_inventory reg, wr_protocol_version = pr_protocol reg, wr_backend = pr_backend reg\<rparr> g))"
    by (intro reaches_step gov_step.register_worker) simp
  then show ?thesis using Inr by (auto simp: admit_worker_def split: prod.splits sum.splits)
qed (simp add: admit_worker_def)

lemma handle_register_reaches:
  assumes "rounding R"
  shows "gov_reaches R (sv_gov sv) (sv_gov (snd (handle_register R conn body sv)))"
  using admit_worker_reaches [OF assms, of "sv_gov sv" body]
  by (auto simp: handle_register_def publish_worker_def split: prod.splits sum.splits)

lemma handle_submit_reaches:
  assumes "rounding R"
  shows "gov_reaches R g (snd (handle_submit R body g))"
proof (cases "decode_flow_spec body")
  case (Inr spec)
  then have "gov_reaches R g (snd (submit_flow R spec g))"
    using rounding.decoded_spec [OF assms] by (intro reaches_step gov_step.submit_flow) blast
  then show ?thesis using Inr by (auto simp: handle_submit_def split: prod.splits sum.splits)
qed (simp add: handle_submit_def)

lemma handle_reports_reach:
  "gov_reaches R g (snd (handle_progress body g))" "gov_reaches R g (snd (handle_completion R body g))"
proof -
  have "gov_reaches R g (snd (report_progress a b c d n g))" "gov_reaches R g (snd (report_completion R a b c d n g))" for a b c d n
    by (intro reaches_step gov_step.report_progress gov_step.report_completion)+
  then show "gov_reaches R g (snd (handle_progress body g))" "gov_reaches R g (snd (handle_completion R body g))"
    by (auto simp: handle_progress_def handle_completion_def split: sum.splits prod.splits) (metis snd_conv)+
qed

lemma handle_request_reaches:
  assumes "rounding R" "df_type fr = Load \<Longrightarrow> \<not> readable"
  shows "gov_reaches R (sv_gov sv) (sv_gov (snd (handle_request R os readable conn fr sv)))"
proof -
  have "gov_reaches R g (snd (handle_query_resources R g))" "gov_reaches R g (snd (handle_snapshot R g))" for g
    using list_resources_reaches [of R g R] save_reaches [of R g R]
    by (auto simp: handle_query_resources_def handle_snapshot_def split: prod.splits)
  moreover have "gov_reaches R (sv_gov sv) (sv_gov (snd (handle_save R os sv)))"
    using save_file_reaches by (auto simp: handle_save_def split: prod.splits)
  moreover have "df_type fr = Load \<Longrightarrow> gov_reaches R (sv_gov sv) (sv_gov (snd (handle_load R readable sv)))"
    using assms(2) by (auto simp: handle_load_def load_file_def)
  ultimately show ?thesis
    using handle_register_reaches [OF assms(1)] handle_submit_reaches [OF assms(1)] handle_reports_reach
    by (auto simp: handle_request_def Let_def on_gov_reaches split: WireType.splits)
qed

lemma handle_frame_server: "snd (handle_frame R os readable conn fr sv) = snd (handle_request R os readable conn fr sv)"
  by (simp add: handle_frame_def split: prod.split)

lemma handle_frame_moves:
  assumes "rounding R"
  shows "gov_moves R (sv_gov sv) (sv_gov (snd (handle_frame R os readable conn fr sv)))"
proof (cases "df_type fr = Load")
  case True
  then show ?thesis
    using load_file_moves [of R "sv_gov sv" readable kStateFile "sv_disk sv"]
    by (auto simp: handle_frame_server handle_request_def handle_load_def split: prod.splits)
next
  case False
  then show ?thesis by (auto simp: handle_frame_server intro: reaches_moves handle_request_reaches [OF assms])
qed

section \<open>Properties\<close>

definition demo_server :: server where
  "demo_server = \<lparr>sv_gov = life_2, sv_workers = [], sv_dispatched = [], sv_disk = Map.empty\<rparr>"

text \<open>The messages the coordinator answers, and with what.\<close>

definition answer_type :: "WireType \<Rightarrow> WireType option" where
  "answer_type t =
     (if t = Register then Some RegisterAck
      else if t = SubmitFlow then Some SubmitAck
      else if t \<in> {Progress, Completion} then Some Ack
      else if t \<in> {QueryResources, QueryFlows, QueryReservations, Snapshot, Save, Load} then Some Response
      else None)"

lemma reply_Inr: "reply t w = Inr out \<Longrightarrow> \<exists>bs. out = [(t, bs)]"
  by (auto simp: reply_def rbind_eq_Inr_iff)

lemma respond_Inr: "rbind r respond = Inr out \<Longrightarrow> \<exists>bs. out = [(Response, bs)]" "rbind u (\<lambda>_. respond b) = Inr out \<Longrightarrow> \<exists>bs. out = [(Response, bs)]"
  by (auto simp: respond_def rbind_eq_Inr_iff dest: reply_Inr)

lemma request_answered:
  assumes "handle_request R os readable conn fr sv = (Inr out, sv')"
  shows "case answer_type (df_type fr) of None \<Rightarrow> out = [] \<and> sv' = sv | Some t \<Rightarrow> \<exists>bs. out = [(t, bs)]"
  using assms
  by (auto simp: handle_request_def Let_def answer_type_def on_gov_def handle_register_def registration_ack_def handle_submit_def handle_progress_def
      handle_completion_def handle_query_resources_def handle_query_flows_def handle_query_reservations_def handle_snapshot_def
      handle_save_def handle_load_def split: WireType.splits prod.splits sum.splits dest: reply_Inr respond_Inr)

text \<open>
  Property C28. Every request is answered exactly once: with the answer of its kind, or, when decoding
  it or executing it throws, with a negative acknowledgement that carries the text of the exception (as
  long as the text fits into a message). Messages that are no requests are ignored and change
  nothing.
\<close>

theorem every_request_answered:
  assumes "handle_frame R os readable conn fr sv = (r, sv')"
  shows "case answer_type (df_type fr) of
      None \<Rightarrow> r = Inr [] \<and> sv' = sv
    | Some t \<Rightarrow>
        (case fst (handle_request R os readable conn fr sv) of
           Inr _ \<Rightarrow> \<exists>bs. r = Inr [(t, bs)]
         | Inl e \<Rightarrow> short (error_what e) \<longrightarrow>
             (\<exists>bs. r = Inr [(Ack, bs)] \<and> decode_ack bs = Inr \<lparr>pk_ok = False, pk_reason = error_what e\<rparr>))"
proof (cases "handle_request R os readable conn fr sv")
  case (Pair q sv'')
  show ?thesis
  proof (cases q)
    case (Inr out)
    then have "r = Inr out" "sv' = sv''" using assms Pair by (auto simp: handle_frame_def nack_def)
    then show ?thesis using request_answered [of R os readable conn fr sv out sv''] Pair Inr by (auto split: option.splits)
  next
    case (Inl e)
    then have r: "r = reply Ack (encode_ack \<lparr>pk_ok = False, pk_reason = error_what e\<rparr>)"
      using assms Pair by (auto simp: handle_frame_def nack_def)
    have "\<exists>bs. r = Inr [(Ack, bs)] \<and> decode_ack bs = Inr \<lparr>pk_ok = False, pk_reason = error_what e\<rparr>" if "short (error_what e)"
      using ack.received [of "\<lparr>pk_ok = False, pk_reason = error_what e\<rparr>" "[]"] that by (auto simp: r reply_def)
    moreover have "answer_type (df_type fr) \<noteq> None"
      using Pair Inl by (auto simp: handle_request_def Let_def answer_type_def split: WireType.splits)
    ultimately show ?thesis using Pair Inl by auto
  qed
qed

theorem every_request_answered_witness:
  "\<exists>bs e. fst (handle_frame (\<lambda>x. x) demo_answers False 1 \<lparr>df_type = Progress, df_payload = []\<rparr> demo_server) = Inr [(Ack, bs)] \<and>
     decode_ack bs = Inr \<lparr>pk_ok = False, pk_reason = e\<rparr>"
proof -
  let ?fr = "\<lparr>df_type = Progress, df_payload = []\<rparr>"
  have "fst (handle_request (\<lambda>x. x) demo_answers False 1 ?fr demo_server) = Inl (value_error ''truncated binary stream'')"
    by (simp add: handle_request_def on_gov_def handle_progress_def decode_report_def run_def r_report_def rd_bind_def
        src_id_def src_u64_def rd_need_def)
  then show ?thesis
    using every_request_answered [of "\<lambda>x. x" demo_answers False 1 ?fr demo_server]
    by (cases "handle_frame (\<lambda>x. x) demo_answers False 1 ?fr demo_server") (auto simp: answer_type_def short_def)
qed

end
