(* ===== verification/Transport_Dispatch.thy ===== *)
theory Transport_Dispatch
  imports Transport_Server Governor_Properties Governor_Fencing
begin

text \<open>
  The scheduler of the coordinator: that a pass does not throw, and when the reports of the worker that received a
  dispatch are accepted.
\<close>

section \<open>The flows of a pass\<close>

lemma rmap_Inr: "rmap h xs = Inr ys \<longleftrightarrow> list_all2 (\<lambda>x y. h x = Inr y) xs ys"
  by (induction xs arbitrary: ys) (auto simp: rbind_eq_Inr_iff list_all2_Cons1)

lemma snap_fields:
  assumes "to_flow_snap f = Inr s"
  shows "fn_spec s = fr_spec f" "fn_state s = fr_state f" "fn_reservation s = fr_reservation f"
    "fn_assigned_worker s = fr_assigned_worker f" "fn_assigned_boot s = fr_assigned_boot f"
  using assms by (auto simp: to_flow_snap_def rbind_eq_Inr_iff)

lemma list_flows_set:
  assumes "list_flows g = Inr flows"
  shows "s \<in> set flows \<longleftrightarrow> (\<exists>fid f. (fid, f) \<in> set (g_flows g) \<and> to_flow_snap f = Inr s)"
proof -
  obtain ss where ss: "list_all2 (\<lambda>x y. (to_flow_snap \<circ> snd) x = Inr y) (g_flows g) ss" "flows = sort_key (fs_id \<circ> fn_spec) ss"
    using assms by (auto simp: list_flows_def rbind_eq_Inr_iff rmap_Inr)
  have "s \<in> set ss \<longleftrightarrow> (\<exists>x \<in> set (g_flows g). to_flow_snap (snd x) = Inr s)"
    using ss(1) by (induction rule: list_all2_induct) auto
  then show ?thesis using ss(2) by force
qed

lemma list_flows_distinct:
  assumes "inv_core R g" "list_flows g = Inr flows"
  shows "distinct (map (fs_id \<circ> fn_spec) flows)"
proof -
  obtain ss where ss: "list_all2 (\<lambda>x y. (to_flow_snap \<circ> snd) x = Inr y) (g_flows g) ss" "flows = sort_key (fs_id \<circ> fn_spec) ss"
    using assms(2) by (auto simp: list_flows_def rbind_eq_Inr_iff rmap_Inr)
  have ids: "\<forall>x \<in> set (g_flows g). fs_id (fr_spec (snd x)) = fst x"
    using inv_coreD(1,4) [OF assms(1)] by (auto simp: flow_ok_def)
  have "map (fs_id \<circ> fn_spec) ss = keys (g_flows g)"
    using ss(1) ids by (induction rule: list_all2_induct) (auto simp: snap_fields)
  then have "distinct (map (fs_id \<circ> fn_spec) ss)" using inv_coreD(4) [OF assms(1)] by simp
  then show ?thesis by (simp add: ss(2) distinct_map)
qed

section \<open>A pass does not throw\<close>

lemma emit_total: "list_all (\<lambda>w. \<exists>bs. w = Inr bs) ws \<Longrightarrow> \<exists>bs. emit ws = Inr bs"
  by (induction ws) auto

lemma sinks_total:
  "\<exists>bs. sink_u32 a = Inr bs" "\<exists>bs. sink_u64 b = Inr bs" "\<exists>bs. sink_i64 b = Inr bs" "\<exists>bs. sink_f64 x = Inr bs"
  "\<exists>bs. sink_capacity c = Inr bs" "\<exists>bs. sink_id i = Inr bs" "\<exists>bs. sink_bool p = Inr bs" "short s \<Longrightarrow> \<exists>bs. sink_str s = Inr bs"
  by (simp_all add: sink_u32_def sink_u64_def sink_i64_def sink_f64_def sink_capacity_def sink_id_def sink_bool_def sink_u8_def
      sink_str_def short_def kMaxString_def sink_bytes_def)

definition endpoints_short :: "FlowSpec \<Rightarrow> bool" where
  "endpoints_short spec \<longleftrightarrow> short (fs_source spec) \<and> short (fs_destination spec)"

lemma encode_dispatch_total: "endpoints_short (pd_flow d) \<Longrightarrow> \<exists>bs. encode_dispatch d = Inr bs"
  unfolding encode_dispatch_def w_spec_def endpoints_short_def
  by (intro emit_total) (auto simp: sinks_total simp del: emit.simps intro!: emit_total)

lemma encode_grant_total: "\<exists>bs. encode_grant g = Inr bs"
  unfolding encode_grant_def by (intro emit_total) (simp add: sinks_total)

lemma dispatch_loop_total:
  "list_all (\<lambda>f. endpoints_short (fn_spec f)) fs \<Longrightarrow> \<exists>out disp'. dispatch_loop g ws fs disp = Inr (out, disp')"
proof (induction fs arbitrary: disp)
  case (Cons f fs)
  have d: "\<exists>bs. encode_dispatch (dispatch_of f rid) = Inr bs" for rid
    using encode_dispatch_total [of "dispatch_of f rid"] Cons.prems by (simp add: dispatch_of_def)
  have "\<exists>out disp'. dispatch_flow g ws f disp = Inr (out, disp')"
  proof (cases "target g ws f")
    case (Some t)
    then show ?thesis using d [of "snd t"] encode_grant_total [of "grant_of f"] by (cases t) (auto simp: dispatch_flow_def send_flow_def)
  qed (simp add: dispatch_flow_def)
  then obtain out1 d1 where 1: "dispatch_flow g ws f disp = Inr (out1, d1)" by blast
  obtain out2 d2 where "dispatch_loop g ws fs d1 = Inr (out2, d2)" using Cons by fastforce
  then show ?case using 1 by simp
qed simp

lemma pass_gov:
  assumes "tick R (sv_gov sv) = Some (q, g)"
  shows "\<exists>r sv'. scheduler_pass R sv = Some (r, sv') \<and> sv_gov sv' = g"
  using assms by (cases "list_flows g"; cases "dispatch_loop g (sv_workers sv) (projr (list_flows g)) (sv_dispatched sv)")
    (auto simp: scheduler_pass_def Let_def split: prod.split)

section \<open>Properties\<close>

text \<open>
  Property C30. The scheduler thread does not die: no pass of it from a reachable state ends in an
  exception, as long as the source and the destination of every flow fit into a message.
\<close>

theorem scheduler_pass_never_throws:
  assumes "rounding R" "reachable R (sv_gov sv)" "scheduler_pass R sv = Some (r, sv')"
    and "gen_draws (g_gen (sv_gov sv')) \<le> 2 ^ 64"
    and "\<And>fid f. map_of (g_flows (sv_gov sv')) fid = Some f \<Longrightarrow> endpoints_short (fr_spec f)"
  shows "\<exists>out. r = Inr out"
proof -
  obtain r' where tick: "tick R (sv_gov sv) = Some (r', sv_gov sv')"
    using assms(3) by (auto simp: scheduler_pass_def Let_def split: option.splits prod.splits sum.splits)
  have "reachable R (sv_gov sv')"
    using assms(2) gov_step.tick [OF tick] gov_reaches_step unfolding reachable_def by blast
  then have inv: "inv_core R (sv_gov sv')" using reachable_inv [OF assms(1) _ assms(4)] by (simp add: gov_inv_def)
  obtain flows where flows: "list_flows (sv_gov sv') = Inr flows" using list_flows_returns [OF inv] by blast
  have "list_all (\<lambda>f. endpoints_short (fn_spec f)) flows"
    using assms(5) list_flows_set [OF flows] inv_coreD(4) [OF inv] by (auto simp: list_all_iff snap_fields)
  then show ?thesis
    using assms(3) tick flows dispatch_loop_total [of flows "sv_gov sv'" "sv_workers sv" "sv_dispatched sv"]
    by (auto simp: scheduler_pass_def Let_def)
qed

text \<open>A server with the worker connected and the flow reserved.\<close>

definition work_server :: server where
  "work_server = \<lparr>sv_gov = work_2, sv_workers = [(demo_wid, 1)], sv_dispatched = [], sv_disk = Map.empty\<rparr>"

lemma work_pass:
  obtains r sv f where "scheduler_pass (\<lambda>x. x) work_server = Some (r, sv)" "reachable (\<lambda>x. x) (sv_gov sv)"
    "gen_draws (g_gen (sv_gov sv)) \<le> 5" "g_workers (sv_gov sv) = [(demo_wid, demo_worker)]"
    "g_flows (sv_gov sv) = [(demo_fid, f)]" "fr_state f = Running" "fr_assigned_worker f = Some demo_wid"
    "fr_assigned_boot f = demo_boot" "fr_spec f = demo_spec" "fr_reservation f = Some life_resv"
    "map_of (g_reservations (sv_gov sv)) life_resv \<noteq> None"
proof -
  obtain g f where g: "tick (\<lambda>x. x) work_2 = Some (Inr (), g)" "reachable (\<lambda>x. x) g" "gen_draws (g_gen g) \<le> 5"
    "g_workers g = [(demo_wid, demo_worker)]" "g_reservations g = g_reservations work_2" "g_flows g = [(demo_fid, f)]"
    "fr_state f = Running" "fr_assigned_worker f = Some demo_wid" "fr_assigned_boot f = demo_boot"
    "fr_spec f = demo_spec" "fr_reservation f = Some life_resv" using work_tick by blast
  obtain r sv where sv: "scheduler_pass (\<lambda>x. x) work_server = Some (r, sv)" "sv_gov sv = g"
    using pass_gov [of "\<lambda>x. x" work_server "Inr ()" g] g(1) by (auto simp: work_server_def)
  have "map_of (g_reservations g) life_resv \<noteq> None" unfolding g(5)
    by (simp add: work_2_def submit_flow_def work_1_eq) (simp add: eval_defs eval_flow_defs life_resv_def life_1_eq)
  then show thesis using that sv g by simp
qed

lemma demo_endpoints: "endpoints_short demo_spec"
  by (simp add: endpoints_short_def short_def demo_spec_def fixture_flow_def)

theorem scheduler_pass_never_throws_witness: "\<exists>out sv. scheduler_pass (\<lambda>x. x) work_server = Some (Inr out, sv)"
proof -
  obtain r sv f where p: "scheduler_pass (\<lambda>x. x) work_server = Some (r, sv)" "reachable (\<lambda>x. x) (sv_gov sv)"
    "gen_draws (g_gen (sv_gov sv)) \<le> 5" "g_flows (sv_gov sv) = [(demo_fid, f)]" "fr_spec f = demo_spec"
    by (rule work_pass)
  have "\<exists>out. r = Inr out"
    by (rule scheduler_pass_never_throws [OF exact.rounding_axioms _ p(1)])
      (use p work_reachable demo_endpoints in \<open>auto simp: work_server_def split: if_splits\<close>)
  then show ?thesis using p(1) by blast
qed

text \<open>
  Property C18. A dispatch carries the authority under which the reports of its worker are accepted:
  when a pass dispatches a flow, a report with the attempt, the generation and the boot of the dispatch
  is accepted by the governor as it is then, if the boot the flow is assigned to is the current boot
  of its live worker and the epoch and the capacity generation of its reservation are current.
\<close>

theorem dispatch_authority:
  assumes "map_of (g_flows (sv_gov sv')) fid = Some f" "to_flow_snap f = Inr s"
    and "target (sv_gov sv') (sv_workers sv) s = Some (conn, rid)"
    and "dispatch_wire (dispatch_of s rid)" "encode_dispatch (dispatch_of s rid) = Inr bs"
  shows "\<exists>d. decode_dispatch bs = Inr d \<and> pd_flow d = fr_spec f \<and> pd_reservation d = rid \<and>
    (report_ok (sv_gov sv') f (pd_attempt d) (pd_fgen d) (pd_boot d) \<longleftrightarrow>
       (\<exists>wid w rsv. fr_assigned_worker f = Some wid \<and> map_of (g_workers (sv_gov sv')) wid = Some w \<and> wk_alive w \<and>
          wk_boot w = fr_assigned_boot f \<and> map_of (g_reservations (sv_gov sv')) rid = Some rsv \<and>
          rv_epoch rsv = g_epoch (sv_gov sv') \<and> rv_capacity_generation rsv = g_capacity_generation (sv_gov sv')))"
proof -
  have "decode_dispatch bs = Inr (dispatch_of s rid)"
    using dispatch_msg.received [OF assms(4), of "[]"] assms(5) by auto
  moreover have t: "fr_state f = Running" "fr_reservation f = Some rid" "\<exists>wid. fr_assigned_worker f = Some wid"
    "\<exists>rsv. map_of (g_reservations (sv_gov sv')) rid = Some rsv"
    using assms(3) snap_fields [OF assms(2)]
    by (auto simp: target_def reservation_query_def split: if_splits option.splits)
  ultimately show ?thesis
    using snap_fields [OF assms(2)] by (auto simp: dispatch_of_def report_ok_def split: option.splits)
qed


lemma demo_spec_wire: "spec_wire demo_spec"
  by (simp add: spec_wire_def fits_def short_def demo_defs Directionality_cast_def LatencyClass_cast_def cap_storable_def
      valid_cap_def is_valid_rate_iff storable_literals)

definition demo_fsnap :: FlowSnapshot where
  "demo_fsnap = hd (gs_flows demo_saved)"

lemma demo_flow_snap: "to_flow_snap demo_flow = Inr demo_fsnap"
  by (simp add: to_flow_snap_def demo_fsnap_def demo_saved_def demo_snap_def demo_defs fmax_def is_valid_rate_iff)

theorem dispatch_authority_witness:
  "\<exists>d :: payload_Dispatch. pd_flow d = demo_spec \<and> report_ok demo_gov demo_flow (pd_attempt d) (pd_fgen d) (pd_boot d)"
proof -
  let ?sv = "\<lparr>sv_gov = demo_gov, sv_workers = [(demo_wid, 1)], sv_dispatched = [], sv_disk = Map.empty\<rparr>"
  have t: "target (sv_gov ?sv) (sv_workers ?sv) demo_fsnap = Some (1, demo_rv)"
    by (simp add: target_def snap_fields [OF demo_flow_snap] reservation_query_def demo_defs)
  have "fn_granted demo_fsnap = Capacity (Fin 250)" by (simp add: demo_fsnap_def demo_saved_def demo_snap_def)
  then have w: "dispatch_wire (dispatch_of demo_fsnap demo_rv)"
    using demo_spec_wire snap_fields [OF demo_flow_snap]
    by (simp add: dispatch_wire_def dispatch_of_def demo_flow_def FlowRT_of_def cap_storable_def valid_cap_def is_valid_rate_iff
        storable_literals)
  obtain bs where bs: "encode_dispatch (dispatch_of demo_fsnap demo_rv) = Inr bs" using dispatch_msg.written [OF w] by blast
  have look: "map_of (g_flows (sv_gov ?sv)) demo_fid = Some demo_flow" by (simp add: demo_flow_lookup)
  have "\<exists>wid w rsv. fr_assigned_worker demo_flow = Some wid \<and> map_of (g_workers demo_gov) wid = Some w \<and> wk_alive w \<and>
      wk_boot w = fr_assigned_boot demo_flow \<and> map_of (g_reservations demo_gov) demo_rv = Some rsv \<and>
      rv_epoch rsv = g_epoch demo_gov \<and> rv_capacity_generation rsv = g_capacity_generation demo_gov"
    by (simp add: demo_defs)
  moreover have "fr_spec demo_flow = demo_spec" by (simp add: demo_flow_def FlowRT_of_def)
  ultimately obtain d :: payload_Dispatch where "pd_flow d = demo_spec" "report_ok demo_gov demo_flow (pd_attempt d) (pd_fgen d) (pd_boot d)"
    using dispatch_authority [OF look demo_flow_snap t w bs] by auto
  then show ?thesis by blast
qed

end
