(* ===== verification/Coordinator.thy ===== *)
theory Coordinator
  imports Transport_Server
begin

text \<open>
  The threads of \<^verbatim>\<open>CoordinatorServer\<close> in \<^verbatim>\<open>src/transport.cpp\<close> and their interleavings: one thread per
  connection, \<^verbatim>\<open>handle_connection\<close>, and the scheduler, \<^verbatim>\<open>scheduler_loop\<close>. A step is what a thread does
  under one lock (the mutex of the governor, that of \<^verbatim>\<open>workers_\<close>, the write mutex of a connection), so
  between two steps of a thread the others may run: during the five milliseconds the scheduler sleeps, between the flows it
  visits, between looking up a connection and writing to it, between the publication of a registered worker and its
  acknowledgement, and between executing a request and answering it.

  Two simplifications remain. The three identifiers of an acknowledgement are read in one step. The file operations of a
  \<^verbatim>\<open>Save\<close> run outside every lock and are one step here; what other connections or processes do to the files
  meanwhile is the step \<open>files\<close>, after which the disk is arbitrary. An exception that leaves a thread ends the
  process: that thread has no further step.
\<close>

section \<open>Threads\<close>

text \<open>Where a connection thread is: in \<^verbatim>\<open>recv_frame\<close>, behind \<^verbatim>\<open>register_worker\<close>, behind the publication, before the write of an answer, gone.\<close>

datatype conn_phase = Receiving | Registering WorkerId | Acknowledging | Replying frames | Finished

text \<open>
  Where the scheduler is: before the tick, in its sleep, before the visit of the next flow, behind the check of the
  flow's reservation, behind the look-up of the worker's connection. All flows of the pass come first, the ones that
  are left last.
\<close>

datatype sched_phase =
    Resting
  | Sleeping
  | Visiting "FlowSnapshot list" "FlowSnapshot list"
  | Checked "FlowSnapshot list" FlowSnapshot WorkerId ReservationId "FlowSnapshot list"
  | Bound "FlowSnapshot list" FlowSnapshot ReservationId nat "FlowSnapshot list"

record coord =
  co_server :: server
  co_sched :: sched_phase
  co_conns :: "nat \<Rightarrow> conn_phase"

abbreviation co_gov :: "coord \<Rightarrow> gov" where "co_gov c \<equiv> sv_gov (co_server c)"

text \<open>What happens in a step, for the traces. \<open>Handle conn frame readable\<close> says whether the state file could be opened.\<close>

datatype event =
    Handle nat DecodedFrame bool
  | Publish nat WorkerId
  | Acknowledge nat
  | Write nat frames
  | Hangup nat
  | Tick
  | Listing "FlowSnapshot list"
  | Skip FlowSnapshot
  | Check FlowSnapshot
  | Unbound FlowSnapshot
  | Bind FlowSnapshot nat
  | Send FlowSnapshot sends
  | Prune
  | Files

text \<open>The guards at the head of the flow loop: \<^verbatim>\<open>f.state != FlowState::Running || !f.assigned_worker || !f.reservation\<close>.\<close>

definition assigned :: "FlowSnapshot \<Rightarrow> (WorkerId \<times> ReservationId) option" where
  "assigned f =
     (if fn_state f \<noteq> Running then None
      else case (fn_assigned_worker f, fn_reservation f) of (Some w, Some rid) \<Rightarrow> Some (w, rid) | _ \<Rightarrow> None)"

definition at_conn :: "nat \<Rightarrow> conn_phase \<Rightarrow> coord \<Rightarrow> coord" where
  "at_conn conn p c = c\<lparr>co_conns := (co_conns c)(conn := p)\<rparr>"

inductive coord_step :: "(rat \<Rightarrow> rat) \<Rightarrow> coord \<Rightarrow> event \<Rightarrow> coord \<Rightarrow> bool" for R where
  request: "co_conns c conn = Receiving \<Longrightarrow> df_type fr \<noteq> Register \<Longrightarrow>
    handle_frame R os readable conn fr (co_server c) = (Inr out, sv) \<Longrightarrow>
    coord_step R c (Handle conn fr readable) (at_conn conn (Replying out) (c\<lparr>co_server := sv\<rparr>))"
| register: "co_conns c conn = Receiving \<Longrightarrow> df_type fr = Register \<Longrightarrow>
    admit_worker R (df_payload fr) (co_gov c) = (Inr w, g) \<Longrightarrow>
    coord_step R c (Handle conn fr readable) (at_conn conn (Registering w) (c\<lparr>co_server := (co_server c)\<lparr>sv_gov := g\<rparr>\<rparr>))"
| register_throws: "co_conns c conn = Receiving \<Longrightarrow> df_type fr = Register \<Longrightarrow>
    admit_worker R (df_payload fr) (co_gov c) = (Inl e, g) \<Longrightarrow> nack (Inl e) = Inr out \<Longrightarrow>
    coord_step R c (Handle conn fr readable) (at_conn conn (Replying out) (c\<lparr>co_server := (co_server c)\<lparr>sv_gov := g\<rparr>\<rparr>))"
| publish: "co_conns c conn = Registering w \<Longrightarrow>
    coord_step R c (Publish conn w) (at_conn conn Acknowledging (c\<lparr>co_server := publish_worker conn w (co_server c)\<rparr>))"
| acknowledge: "co_conns c conn = Acknowledging \<Longrightarrow> nack (registration_ack (co_gov c)) = Inr out \<Longrightarrow>
    coord_step R c (Acknowledge conn) (at_conn conn (Replying out) c)"
| answer: "co_conns c conn = Replying out \<Longrightarrow> coord_step R c (Write conn out) (at_conn conn Receiving c)"
| hangup: "co_conns c conn = Receiving \<Longrightarrow>
    coord_step R c (Hangup conn) (at_conn conn Finished (c\<lparr>co_server := disconnect conn (co_server c)\<rparr>))"
| tick: "co_sched c = Resting \<Longrightarrow> tick R (co_gov c) = Some (r, g) \<Longrightarrow>
    coord_step R c Tick (c\<lparr>co_server := (co_server c)\<lparr>sv_gov := g\<rparr>, co_sched := Sleeping\<rparr>)"
| listing: "co_sched c = Sleeping \<Longrightarrow> list_flows (co_gov c) = Inr flows \<Longrightarrow>
    coord_step R c (Listing flows) (c\<lparr>co_sched := Visiting flows flows\<rparr>)"
| skip: "co_sched c = Visiting flows (f # rest) \<Longrightarrow>
    (case assigned f of None \<Rightarrow> True | Some (w, rid) \<Rightarrow> reservation_query rid (co_gov c) = None) \<Longrightarrow>
    coord_step R c (Skip f) (c\<lparr>co_sched := Visiting flows rest\<rparr>)"
| check: "co_sched c = Visiting flows (f # rest) \<Longrightarrow> assigned f = Some (w, rid) \<Longrightarrow> reservation_query rid (co_gov c) \<noteq> None \<Longrightarrow>
    coord_step R c (Check f) (c\<lparr>co_sched := Checked flows f w rid rest\<rparr>)"
| unbound: "co_sched c = Checked flows f w rid rest \<Longrightarrow> map_of (sv_workers (co_server c)) w = None \<Longrightarrow>
    coord_step R c (Unbound f) (c\<lparr>co_sched := Visiting flows rest\<rparr>)"
| bind: "co_sched c = Checked flows f w rid rest \<Longrightarrow> map_of (sv_workers (co_server c)) w = Some conn \<Longrightarrow>
    coord_step R c (Bind f conn) (c\<lparr>co_sched := Bound flows f rid conn rest\<rparr>)"
| send: "co_sched c = Bound flows f rid conn rest \<Longrightarrow> send_flow f rid conn (sv_dispatched (co_server c)) = Inr (out, disp) \<Longrightarrow>
    coord_step R c (Send f out) (c\<lparr>co_server := (co_server c)\<lparr>sv_dispatched := disp\<rparr>, co_sched := Visiting flows rest\<rparr>)"
| prune: "co_sched c = Visiting flows [] \<Longrightarrow>
    coord_step R c Prune
      (c\<lparr>co_server := (co_server c)\<lparr>sv_dispatched := prune_dispatched flows (sv_dispatched (co_server c))\<rparr>, co_sched := Resting\<rparr>)"
| files: "coord_step R c Files (c\<lparr>co_server := (co_server c)\<lparr>sv_disk := d\<rparr>\<rparr>)"

inductive_cases coord_stepE: "coord_step R c e c'"

section \<open>Runs\<close>

text \<open>A trace lists the events of a run, each with the state in which it happened.\<close>

type_synonym trace = "(coord \<times> event) list"

inductive coord_run :: "(rat \<Rightarrow> rat) \<Rightarrow> coord \<Rightarrow> trace \<Rightarrow> coord \<Rightarrow> bool" for R where
  stop: "coord_run R c [] c"
| go: "coord_step R c e c' \<Longrightarrow> coord_run R c' tr c'' \<Longrightarrow> coord_run R c ((c, e) # tr) c''"

inductive_simps coord_run_Nil [simp]: "coord_run R c [] c'"
inductive_simps coord_run_Cons: "coord_run R c (x # tr) c'"

lemma coord_run_append: "coord_run R c (tr @ tr') c'' \<longleftrightarrow> (\<exists>c'. coord_run R c tr c' \<and> coord_run R c' tr' c'')"
  by (induction tr arbitrary: c) (auto simp: coord_run_Cons)

text \<open>The frames on a connection, in the order in which they are written to it: by its thread and by the scheduler.\<close>

definition on_conn :: "nat \<Rightarrow> event \<Rightarrow> frames" where
  "on_conn conn e = (case e of
     Write k out \<Rightarrow> if k = conn then out else []
   | Send f out \<Rightarrow> map snd (filter (\<lambda>(k, _). k = conn) out)
   | _ \<Rightarrow> [])"

definition written :: "nat \<Rightarrow> trace \<Rightarrow> frames" where
  "written conn tr = concat (map (on_conn conn \<circ> snd) tr)"

definition scheduled_sends :: "trace \<Rightarrow> sends" where
  "scheduled_sends tr = concat (map (\<lambda>(c, e). case e of Send f out \<Rightarrow> out | _ \<Rightarrow> []) tr)"

definition replaces_state :: "event \<Rightarrow> bool" where
  "replaces_state e \<longleftrightarrow> (\<exists>conn fr. e = Handle conn fr True \<and> df_type fr = Load)"

definition loads :: "trace \<Rightarrow> bool" where
  "loads tr \<longleftrightarrow> (\<exists>x \<in> set tr. replaces_state (snd x))"

lemma trace_simps [simp]:
  "written conn [] = []" "written conn (x # tr) = on_conn conn (snd x) @ written conn tr"
  "written conn (tr @ tr') = written conn tr @ written conn tr'"
  "scheduled_sends [] = []" "scheduled_sends ((c, e) # tr) = (case e of Send f out \<Rightarrow> out | _ \<Rightarrow> []) @ scheduled_sends tr"
  "scheduled_sends (tr @ tr') = scheduled_sends tr @ scheduled_sends tr'"
  "\<not> loads []" "loads (x # tr) \<longleftrightarrow> replaces_state (snd x) \<or> loads tr" "loads (tr @ tr') \<longleftrightarrow> loads tr \<or> loads tr'"
  by (auto simp: written_def scheduled_sends_def loads_def)

lemma at_conn_simps [simp]:
  "co_server (at_conn conn p c) = co_server c" "co_sched (at_conn conn p c) = co_sched c"
  "co_conns (at_conn conn p c) = (co_conns c)(conn := p)"
  by (simp_all add: at_conn_def)

section \<open>The governor behind the threads\<close>

lemma coord_step_moves:
  assumes "rounding R" "coord_step R c e c'"
  shows "gov_moves R (co_gov c) (co_gov c')" "\<not> replaces_state e \<Longrightarrow> gov_reaches R (co_gov c) (co_gov c')"
proof -
  have "gov_moves R (co_gov c) (co_gov c') \<and> (\<not> replaces_state e \<longrightarrow> gov_reaches R (co_gov c) (co_gov c'))"
    using assms(2)
  proof (cases rule: coord_step.cases)
    case (request conn fr os readable out sv)
    then show ?thesis
      using handle_frame_moves [OF assms(1), of "co_server c" os readable conn fr]
        handle_request_reaches [OF assms(1), of fr readable "co_server c" os conn] handle_frame_server [of R os readable conn fr "co_server c"]
      by (auto simp: replaces_state_def)
  next
    case (register conn fr w g readable)
    then show ?thesis using admit_worker_reaches [OF assms(1), of "co_gov c" "df_payload fr"] reaches_moves by auto
  next
    case (register_throws conn fr e' g out readable)
    then show ?thesis using admit_worker_reaches [OF assms(1), of "co_gov c" "df_payload fr"] reaches_moves by auto
  next
    case (tick r g)
    then have "gov_step R (co_gov c) g" by (intro gov_step.tick)
    then show ?thesis using tick reaches_step reaches_moves by auto
  qed (simp_all add: publish_worker_def disconnect_def)
  then show "gov_moves R (co_gov c) (co_gov c')" "\<not> replaces_state e \<Longrightarrow> gov_reaches R (co_gov c) (co_gov c')" by auto
qed

lemma coord_run_moves:
  assumes "rounding R" "coord_run R c tr c'"
  shows "gov_moves R (co_gov c) (co_gov c') \<and> (\<not> loads tr \<longrightarrow> gov_reaches R (co_gov c) (co_gov c'))"
  using assms(2)
proof (induction rule: coord_run.induct)
  case (go c e c' tr c'')
  then show ?case using coord_step_moves [OF assms(1) go(1)] gov_reaches_trans by (auto intro: rtranclp_trans)
qed simp

lemma coord_run_reachable:
  "rounding R \<Longrightarrow> coord_run R c tr c' \<Longrightarrow> \<not> loads tr \<Longrightarrow> reachable R (co_gov c) \<Longrightarrow> reachable R (co_gov c')"
  using coord_run_moves gov_reaches_trans unfolding reachable_def by blast

section \<open>A connection without interruption\<close>

text \<open>The handler of one frame is the run of its steps, and so is the handler of a connection.\<close>

lemma run_writes: "coord_run R c tr c' \<Longrightarrow> written conn tr = out \<Longrightarrow> \<exists>tr. coord_run R c tr c' \<and> written conn tr = out"
  by blast

lemma handle_frame_run:
  assumes "co_conns c conn = Receiving" "handle_frame R os readable conn fr (co_server c) = (Inr out, sv)"
  shows "\<exists>tr. coord_run R c tr (c\<lparr>co_server := sv\<rparr>) \<and> written conn tr = out"
proof -
  have again: "at_conn conn Receiving (at_conn conn p (c\<lparr>co_server := s\<rparr>)) = c\<lparr>co_server := s\<rparr>" for p s
    using assms(1) by (simp add: at_conn_def fun_upd_idem)
  have wr: "coord_run R (at_conn conn (Replying out) (c\<lparr>co_server := sv\<rparr>))
      [(at_conn conn (Replying out) (c\<lparr>co_server := sv\<rparr>), Write conn out)] (c\<lparr>co_server := sv\<rparr>)"
    using coord_step.answer [of "at_conn conn (Replying out) (c\<lparr>co_server := sv\<rparr>)" conn out R] by (simp add: coord_run_Cons again)
  show ?thesis
  proof (cases "df_type fr = Register")
    case False
    from coord_run.go [OF coord_step.request [OF assms(1) False assms(2)] wr] show ?thesis
      by (rule run_writes) (simp add: on_conn_def)
  next
    case True
    obtain r g where a: "admit_worker R (df_payload fr) (co_gov c) = (r, g)" by fastforce
    show ?thesis
    proof (cases r)
      case (Inl e)
      then have n: "nack (Inl e) = Inr out" "sv = (co_server c)\<lparr>sv_gov := g\<rparr>"
        using assms(2) a True by (simp_all add: handle_frame_def handle_request_def handle_register_def)
      from coord_run.go [OF coord_step.register_throws [OF assms(1) True a [unfolded Inl] n(1)] wr [unfolded n(2)]] show ?thesis
        unfolding n(2) by (rule run_writes) (simp add: on_conn_def)
    next
      case (Inr w)
      let ?s = "(co_server c)\<lparr>sv_gov := g\<rparr>"
      let ?c1 = "at_conn conn (Registering w) (c\<lparr>co_server := ?s\<rparr>)" let ?c2 = "at_conn conn Acknowledging (c\<lparr>co_server := sv\<rparr>)"
      have n: "nack (registration_ack g) = Inr out" "sv = publish_worker conn w ?s"
        using assms(2) a True Inr by (simp_all add: handle_frame_def handle_request_def handle_register_def)
      have "coord_step R ?c1 (Publish conn w) ?c2"
        using coord_step.publish [of ?c1 conn w R] by (simp add: n(2) at_conn_def)
      moreover have "coord_step R ?c2 (Acknowledge conn) (at_conn conn (Replying out) (c\<lparr>co_server := sv\<rparr>))"
        using coord_step.acknowledge [of ?c2 conn out R] n by (simp add: at_conn_def publish_worker_def)
      ultimately have "coord_run R ?c1 [(?c1, Publish conn w), (?c2, Acknowledge conn),
          (at_conn conn (Replying out) (c\<lparr>co_server := sv\<rparr>), Write conn out)] (c\<lparr>co_server := sv\<rparr>)"
        using wr by (auto simp: coord_run_Cons)
      from coord_run.go [OF coord_step.register [OF assms(1) True a [unfolded Inr]] this] show ?thesis
        by (rule run_writes) (simp add: on_conn_def)
    qed
  qed
qed

lemma handle_connection_run:
  assumes "co_conns c conn = Receiving" "handle_connection R os rd conn k cs (co_server c) = (Inr out, sv)"
  shows "\<exists>tr. coord_run R c tr (at_conn conn Finished (c\<lparr>co_server := sv\<rparr>)) \<and> written conn tr = out"
  using assms
proof (induction R os rd conn k cs "co_server c" arbitrary: c out sv rule: handle_connection.induct)
  case (1 R os rd conn k cs)
  show ?case
  proof (cases "\<exists>fr cs'. recv_frame cs = (Inr (Some fr), cs')")
    case True
    then obtain fr cs' where fr: "recv_frame cs = (Inr (Some fr), cs')" by blast
    obtain r s where h: "handle_frame R (os k) (rd k) conn fr (co_server c) = (r, s)" by fastforce
    obtain o1 o2 where o: "r = Inr o1" "handle_connection R os rd conn (Suc k) cs' s = (Inr o2, sv)" "out = o1 @ o2"
      using "1.prems"(2) fr h by (subst (asm) handle_connection.simps) (auto simp: rbind_eq_Inr_iff split: sum.splits prod.splits)
    obtain tr where tr: "coord_run R c tr (c\<lparr>co_server := s\<rparr>)" "written conn tr = o1"
      using handle_frame_run [OF "1.prems"(1) h [unfolded o(1)]] by blast
    obtain tr' where tr': "coord_run R (c\<lparr>co_server := s\<rparr>) tr' (at_conn conn Finished (c\<lparr>co_server := sv\<rparr>))" "written conn tr' = o2"
      using "1.hyps" [OF fr [symmetric] _ _ _ o(1), where c = "c\<lparr>co_server := s\<rparr>" and out = o2 and sv = sv] "1.prems"(1) o(2) h by (auto simp: at_conn_def)
    have "coord_run R c (tr @ tr') (at_conn conn Finished (c\<lparr>co_server := sv\<rparr>))" using tr(1) tr'(1) coord_run_append by blast
    then show ?thesis using tr(2) tr'(2) o(3) by (intro exI [of _ "tr @ tr'"]) simp
  next
    case False
    then have "out = []" "sv = disconnect conn (co_server c)"
      using "1.prems"(2) by (subst (asm) handle_connection.simps, auto split: prod.splits sum.splits option.splits)+
    then show ?thesis using coord_step.hangup [OF "1.prems"(1), of R]
      by (intro exI [of _ "[(c, Hangup conn)]"]) (simp add: coord_run_Cons on_conn_def)
  qed
qed

section \<open>Property\<close>

text \<open>
  Property C3. The coordinator refines the governor. Along every interleaving of the connection threads and the
  scheduler the governor makes moves of its public operations only, and as long as no message loads a state file
  these are steps with validated arguments, so a reachable governor stays reachable and everything that is shown of
  reachable governors holds behind the network. And whatever bytes a peer sends on a connection, in
  whatever segments, and whatever the operating system answers to the file operations, the handler of the connection
  amounts to such a run, in which exactly its answers are written to the connection.
\<close>

theorem server_refines_governor:
  assumes "rounding R" "coord_run R c tr c'"
  shows "gov_moves R (co_gov c) (co_gov c') \<and>
    (\<not> loads tr \<longrightarrow> gov_reaches R (co_gov c) (co_gov c') \<and> (reachable R (co_gov c) \<longrightarrow> reachable R (co_gov c'))) \<and>
    (\<forall>os rd conn k cs out sv. co_conns c' conn = Receiving \<longrightarrow>
       handle_connection R os rd conn k cs (co_server c') = (Inr out, sv) \<longrightarrow>
       (\<exists>tr' c''. coord_run R c (tr @ tr') c'' \<and> co_server c'' = sv \<and> written conn tr' = out))"
proof -
  have "\<exists>tr' c''. coord_run R c (tr @ tr') c'' \<and> co_server c'' = sv \<and> written conn tr' = out"
    if "co_conns c' conn = Receiving" "handle_connection R os rd conn k cs (co_server c') = (Inr out, sv)" for os rd conn k cs out sv
  proof -
    note whole = that
    obtain tr' where "coord_run R c' tr' (at_conn conn Finished (c'\<lparr>co_server := sv\<rparr>))" "written conn tr' = out"
      using handle_connection_run [OF whole] by blast
    then show ?thesis using assms(2) by (intro exI [of _ tr'] exI [of _ "at_conn conn Finished (c'\<lparr>co_server := sv\<rparr>)"]) (auto simp: coord_run_append)
  qed
  then show ?thesis using coord_run_moves [OF assms] coord_run_reachable [OF assms] by blast
qed

definition demo_coord :: coord where
  "demo_coord = \<lparr>co_server = demo_server, co_sched = Resting, co_conns = \<lambda>_. Receiving\<rparr>"

theorem server_refines_governor_witness:
  "\<exists>tr c' bs. coord_run (\<lambda>x. x) demo_coord tr c' \<and> written 1 tr = [(Ack, bs)] \<and> reachable (\<lambda>x. x) (co_gov c') \<and>
     (\<exists>tr' c''. coord_run (\<lambda>x. x) demo_coord (tr @ tr') c'' \<and> written 1 tr' = [])"
proof -
  let ?fr = "\<lparr>df_type = Progress, df_payload = [1, 2, 3]\<rparr>"
  obtain bs where h: "handle_frame (\<lambda>x. x) demo_answers True 1 ?fr demo_server = (Inr [(Ack, bs)], demo_server)"
    using ack.received [of "\<lparr>pk_ok = False, pk_reason = ''truncated binary stream''\<rparr>" "[]"]
    by (auto simp: handle_frame_def nack_def reply_def short_def handle_request_def on_gov_def handle_progress_def decode_report_def run_def r_report_def rd_bind_def
        src_id_def src_u64_def rd_need_def)
  let ?c = "at_conn 1 (Replying [(Ack, bs)]) demo_coord"
  have same: "demo_coord\<lparr>co_server := demo_server\<rparr> = demo_coord" "at_conn 1 Receiving ?c = demo_coord"
    by (simp_all add: demo_coord_def at_conn_def fun_eq_iff)
  have "coord_step (\<lambda>x. x) demo_coord (Handle 1 ?fr True) ?c"
    using coord_step.request [of demo_coord 1 ?fr "\<lambda>x. x" demo_answers True] h same(1) by (simp add: demo_coord_def)
  moreover have "coord_step (\<lambda>x. x) ?c (Write 1 [(Ack, bs)]) demo_coord"
    using coord_step.answer [of ?c 1 "[(Ack, bs)]" "\<lambda>x. x"] same(2) by simp
  ultimately have run: "coord_run (\<lambda>x. x) demo_coord [(demo_coord, Handle 1 ?fr True), (?c, Write 1 [(Ack, bs)])] demo_coord"
    by (simp add: coord_run_Cons)
  have reach: "reachable (\<lambda>x. x) (co_gov demo_coord)" using life_reachable(1) by (simp add: demo_coord_def demo_server_def)
  have "handle_connection (\<lambda>x. x) (\<lambda>_. demo_answers) (\<lambda>_. True) 1 0 [] (co_server demo_coord) = (Inr [], disconnect 1 demo_server)"
    by (subst handle_connection.simps) (simp add: recv_frame_def demo_coord_def)
  moreover have "co_conns demo_coord 1 = Receiving" by (simp add: demo_coord_def)
  ultimately obtain tr' c'' where "coord_run (\<lambda>x. x) demo_coord ([(demo_coord, Handle 1 ?fr True), (?c, Write 1 [(Ack, bs)])] @ tr') c''" "written 1 tr' = []"
    using server_refines_governor [OF exact.rounding_axioms run] by blast
  moreover have "reachable (\<lambda>x. x) (co_gov demo_coord)"
    using server_refines_governor [OF exact.rounding_axioms run] reach by blast
  ultimately show ?thesis using run
    by (intro exI [of _ "[(demo_coord, Handle 1 ?fr True), (?c, Write 1 [(Ack, bs)])]"] exI [of _ demo_coord] exI [of _ bs])
      (auto simp: on_conn_def)
qed

end
