(* ===== verification/Coordinator_Pass.thy ===== *)
theory Coordinator_Pass
  imports Coordinator Transport_Dispatch
begin

text \<open>
  The messages of one pass of the scheduler while the connection threads run: which flows get a message, which message
  it is, and what is remembered of it. The uninterrupted \<^const>\<open>scheduler_pass\<close> is one of the passes.
\<close>

section \<open>Messages\<close>

abbreviation fid_of :: "FlowSnapshot \<Rightarrow> FlowId" where "fid_of f \<equiv> fs_id (fn_spec f)"
abbreviation attempt_of :: "FlowSnapshot \<Rightarrow> AttemptId" where "attempt_of f \<equiv> fs_attempt (fn_spec f)"

text \<open>The message for one flow: the dispatch of an attempt that is new, the current grant otherwise.\<close>

definition message_for :: "(FlowId, AttemptId) umap \<Rightarrow> FlowSnapshot \<Rightarrow> nat \<Rightarrow> ReservationId \<Rightarrow> nat \<times> WireType \<times> bytes \<Rightarrow> bool" where
  "message_for disp f conn rid m \<longleftrightarrow>
     (if map_of disp (fid_of f) \<noteq> Some (attempt_of f)
      then \<exists>bs. m = (conn, FlowDispatch, bs) \<and> encode_dispatch
             \<lparr>pd_flow = fn_spec f, pd_attempt = attempt_of f, pd_fgen = fs_generation (fn_spec f), pd_boot = fn_assigned_boot f,
              pd_grant = fn_granted f, pd_reservation = rid\<rparr> = Inr bs
      else \<exists>bs. m = (conn, FlowGrant, bs) \<and> encode_grant
             \<lparr>pg_flow = fid_of f, pg_attempt = attempt_of f, pg_fgen = fs_generation (fn_spec f), pg_boot = fn_assigned_boot f,
              pg_grant = fn_granted f\<rparr> = Inr bs)"

lemma message_for_cong: "map_of disp (fid_of f) = map_of disp' (fid_of f) \<Longrightarrow> message_for disp f = message_for disp' f"
  by (simp add: message_for_def fun_eq_iff)

lemma send_flow_Inr:
  assumes "send_flow f rid conn disp = Inr (out, disp')"
  shows "\<exists>m. out = [m] \<and> message_for disp f conn rid m" "map_of disp' = (map_of disp)(fid_of f \<mapsto> attempt_of f)"
  using assms
  by (auto simp: send_flow_def message_for_def dispatch_of_def grant_of_def rbind_eq_Inr_iff update_conv' fun_upd_idem split: if_splits)

text \<open>What the visit of a flow sent; \<open>S\<close> are the states of the coordinator meanwhile.\<close>

definition visited :: "coord set \<Rightarrow> (FlowId, AttemptId) umap \<Rightarrow> FlowSnapshot \<Rightarrow> sends \<Rightarrow> bool" where
  "visited S disp s out \<longleftrightarrow> (case assigned s of
     None \<Rightarrow> out = []
   | Some (w, rid) \<Rightarrow>
       out = [] \<and> (\<exists>c \<in> S. reservation_query rid (co_gov c) = None \<or> map_of (sv_workers (co_server c)) w = None) \<or>
       (\<exists>c \<in> S. \<exists>conn m. map_of (sv_workers (co_server c)) w = Some conn \<and> out = [m] \<and> message_for disp s conn rid m))"

definition remembered :: "(FlowId, AttemptId) umap \<Rightarrow> (FlowId, AttemptId) umap \<Rightarrow> FlowSnapshot \<Rightarrow> sends \<Rightarrow> bool" where
  "remembered disp disp' s out \<longleftrightarrow> map_of disp' (fid_of s) = (if out = [] then map_of disp (fid_of s) else Some (attempt_of s))"

section \<open>The other threads\<close>

fun scheduler_event :: "event \<Rightarrow> bool" where
  "scheduler_event (Handle _ _ _) = False" | "scheduler_event (Publish _ _) = False" | "scheduler_event (Acknowledge _) = False"
| "scheduler_event (Write _ _) = False" | "scheduler_event (Hangup _) = False" | "scheduler_event Files = False"
| "scheduler_event _ = True"

lemma handle_request_dispatched: "sv_dispatched (snd (handle_request R os readable conn fr sv)) = sv_dispatched sv"
  by (auto simp: handle_request_def Let_def on_gov_def handle_register_def publish_worker_def handle_save_def handle_load_def
      split: WireType.split prod.split sum.split)

lemma other_threads:
  assumes "coord_step R c e c'" "\<not> scheduler_event e"
  shows "co_sched c' = co_sched c" "sv_dispatched (co_server c') = sv_dispatched (co_server c)"
    "(case e of Send f out \<Rightarrow> out | _ \<Rightarrow> []) = []"
proof -
  have "co_sched c' = co_sched c \<and> sv_dispatched (co_server c') = sv_dispatched (co_server c) \<and> (case e of Send f out \<Rightarrow> out | _ \<Rightarrow> []) = []"
    using assms(1)
  proof (cases rule: coord_step.cases)
    case (request conn fr os readable out sv)
    then show ?thesis
      using handle_request_dispatched [of R os readable conn fr "co_server c"] handle_frame_server [of R os readable conn fr "co_server c"]
      by simp
  qed (use assms(2) in \<open>simp_all add: publish_worker_def disconnect_def\<close>)
  then show "co_sched c' = co_sched c" "sv_dispatched (co_server c') = sv_dispatched (co_server c)"
    "(case e of Send f out \<Rightarrow> out | _ \<Rightarrow> []) = []" by auto
qed

lemma resting_run:
  assumes "coord_run R c tr c'" "co_sched c = Resting" "Tick \<notin> snd ` set tr"
  shows "sv_dispatched (co_server c') = sv_dispatched (co_server c) \<and> scheduled_sends tr = [] \<and> co_sched c' = Resting"
  using assms
proof (induction rule: coord_run.induct)
  case (go c e c' tr c'')
  have "\<not> scheduler_event e" using go(1,4,5) by (cases rule: coord_step.cases) simp_all
  then show ?case using other_threads [OF go(1)] go by auto
qed simp

section \<open>The rest of a pass\<close>

fun todo :: "sched_phase \<Rightarrow> FlowSnapshot list" where
  "todo (Visiting flows rest) = rest" | "todo (Checked flows f w rid rest) = f # rest"
| "todo (Bound flows f rid conn rest) = f # rest" | "todo _ = []"

fun flows_of :: "sched_phase \<Rightarrow> FlowSnapshot list option" where
  "flows_of (Visiting flows rest) = Some flows" | "flows_of (Checked flows f w rid rest) = Some flows"
| "flows_of (Bound flows f rid conn rest) = Some flows" | "flows_of _ = None"

fun pending :: "coord set \<Rightarrow> sched_phase \<Rightarrow> bool" where
  "pending S (Checked flows f w rid rest) \<longleftrightarrow> assigned f = Some (w, rid)"
| "pending S (Bound flows f rid conn rest) \<longleftrightarrow>
     (\<exists>w. assigned f = Some (w, rid) \<and> (\<exists>c \<in> S. map_of (sv_workers (co_server c)) w = Some conn))"
| "pending S _ \<longleftrightarrow> True"

definition finishes :: "coord set \<Rightarrow> FlowSnapshot list \<Rightarrow> (FlowId, AttemptId) umap \<Rightarrow> FlowSnapshot list \<Rightarrow> sends \<Rightarrow> (FlowId, AttemptId) umap \<Rightarrow> bool" where
  "finishes S flows disp rest out disp' \<longleftrightarrow> (\<exists>outs d. list_all2 (visited S disp) rest outs \<and> out = concat outs \<and>
     disp' = prune_dispatched flows d \<and> list_all2 (remembered disp d) rest outs \<and>
     (\<forall>k. k \<notin> fid_of ` set rest \<longrightarrow> map_of d k = map_of disp k))"

lemma finishes_skip:
  assumes "finishes S flows disp rest out disp'" "visited S disp f []" "fid_of f \<notin> fid_of ` set rest"
  shows "finishes S flows disp (f # rest) out disp'"
proof -
  obtain outs d where o: "list_all2 (visited S disp) rest outs" "out = concat outs" "disp' = prune_dispatched flows d"
    "list_all2 (remembered disp d) rest outs" "\<forall>k. k \<notin> fid_of ` set rest \<longrightarrow> map_of d k = map_of disp k"
    using assms(1) unfolding finishes_def by blast
  then have "remembered disp d f []" using assms(3) by (simp add: remembered_def)
  then show ?thesis using o assms(2) unfolding finishes_def by (intro exI [of _ "[] # outs"] exI [of _ d]) simp
qed

lemma finishes_send:
  assumes "finishes S flows d1 rest out disp'" "visited S disp f [m]" "fid_of f \<notin> fid_of ` set rest"
    and d1: "map_of d1 = (map_of disp)(fid_of f \<mapsto> attempt_of f)"
  shows "finishes S flows disp (f # rest) (m # out) disp'"
proof -
  obtain outs d where o: "list_all2 (visited S d1) rest outs" "out = concat outs" "disp' = prune_dispatched flows d"
    "list_all2 (remembered d1 d) rest outs" "\<forall>k. k \<notin> fid_of ` set rest \<longrightarrow> map_of d k = map_of d1 k"
    using assms(1) unfolding finishes_def by blast
  have same: "map_of d1 (fid_of s) = map_of disp (fid_of s)" if "s \<in> set rest" for s
    using assms(3) imageI [OF that, of fid_of] by (auto simp: d1)
  have "visited S disp s out \<longleftrightarrow> visited S d1 s out" "remembered disp d s out \<longleftrightarrow> remembered d1 d s out" if "s \<in> set rest" for s out
    unfolding visited_def remembered_def message_for_cong [OF same [OF that]] same [OF that] by (rule refl)+
  then have "list_all2 (visited S disp) rest outs" "list_all2 (remembered disp d) rest outs"
    using list.rel_mono_strong [OF o(1)] list.rel_mono_strong [OF o(4)] by blast+
  moreover have "remembered disp d f [m]" using o(5) assms(3) by (simp add: remembered_def d1)
  moreover have "\<forall>k. k \<notin> fid_of ` set (f # rest) \<longrightarrow> map_of d k = map_of disp k" using o(5) by (simp add: d1)
  ultimately show ?thesis using o(2,3) assms(2) unfolding finishes_def by (intro exI [of _ "[m] # outs"] exI [of _ d]) simp
qed

lemma pass_rest:
  assumes "coord_run R c tr c'" "co_sched c' = Resting" "Tick \<notin> snd ` set tr" "flows_of (co_sched c) = Some flows"
    and "pending S (co_sched c)" "fst ` set tr \<subseteq> S" "distinct (map fid_of (todo (co_sched c)))"
  shows "finishes S flows (sv_dispatched (co_server c)) (todo (co_sched c)) (scheduled_sends tr) (sv_dispatched (co_server c'))"
  using assms
proof (induction rule: coord_run.induct)
  case (go c e c1 tr c2)
  have later: "Tick \<notin> snd ` set tr" "fst ` set tr \<subseteq> S" "c \<in> S" using go.prems by auto
  note IH = go.IH [OF go.prems(1) later(1) _ _ later(2)]
  show ?case
  proof (cases "scheduler_event e")
    case False
    then show ?thesis using other_threads [OF go(1)] IH go.prems by simp
  next
    case True
    show ?thesis
      using go(1)
    proof (cases rule: coord_step.cases)
      case (skip flows' f rest)
      have "visited S (sv_dispatched (co_server c)) f []"
        using skip(4) later(3) by (auto simp: visited_def split: option.splits)
      then show ?thesis using skip IH go.prems(3,6) by (auto intro!: finishes_skip)
    next
      case (check flows' f rest w rid)
      then show ?thesis using IH go.prems(3,6) by simp
    next
      case (unbound flows' f w rid rest)
      have "visited S (sv_dispatched (co_server c)) f []"
        using unbound go.prems(4) later(3) by (auto simp: visited_def)
      then show ?thesis using unbound IH go.prems(3,6) by (auto intro!: finishes_skip)
    next
      case (bind flows' f w rid rest conn)
      then show ?thesis using IH go.prems(3,4,6) later(3) by auto
    next
      case (send flows' f rid conn rest out disp)
      obtain m where m: "out = [m]" "message_for (sv_dispatched (co_server c)) f conn rid m"
        using send_flow_Inr(1) [OF send(4)] by blast
      obtain w c0 where w: "assigned f = Some (w, rid)" "c0 \<in> S" "map_of (sv_workers (co_server c0)) w = Some conn"
        using send(3) go.prems(4) by auto
      have "visited S (sv_dispatched (co_server c)) f [m]" using w m(2) by (simp add: visited_def) blast
      moreover have "finishes S flows disp rest (scheduled_sends tr) (sv_dispatched (co_server c2))" using send IH go.prems(3,6) by simp
      ultimately show ?thesis using send go.prems(6) m(1) finishes_send [OF _ _ _ send_flow_Inr(2) [OF send(4)]] by simp
    next
      case (prune flows')
      have "flows' = flows" using prune(3) go.prems(3) by simp
      then show ?thesis
        using resting_run [OF go(2) _ later(1)] prune
        by (simp add: finishes_def)
          (intro exI [of _ "[] :: sends list"] exI [of _ "sv_dispatched (co_server c)"], simp)
    qed (use True go.prems(3) in simp_all)
  qed
qed simp

section \<open>A whole pass\<close>

lemma sleeping_run:
  assumes "coord_run R c tr c'" "co_sched c = Sleeping" "co_sched c' = Resting"
  obtains tr1 c1 flows tr2 where "tr = tr1 @ (c1, Listing flows) # tr2" "coord_run R c tr1 c1" "list_flows (co_gov c1) = Inr flows"
    "coord_run R (c1\<lparr>co_sched := Visiting flows flows\<rparr>) tr2 c'" "sv_dispatched (co_server c1) = sv_dispatched (co_server c)"
    "scheduled_sends tr1 = []"
  using assms
proof (induction arbitrary: thesis rule: coord_run.induct)
  case (go c e c1 tr c2)
  show ?case
  proof (cases "scheduler_event e")
    case False
    note same = other_threads [OF go(1) False]
    obtain tr1 d flows tr2 where t: "tr = tr1 @ (d, Listing flows) # tr2" "coord_run R c1 tr1 d" "list_flows (co_gov d) = Inr flows"
      "coord_run R (d\<lparr>co_sched := Visiting flows flows\<rparr>) tr2 c2" "sv_dispatched (co_server d) = sv_dispatched (co_server c1)"
      "scheduled_sends tr1 = []"
      by (rule go.IH) (use go.prems(2,3) same(1) in simp_all)
    show ?thesis
      by (rule go.prems(1) [of "(c, e) # tr1" d flows tr2]) (use t same coord_run.go [OF go(1) t(2)] in auto)
  next
    case True
    obtain flows where l: "e = Listing flows" "list_flows (co_gov c) = Inr flows" "c1 = c\<lparr>co_sched := Visiting flows flows\<rparr>"
      using go(1) by (cases rule: coord_step.cases) (use True go.prems(2) in simp_all)
    show ?thesis by (rule go.prems(1) [of "[]" c flows tr]) (use l go(2) in auto)
  qed
qed simp

lemma coord_run_state: "coord_run R c tr c' \<Longrightarrow> d \<in> fst ` set tr \<Longrightarrow> \<exists>tr1 tr2. tr = tr1 @ tr2 \<and> coord_run R c tr1 d \<and> coord_run R d tr2 c'"
proof (induction rule: coord_run.induct)
  case (go c e c1 tr c2)
  show ?case
  proof (cases "d = c")
    case True
    then show ?thesis using coord_run.go [OF go(1,2)] by (intro exI [of _ "[]"] exI [of _ "(c, e) # tr"]) simp
  next
    case False
    then obtain tr1 tr2 where "tr = tr1 @ tr2" "coord_run R c1 tr1 d" "coord_run R d tr2 c2" using go by auto
    then show ?thesis using coord_run.go [OF go(1)] by (intro exI [of _ "(c, e) # tr1"] exI [of _ tr2]) simp
  qed
qed simp

text \<open>Without a load a reservation that a flow refers to can be looked up at any later time.\<close>

lemma reservation_stays:
  assumes "rounding R" "reachable R g" "gov_reaches R g h" "gen_draws (g_gen h) \<le> 2 ^ 64"
    and "map_of (g_flows g) fid = Some f" "fr_reservation f = Some rid"
  shows "reservation_query rid h \<noteq> None"
proof -
  have "gen_draws (g_gen g) \<le> 2 ^ 64" using gov_reaches_gens [OF assms(3)] assms(4) by (simp add: gens_ok_def)
  then have "evolves g h" using gov_reaches_inv [OF assms(3,1) reachable_inv [OF assms(1,2)] assms(4)] by simp
  moreover have "map_of (g_reservations g) rid \<noteq> None" using refs_reachable [OF assms(2)] assms(5,6) unfolding refs_ok_def by blast
  ultimately show ?thesis unfolding reservation_query_def evolves_def by fastforce
qed

lemma pruned_lookup:
  "map_of (prune_dispatched flows disp) k = (if \<exists>s \<in> set flows. fn_state s = Running \<and> fid_of s = k then map_of disp k else None)"
  by (induction disp) (auto simp: prune_dispatched_def Let_def)

lemma distinct_running:
  assumes "distinct (map fid_of flows)" "s \<in> set flows"
  shows "(\<exists>s' \<in> set flows. fn_state s' = Running \<and> fid_of s' = fid_of s) \<longleftrightarrow> fn_state s = Running"
  using assms by (auto simp: distinct_map dest: inj_onD)

lemma visited_outcome:
  assumes "visited S disp s out" "\<And>rid c. fn_reservation s = Some rid \<Longrightarrow> c \<in> S \<Longrightarrow> reservation_query rid (co_gov c) \<noteq> None"
  shows "fn_state s \<noteq> Running \<or> fn_assigned_worker s = None \<or> fn_reservation s = None \<Longrightarrow> out = []"
    "fn_state s = Running \<Longrightarrow> fn_assigned_worker s = Some w \<Longrightarrow> fn_reservation s = Some rid \<Longrightarrow>
       out = [] \<and> (\<exists>c \<in> S. map_of (sv_workers (co_server c)) w = None) \<or>
       (\<exists>c \<in> S. \<exists>conn m. map_of (sv_workers (co_server c)) w = Some conn \<and> out = [m] \<and> message_for disp s conn rid m)"
proof -
  show "fn_state s \<noteq> Running \<or> fn_assigned_worker s = None \<or> fn_reservation s = None \<Longrightarrow> out = []"
    using assms(1) by (auto simp: visited_def assigned_def split: if_splits option.splits)
  show "fn_state s = Running \<Longrightarrow> fn_assigned_worker s = Some w \<Longrightarrow> fn_reservation s = Some rid \<Longrightarrow>
       out = [] \<and> (\<exists>c \<in> S. map_of (sv_workers (co_server c)) w = None) \<or>
       (\<exists>c \<in> S. \<exists>conn m. map_of (sv_workers (co_server c)) w = Some conn \<and> out = [m] \<and> message_for disp s conn rid m)"
    using assms(1) assms(2) [of rid] by (simp add: visited_def assigned_def)
qed

section \<open>Property\<close>

text \<open>
  Property C17. A pass of the scheduler sends to the workers exactly the messages they need, however the threads of the
  connections run during its sleep and between its steps. The pass lists the flows of the governor, each once, and what it
  sends is, flow by flow in the order of the list, nothing or one message. A flow that is not Running, has no worker or no
  reservation gets none. Any other flow gets exactly one, on a connection of its worker (so none only if its
  worker has no connection at some time after the listing): the dispatch of its attempt when that attempt was not dispatched
  before the pass, and the update of its grant otherwise. Afterwards the attempts sent are remembered as
  dispatched, and nothing is remembered of flows that do not run, so no later pass dispatches an attempt
  again while it runs.
\<close>

theorem scheduler_pass_messages:
  assumes "rounding R" "reachable R (co_gov c)" "coord_run R c tr c'" "co_sched c = Sleeping" "co_sched c' = Resting"
    and "Tick \<notin> snd ` set tr" "\<not> loads tr" "gen_draws (g_gen (co_gov c')) \<le> 2 ^ 64"
  shows "\<exists>tr1 c1 flows tr2 outs. tr = tr1 @ (c1, Listing flows) # tr2 \<and> distinct (map fid_of flows) \<and>
    (\<forall>s. s \<in> set flows \<longleftrightarrow> (\<exists>fid f. map_of (g_flows (co_gov c1)) fid = Some f \<and> to_flow_snap f = Inr s)) \<and>
    scheduled_sends tr = concat outs \<and>
    list_all2 (\<lambda>s out.
      (fn_state s \<noteq> Running \<or> fn_assigned_worker s = None \<or> fn_reservation s = None \<longrightarrow> out = []) \<and>
      (\<forall>w rid. fn_state s = Running \<longrightarrow> fn_assigned_worker s = Some w \<longrightarrow> fn_reservation s = Some rid \<longrightarrow>
         out = [] \<and> (\<exists>c2 \<in> fst ` set tr2. map_of (sv_workers (co_server c2)) w = None) \<or>
         (\<exists>c2 \<in> fst ` set tr2. \<exists>conn m. map_of (sv_workers (co_server c2)) w = Some conn \<and> out = [m] \<and>
            message_for (sv_dispatched (co_server c)) s conn rid m)) \<and>
      map_of (sv_dispatched (co_server c')) (fid_of s) =
        (if fn_state s \<noteq> Running then None
         else if out = [] then map_of (sv_dispatched (co_server c)) (fid_of s) else Some (attempt_of s))) flows outs"
proof -
  obtain tr1 c1 flows tr2 where t: "tr = tr1 @ (c1, Listing flows) # tr2" "coord_run R c tr1 c1" "list_flows (co_gov c1) = Inr flows"
    "coord_run R (c1\<lparr>co_sched := Visiting flows flows\<rparr>) tr2 c'" "sv_dispatched (co_server c1) = sv_dispatched (co_server c)"
    "scheduled_sends tr1 = []"
    using assms(3-5) by (rule sleeping_run)
  let ?c1 = "c1\<lparr>co_sched := Visiting flows flows\<rparr>" let ?S = "fst ` set tr2"
  have nl: "\<not> loads tr1" "\<not> loads tr2" using assms(7) by (simp_all add: t(1))
  have reach: "reachable R (co_gov c1)" by (rule coord_run_reachable [OF assms(1) t(2) nl(1) assms(2)])
  have late: "gov_reaches R (co_gov c1) (co_gov d) \<and> gen_draws (g_gen (co_gov d)) \<le> 2 ^ 64" if d: "d \<in> ?S \<or> d = c1" for d
  proof -
    obtain u v where uv: "tr2 = u @ v" "coord_run R ?c1 u d \<or> u = [] \<and> d = c1" "coord_run R d v c' \<or> v = tr2 \<and> d = c1"
      using d coord_run_state [OF t(4)] by (metis append_Nil)
    have "gov_reaches R (co_gov c1) (co_gov d)" using uv(1,2) coord_run_moves [OF assms(1), of ?c1 u d] nl(2) by auto
    moreover have "gov_reaches R (co_gov d) (co_gov c')"
      using uv(1,3) coord_run_moves [OF assms(1), of d v c'] coord_run_moves [OF assms(1) t(4)] nl(2) by auto
    then have "gen_draws (g_gen (co_gov d)) \<le> 2 ^ 64" using gov_reaches_gens assms(8) by (fastforce simp: gens_ok_def)
    ultimately show ?thesis by simp
  qed
  have inv: "inv_core R (co_gov c1)" using reachable_inv [OF assms(1) reach] late [of c1] by (simp add: gov_inv_def)
  have dist: "distinct (map fid_of flows)" using list_flows_distinct [OF inv t(3)] by (simp add: comp_def)
  have snaps: "s \<in> set flows \<longleftrightarrow> (\<exists>fid f. map_of (g_flows (co_gov c1)) fid = Some f \<and> to_flow_snap f = Inr s)" for s
    using list_flows_set [OF t(3)] inv_coreD(4) [OF inv] by simp
  have "finishes ?S flows (sv_dispatched (co_server ?c1)) flows (scheduled_sends tr2) (sv_dispatched (co_server c'))"
    using pass_rest [OF t(4) assms(5), of flows ?S] assms(6) dist by (simp add: t(1) image_Un)
  then obtain outs d where o: "list_all2 (visited ?S (sv_dispatched (co_server c))) flows outs" "scheduled_sends tr2 = concat outs"
    "sv_dispatched (co_server c') = prune_dispatched flows d" "list_all2 (remembered (sv_dispatched (co_server c)) d) flows outs"
    unfolding finishes_def using t(5) by auto
  have there: "reservation_query rid (co_gov c2) \<noteq> None" if "s \<in> set flows" "fn_reservation s = Some rid" "c2 \<in> ?S" for s rid c2
  proof -
    note s = that
    obtain fid f where "map_of (g_flows (co_gov c1)) fid = Some f" "fr_reservation f = Some rid"
      using snaps s(1,2) by (auto simp: snap_fields)
    then show ?thesis using reservation_stays [OF assms(1) reach] late [of c2] s(3) by blast
  qed
  let ?P = "\<lambda>s out. (fn_state s \<noteq> Running \<or> fn_assigned_worker s = None \<or> fn_reservation s = None \<longrightarrow> out = []) \<and>
      (\<forall>w rid. fn_state s = Running \<longrightarrow> fn_assigned_worker s = Some w \<longrightarrow> fn_reservation s = Some rid \<longrightarrow>
         out = [] \<and> (\<exists>c2 \<in> ?S. map_of (sv_workers (co_server c2)) w = None) \<or>
         (\<exists>c2 \<in> ?S. \<exists>conn m. map_of (sv_workers (co_server c2)) w = Some conn \<and> out = [m] \<and>
            message_for (sv_dispatched (co_server c)) s conn rid m)) \<and>
      map_of (sv_dispatched (co_server c')) (fid_of s) =
        (if fn_state s \<noteq> Running then None
         else if out = [] then map_of (sv_dispatched (co_server c)) (fid_of s) else Some (attempt_of s))"
  have "?P s out" if "s \<in> set flows" "visited ?S (sv_dispatched (co_server c)) s out" "remembered (sv_dispatched (co_server c)) d s out" for s out
  proof -
    note s = that
    have "map_of (sv_dispatched (co_server c')) (fid_of s) =
        (if fn_state s \<noteq> Running then None
         else if out = [] then map_of (sv_dispatched (co_server c)) (fid_of s) else Some (attempt_of s))"
      using s(3) by (simp add: o(3) pruned_lookup distinct_running [OF dist s(1)] remembered_def)
    then show ?thesis using visited_outcome [OF s(2) there [OF s(1)]] by blast
  qed
  moreover have "list_all2 (\<lambda>s out. visited ?S (sv_dispatched (co_server c)) s out \<and> remembered (sv_dispatched (co_server c)) d s out) flows outs"
    using o(1,4) by (simp add: list_all2_conv_all_nth)
  ultimately have "list_all2 ?P flows outs" by (rule list.rel_mono_strong [rotated]) simp_all
  then show ?thesis using t(1,6) dist snaps o(2)
    by (intro exI [of _ tr1] exI [of _ c1] exI [of _ flows] exI [of _ tr2] exI [of _ outs]) simp
qed

section \<open>The uninterrupted pass\<close>

definition calm :: "coord \<Rightarrow> trace \<Rightarrow> bool" where
  "calm c tr \<longleftrightarrow> Tick \<notin> snd ` set tr \<and> \<not> loads tr \<and>
     (\<forall>d \<in> fst ` set tr. sv_workers (co_server d) = sv_workers (co_server c) \<and> co_gov d = co_gov c)"

lemma calm_append: "calm c (tr @ tr') \<longleftrightarrow> calm c tr \<and> calm c tr'"
  by (auto simp: calm_def)

lemma target_assigned: "target g ws f = (case assigned f of None \<Rightarrow> None | Some (w, rid) \<Rightarrow>
    if reservation_query rid g = None then None else map_option (\<lambda>conn. (conn, rid)) (map_of ws w))"
  by (auto simp: target_def assigned_def split: option.splits)

abbreviation passed :: "FlowSnapshot list \<Rightarrow> FlowSnapshot list \<Rightarrow> (FlowId, AttemptId) umap \<Rightarrow> coord \<Rightarrow> coord" where
  "passed flows rest disp c \<equiv> c\<lparr>co_server := (co_server c)\<lparr>sv_dispatched := disp\<rparr>, co_sched := Visiting flows rest\<rparr>"

lemma dispatch_flow_run:
  assumes "co_sched c = Visiting flows (f # rest)"
    and "dispatch_flow (co_gov c) (sv_workers (co_server c)) f (sv_dispatched (co_server c)) = Inr (out, disp)"
  shows "\<exists>tr. coord_run R c tr (passed flows rest disp c) \<and> scheduled_sends tr = out \<and> calm c tr"
proof (cases "case assigned f of None \<Rightarrow> True | Some (w, rid) \<Rightarrow> reservation_query rid (co_gov c) = None")
  case True
  then have "target (co_gov c) (sv_workers (co_server c)) f = None" by (auto simp: target_assigned split: option.splits)
  then have d: "out = []" "passed flows rest disp c = c\<lparr>co_sched := Visiting flows rest\<rparr>" using assms(2) by (simp_all add: dispatch_flow_def)
  show ?thesis
    using coord_step.skip [OF assms(1) True, of R] d
    by (intro exI [of _ "[(c, Skip f)]"]) (simp add: coord_run_Cons calm_def replaces_state_def)
next
  case False
  then obtain w rid where w: "assigned f = Some (w, rid)" "reservation_query rid (co_gov c) \<noteq> None" by (auto split: option.splits)
  let ?c1 = "c\<lparr>co_sched := Checked flows f w rid rest\<rparr>"
  note 1 = coord_step.check [OF assms(1) w, of R]
  show ?thesis
  proof (cases "map_of (sv_workers (co_server c)) w")
    case None
    then have d: "out = []" "passed flows rest disp c = c\<lparr>co_sched := Visiting flows rest\<rparr>"
      using assms(2) w by (simp_all add: dispatch_flow_def target_assigned)
    have "coord_step R ?c1 (Unbound f) (c\<lparr>co_sched := Visiting flows rest\<rparr>)" using coord_step.unbound [of ?c1 flows f w rid rest R] None by simp
    then show ?thesis using 1 d by (intro exI [of _ "[(c, Check f), (?c1, Unbound f)]"]) (simp add: coord_run_Cons calm_def replaces_state_def)
  next
    case (Some conn)
    let ?c2 = "c\<lparr>co_sched := Bound flows f rid conn rest\<rparr>"
    have d: "send_flow f rid conn (sv_dispatched (co_server c)) = Inr (out, disp)"
      using assms(2) w Some by (simp add: dispatch_flow_def target_assigned)
    have "coord_step R ?c1 (Bind f conn) ?c2" using coord_step.bind [of ?c1 flows f w rid rest conn R] Some by simp
    moreover have "coord_step R ?c2 (Send f out) (passed flows rest disp c)" using coord_step.send [of ?c2 flows f rid conn rest out disp R] d by simp
    ultimately show ?thesis
      using 1 by (intro exI [of _ "[(c, Check f), (?c1, Bind f conn), (?c2, Send f out)]"]) (simp add: coord_run_Cons calm_def replaces_state_def)
  qed
qed

lemma dispatch_loop_run:
  assumes "co_sched c = Visiting flows rest"
    and "dispatch_loop (co_gov c) (sv_workers (co_server c)) rest (sv_dispatched (co_server c)) = Inr (out, disp)"
  shows "\<exists>tr. coord_run R c tr (passed flows [] disp c) \<and> scheduled_sends tr = out \<and> calm c tr"
  using assms
proof (induction rest arbitrary: c out)
  case Nil
  then show ?case by (intro exI [of _ "[]"]) (simp add: calm_def)
next
  case (Cons f rest)
  obtain o1 d1 o2 where 1: "dispatch_flow (co_gov c) (sv_workers (co_server c)) f (sv_dispatched (co_server c)) = Inr (o1, d1)"
    "dispatch_loop (co_gov c) (sv_workers (co_server c)) rest d1 = Inr (o2, disp)" "out = o1 @ o2"
    using Cons.prems(2) by (auto simp: rbind_eq_Inr_iff)
  obtain tr1 where tr1: "coord_run R c tr1 (passed flows rest d1 c)" "scheduled_sends tr1 = o1" "calm c tr1"
    using dispatch_flow_run [OF Cons.prems(1) 1(1)] by blast
  obtain tr2 where tr2: "coord_run R (passed flows rest d1 c) tr2 (passed flows [] disp c)" "scheduled_sends tr2 = o2" "calm c tr2"
    using Cons.IH [of "passed flows rest d1 c" o2] 1(2) by (auto simp: calm_def)
  then have "coord_run R c (tr1 @ tr2) (passed flows [] disp c)" using tr1(1) coord_run_append by blast
  then show ?case using tr1(2,3) tr2(2,3) 1(3) by (intro exI [of _ "tr1 @ tr2"]) (simp add: calm_append)
qed

lemma scheduler_pass_run:
  assumes "co_sched c = Resting" "scheduler_pass R (co_server c) = Some (Inr out, sv)"
  shows "\<exists>c1 tr. coord_step R c Tick c1 \<and> co_sched c1 = Sleeping \<and> co_server c1 = (co_server c)\<lparr>sv_gov := sv_gov sv\<rparr> \<and>
    coord_run R c1 tr (c\<lparr>co_server := sv\<rparr>) \<and> scheduled_sends tr = out \<and> calm c1 tr"
proof -
  obtain r flows disp where p: "tick R (co_gov c) = Some (r, sv_gov sv)" "list_flows (sv_gov sv) = Inr flows"
    "dispatch_loop (sv_gov sv) (sv_workers (co_server c)) flows (sv_dispatched (co_server c)) = Inr (out, disp)"
    "sv = (co_server c)\<lparr>sv_gov := sv_gov sv, sv_dispatched := prune_dispatched flows disp\<rparr>"
    using assms(2) by (auto simp: scheduler_pass_def Let_def split: option.splits prod.splits sum.splits)
  let ?c1 = "c\<lparr>co_server := (co_server c)\<lparr>sv_gov := sv_gov sv\<rparr>, co_sched := Sleeping\<rparr>"
  let ?c2 = "?c1\<lparr>co_sched := Visiting flows flows\<rparr>" let ?c3 = "passed flows [] disp ?c1"
  obtain tr where tr: "coord_run R ?c2 tr ?c3" "scheduled_sends tr = out" "calm ?c2 tr"
    using dispatch_loop_run [of ?c2 flows flows out disp R] p(3) by auto
  have "coord_step R ?c1 (Listing flows) ?c2" using coord_step.listing [of ?c1 flows R] p(2) by simp
  moreover have "?c3\<lparr>co_server := (co_server ?c3)\<lparr>sv_dispatched := prune_dispatched flows disp\<rparr>, co_sched := Resting\<rparr> = c\<lparr>co_server := sv\<rparr>"
    using p(4) assms(1) by simp
  then have "coord_step R ?c3 Prune (c\<lparr>co_server := sv\<rparr>)" using coord_step.prune [of ?c3 flows R] by simp
  ultimately have "coord_run R ?c1 ((?c1, Listing flows) # tr @ [(?c3, Prune)]) (c\<lparr>co_server := sv\<rparr>)"
    using tr(1) by (auto simp: coord_run_Cons coord_run_append)
  moreover have "calm ?c1 ((?c1, Listing flows) # tr @ [(?c3, Prune)])" using tr(3) by (auto simp: calm_def replaces_state_def)
  ultimately show ?thesis
    using coord_step.tick [OF assms(1) p(1)] tr(2)
    by (intro exI [of _ ?c1] exI [of _ "(?c1, Listing flows) # tr @ [(?c3, Prune)]"]) simp
qed

definition work_coord :: coord where
  "work_coord = \<lparr>co_server = work_server, co_sched = Resting, co_conns = \<lambda>_. Receiving\<rparr>"

lemma work_pass_returns:
  assumes "scheduler_pass (\<lambda>x. x) work_server = Some (r, sv)" "reachable (\<lambda>x. x) (sv_gov sv)" "gen_draws (g_gen (sv_gov sv)) \<le> 5"
    and "g_flows (sv_gov sv) = [(demo_fid, f)]" "fr_spec f = demo_spec"
  shows "\<exists>out. r = Inr out"
proof -
  have inv: "inv_core (\<lambda>x. x) (sv_gov sv)"
    using reachable_inv [OF exact.rounding_axioms assms(2)] assms(3) by (simp add: gov_inv_def)
  obtain flows where flows: "list_flows (sv_gov sv) = Inr flows" using list_flows_returns [OF inv] by blast
  have "list_all (\<lambda>f. endpoints_short (fn_spec f)) flows"
    using list_flows_set [OF flows] demo_endpoints by (auto simp: list_all_iff assms(4,5) snap_fields)
  moreover obtain q where "tick (\<lambda>x. x) work_2 = Some (q, sv_gov sv)"
    using assms(1) by (auto simp: scheduler_pass_def work_server_def Let_def split: option.splits prod.splits sum.splits)
  ultimately show ?thesis
    using assms(1) flows dispatch_loop_total [of flows "sv_gov sv" "sv_workers work_server" "sv_dispatched work_server"]
    by (auto simp: scheduler_pass_def work_server_def Let_def)
qed

theorem scheduler_pass_messages_witness:
  "\<exists>c tr c' bs. coord_step (\<lambda>x. x) work_coord Tick c \<and> coord_run (\<lambda>x. x) c tr c' \<and> scheduled_sends tr = [(1, FlowDispatch, bs)] \<and>
     map_of (sv_dispatched (co_server c')) demo_fid = Some (fs_attempt demo_spec)"
proof -
  obtain r sv f where p: "scheduler_pass (\<lambda>x. x) work_server = Some (r, sv)" "reachable (\<lambda>x. x) (sv_gov sv)"
    "gen_draws (g_gen (sv_gov sv)) \<le> 5" "g_flows (sv_gov sv) = [(demo_fid, f)]" "fr_state f = Running" "fr_assigned_worker f = Some demo_wid"
    "fr_spec f = demo_spec" "fr_reservation f = Some life_resv" by (rule work_pass)
  have "gen_draws (g_gen (sv_gov sv)) \<le> 2 ^ 64" using p(3) by simp
  then obtain out where out: "r = Inr out" using work_pass_returns [OF p(1-4,7)] by blast
  obtain c tr where c: "coord_step (\<lambda>x. x) work_coord Tick c" "co_sched c = Sleeping" "co_server c = work_server\<lparr>sv_gov := sv_gov sv\<rparr>"
    "coord_run (\<lambda>x. x) c tr (work_coord\<lparr>co_server := sv\<rparr>)" "scheduled_sends tr = out" "calm c tr"
    using scheduler_pass_run [of work_coord "\<lambda>x. x" out sv] p(1) out by (auto simp: work_coord_def)
  have gov: "co_gov c = sv_gov sv" "sv_dispatched (co_server c) = []" using c(3) by (simp_all add: work_server_def)
  have tick: "Tick \<notin> snd ` set tr" "\<not> loads tr" using c(6) by (simp_all add: calm_def)
  have ws: "map_of (sv_workers (co_server d)) demo_wid = Some 1" if "d \<in> fst ` set tr" for d
    using c(3,6) that by (auto simp: calm_def work_server_def)
  have "reachable (\<lambda>x. x) (co_gov c)" "co_sched (work_coord\<lparr>co_server := sv\<rparr>) = Resting"
    "gen_draws (g_gen (co_gov (work_coord\<lparr>co_server := sv\<rparr>))) \<le> 2 ^ 64"
    using gov p(2,3) by (simp_all add: work_coord_def)
  from scheduler_pass_messages [OF exact.rounding_axioms this(1) c(4,2) this(2) tick this(3)]
  obtain tr1 c1 flows tr2 outs where t: "tr = tr1 @ (c1, Listing flows) # tr2" "distinct (map fid_of flows)"
    "\<forall>s. s \<in> set flows \<longleftrightarrow> (\<exists>fid f. map_of (g_flows (co_gov c1)) fid = Some f \<and> to_flow_snap f = Inr s)"
    "scheduled_sends tr = concat outs"
    "list_all2 (\<lambda>s out. (\<forall>w rid. fn_state s = Running \<longrightarrow> fn_assigned_worker s = Some w \<longrightarrow> fn_reservation s = Some rid \<longrightarrow>
         out = [] \<and> (\<exists>c2 \<in> fst ` set tr2. map_of (sv_workers (co_server c2)) w = None) \<or>
         (\<exists>c2 \<in> fst ` set tr2. \<exists>conn m. map_of (sv_workers (co_server c2)) w = Some conn \<and> out = [m] \<and>
            message_for (sv_dispatched (co_server c)) s conn rid m)) \<and>
      map_of (sv_dispatched (co_server (work_coord\<lparr>co_server := sv\<rparr>))) (fid_of s) =
        (if fn_state s \<noteq> Running then None
         else if out = [] then map_of (sv_dispatched (co_server c)) (fid_of s) else Some (attempt_of s))) flows outs"
    by (elim exE conjE) (rule that, assumption+, erule list.rel_mono_strong, blast)
  have flow: "map_of (g_flows (co_gov c1)) fid = Some f' \<longleftrightarrow> fid = demo_fid \<and> f' = f" for fid f'
    using c(6) gov(1) p(4) by (auto simp: calm_def t(1))
  have "inv_core (\<lambda>x. x) (sv_gov sv)" using reachable_inv [OF exact.rounding_axioms p(2)] p(3) by (simp add: gov_inv_def)
  then have "flow_ok (\<lambda>x. x) demo_fid f" using inv_coreD(1) [of "\<lambda>x. x" "sv_gov sv" demo_fid f] p(4) by simp
  then obtain s where s: "to_flow_snap f = Inr s" using to_flow_snap_total by blast
  note fields = snap_fields [OF s] p(5-8)
  have "set flows = {s}" using t(3) flow s by auto
  moreover have "length flows = card (set flows)" using t(2) by (simp add: distinct_card distinct_map)
  ultimately have "length flows = 1" "set flows = {s}" by simp_all
  then have "flows = [s]" by (cases flows) auto
  then obtain o1 where o1: "outs = [o1]" "\<forall>w rid. fn_state s = Running \<longrightarrow> fn_assigned_worker s = Some w \<longrightarrow> fn_reservation s = Some rid \<longrightarrow>
         o1 = [] \<and> (\<exists>c2 \<in> fst ` set tr2. map_of (sv_workers (co_server c2)) w = None) \<or>
         (\<exists>c2 \<in> fst ` set tr2. \<exists>conn m. map_of (sv_workers (co_server c2)) w = Some conn \<and> o1 = [m] \<and>
            message_for (sv_dispatched (co_server c)) s conn rid m)"
    "map_of (sv_dispatched sv) (fid_of s) = (if fn_state s \<noteq> Running then None
       else if o1 = [] then map_of (sv_dispatched (co_server c)) (fid_of s) else Some (attempt_of s))"
    using t(5) by (auto simp: list_all2_Cons1)
  have "map_of (sv_workers (co_server d)) demo_wid = Some 1" if "d \<in> fst ` set tr2" for d using ws [of d] that by (simp add: t(1) image_Un)
  then obtain m where m: "o1 = [m]" "message_for (sv_dispatched (co_server c)) s 1 life_resv m"
    using o1(2) fields by fastforce
  then obtain bs where "m = (1, FlowDispatch, bs)" by (auto simp: message_for_def gov(2))
  moreover have "fs_id demo_spec = demo_fid" by (simp add: demo_spec_def fixture_flow_def demo_fid_def)
  ultimately show ?thesis using c(1,4) t(4) o1(1,3) m(1) fields
    by (intro exI [of _ c] exI [of _ tr] exI [of _ "work_coord\<lparr>co_server := sv\<rparr>"] exI [of _ bs]) simp
qed

end
