(* ===== verification/Governor_Stranded.thy ===== *)
theory Governor_Stranded
  imports Governor_Fencing
begin

text \<open>
  A restart of a worker rolls the running flows over to the new boot, but not the throttled ones:
  a throttled flow keeps the boot of the former process when the scheduler lets it run again.
\<close>

section \<open>Lemmas\<close>

lemma settle_loop_lookup:
  assumes "settle_loop R g gm t fs = (Inr u, fs')" "map_of fs fid = Some f"
  shows "\<exists>f' v. settle_flow R g gm t fid f = (Inr v, f') \<and> map_of fs' fid = Some f'"
  using assms
proof (induction fs arbitrary: fs')
  case (Cons x fs)
  obtain k h where x: "x = (k, h)" by fastforce
  obtain w h' fs'' where h: "settle_flow R g gm t k h = (Inr w, h')" "settle_loop R g gm t fs = (Inr u, fs'')" "fs' = (k, h') # fs''"
    using Cons.prems(1) by (auto simp: x split: prod.splits sum.splits)
  show ?case using Cons.IH [OF h(2)] Cons.prems(2) h x by (cases "k = fid") auto
qed simp

lemma tick_flow:
  assumes "tick R g = Some (Inr u, g')" "map_of (g_flows g) fid = Some f" "fr_state f \<noteq> Queued"
  shows "\<exists>b gm v f'. settle_flow R b gm (now g) fid (starve R (now g) f) = (Inr v, f') \<and> map_of (g_flows g') fid = Some f' \<and>
    g_workers g' = g_workers g"
proof -
  let ?q = "tick_queue R g"
  have q: "?q = (fst ?q, snd ?q)" by simp
  obtain gm fs where gm: "grant_loop R (g_resources (tick_base R g)) (contention_of R (tick_base R g) (now g)) [] = Some gm"
    "settle_loop R (tick_base R g) gm (now g) (g_flows (tick_base R g)) = (Inr (), fs)"
    "g' = recompute_usage R ((tick_base R g)\<lparr>g_flows := fs\<rparr>)"
    using assms(1) unfolding tick_def tick_base_def tick_queue_def Let_def
    by (auto split: prod.splits sum.splits option.splits)
  have "map_of (g_flows (tick_base R g)) fid = Some (starve R (now g) f)" by (rule tick_base_skips [OF assms(2,3)])
  from settle_loop_lookup [OF gm(2) this] obtain f' v where
    "settle_flow R (tick_base R g) gm (now g) fid (starve R (now g) f) = (Inr v, f')" "map_of fs fid = Some f'" by blast
  then show ?thesis using gm(3) by (intro exI [of _ "tick_base R g"] exI [of _ gm] exI [of _ v] exI [of _ f']) (simp add: frame_simps)
qed

lemma set_flow_state_fields:
  assumes "set_flow_state s f = Inr f'"
  shows "fr_assigned_worker f' = fr_assigned_worker f" "fr_assigned_boot f' = fr_assigned_boot f"
  using assms by (auto simp: set_flow_state_def split: option.splits)

lemma settle_keeps_assignment:
  assumes "settle_flow R b gm t fid f = (Inr v, f')" "fr_state f \<noteq> Reserved"
  shows "fr_assigned_worker f' = fr_assigned_worker f" "fr_assigned_boot f' = fr_assigned_boot f"
  using assms by (auto simp: settle_flow_def Let_def set_flow_state_fields split: if_splits sum.splits prod.splits)

lemma restart_loop_workers: "g_workers (snd (restart_loop reg fids g)) = g_workers g"
proof (induction fids arbitrary: g)
  case (Cons x xs)
  have "g_workers (snd (restart_flow reg x f g)) = g_workers g" for f
    by (auto simp: restart_flow_def Let_def frame_simps split: prod.splits option.splits sum.splits)
  then show ?case using Cons by (auto split: option.splits prod.splits sum.splits) (metis snd_conv)+
qed simp

lemma register_worker_effect:
  assumes "register_worker R reg g = (Inr w, g')"
  shows "\<exists>k. map_of (g_workers g') (wr_worker reg) = Some k \<and> wk_boot k = wr_boot reg \<and> wk_alive k \<and> wk_back_resources k = map rs_id (wr_inventory reg)"
    "map_of (g_flows g) fid = Some f \<Longrightarrow> fr_state f \<noteq> Running \<Longrightarrow> map_of (g_flows g') fid = Some f"
proof -
  let ?h = "registered reg g"
  have one: "g_workers (register_resource g rs) = g_workers g" for g rs
    by (auto simp: register_resource_def Let_def frame_simps split: prod.splits)
  have "g_workers (foldl register_resource h inv) = g_workers h" for h inv
    by (induction inv arbitrary: h) (simp_all add: one)
  then have h: "\<exists>k. map_of (g_workers ?h) (wr_worker reg) = Some k \<and> wk_boot k = wr_boot reg \<and> wk_alive k \<and> wk_back_resources k = map rs_id (wr_inventory reg)"
    by (simp add: registered_def update_conv')
  have g': "g' = recompute_governed R (snd (restart_loop reg (keys (g_flows ?h)) ?h)) \<or> g' = recompute_governed R ?h"
    using assms by (auto simp: register_worker_eq split: prod.splits sum.splits if_splits)
  show "\<exists>k. map_of (g_workers g') (wr_worker reg) = Some k \<and> wk_boot k = wr_boot reg \<and> wk_alive k \<and> wk_back_resources k = map rs_id (wr_inventory reg)"
    using g' h by (auto simp: frame_simps restart_loop_workers)
  assume "map_of (g_flows g) fid = Some f" "fr_state f \<noteq> Running"
  then show "map_of (g_flows g') fid = Some f"
    using g' restart_loop_skips [of ?h fid f reg "keys (g_flows ?h)"] by (auto simp: frame_simps registered_tables)
qed

section \<open>Lost workers\<close>

text \<open>
  A running flow whose worker is deregistered is not dispatched again: the next tick leaves it without
  a worker. Until then its reports are accepted under every boot, since there is no worker to compare
  the boot with.
\<close>

lemma deregister_flow:
  assumes "map_of (g_flows g) fid = Some f" "fr_state f = Running" "fr_assigned_worker f = Some wn"
  shows "\<exists>f'. map_of (g_flows (deregister_worker wn g)) fid = Some f' \<and> fr_state f' = Running \<and> fr_assigned_worker f' = None \<and>
    fr_spec f' = fr_spec f \<and> fr_reservation f' = fr_reservation f"
proof -
  have "map_of (g_flows (deregister_worker wn g)) fid = Some (lose_worker wn f)"
    using assms(1) by (auto simp: deregister_worker_def Let_def split: option.split)
  then show ?thesis using assms(2,3) by (simp add: lose_worker_def on_worker_def)
qed

lemma deregistered_flow_not_redispatched:
  assumes "map_of (g_flows g) fid = Some f" "fr_state f = Running" "fr_assigned_worker f = Some wn"
    and "tick R (deregister_worker wn g) = Some (Inr (), g')" "map_of (g_flows g') fid = Some f'"
  shows "fr_assigned_worker f' = None"
proof -
  obtain f1 where f1: "map_of (g_flows (deregister_worker wn g)) fid = Some f1" "fr_state f1 = Running" "fr_assigned_worker f1 = None"
    using deregister_flow [OF assms(1-3)] by blast
  let ?t = "now (deregister_worker wn g)"
  obtain b gm v where "settle_flow R b gm ?t fid (starve R ?t f1) = (Inr v, f')"
    using tick_flow [OF assms(4) f1(1)] f1(2) assms(5) by auto
  then show ?thesis using settle_keeps_assignment(1) f1(2,3) by (fastforce simp: starve_def)
qed

lemma deregistered_flow_accepts_any_boot:
  assumes "map_of (g_flows g) fid = Some f" "fr_assigned_worker f = Some wn"
    and "report_ok g f attempt fgen boot"
  shows "\<exists>f'. map_of (g_flows (deregister_worker wn g)) fid = Some f' \<and>
    report_ok (deregister_worker wn g) f' attempt fgen any_boot"
proof -
  have "fr_state f = Running" using assms(3) by (simp add: report_ok_def)
  then obtain f' where f': "map_of (g_flows (deregister_worker wn g)) fid = Some f'" "fr_state f' = Running"
    "fr_assigned_worker f' = None" "fr_spec f' = fr_spec f" "fr_reservation f' = fr_reservation f"
    using deregister_flow [OF assms(1) _ assms(2)] by blast
  moreover have "g_reservations (deregister_worker wn g) = g_reservations g" "g_epoch (deregister_worker wn g) = g_epoch g"
    "g_capacity_generation (deregister_worker wn g) = g_capacity_generation g"
    by (simp_all add: deregister_worker_def Let_def split: option.split)
  ultimately show ?thesis using assms(3) by (auto simp: report_ok_def split: option.splits)
qed

section \<open>The property\<close>

text \<open>
  Property C37. A throttled flow is stranded by a restart of its worker. When the worker registers
  with a new boot while the flow is throttled, and the scheduler later lets the flow run again, the
  flow still carries the boot of the former process, so every report under the boot it is assigned to
  (the boot a dispatch of it carries) is refused: the flow can neither progress nor complete.
\<close>

theorem restart_strands_throttled_flow:
  assumes "map_of (g_flows g) fid = Some f" "fr_state f = Throttled" "fr_assigned_worker f = Some (wr_worker reg)"
    and "fr_assigned_boot f \<noteq> wr_boot reg" "register_worker R reg g = (Inr w, g')"
    and "tick R g' = Some (Inr (), g'')" "map_of (g_flows g'') fid = Some f''" "fr_state f'' = Running"
  shows "fr_assigned_worker f'' = Some (wr_worker reg) \<and> fr_assigned_boot f'' = fr_assigned_boot f \<and>
    \<not> report_ok g'' f'' attempt fgen (fr_assigned_boot f'') \<and>
    report_progress fid attempt fgen (fr_assigned_boot f'') n g'' = (False, g'') \<and>
    report_completion R fid attempt fgen (fr_assigned_boot f'') n g'' = (Inr False, g'')"
proof -
  have flow: "map_of (g_flows g') fid = Some f" by (rule register_worker_effect(2) [OF assms(5,1)]) (simp add: assms(2))
  obtain b gm v where f'': "settle_flow R b gm (now g') fid (starve R (now g') f) = (Inr v, f'')" "g_workers g'' = g_workers g'"
    using tick_flow [OF assms(6) flow] assms(2,7) by auto
  have s: "fr_state (starve R (now g') f) = Throttled" "fr_assigned_worker (starve R (now g') f) = fr_assigned_worker f"
    "fr_assigned_boot (starve R (now g') f) = fr_assigned_boot f"
    using assms(2) by (simp_all add: starve_def Let_def)
  have keep: "fr_assigned_worker f'' = Some (wr_worker reg)" "fr_assigned_boot f'' = fr_assigned_boot f"
    using settle_keeps_assignment [OF f''(1)] s assms(3) by simp_all
  have "\<not> report_ok g'' f'' attempt fgen (fr_assigned_boot f'')"
    using register_worker_effect(1) [OF assms(5)] keep f''(2) assms(4) by (auto simp: report_ok_def)
  then show ?thesis using keep assms(7) by (simp add: report_progress_def report_completion_def)
qed

text \<open>A throttled flow, its worker back with a new boot, and the flow running again.\<close>

definition stuck_flow :: FlowRT where
  "stuck_flow = demo_flow\<lparr>fr_state := Throttled, fr_spec := demo_spec\<lparr>fs_preemptible := False\<rparr>\<rparr>"

definition stuck_0 :: gov where
  "stuck_0 = demo_gov\<lparr>g_flows := [(demo_fid, stuck_flow)], g_resources := []\<rparr>"

definition stuck_1 :: gov where
  "stuck_1 = snd (register_worker (\<lambda>x. x) ((work_reg (Id128 0 99))\<lparr>wr_inventory := []\<rparr>) stuck_0)"

lemma stuck_1_registered: "register_worker (\<lambda>x. x) ((work_reg (Id128 0 99))\<lparr>wr_inventory := []\<rparr>) stuck_0 = (Inr demo_wid, stuck_1)"
  by (simp add: stuck_1_def register_worker_def stuck_0_def work_reg_def demo_gov_def Let_def on_worker_def stuck_flow_def)

lemma stuck_1_eq: "g_flows stuck_1 = [(demo_fid, stuck_flow)]" "g_resources stuck_1 = []" "g_paths stuck_1 = [(demo_pid, demo_path)]"
  by (simp_all add: stuck_1_def register_worker_def stuck_0_def work_reg_def demo_gov_def Let_def on_worker_def stuck_flow_def
    recompute_governed_def)

lemma grant_loop_unknown: "grant_loop R [] c gm = Some gm"
  by (induction c) auto

lemma stuck_ticked: "\<exists>g f. tick (\<lambda>x. x) stuck_1 = Some (Inr (), g) \<and> map_of (g_flows g) demo_fid = Some f \<and> fr_state f = Running"
proof -
  let ?g = "advance_tenant_starvation (\<lambda>x. x) (now stuck_1) (now_next stuck_1)"
  let ?b = "recompute_reserved (\<lambda>x. x) (recompute_governed (\<lambda>x. x) ?g)"
  define h where "h = starve (\<lambda>x. x) (now stuck_1) stuck_flow"
  have h: "fr_state h = Throttled" "fr_spec h = demo_spec\<lparr>fs_preemptible := False\<rparr>"
    by (simp_all add: h_def starve_def stuck_flow_def Let_def)
  have "keys (g_resources ?b) = []"
    by (simp add: recompute_governed_keys) (simp add: advance_tenant_starvation_def frame_simps stuck_1_eq)
  then have res: "g_resources ?b = []" by (rule Nil_is_map_conv [THEN iffD1, OF sym])
  have flows: "g_flows ?b = [(demo_fid, h)]" "queued_ids ?g = []"
    by (simp_all add: frame_simps advance_tenant_starvation_def stuck_1_eq queued_ids_def h_def [symmetric] h)
  have "\<exists>f. settle_flow (\<lambda>x. x) ?b [] (now stuck_1) demo_fid h = (Inr (), f) \<and> fr_state f = Running"
    using h by (simp add: settle_flow_def Let_def umap_entry_def set_flow_state_def demo_spec_def fixture_flow_def flit_def fl_def dbl_max_def
        flow_transition_def)
  then obtain f where f: "settle_flow (\<lambda>x. x) ?b [] (now stuck_1) demo_fid h = (Inr (), f)" "fr_state f = Running" by blast
  then have "settle_loop (\<lambda>x. x) ?b [] (now stuck_1) (g_flows ?b) = (Inr (), [(demo_fid, f)])" unfolding flows(1) by simp
  then have "tick (\<lambda>x. x) stuck_1 = Some (Inr (), recompute_usage (\<lambda>x. x) (?b\<lparr>g_flows := [(demo_fid, f)]\<rparr>))"
    unfolding tick_def Let_def flows(2) by (simp add: res grant_loop_unknown)
  then show ?thesis using f(2) by (simp add: frame_simps)
qed

theorem restart_strands_throttled_flow_witness:
  "\<exists>g f. map_of (g_flows g) demo_fid = Some f \<and> fr_state f = Running \<and> fr_assigned_boot f = demo_boot \<and>
     report_completion (\<lambda>x. x) demo_fid (fs_attempt (fr_spec f)) (fs_generation (fr_spec f)) demo_boot 0 g = (Inr False, g)"
proof -
  obtain g f where g: "tick (\<lambda>x. x) stuck_1 = Some (Inr (), g)" "map_of (g_flows g) demo_fid = Some f" "fr_state f = Running"
    using stuck_ticked by blast
  have "map_of (g_flows stuck_0) demo_fid = Some stuck_flow" by (simp add: stuck_0_def)
  from restart_strands_throttled_flow [OF this _ _ _ stuck_1_registered g, of "fs_attempt (fr_spec f)" "fs_generation (fr_spec f)" 0]
    g(2,3) show ?thesis
    by (intro exI [of _ g] exI [of _ f]) (auto simp: stuck_flow_def demo_flow_def work_reg_def demo_boot_def)
qed

end
