(* ===== verification/Backend.thy ===== *)
theory Backend
  imports Resource Flow
begin

text \<open>
  The backends that move the bytes: the interface of \<^verbatim>\<open>include/bg/backend.hpp\<close>, the synthetic backend
  of \<^verbatim>\<open>src/backend.cpp\<close> and the CUDA backend of \<^verbatim>\<open>src/backend_cuda.cpp\<close>.

  The abstract class is the record \<open>Backend\<close> of its virtual functions over a type of states; a concrete
  class is a state type and a value of that record. What the interface promises is the locale \<open>backend\<close>,
  and both classes are interpretations of it: the CUDA backend for every CUDA runtime, which is a
  parameter, since the contract does not depend on what the runtime answers. That a slice moves all the
  bytes it may is the stronger contract \<open>prompt_backend\<close>, which the synthetic backend meets.
\<close>

section \<open>The interface\<close>

record 's Backend =
  be_name :: string
  be_inventory :: "'s \<Rightarrow> ResourceSpec list"
  be_submit :: "FlowSpec \<Rightarrow> 's \<Rightarrow> 's"
  be_step :: "FlowId \<Rightarrow> u64 \<Rightarrow> f64 \<Rightarrow> 's \<Rightarrow> u64 \<times> 's"
  be_completed :: "FlowId \<Rightarrow> 's \<Rightarrow> u64"
  be_is_done :: "FlowId \<Rightarrow> 's \<Rightarrow> bool"
  be_cancel :: "FlowId \<Rightarrow> 's \<Rightarrow> 's"
  be_all_done :: "'s \<Rightarrow> bool"

section \<open>The synthetic backend\<close>

record sjob =
  sj_total :: u64
  sj_done :: u64
  sj_name :: string

record synthetic =
  sy_inv :: "ResourceSpec list"
  sy_jobs :: "(FlowId, sjob) umap"

definition synthetic_submit :: "FlowSpec \<Rightarrow> synthetic \<Rightarrow> synthetic" where
  "synthetic_submit spec s = s\<lparr>sy_jobs := AList.update (fs_id spec)
     \<lparr>sj_total = fs_byte_count spec, sj_done = 0, sj_name = fs_source spec @ ''->'' @ fs_destination spec\<rparr> (sy_jobs s)\<rparr>"

definition synthetic_step :: "FlowId \<Rightarrow> u64 \<Rightarrow> f64 \<Rightarrow> synthetic \<Rightarrow> u64 \<times> synthetic" where
  "synthetic_step flow budget window_ms s =
     (case map_of (sy_jobs s) flow of
        None \<Rightarrow> (0, s)
      | Some j \<Rightarrow>
          if sj_total j \<le> sj_done j then (0, s)
          else let remaining = sj_total j - sj_done j;
                   move = (if budget < remaining then budget else remaining)
               in (move, s\<lparr>sy_jobs := AList.update flow (j\<lparr>sj_done := sj_done j + move\<rparr>) (sy_jobs s)\<rparr>))"

definition synthetic_completed :: "FlowId \<Rightarrow> synthetic \<Rightarrow> u64" where
  "synthetic_completed flow s = (case map_of (sy_jobs s) flow of None \<Rightarrow> 0 | Some j \<Rightarrow> sj_done j)"

definition synthetic_is_done :: "FlowId \<Rightarrow> synthetic \<Rightarrow> bool" where
  "synthetic_is_done flow s = (case map_of (sy_jobs s) flow of None \<Rightarrow> True | Some j \<Rightarrow> sj_total j \<le> sj_done j)"

definition synthetic_cancel :: "FlowId \<Rightarrow> synthetic \<Rightarrow> synthetic" where
  "synthetic_cancel flow s = s\<lparr>sy_jobs := AList.delete flow (sy_jobs s)\<rparr>"

definition synthetic_all_done :: "synthetic \<Rightarrow> bool" where
  "synthetic_all_done s = list_all (\<lambda>(_, j). \<not> sj_done j < sj_total j) (sy_jobs s)"

definition synthetic_backend :: "synthetic Backend" where
  "synthetic_backend =
     \<lparr>be_name = ''synthetic'', be_inventory = sy_inv, be_submit = synthetic_submit, be_step = synthetic_step,
      be_completed = synthetic_completed, be_is_done = synthetic_is_done, be_cancel = synthetic_cancel,
      be_all_done = synthetic_all_done\<rparr>"

definition make_synthetic_backend :: "ResourceSpec list \<Rightarrow> synthetic" where
  "make_synthetic_backend inventory = \<lparr>sy_inv = inventory, sy_jobs = []\<rparr>"

section \<open>The CUDA backend\<close>

text \<open>
  The CUDA runtime as the backend calls it. A pointer or a stream is a number, the null pointer is 0.
  An allocation answers whether it succeeded and what it left in the pointer it was given.
\<close>

datatype cudaMemcpyKind = cudaMemcpyHostToDevice | cudaMemcpyDeviceToHost

record 'r cuda_runtime =
  cudaMallocHost :: "u64 \<Rightarrow> 'r \<Rightarrow> (bool \<times> u64) \<times> 'r"
  cudaMalloc :: "u64 \<Rightarrow> 'r \<Rightarrow> (bool \<times> u64) \<times> 'r"
  cudaStreamCreate :: "'r \<Rightarrow> (bool \<times> u64) \<times> 'r"
  cudaMemcpyAsync :: "u64 \<Rightarrow> u64 \<Rightarrow> u64 \<Rightarrow> cudaMemcpyKind \<Rightarrow> u64 \<Rightarrow> 'r \<Rightarrow> 'r"
  cudaStreamSynchronize :: "u64 \<Rightarrow> 'r \<Rightarrow> 'r"
  cudaGetLastError :: "'r \<Rightarrow> bool \<times> 'r"
  cudaStreamDestroy :: "u64 \<Rightarrow> 'r \<Rightarrow> 'r"
  cudaFree :: "u64 \<Rightarrow> 'r \<Rightarrow> 'r"
  cudaFreeHost :: "u64 \<Rightarrow> 'r \<Rightarrow> 'r"
  cudaGetDeviceCount :: "'r \<Rightarrow> (bool \<times> int) \<times> 'r"

record cjob =
  cj_total :: u64
  cj_done :: u64
  cj_host :: u64
  cj_device :: u64
  cj_stream :: u64
  cj_alloc_ok :: bool

record 'r cuda_state =
  cu_resource :: ResourceSpec
  cu_jobs :: "(FlowId, cjob) umap"
  cu_rt :: 'r

definition cuda_alloc :: "'r cuda_runtime \<Rightarrow> u64 \<Rightarrow> 'r \<Rightarrow> cjob \<times> 'r" where
  "cuda_alloc rt n r =
     (let j = \<lparr>cj_total = n, cj_done = 0, cj_host = 0, cj_device = 0, cj_stream = 0, cj_alloc_ok = False\<rparr>
      in case cudaMallocHost rt (n + 1) r of
           ((False, p), r) \<Rightarrow> (j\<lparr>cj_host := p\<rparr>, r)
         | ((True, p), r) \<Rightarrow>
             (case cudaMalloc rt (n + 1) r of
                ((False, q), r) \<Rightarrow> (j\<lparr>cj_host := p, cj_device := q\<rparr>, r)
              | ((True, q), r) \<Rightarrow>
                  (case cudaStreamCreate rt r of
                     ((ok, st), r) \<Rightarrow> (j\<lparr>cj_host := p, cj_device := q, cj_stream := st, cj_alloc_ok := ok\<rparr>, r))))"

definition cuda_submit :: "'r cuda_runtime \<Rightarrow> FlowSpec \<Rightarrow> 'r cuda_state \<Rightarrow> 'r cuda_state" where
  "cuda_submit rt spec s =
     (case cuda_alloc rt (fs_byte_count spec) (cu_rt s) of
        (j, r) \<Rightarrow> s\<lparr>cu_jobs := AList.update (fs_id spec) j (cu_jobs s), cu_rt := r\<rparr>)"

text \<open>The two copies and the synchronisation of a slice, and whether the runtime reports an error.\<close>

definition cuda_move :: "'r cuda_runtime \<Rightarrow> cjob \<Rightarrow> u64 \<Rightarrow> 'r \<Rightarrow> bool \<times> 'r" where
  "cuda_move rt j move r =
     (let hp = cj_host j + cj_done j; dp = cj_device j + cj_done j;
          r = cudaMemcpyAsync rt dp hp move cudaMemcpyHostToDevice (cj_stream j) r;
          r = cudaMemcpyAsync rt hp dp move cudaMemcpyDeviceToHost (cj_stream j) r
      in cudaGetLastError rt (cudaStreamSynchronize rt (cj_stream j) r))"

definition cuda_step :: "'r cuda_runtime \<Rightarrow> FlowId \<Rightarrow> u64 \<Rightarrow> f64 \<Rightarrow> 'r cuda_state \<Rightarrow> u64 \<times> 'r cuda_state" where
  "cuda_step rt flow budget window_ms s =
     (case map_of (cu_jobs s) flow of
        None \<Rightarrow> (0, s)
      | Some j \<Rightarrow>
          if \<not> cj_alloc_ok j \<or> cj_total j \<le> cj_done j then (0, s)
          else let remaining = cj_total j - cj_done j;
                   move = (if budget < remaining then budget else remaining)
               in if move = 0 then (0, s)
                  else case cuda_move rt j move (cu_rt s) of
                         (False, r) \<Rightarrow> (0, s\<lparr>cu_rt := r\<rparr>)
                       | (True, r) \<Rightarrow>
                           (move, s\<lparr>cu_jobs := AList.update flow (j\<lparr>cj_done := cj_done j + move\<rparr>) (cu_jobs s), cu_rt := r\<rparr>))"

definition cuda_completed :: "FlowId \<Rightarrow> 'r cuda_state \<Rightarrow> u64" where
  "cuda_completed flow s = (case map_of (cu_jobs s) flow of None \<Rightarrow> 0 | Some j \<Rightarrow> cj_done j)"

definition cuda_is_done :: "FlowId \<Rightarrow> 'r cuda_state \<Rightarrow> bool" where
  "cuda_is_done flow s = (case map_of (cu_jobs s) flow of None \<Rightarrow> True | Some j \<Rightarrow> cj_total j \<le> cj_done j)"

definition free_job :: "'r cuda_runtime \<Rightarrow> cjob \<Rightarrow> 'r \<Rightarrow> cjob \<times> 'r" where
  "free_job rt j r =
     (let r = (if cj_stream j \<noteq> 0 then cudaStreamDestroy rt (cj_stream j) r else r);
          r = (if cj_device j \<noteq> 0 then cudaFree rt (cj_device j) r else r);
          r = (if cj_host j \<noteq> 0 then cudaFreeHost rt (cj_host j) r else r)
      in (j\<lparr>cj_stream := 0, cj_device := 0, cj_host := 0, cj_alloc_ok := False\<rparr>, r))"

definition cuda_cancel :: "'r cuda_runtime \<Rightarrow> FlowId \<Rightarrow> 'r cuda_state \<Rightarrow> 'r cuda_state" where
  "cuda_cancel rt flow s =
     (case map_of (cu_jobs s) flow of
        None \<Rightarrow> s
      | Some j \<Rightarrow> s\<lparr>cu_jobs := AList.delete flow (cu_jobs s), cu_rt := snd (free_job rt j (cu_rt s))\<rparr>)"

definition cuda_all_done :: "'r cuda_state \<Rightarrow> bool" where
  "cuda_all_done s = list_all (\<lambda>(_, j). \<not> cj_done j < cj_total j) (cu_jobs s)"

text \<open>The destructor.\<close>

definition cuda_destroy :: "'r cuda_runtime \<Rightarrow> 'r cuda_state \<Rightarrow> 'r cuda_state" where
  "cuda_destroy rt s = s\<lparr>cu_jobs := [], cu_rt := fold (\<lambda>(_, j) r. snd (free_job rt j r)) (cu_jobs s) (cu_rt s)\<rparr>"

definition cuda_backend :: "'r cuda_runtime \<Rightarrow> 'r cuda_state Backend" where
  "cuda_backend rt =
     \<lparr>be_name = ''cuda'', be_inventory = (\<lambda>s. [cu_resource s]), be_submit = cuda_submit rt, be_step = cuda_step rt,
      be_completed = cuda_completed, be_is_done = cuda_is_done, be_cancel = cuda_cancel rt, be_all_done = cuda_all_done\<rparr>"

definition cuda_backend_available :: "'r cuda_runtime \<Rightarrow> 'r \<Rightarrow> bool \<times> 'r" where
  "cuda_backend_available rt r =
     (case cudaGetDeviceCount rt r of ((ok, count), r) \<Rightarrow> (ok \<and> 0 < count, r))"

definition cuda_ok :: "'r cuda_runtime \<Rightarrow> 'r \<Rightarrow> bool \<times> 'r" where
  "cuda_ok rt r = cudaGetLastError rt r"

definition make_cuda_backend :: "'r cuda_runtime \<Rightarrow> ResourceSpec \<Rightarrow> 'r \<Rightarrow> 'r cuda_state result" where
  "make_cuda_backend rt resource r =
     (case cuda_backend_available rt r of
        (False, r) \<Rightarrow> Inl (plain_error ''CUDA backend requested but no usable device is present'')
      | (True, r) \<Rightarrow> Inr \<lparr>cu_resource = resource, cu_jobs = [], cu_rt = r\<rparr>)"

text \<open>A build without CUDA.\<close>

definition cuda_backend_available_stub :: bool where
  "cuda_backend_available_stub = False"

definition cuda_ok_stub :: bool where
  "cuda_ok_stub = True"

definition make_cuda_backend_stub :: "ResourceSpec \<Rightarrow> 'r cuda_state result" where
  "make_cuda_backend_stub resource = Inl (plain_error ''CUDA backend is not compiled in'')"

section \<open>The contract\<close>

declare map_of_eq_Some_iff [simp del]

lemma unat_add_bounded: "unat (x :: u64) + unat y \<le> unat (z :: u64) \<Longrightarrow> unat (x + y) = unat x + unat y"
  using unsigned_less [of z, where ?'a = nat] by (simp flip: unat_add_lem)

lemma add_within:
  assumes "(d :: u64) \<le> t" "m \<le> t - d"
  shows "d + m \<le> t" "unat (d + m) = unat d + unat m"
proof -
  have "unat d + unat m \<le> unat t" using assms by (simp add: word_le_nat_alt unat_sub)
  then show "unat (d + m) = unat d + unat m" "d + m \<le> t" by (simp_all add: unat_add_bounded word_le_nat_alt)
qed

text \<open>
  What a client may rely on. A backend keeps, for every flow with a job, the total and the bytes done;
  \<open>view\<close> reads them off a state and \<open>ok\<close> is the invariant of the class.
\<close>

locale backend =
  fixes be :: "'s Backend"
    and view :: "'s \<Rightarrow> FlowId \<Rightarrow> (u64 \<times> u64) option"
    and ok :: "'s \<Rightarrow> bool"
  assumes within: "ok s \<Longrightarrow> view s f = Some (t, d) \<Longrightarrow> d \<le> t"
    and submit: "ok s \<Longrightarrow> ok (be_submit be spec s)"
      "ok s \<Longrightarrow> view (be_submit be spec s) = (view s)(fs_id spec \<mapsto> (fs_byte_count spec, 0))"
    and step: "ok s \<Longrightarrow> ok (snd (be_step be f b w s))"
    and step_none: "ok s \<Longrightarrow> view s f = None \<Longrightarrow> be_step be f b w s = (0, s)"
    and step_some: "ok s \<Longrightarrow> view s f = Some (t, d) \<Longrightarrow>
      fst (be_step be f b w s) \<le> min b (t - d) \<and>
      view (snd (be_step be f b w s)) = (view s)(f \<mapsto> (t, d + fst (be_step be f b w s)))"
    and completed: "ok s \<Longrightarrow> be_completed be f s = (case view s f of None \<Rightarrow> 0 | Some (t, d) \<Rightarrow> d)"
    and is_done: "ok s \<Longrightarrow> be_is_done be f s \<longleftrightarrow> (case view s f of None \<Rightarrow> True | Some (t, d) \<Rightarrow> d = t)"
    and cancel: "ok s \<Longrightarrow> ok (be_cancel be f s)" "ok s \<Longrightarrow> view (be_cancel be f s) = (view s)(f := None)"
    and all_done: "ok s \<Longrightarrow> be_all_done be s \<longleftrightarrow> (\<forall>f. be_is_done be f s)"

locale prompt_backend = backend +
  assumes prompt: "ok s \<Longrightarrow> view s f = Some (t, d) \<Longrightarrow> fst (be_step be f b w s) = min b (t - d)"

text \<open>A run of slices of one flow, and the bytes moved by it.\<close>

fun slices :: "'s Backend \<Rightarrow> FlowId \<Rightarrow> (u64 \<times> f64) list \<Rightarrow> 's \<Rightarrow> u64 \<times> 's" where
  "slices be f [] s = (0, s)"
| "slices be f ((b, w) # bs) s =
     (case be_step be f b w s of (moved, s) \<Rightarrow> case slices be f bs s of (rest, s) \<Rightarrow> (moved + rest, s))"

context backend
begin

lemma step_moved:
  assumes "ok s" "be_step be f b w s = (moved, s')"
  shows "ok s'" "moved \<le> b" "g \<noteq> f \<Longrightarrow> view s' g = view s g"
    "view s f = None \<Longrightarrow> moved = 0 \<and> view s' f = None"
    "view s f = Some (t, d) \<Longrightarrow> view s' f = Some (t, d + moved) \<and> moved \<le> t - d \<and> d + moved \<le> t \<and> unat (d + moved) = unat d + unat moved"
proof -
  show "ok s'" using step [OF assms(1), of f b w] assms(2) by simp
  show "view s f = None \<Longrightarrow> moved = 0 \<and> view s' f = None" using step_none [OF assms(1), of f b w] assms(2) by auto
  show "moved \<le> b"
    by (cases "view s f") (use step_none [OF assms(1), of f b w] step_some [OF assms(1), of f _ _ b w] assms(2) in auto)
  show "view s' g = view s g" if "g \<noteq> f"
    by (cases "view s f") (use step_none [OF assms(1), of f b w] step_some [OF assms(1), of f _ _ b w] assms(2) that in auto)
  show "view s' f = Some (t, d + moved) \<and> moved \<le> t - d \<and> d + moved \<le> t \<and> unat (d + moved) = unat d + unat moved" if v: "view s f = Some (t, d)"
  proof -
    have "moved \<le> t - d" "view s' f = Some (t, d + moved)" using step_some [OF assms(1) v, of b w] assms(2) by auto
    moreover have "d \<le> t" using within [OF assms(1) v] .
    ultimately show ?thesis using add_within by simp
  qed
qed

lemma slices_moved:
  assumes "ok s" "view s f = Some (t, d)" "slices be f bs s = (moved, s')"
  shows "ok s' \<and> view s' f = Some (t, d + moved) \<and> d + moved \<le> t \<and> unat (d + moved) = unat d + unat moved \<and>
    unat moved \<le> (\<Sum>(b, w) \<leftarrow> bs. unat b)"
  using assms
proof (induction bs arbitrary: s d moved s')
  case Nil
  then show ?case using within by auto
next
  case (Cons bw bs)
  obtain b w where bw: "bw = (b, w)" by (cases bw)
  obtain m s1 where s1: "be_step be f b w s = (m, s1)" by fastforce
  obtain m2 s2 where s2: "slices be f bs s1 = (m2, s2)" by fastforce
  have eq: "moved = m + m2" "s' = s2" using Cons.prems(3) s1 s2 bw by simp_all
  note one = step_moved [OF Cons.prems(1) s1] and v1 = step_moved(5) [OF Cons.prems(1) s1 Cons.prems(2)]
  have r: "ok s2 \<and> view s2 f = Some (t, d + m + m2) \<and> d + m + m2 \<le> t \<and> unat (d + m + m2) = unat (d + m) + unat m2 \<and>
      unat m2 \<le> (\<Sum>(b, w) \<leftarrow> bs. unat b)"
    using Cons.IH [OF one(1) _ s2] v1 by blast
  have "unat (m + m2) = unat m + unat m2"
  proof -
    have "unat m + unat m2 \<le> unat (d + m + m2)" using r v1 by simp
    then show ?thesis by (rule unat_add_bounded)
  qed
  then show ?case using r v1 one(2) eq bw by (simp add: add.assoc word_le_nat_alt)
qed

end

context prompt_backend
begin

lemma slices_prompt:
  assumes "ok s" "view s f = Some (t, d)" "slices be f bs s = (moved, s')"
  shows "unat moved = min (unat t - unat d) (\<Sum>(b, w) \<leftarrow> bs. unat b)"
  using assms
proof (induction bs arbitrary: s d moved s')
  case (Cons bw bs)
  obtain b w where bw: "bw = (b, w)" by (cases bw)
  obtain m s1 where s1: "be_step be f b w s = (m, s1)" by fastforce
  obtain m2 s2 where s2: "slices be f bs s1 = (m2, s2)" by fastforce
  have eq: "moved = m + m2" using Cons.prems(3) s1 s2 bw by simp
  have v1: "view s1 f = Some (t, d + m)" "unat (d + m) = unat d + unat m" "d + m \<le> t"
    using step_moved(5) [OF Cons.prems(1) s1 Cons.prems(2)] by auto
  have m: "m = min b (t - d)" using prompt [OF Cons.prems(1,2), of b w] s1 by simp
  have "d \<le> t" using within Cons.prems by blast
  then have "unat m = min (unat b) (unat t - unat d)" using m by (simp add: min_def word_le_nat_alt unat_sub)
  moreover have m2: "unat m2 = min (unat t - unat (d + m)) (\<Sum>(b, w) \<leftarrow> bs. unat b)"
    using Cons.IH [OF step_moved(1) [OF Cons.prems(1) s1] v1(1) s2] .
  moreover have "unat (m + m2) = unat m + unat m2"
  proof -
    have "unat m + unat m2 \<le> unat t" using m2 v1 \<open>d \<le> t\<close> by (auto simp: word_le_nat_alt min_def)
    then show ?thesis by (rule unat_add_bounded)
  qed
  ultimately show ?case using eq v1 bw \<open>d \<le> t\<close> by (auto simp: min_def)
qed simp

end

section \<open>Both classes meet it\<close>

definition synthetic_view :: "synthetic \<Rightarrow> FlowId \<Rightarrow> (u64 \<times> u64) option" where
  "synthetic_view s f = map_option (\<lambda>j. (sj_total j, sj_done j)) (map_of (sy_jobs s) f)"

definition synthetic_valid :: "synthetic \<Rightarrow> bool" where
  "synthetic_valid s \<longleftrightarrow> distinct (keys (sy_jobs s)) \<and> (\<forall>f j. map_of (sy_jobs s) f = Some j \<longrightarrow> sj_done j \<le> sj_total j)"

definition cuda_view :: "'r cuda_state \<Rightarrow> FlowId \<Rightarrow> (u64 \<times> u64) option" where
  "cuda_view s f = map_option (\<lambda>j. (cj_total j, cj_done j)) (map_of (cu_jobs s) f)"

definition cuda_valid :: "'r cuda_state \<Rightarrow> bool" where
  "cuda_valid s \<longleftrightarrow> distinct (keys (cu_jobs s)) \<and> (\<forall>f j. map_of (cu_jobs s) f = Some j \<longrightarrow> cj_done j \<le> cj_total j)"

lemma slice_min: "(if b < r then b else r) = min b (r :: u64)"
  by (auto simp: min_def)

lemma slice_within: "(d :: u64) \<le> t \<Longrightarrow> d + min b (t - d) \<le> t"
  by (intro add_within(1)) simp_all

lemma all_entries:
  "distinct (keys m) \<Longrightarrow> list_all (\<lambda>(_, j). P j) m \<longleftrightarrow> (\<forall>f. case map_of m f of None \<Rightarrow> True | Some j \<Rightarrow> P j)"
  by (auto simp: list_all_iff map_of_eq_Some_iff split: option.split)

lemma synthetic_step_valid: "synthetic_valid s \<Longrightarrow> synthetic_valid (snd (synthetic_step f b w s))"
  by (auto simp: synthetic_valid_def synthetic_step_def Let_def slice_min slice_within split: option.split)

lemma synthetic_prompt:
  assumes "synthetic_valid s" "synthetic_view s f = Some (t, d)"
  shows "fst (synthetic_step f b w s) = min b (t - d)"
    "synthetic_view (snd (synthetic_step f b w s)) = (synthetic_view s)(f \<mapsto> (t, d + min b (t - d)))"
proof -
  obtain j where j: "map_of (sy_jobs s) f = Some j" "sj_total j = t" "sj_done j = d"
    using assms(2) by (auto simp: synthetic_view_def)
  have "d \<le> t" using assms(1) j by (auto simp: synthetic_valid_def)
  then show "fst (synthetic_step f b w s) = min b (t - d)"
    "synthetic_view (snd (synthetic_step f b w s)) = (synthetic_view s)(f \<mapsto> (t, d + min b (t - d)))"
    using j by (auto simp: synthetic_step_def synthetic_view_def Let_def slice_min fun_eq_iff)
qed

interpretation synth: prompt_backend synthetic_backend synthetic_view synthetic_valid
proof
  show "synthetic_valid s \<Longrightarrow> synthetic_view s f = Some (t, d) \<Longrightarrow> d \<le> t" for s f t d
    by (auto simp: synthetic_valid_def synthetic_view_def)
  show "synthetic_valid s \<Longrightarrow> synthetic_valid (be_submit synthetic_backend spec s)"
    "synthetic_view (be_submit synthetic_backend spec s) = (synthetic_view s)(fs_id spec \<mapsto> (fs_byte_count spec, 0))" for s spec
    by (auto simp: synthetic_backend_def synthetic_submit_def synthetic_valid_def synthetic_view_def)
  show "synthetic_valid s \<Longrightarrow> synthetic_valid (snd (be_step synthetic_backend f b w s))" for s f b w
    by (simp add: synthetic_backend_def synthetic_step_valid)
  show "synthetic_view s f = None \<Longrightarrow> be_step synthetic_backend f b w s = (0, s)" for s f b w
    by (auto simp: synthetic_backend_def synthetic_view_def synthetic_step_def)
  show "synthetic_valid s \<Longrightarrow> synthetic_view s f = Some (t, d) \<Longrightarrow> fst (be_step synthetic_backend f b w s) = min b (t - d)"
    "synthetic_valid s \<Longrightarrow> synthetic_view s f = Some (t, d) \<Longrightarrow> fst (be_step synthetic_backend f b w s) \<le> min b (t - d) \<and>
      synthetic_view (snd (be_step synthetic_backend f b w s)) = (synthetic_view s)(f \<mapsto> (t, d + fst (be_step synthetic_backend f b w s)))"
    for s f t d b w by (simp_all add: synthetic_backend_def synthetic_prompt)
  show "be_completed synthetic_backend f s = (case synthetic_view s f of None \<Rightarrow> 0 | Some (t, d) \<Rightarrow> d)" for s f
    by (auto simp: synthetic_backend_def synthetic_completed_def synthetic_view_def split: option.split)
  show "synthetic_valid s \<Longrightarrow> be_is_done synthetic_backend f s \<longleftrightarrow> (case synthetic_view s f of None \<Rightarrow> True | Some (t, d) \<Rightarrow> d = t)" for s f
    by (auto simp: synthetic_backend_def synthetic_is_done_def synthetic_valid_def synthetic_view_def intro: order.antisym split: option.split)
  show "synthetic_valid s \<Longrightarrow> synthetic_valid (be_cancel synthetic_backend f s)"
    "synthetic_view (be_cancel synthetic_backend f s) = (synthetic_view s)(f := None)" for s f
    by (auto simp: synthetic_backend_def synthetic_cancel_def synthetic_valid_def synthetic_view_def delete_conv' distinct_delete
        split: if_splits)
  show "synthetic_valid s \<Longrightarrow> be_all_done synthetic_backend s \<longleftrightarrow> (\<forall>f. be_is_done synthetic_backend f s)" for s
    by (simp add: synthetic_backend_def synthetic_all_done_def synthetic_is_done_def synthetic_valid_def all_entries not_less)
qed

text \<open>A CUDA slice either moves nothing and keeps the job, or moves what it may.\<close>

lemma cuda_step_cases:
  assumes "cuda_valid s" "cuda_view s f = Some (t, d)"
  shows "(fst (cuda_step rt f b w s) = 0 \<and> cu_jobs (snd (cuda_step rt f b w s)) = cu_jobs s) \<or>
    (\<exists>j. map_of (cu_jobs s) f = Some j \<and> fst (cuda_step rt f b w s) = min b (t - d) \<and>
       cu_jobs (snd (cuda_step rt f b w s)) = AList.update f (j\<lparr>cj_done := d + min b (t - d)\<rparr>) (cu_jobs s))"
proof -
  obtain j where j: "map_of (cu_jobs s) f = Some j" "cj_total j = t" "cj_done j = d" using assms(2) by (auto simp: cuda_view_def)
  obtain good r where r: "cuda_move rt j (min b (t - d)) (cu_rt s) = (good, r)" by fastforce
  show ?thesis using j r by (cases good) (simp_all add: cuda_step_def Let_def slice_min)
qed

lemma cuda_contract:
  assumes "cuda_valid s" "cuda_view s f = Some (t, d)"
  shows "cuda_valid (snd (cuda_step rt f b w s))" "fst (cuda_step rt f b w s) \<le> min b (t - d)"
    "cuda_view (snd (cuda_step rt f b w s)) = (cuda_view s)(f \<mapsto> (t, d + fst (cuda_step rt f b w s)))"
proof -
  have "d \<le> t" using assms by (auto simp: cuda_valid_def cuda_view_def)
  then have le: "d + min b (t - d) \<le> t" by (rule slice_within)
  show "cuda_valid (snd (cuda_step rt f b w s))"
    using cuda_step_cases [OF assms, of rt b w] assms le by (auto simp: cuda_valid_def cuda_view_def split: if_splits)
  show "fst (cuda_step rt f b w s) \<le> min b (t - d)" using cuda_step_cases [OF assms, of rt b w] by auto
  show "cuda_view (snd (cuda_step rt f b w s)) = (cuda_view s)(f \<mapsto> (t, d + fst (cuda_step rt f b w s)))"
    using cuda_step_cases [OF assms, of rt b w] assms(2) by (auto simp: cuda_view_def fun_eq_iff)
qed

lemma cuda_alloc_fields: "cj_total (fst (cuda_alloc rt n r)) = n" "cj_done (fst (cuda_alloc rt n r)) = 0"
  by (auto simp: cuda_alloc_def Let_def split: prod.split bool.split)

interpretation cuda: backend "cuda_backend rt" cuda_view cuda_valid for rt
proof
  show "cuda_valid s \<Longrightarrow> cuda_view s f = Some (t, d) \<Longrightarrow> d \<le> t" for s f t d
    by (auto simp: cuda_valid_def cuda_view_def)
  show "cuda_valid s \<Longrightarrow> cuda_valid (be_submit (cuda_backend rt) spec s)"
    "cuda_view (be_submit (cuda_backend rt) spec s) = (cuda_view s)(fs_id spec \<mapsto> (fs_byte_count spec, 0))" for s spec
    using cuda_alloc_fields [of rt "fs_byte_count spec" "cu_rt s"]
    by (auto simp: cuda_backend_def cuda_submit_def cuda_valid_def cuda_view_def split: prod.split)
  show "cuda_view s f = None \<Longrightarrow> be_step (cuda_backend rt) f b w s = (0, s)" for s f b w
    by (auto simp: cuda_backend_def cuda_view_def cuda_step_def)
  show "cuda_valid s \<Longrightarrow> cuda_valid (snd (be_step (cuda_backend rt) f b w s))" for s f b w
    using cuda_contract(1) [of s f _ _ rt b w]
    by (cases "cuda_view s f") (auto simp: cuda_backend_def cuda_step_def cuda_view_def)
  show "cuda_valid s \<Longrightarrow> cuda_view s f = Some (t, d) \<Longrightarrow> fst (be_step (cuda_backend rt) f b w s) \<le> min b (t - d) \<and>
      cuda_view (snd (be_step (cuda_backend rt) f b w s)) = (cuda_view s)(f \<mapsto> (t, d + fst (be_step (cuda_backend rt) f b w s)))"
    for s f t d b w by (simp add: cuda_backend_def cuda_contract del: min_less_iff_conj min.bounded_iff)
  show "be_completed (cuda_backend rt) f s = (case cuda_view s f of None \<Rightarrow> 0 | Some (t, d) \<Rightarrow> d)" for s f
    by (auto simp: cuda_backend_def cuda_completed_def cuda_view_def split: option.split)
  show "cuda_valid s \<Longrightarrow> be_is_done (cuda_backend rt) f s \<longleftrightarrow> (case cuda_view s f of None \<Rightarrow> True | Some (t, d) \<Rightarrow> d = t)" for s f
    by (auto simp: cuda_backend_def cuda_is_done_def cuda_valid_def cuda_view_def intro: order.antisym split: option.split)
  show "cuda_valid s \<Longrightarrow> cuda_valid (be_cancel (cuda_backend rt) f s)"
    "cuda_view (be_cancel (cuda_backend rt) f s) = (cuda_view s)(f := None)" for s f
    by (auto simp: cuda_backend_def cuda_cancel_def cuda_valid_def cuda_view_def delete_conv' distinct_delete fun_eq_iff
        split: if_splits option.split)
  show "cuda_valid s \<Longrightarrow> be_all_done (cuda_backend rt) s \<longleftrightarrow> (\<forall>f. be_is_done (cuda_backend rt) f s)" for s
    by (simp add: cuda_backend_def cuda_all_done_def cuda_is_done_def cuda_valid_def all_entries not_less)
qed

section \<open>What the CUDA backend does not tell\<close>

text \<open>A job whose allocation failed never moves and is never done, and nothing reports it.\<close>

lemma cuda_failed_allocation_stalls:
  assumes "map_of (cu_jobs s) f = Some j" "\<not> cj_alloc_ok j" "cj_done j < cj_total j"
  shows "cuda_step api f b w s = (0, s)" "\<not> cuda_is_done f s"
  using assms by (simp_all add: cuda_step_def cuda_is_done_def)

text \<open>A runtime that counts what is allocated: a flow submitted again over its job leaves three objects behind.\<close>

definition counting_runtime :: "nat cuda_runtime" where
  "counting_runtime =
     \<lparr>cudaMallocHost = (\<lambda>_ n. ((True, 1), n + 1)), cudaMalloc = (\<lambda>_ n. ((True, 1), n + 1)),
      cudaStreamCreate = (\<lambda>n. ((True, 1), n + 1)), cudaMemcpyAsync = (\<lambda>_ _ _ _ _ n. n), cudaStreamSynchronize = (\<lambda>_ n. n),
      cudaGetLastError = (\<lambda>n. (True, n)), cudaStreamDestroy = (\<lambda>_ n. n - 1), cudaFree = (\<lambda>_ n. n - 1),
      cudaFreeHost = (\<lambda>_ n. n - 1), cudaGetDeviceCount = (\<lambda>n. ((True, 1), n))\<rparr>"

lemma cuda_resubmit_leaks:
  "cu_rt (cuda_destroy counting_runtime (cuda_submit counting_runtime spec (cuda_submit counting_runtime spec
     \<lparr>cu_resource = res, cu_jobs = [], cu_rt = 0\<rparr>))) = 3"
  "cu_rt (cuda_destroy counting_runtime (cuda_submit counting_runtime spec
     \<lparr>cu_resource = res, cu_jobs = [], cu_rt = 0\<rparr>)) = 0"
  by (simp_all add: cuda_destroy_def cuda_submit_def cuda_alloc_def free_job_def counting_runtime_def)

end
