(* ===== verification/Worker.thy ===== *)
theory Worker
  imports Backend Transport
begin

text \<open>
  The worker process of \<^verbatim>\<open>workers/bgworker.cpp\<close>: its command line, its registration with the
  coordinator, and the loop that takes the received messages, paces the jobs at the granted rates and
  reports progress and completion.

  A turn of the loop is given by the messages that the receiving thread has queued and by the
  milliseconds since the last paced turn. Results are layered: \<open>None\<close> is undefined behaviour (the
  conversion of a rate out of range), \<open>Inl\<close> is an exception that nothing catches, which ends the process.
  The result of \<^verbatim>\<open>send_frame\<close> is ignored by the source, so the frames of a turn are a list.
\<close>

section \<open>The command line\<close>

text \<open>What a step of the start-up ends in: an exit code, an uncaught exception, or a value.\<close>

datatype 'a startup = Exit int | Terminate | Go 'a

fun arg_scan :: "string \<Rightarrow> string list \<Rightarrow> string" where
  "arg_scan name (a # b # rest) = (if a = name then b else arg_scan name (b # rest))"
| "arg_scan name _ = []"

definition arg_value :: "string list \<Rightarrow> string \<Rightarrow> string" where
  "arg_value argv name = arg_scan name (tl argv)"

text \<open>
  \<^verbatim>\<open>std::stoull(v, nullptr, 10)\<close>, which is \<^verbatim>\<open>std::stoul\<close> where \<^verbatim>\<open>unsigned long\<close> has 64 bits: white space,
  a sign, then digits; what follows is ignored. \<open>None\<close> stands for its two exceptions.
\<close>

definition is_space :: "char \<Rightarrow> bool" where
  "is_space c \<longleftrightarrow> of_char c = (32 :: nat) \<or> (9 \<le> (of_char c :: nat) \<and> (of_char c :: nat) \<le> 13)"

definition is_digit :: "char \<Rightarrow> bool" where
  "is_digit c \<longleftrightarrow> 48 \<le> (of_char c :: nat) \<and> (of_char c :: nat) \<le> 57"

definition digits_value :: "string \<Rightarrow> nat" where
  "digits_value ds = foldl (\<lambda>n c. 10 * n + (of_char c - 48)) 0 ds"

definition sign_of :: "string \<Rightarrow> bool \<times> string" where
  "sign_of s = (case s of [] \<Rightarrow> (False, [])
     | c # r \<Rightarrow> if c = CHR ''-'' then (True, r) else if c = CHR ''+'' then (False, r) else (False, s))"

definition stoull :: "string \<Rightarrow> u64 option" where
  "stoull v =
     (case sign_of (dropWhile is_space v) of
        (negative, s) \<Rightarrow>
          let ds = takeWhile is_digit s; n = digits_value ds
          in if ds = [] \<or> 2 ^ 64 \<le> n then None
             else Some (if negative then - of_nat n else of_nat n))"

definition arg_u64 :: "string list \<Rightarrow> string \<Rightarrow> u64 \<Rightarrow> u64 option" where
  "arg_u64 argv name d = (let v = arg_value argv name in if v = [] then Some d else stoull v)"

definition arg_id :: "string list \<Rightarrow> string \<Rightarrow> 't Id128 option" where
  "arg_id argv name =
     (let v = arg_value argv name in if v = [] then Some null_id else map_option (Id128 0) (stoull v))"

record worker_config =
  wc_host :: string
  wc_port :: u16
  wc_worker :: WorkerId
  wc_boot :: WorkerBootId
  wc_backend :: string
  wc_nominal :: u64

text \<open>\<^verbatim>\<open>coord.find(':')\<close> and the two substrings.\<close>

definition split_coordinator :: "string \<Rightarrow> (string \<times> u16) option" where
  "split_coordinator coord =
     (let host = takeWhile (\<lambda>c. c \<noteq> CHR '':'') coord
      in if host = coord then Some (coord, 0)
         else map_option (\<lambda>n. (host, ucast n)) (stoull (drop (length host + 1) coord)))"

definition worker_args :: "string list \<Rightarrow> worker_config startup" where
  "worker_args argv =
     (let coord = arg_value argv ''--coordinator''
      in if coord = [] then Exit 2
         else case (arg_id argv ''--worker-id'', arg_id argv ''--boot'', arg_u64 argv ''--nominal'' 1000000000,
                    split_coordinator coord) of
                (Some wid, Some boot, Some nominal, Some (host, port)) \<Rightarrow>
                  if port = 0 then Exit 2
                  else Go \<lparr>wc_host = host, wc_port = port, wc_worker = wid, wc_boot = boot,
                           wc_backend = (let b = arg_value argv ''--backend'' in if b = [] then ''synthetic'' else b),
                           wc_nominal = nominal\<rparr>
              | _ \<Rightarrow> Terminate)"

section \<open>Registration\<close>

definition worker_resource :: "(rat \<Rightarrow> rat) \<Rightarrow> worker_config \<Rightarrow> ResourceSpec result" where
  "worker_resource R cfg =
     rbind (Capacity_make (f64_of_u64 R (wc_nominal cfg))) (\<lambda>nominal.
       Inr (ResourceSpec_default\<lparr>rs_id := Id128 0 (id_lo (wc_worker cfg)), rs_class := Pcie, rs_source := ''worker'',
              rs_destination := ''host'', rs_direction := Unidirectional, rs_nominal := nominal,
              rs_generation := fresh_generation (id_lo (wc_worker cfg))\<rparr>))"

definition worker_registration :: "worker_config \<Rightarrow> ResourceSpec \<Rightarrow> payload_Register" where
  "worker_registration cfg res =
     \<lparr>pr_worker = wc_worker cfg, pr_boot = wc_boot cfg, pr_protocol = 1, pr_backend = wc_backend cfg, pr_inventory = [res]\<rparr>"

definition worker_acknowledged :: "DecodedFrame option result \<Rightarrow> unit startup" where
  "worker_acknowledged received =
     (case received of
        Inl e \<Rightarrow> Terminate
      | Inr None \<Rightarrow> Exit 1
      | Inr (Some f) \<Rightarrow>
          if df_type f \<noteq> RegisterAck then Exit 1
          else case decode_register_ack (df_payload f) of
                 Inl e \<Rightarrow> Terminate
               | Inr ack \<Rightarrow> if pa_ok ack then Go () else Exit 1)"

text \<open>\<open>answers\<close> is what \<^verbatim>\<open>send\<close> answers, \<open>cs\<close> the segments of the stream; the registration that is sent comes first.\<close>

definition worker_handshake ::
    "(rat \<Rightarrow> rat) \<Rightarrow> worker_config \<Rightarrow> int list \<Rightarrow> bytes list \<Rightarrow> ResourceSpec startup \<times> bytes \<times> bytes list" where
  "worker_handshake R cfg answers cs =
     (case worker_resource R cfg of
        Inl e \<Rightarrow> (Terminate, [], cs)
      | Inr res \<Rightarrow>
          (case encode_register (worker_registration cfg res) of
             Inl e \<Rightarrow> (Terminate, [], cs)
           | Inr body \<Rightarrow>
               (case send_frame Register body answers of
                  (False, sent) \<Rightarrow> (Exit 1, sent, cs)
                | (True, sent) \<Rightarrow>
                    (case recv_frame cs of
                       (received, cs) \<Rightarrow>
                         (case worker_acknowledged received of
                            Go _ \<Rightarrow> Go res | Exit c \<Rightarrow> Exit c | Terminate \<Rightarrow> Terminate, sent, cs)))))"

definition start_cuda :: "'r cuda_runtime \<Rightarrow> ResourceSpec \<Rightarrow> 'r \<Rightarrow> 'r cuda_state startup" where
  "start_cuda api res r =
     (case cuda_backend_available api r of
        (False, r) \<Rightarrow> Exit 1
      | (True, r) \<Rightarrow> (case make_cuda_backend api res r of Inl e \<Rightarrow> Terminate | Inr s \<Rightarrow> Go s))"

section \<open>The loop\<close>

record wjob =
  jb_spec :: FlowSpec
  jb_attempt :: AttemptId
  jb_fgen :: FlowGeneration
  jb_boot :: WorkerBootId
  jb_reservation :: ReservationId
  jb_grant :: Capacity

record 's worker =
  bw_jobs :: "(FlowId, wjob) umap"
  bw_grants :: "(FlowId, f64) umap"
  bw_accum :: "(FlowId, u64) umap"
  bw_backend :: 's
  bw_done :: bool

definition worker_start :: "'s \<Rightarrow> 's worker" where
  "worker_start s = \<lparr>bw_jobs = [], bw_grants = [], bw_accum = [], bw_backend = s, bw_done = False\<rparr>"

definition job_of :: "payload_Dispatch \<Rightarrow> wjob" where
  "job_of d =
     \<lparr>jb_spec = pd_flow d, jb_attempt = pd_attempt d, jb_fgen = pd_fgen d, jb_boot = pd_boot d,
      jb_reservation = pd_reservation d, jb_grant = pd_grant d\<rparr>"

definition worker_dispatch :: "'s Backend \<Rightarrow> payload_Dispatch \<Rightarrow> 's worker \<Rightarrow> 's worker" where
  "worker_dispatch be d w =
     w\<lparr>bw_backend := be_submit be (pd_flow d) (bw_backend w),
       bw_jobs := AList.update (fs_id (pd_flow d)) (job_of d) (bw_jobs w),
       bw_grants := AList.update (fs_id (pd_flow d)) (cap_value (pd_grant d)) (bw_grants w),
       bw_accum := AList.update (fs_id (pd_flow d)) 0 (bw_accum w)\<rparr>"

definition worker_message :: "'s Backend \<Rightarrow> DecodedFrame \<Rightarrow> 's worker \<Rightarrow> 's worker result" where
  "worker_message be m w =
     (if df_type m = FlowDispatch
      then rbind (decode_dispatch (df_payload m)) (\<lambda>d. Inr (worker_dispatch be d w))
      else if df_type m = FlowGrant
      then rbind (decode_grant (df_payload m)) (\<lambda>g.
             Inr (w\<lparr>bw_grants := AList.update (pg_flow g) (cap_value (pg_grant g)) (bw_grants w)\<rparr>))
      else if df_type m = FlowCancel \<or> df_type m = Shutdown then Inr (w\<lparr>bw_done := True\<rparr>)
      else Inr w)"

fun worker_messages :: "'s Backend \<Rightarrow> DecodedFrame list \<Rightarrow> 's worker \<Rightarrow> 's worker result" where
  "worker_messages be [] w = Inr w"
| "worker_messages be (m # ms) w = rbind (worker_message be m w) (worker_messages be ms)"

text \<open>\<^verbatim>\<open>static_cast<uint64_t>(double)\<close>: truncation, undefined unless the result fits.\<close>

fun u64_of_f64 :: "f64 \<Rightarrow> u64 option" where
  "u64_of_f64 (Fin q) = (if - 1 < q \<and> q < 2 ^ 64 then Some (of_nat (nat \<lfloor>q\<rfloor>)) else None)"
| "u64_of_f64 _ = None"

definition pace_budget :: "(rat \<Rightarrow> rat) \<Rightarrow> f64 \<Rightarrow> f64 \<Rightarrow> u64 option" where
  "pace_budget R rate delta_ms = u64_of_f64 (fdiv R (fmul R rate delta_ms) (flit R 1000))"

text \<open>One job of a paced turn: its slice, the bytes counted, whether it moved and whether it is done.\<close>

definition pace_job :: "(rat \<Rightarrow> rat) \<Rightarrow> 's Backend \<Rightarrow> f64 \<Rightarrow> FlowId \<Rightarrow> 's worker \<Rightarrow> (u64 \<times> bool \<times> 's worker) option" where
  "pace_job R be delta_ms fid w =
     (let rate = umap_entry f0 fid (bw_grants w)
      in case pace_budget R rate delta_ms of
           None \<Rightarrow> None
         | Some budget \<Rightarrow>
             (case be_step be fid budget delta_ms (bw_backend w) of
                (moved, s) \<Rightarrow> Some (moved, be_is_done be fid s,
                  w\<lparr>bw_grants := AList.update fid rate (bw_grants w),
                    bw_accum := AList.update fid (umap_entry 0 fid (bw_accum w) + moved) (bw_accum w),
                    bw_backend := s\<rparr>)))"

fun pace_loop ::
    "(rat \<Rightarrow> rat) \<Rightarrow> 's Backend \<Rightarrow> f64 \<Rightarrow> FlowId list \<Rightarrow> 's worker \<Rightarrow> (FlowId list \<times> FlowId list \<times> 's worker) option" where
  "pace_loop R be delta_ms [] w = Some ([], [], w)"
| "pace_loop R be delta_ms (fid # fids) w =
     (case pace_job R be delta_ms fid w of
        None \<Rightarrow> None
      | Some (moved, fin, w) \<Rightarrow>
          (case pace_loop R be delta_ms fids w of
             None \<Rightarrow> None
           | Some (to_report, to_complete, w) \<Rightarrow>
               Some (if \<not> fin \<and> 0 < moved then fid # to_report else to_report,
                     if fin then fid # to_complete else to_complete, w)))"

definition report_of :: "'s worker \<Rightarrow> bool \<Rightarrow> FlowId \<Rightarrow> wjob \<Rightarrow> payload_Report" where
  "report_of w finished fid j =
     \<lparr>pt_flow = fid, pt_attempt = jb_attempt j, pt_fgen = jb_fgen j, pt_boot = jb_boot j,
      pt_bytes = umap_entry 0 fid (bw_accum w), pt_completed = finished\<rparr>"

fun send_reports :: "WireType \<Rightarrow> bool \<Rightarrow> 's worker \<Rightarrow> FlowId list \<Rightarrow> frames result" where
  "send_reports t finished w [] = Inr []"
| "send_reports t finished w (fid # fids) =
     (case map_of (bw_jobs w) fid of
        None \<Rightarrow> send_reports t finished w fids
      | Some j \<Rightarrow> rbind (encode_report (report_of w finished fid j)) (\<lambda>bs.
          rbind (send_reports t finished w fids) (\<lambda>out. Inr ((t, bs) # out))))"

definition erase_job :: "'s Backend \<Rightarrow> FlowId \<Rightarrow> 's worker \<Rightarrow> 's worker" where
  "erase_job be fid w =
     w\<lparr>bw_jobs := AList.delete fid (bw_jobs w), bw_grants := AList.delete fid (bw_grants w),
       bw_accum := AList.delete fid (bw_accum w), bw_backend := be_cancel be fid (bw_backend w)\<rparr>"

definition worker_pace :: "(rat \<Rightarrow> rat) \<Rightarrow> 's Backend \<Rightarrow> f64 \<Rightarrow> 's worker \<Rightarrow> (frames \<times> 's worker) result option" where
  "worker_pace R be delta_ms w =
     (case pace_loop R be delta_ms (keys (bw_jobs w)) w of
        None \<Rightarrow> None
      | Some (to_report, to_complete, w) \<Rightarrow>
          Some (rbind (send_reports Progress False w to_report) (\<lambda>out1.
            rbind (send_reports Completion True w to_complete) (\<lambda>out2.
              let to_erase = filter (\<lambda>fid. map_of (bw_jobs w) fid \<noteq> None) to_complete
              in Inr (out1 @ out2, fold (erase_job be) to_erase w)))))"

definition worker_turn ::
    "(rat \<Rightarrow> rat) \<Rightarrow> 's Backend \<Rightarrow> DecodedFrame list \<times> f64 \<Rightarrow> 's worker \<Rightarrow> (frames \<times> 's worker) result option" where
  "worker_turn R be turn w =
     (case turn of (msgs, delta_ms) \<Rightarrow>
        case worker_messages be msgs w of
          Inl e \<Rightarrow> Some (Inl e)
        | Inr w \<Rightarrow> if f1 \<le> delta_ms then worker_pace R be delta_ms w else Some (Inr ([], w)))"

fun worker_run ::
    "(rat \<Rightarrow> rat) \<Rightarrow> 's Backend \<Rightarrow> (DecodedFrame list \<times> f64) list \<Rightarrow> 's worker \<Rightarrow> (frames \<times> 's worker) result option" where
  "worker_run R be [] w = Some (Inr ([], w))"
| "worker_run R be (turn # turns) w =
     (if bw_done w then Some (Inr ([], w))
      else case worker_turn R be turn w of
             None \<Rightarrow> None
           | Some (Inl e) \<Rightarrow> Some (Inl e)
           | Some (Inr (out1, w)) \<Rightarrow>
               (case worker_run R be turns w of
                  None \<Rightarrow> None
                | Some (Inl e) \<Rightarrow> Some (Inl e)
                | Some (Inr (out2, w)) \<Rightarrow> Some (Inr (out1 @ out2, w))))"

text \<open>After the loop every job that is left is cancelled.\<close>

definition worker_exit :: "'s Backend \<Rightarrow> 's worker \<Rightarrow> 's worker" where
  "worker_exit be w = w\<lparr>bw_backend := fold (be_cancel be) (keys (bw_jobs w)) (bw_backend w)\<rparr>"

end
