(* ===== verification/Worker_Reports.thy ===== *)
theory Worker_Reports
  imports Worker Transport_Dispatch
begin

text \<open>
  What a worker reports. The worker is a client of the contract \<open>backend\<close>: its lemmas are proved once
  inside the locale and hold for both backends. Its invariant \<open>tracks\<close> says that the bytes it counts for a
  job are the bytes the backend has done for the flow of the dispatch; from it follow what the reports
  say, how often a completion is sent, and that no slice moves more than the grant allows.
\<close>

section \<open>The invariant of a worker\<close>

declare map_of_eq_Some_iff [simp del]

definition tracks :: "('s \<Rightarrow> FlowId \<Rightarrow> (u64 \<times> u64) option) \<Rightarrow> 's worker \<Rightarrow> bool" where
  "tracks view w \<longleftrightarrow> distinct (keys (bw_jobs w)) \<and>
     (\<forall>fid j. map_of (bw_jobs w) fid = Some j \<longrightarrow> fs_id (jb_spec j) = fid \<and>
        view (bw_backend w) fid = Some (fs_byte_count (jb_spec j), umap_entry 0 fid (bw_accum w)))"

lemma tracksD:
  assumes "tracks view w" "map_of (bw_jobs w) fid = Some j"
  shows "fs_id (jb_spec j) = fid" "view (bw_backend w) fid = Some (fs_byte_count (jb_spec j), umap_entry 0 fid (bw_accum w))"
  using assms by (auto simp: tracks_def)

lemma tracks_start: "tracks view (worker_start s)"
  by (simp add: tracks_def worker_start_def)

lemma umap_entry_delete: "umap_entry d k (AList.delete k' m) = (if k = k' then d else umap_entry d k m)"
  by (simp add: umap_entry_def delete_conv')

text \<open>The dispatches among some messages.\<close>

definition dispatch_in :: "DecodedFrame list \<Rightarrow> payload_Dispatch \<Rightarrow> bool" where
  "dispatch_in ms d \<longleftrightarrow> (\<exists>m \<in> set ms. df_type m = FlowDispatch \<and> decode_dispatch (df_payload m) = Inr d)"

text \<open>\<open>sliced\<close>: the count of a job after a turn is the count before and what one slice of the backend moved.\<close>

definition sliced ::
    "(rat \<Rightarrow> rat) \<Rightarrow> 's Backend \<Rightarrow> ('s \<Rightarrow> FlowId \<Rightarrow> (u64 \<times> u64) option) \<Rightarrow> ('s \<Rightarrow> bool) \<Rightarrow> f64 \<Rightarrow> 's worker \<Rightarrow> FlowId \<Rightarrow> u64 \<Rightarrow> u64 \<Rightarrow> bool" where
  "sliced R be view ok dt w fid total_bytes count \<longleftrightarrow>
     (\<exists>b s. pace_budget R (umap_entry f0 fid (bw_grants w)) dt = Some b \<and> ok s \<and>
        view s fid = Some (total_bytes, umap_entry 0 fid (bw_accum w)) \<and>
        count = umap_entry 0 fid (bw_accum w) + fst (be_step be fid b dt s))"

context backend
begin

lemma sliced_bounds:
  assumes "sliced R be view ok dt w fid n a"
  shows "a \<le> n" "umap_entry 0 fid (bw_accum w) \<le> a"
    "\<exists>b. pace_budget R (umap_entry f0 fid (bw_grants w)) dt = Some b \<and> unat a \<le> unat (umap_entry 0 fid (bw_accum w)) + unat b"
proof -
  obtain b s where s: "pace_budget R (umap_entry f0 fid (bw_grants w)) dt = Some b" "ok s"
    "view s fid = Some (n, umap_entry 0 fid (bw_accum w))" "a = umap_entry 0 fid (bw_accum w) + fst (be_step be fid b dt s)"
    using assms by (auto simp: sliced_def)
  obtain m s' where m: "be_step be fid b dt s = (m, s')" by fastforce
  note v = step_moved(5) [OF s(2) m s(3)]
  show "a \<le> n" using v s(4) m by simp
  show "umap_entry 0 fid (bw_accum w) \<le> a" using v s(4) m by (simp add: word_le_nat_alt)
  have "m \<le> b" using step_moved(2) [OF s(2) m] .
  then show "\<exists>b. pace_budget R (umap_entry f0 fid (bw_grants w)) dt = Some b \<and> unat a \<le> unat (umap_entry 0 fid (bw_accum w)) + unat b"
    using v s(1,4) m by (auto simp: word_le_nat_alt)
qed

lemma dispatch_tracks:
  assumes "ok (bw_backend w)" "tracks view w"
  shows "ok (bw_backend (worker_dispatch be d w))" "tracks view (worker_dispatch be d w)"
  using assms submit by (auto simp: worker_dispatch_def tracks_def job_of_def)

lemma message_tracks:
  assumes "worker_message be m w = Inr w'" "ok (bw_backend w)" "tracks view w"
  shows "ok (bw_backend w') \<and> tracks view w' \<and>
    (\<forall>fid j. map_of (bw_jobs w') fid = Some j \<longrightarrow>
       map_of (bw_jobs w) fid = Some j \<or> (\<exists>d. dispatch_in [m] d \<and> j = job_of d \<and> fid = fs_id (pd_flow d)))"
proof (cases "df_type m = FlowDispatch")
  case True
  then obtain d where d: "decode_dispatch (df_payload m) = Inr d" "w' = worker_dispatch be d w"
    using assms(1) by (auto simp: worker_message_def rbind_eq_Inr_iff)
  then have "dispatch_in [m] d" using True by (simp add: dispatch_in_def)
  then show ?thesis using dispatch_tracks [OF assms(2,3), of d] d(2) by (auto simp: worker_dispatch_def split: if_splits)
next
  case False
  then show ?thesis using assms by (auto simp: worker_message_def rbind_eq_Inr_iff tracks_def split: if_splits)
qed

lemma messages_tracks:
  assumes "worker_messages be ms w = Inr w'" "ok (bw_backend w)" "tracks view w"
  shows "ok (bw_backend w') \<and> tracks view w' \<and>
    (\<forall>fid j. map_of (bw_jobs w') fid = Some j \<longrightarrow>
       map_of (bw_jobs w) fid = Some j \<or> (\<exists>d. dispatch_in ms d \<and> j = job_of d \<and> fid = fs_id (pd_flow d)))"
  using assms
proof (induction ms arbitrary: w)
  case (Cons m ms)
  then obtain w1 where w1: "worker_message be m w = Inr w1" "worker_messages be ms w1 = Inr w'"
    by (auto simp: rbind_eq_Inr_iff)
  note one = message_tracks [OF w1(1) Cons.prems(2,3)]
  have rest: "ok (bw_backend w') \<and> tracks view w' \<and> (\<forall>fid j. map_of (bw_jobs w') fid = Some j \<longrightarrow>
       map_of (bw_jobs w1) fid = Some j \<or> (\<exists>d. dispatch_in ms d \<and> j = job_of d \<and> fid = fs_id (pd_flow d)))"
    using Cons.IH [OF w1(2)] one by blast
  have "dispatch_in [m] d \<Longrightarrow> dispatch_in (m # ms) d" "dispatch_in ms d \<Longrightarrow> dispatch_in (m # ms) d" for d
    by (auto simp: dispatch_in_def)
  then show ?case using one rest by metis
qed simp

text \<open>One slice.\<close>

lemma pace_job_tracks:
  assumes "pace_job R be dt fid w = Some (moved, fin, w')" "ok (bw_backend w)" "tracks view w"
    and j: "map_of (bw_jobs w) fid = Some j"
  shows "ok (bw_backend w')" "tracks view w'" "bw_jobs w' = bw_jobs w"
    "umap_entry f0 f (bw_grants w') = umap_entry f0 f (bw_grants w)"
    "f \<noteq> fid \<Longrightarrow> umap_entry 0 f (bw_accum w') = umap_entry 0 f (bw_accum w)"
    "fin \<longleftrightarrow> umap_entry 0 fid (bw_accum w') = fs_byte_count (jb_spec j)"
    "umap_entry 0 fid (bw_accum w') \<le> fs_byte_count (jb_spec j)"
    "unat (umap_entry 0 fid (bw_accum w')) = unat (umap_entry 0 fid (bw_accum w)) + unat moved"
    "sliced R be view ok dt w fid (fs_byte_count (jb_spec j)) (umap_entry 0 fid (bw_accum w'))"
proof -
  obtain b s where b: "pace_budget R (umap_entry f0 fid (bw_grants w)) dt = Some b"
    "be_step be fid b dt (bw_backend w) = (moved, s)" "fin = be_is_done be fid s"
    and w': "w' = w\<lparr>bw_grants := AList.update fid (umap_entry f0 fid (bw_grants w)) (bw_grants w),
      bw_accum := AList.update fid (umap_entry 0 fid (bw_accum w) + moved) (bw_accum w), bw_backend := s\<rparr>"
    using assms(1) by (auto simp: pace_job_def Let_def split: option.splits prod.splits)
  note st = step_moved [OF assms(2) b(2)]
  note v = st(5) [OF tracksD(2) [OF assms(3) j]]
  show "ok (bw_backend w')" "bw_jobs w' = bw_jobs w" using st(1) w' by simp_all
  show "tracks view w'" using assms(3) v st(3) j unfolding w' tracks_def by simp
  show "umap_entry f0 f (bw_grants w') = umap_entry f0 f (bw_grants w)"
    "f \<noteq> fid \<Longrightarrow> umap_entry 0 f (bw_accum w') = umap_entry 0 f (bw_accum w)" by (simp_all add: w')
  show "fin \<longleftrightarrow> umap_entry 0 fid (bw_accum w') = fs_byte_count (jb_spec j)"
    using b(3) is_done [OF st(1), of fid] v by (simp add: w')
  show "umap_entry 0 fid (bw_accum w') \<le> fs_byte_count (jb_spec j)"
    "unat (umap_entry 0 fid (bw_accum w')) = unat (umap_entry 0 fid (bw_accum w)) + unat moved" using v by (simp_all add: w')
  show "sliced R be view ok dt w fid (fs_byte_count (jb_spec j)) (umap_entry 0 fid (bw_accum w'))"
    unfolding sliced_def using b(1,2) assms(2) tracksD(2) [OF assms(3) j]
    by (intro exI [of _ b] exI [of _ "bw_backend w"]) (simp add: w')
qed

text \<open>The slices of a turn.\<close>

lemma sliced_cong:
  "umap_entry f0 fid (bw_grants w) = umap_entry f0 fid (bw_grants w') \<Longrightarrow>
   umap_entry 0 fid (bw_accum w) = umap_entry 0 fid (bw_accum w') \<Longrightarrow>
   sliced R be view ok dt w fid n a = sliced R be view ok dt w' fid n a"
  by (simp add: sliced_def)

lemma pace_loop_tracks:
  assumes "pace_loop R be dt fids w = Some (rep, cl, w')" "ok (bw_backend w)" "tracks view w"
    and "distinct fids" "set fids \<subseteq> dom (map_of (bw_jobs w))"
  shows "ok (bw_backend w') \<and> tracks view w' \<and> bw_jobs w' = bw_jobs w \<and> distinct cl \<and> distinct rep \<and> bw_done w' = bw_done w \<and>
    set cl \<subseteq> set fids \<and> set rep \<subseteq> set fids \<and>
    (\<forall>f. umap_entry f0 f (bw_grants w') = umap_entry f0 f (bw_grants w)) \<and>
    (\<forall>f. f \<notin> set fids \<longrightarrow> umap_entry 0 f (bw_accum w') = umap_entry 0 f (bw_accum w)) \<and>
    (\<forall>f \<in> set fids. \<forall>j. map_of (bw_jobs w) f = Some j \<longrightarrow>
       sliced R be view ok dt w f (fs_byte_count (jb_spec j)) (umap_entry 0 f (bw_accum w')) \<and>
       (f \<in> set cl \<longleftrightarrow> umap_entry 0 f (bw_accum w') = fs_byte_count (jb_spec j)) \<and>
       (f \<in> set rep \<longrightarrow> f \<notin> set cl))"
  using assms
proof (induction fids arbitrary: w rep cl)
  case (Cons fid fids)
  obtain moved fin w1 where 1: "pace_job R be dt fid w = Some (moved, fin, w1)"
    using Cons.prems(1) by (auto split: option.splits)
  obtain rep1 cl1 where 2: "pace_loop R be dt fids w1 = Some (rep1, cl1, w')"
    "rep = (if \<not> fin \<and> 0 < moved then fid # rep1 else rep1)" "cl = (if fin then fid # cl1 else cl1)"
    using Cons.prems(1) 1 by (auto split: option.splits)
  obtain j where j: "map_of (bw_jobs w) fid = Some j" using Cons.prems(5) by auto
  note one = pace_job_tracks [OF 1 Cons.prems(2,3) j]
  have quit: "bw_done w1 = bw_done w" using 1 by (auto simp: pace_job_def Let_def split: option.splits prod.splits)
  have "distinct fids" "fid \<notin> set fids" "set fids \<subseteq> dom (map_of (bw_jobs w1))" using Cons.prems(4,5) one(3) by auto
  note ih = Cons.IH [OF 2(1) one(1,2) this(1,3)] and fresh = this(2)
  have same: "sliced R be view ok dt w1 f n a = sliced R be view ok dt w f n a" if "f \<in> set fids" for f n a
  proof -
    have "f \<noteq> fid" using that fresh by auto
    then show ?thesis using one(4,5) by (intro sliced_cong) simp_all
  qed
  show ?case
  proof (intro conjI ballI allI impI)
    fix f i assume f: "f \<in> set (fid # fids)" "map_of (bw_jobs w) f = Some i"
    show "sliced R be view ok dt w f (fs_byte_count (jb_spec i)) (umap_entry 0 f (bw_accum w'))"
      using f one(9) j ih same fresh one(3) by (cases "f = fid") auto
    show "f \<in> set cl \<longleftrightarrow> umap_entry 0 f (bw_accum w') = fs_byte_count (jb_spec i)"
      using f one(6) j ih 2(3) fresh one(3) by (cases "f = fid") auto
    show "f \<in> set rep \<Longrightarrow> f \<notin> set cl"
      using f ih 2(2,3) fresh one(3) by (cases "f = fid") (auto split: if_splits)
  qed (use ih one 2(2,3) fresh quit in auto)
qed simp

end

section \<open>The reports of a turn\<close>

definition report_frame :: "WireType \<Rightarrow> bool \<Rightarrow> 's worker \<Rightarrow> FlowId \<Rightarrow> WireType \<times> bytes" where
  "report_frame t finished w fid =
     (t, projr (encode_report (report_of w finished fid (the (map_of (bw_jobs w) fid)))))"

lemma encode_report_Inr: "encode_report r = Inr (projr (encode_report r))"
  using report.received [of r "[]"] by auto

lemma send_reports_eq:
  "set fids \<subseteq> dom (map_of (bw_jobs w)) \<Longrightarrow> send_reports t finished w fids = Inr (map (report_frame t finished w) fids)"
proof (induction fids)
  case (Cons fid fids)
  then obtain j where "map_of (bw_jobs w) fid = Some j" by auto
  then show ?case using Cons encode_report_Inr [of "report_of w finished fid j"]
    by (auto simp: report_frame_def rbind_eq_Inr_iff)
qed simp

lemma report_frame_read:
  "map_of (bw_jobs w) fid = Some j \<Longrightarrow> decode_report (snd (report_frame t finished w fid)) = Inr (report_of w finished fid j)"
  using report.received [of "report_of w finished fid j" "[]"] by (auto simp: report_frame_def)

lemma report_frame_type [simp]: "fst (report_frame t finished w fid) = t"
  by (simp add: report_frame_def)

lemma erase_jobs:
  "map_of (bw_jobs (fold (erase_job be) ids w)) fid = (if fid \<in> set ids then None else map_of (bw_jobs w) fid)"
  "fid \<notin> set ids \<Longrightarrow> umap_entry 0 fid (bw_accum (fold (erase_job be) ids w)) = umap_entry 0 fid (bw_accum w)"
  "fid \<notin> set ids \<Longrightarrow> umap_entry f0 fid (bw_grants (fold (erase_job be) ids w)) = umap_entry f0 fid (bw_grants w)"
  "distinct (keys (bw_jobs w)) \<Longrightarrow> distinct (keys (bw_jobs (fold (erase_job be) ids w)))"
  "bw_done (fold (erase_job be) ids w) = bw_done w"
  by (induction ids arbitrary: w) (auto simp: erase_job_def delete_conv' umap_entry_delete distinct_delete)

context backend
begin

lemma erase_view:
  assumes "ok (bw_backend w)"
  shows "ok (bw_backend (fold (erase_job be) ids w)) \<and>
    (\<forall>fid. fid \<notin> set ids \<longrightarrow> view (bw_backend (fold (erase_job be) ids w)) fid = view (bw_backend w) fid)"
  using assms
proof (induction ids arbitrary: w)
  case (Cons i ids)
  have "ok (bw_backend (erase_job be i w))" using cancel(1) Cons.prems by (simp add: erase_job_def)
  note ih = Cons.IH [OF this]
  have "fid \<noteq> i \<Longrightarrow> view (bw_backend (erase_job be i w)) fid = view (bw_backend w) fid" for fid
    using cancel(2) Cons.prems by (simp add: erase_job_def)
  then show ?case using ih by simp
qed simp

lemma erase_tracks:
  assumes "ok (bw_backend w)" "tracks view w"
  shows "tracks view (fold (erase_job be) ids w)"
  using assms erase_view [OF assms(1), of ids] by (auto simp: tracks_def erase_jobs split: if_splits)

lemma worker_pace_tracks:
  assumes "worker_pace R be dt w = Some r" "ok (bw_backend w)" "tracks view w"
  obtains w' w1 :: "'s worker" and rl cl where
    "r = Inr (map (report_frame Progress False w1) rl @ map (report_frame Completion True w1) cl, w')"
    "ok (bw_backend w')" "tracks view w'" "bw_jobs w1 = bw_jobs w" "bw_done w' = bw_done w"
    "distinct cl" "set cl \<subseteq> dom (map_of (bw_jobs w))" "set rl \<subseteq> dom (map_of (bw_jobs w))" "set rl \<inter> set cl = {}"
    "\<And>f. map_of (bw_jobs w') f = (if f \<in> set cl then None else map_of (bw_jobs w) f)"
    "\<And>f j. map_of (bw_jobs w) f = Some j \<Longrightarrow>
       sliced R be view ok dt w f (fs_byte_count (jb_spec j)) (umap_entry 0 f (bw_accum w1)) \<and>
       (f \<in> set cl \<longleftrightarrow> umap_entry 0 f (bw_accum w1) = fs_byte_count (jb_spec j))"
    "\<And>f. f \<notin> set cl \<Longrightarrow> umap_entry 0 f (bw_accum w') = umap_entry 0 f (bw_accum w1) \<and>
       umap_entry f0 f (bw_grants w') = umap_entry f0 f (bw_grants w)"
proof -
  obtain rl cl w1 where loop: "pace_loop R be dt (keys (bw_jobs w)) w = Some (rl, cl, w1)"
    using assms(1) by (auto simp: worker_pace_def split: option.splits)
  have k: "distinct (keys (bw_jobs w))" "set (keys (bw_jobs w)) = dom (map_of (bw_jobs w))"
    using assms(3) by (simp_all add: tracks_def dom_map_of_conv_image_fst)
  note all = pace_loop_tracks [OF loop assms(2,3) k(1), unfolded k(2), OF order.refl]
  have L: "ok (bw_backend w1)" "tracks view w1" "bw_jobs w1 = bw_jobs w" "distinct cl" "bw_done w1 = bw_done w"
    "set cl \<subseteq> dom (map_of (bw_jobs w))" "set rl \<subseteq> dom (map_of (bw_jobs w))"
    "\<And>f. umap_entry f0 f (bw_grants w1) = umap_entry f0 f (bw_grants w)"
    "\<And>f j. map_of (bw_jobs w) f = Some j \<Longrightarrow>
       sliced R be view ok dt w f (fs_byte_count (jb_spec j)) (umap_entry 0 f (bw_accum w1)) \<and>
       (f \<in> set cl \<longleftrightarrow> umap_entry 0 f (bw_accum w1) = fs_byte_count (jb_spec j)) \<and> (f \<in> set rl \<longrightarrow> f \<notin> set cl)"
    using all by blast+
  have "filter (\<lambda>fid. map_of (bw_jobs w1) fid \<noteq> None) cl = cl" using L(3,6) by (auto simp: filter_id_conv)
  then have "r = Inr (map (report_frame Progress False w1) rl @ map (report_frame Completion True w1) cl, fold (erase_job be) cl w1)"
    using assms(1) loop send_reports_eq [of rl w1] send_reports_eq [of cl w1] L(3,6,7) by (simp add: worker_pace_def)
  moreover have "set rl \<inter> set cl = {}" using L(7,9) by blast
  moreover have "ok (bw_backend (fold (erase_job be) cl w1))" "tracks view (fold (erase_job be) cl w1)"
    using erase_view [OF L(1)] erase_tracks [OF L(1,2)] by simp_all
  ultimately show thesis using L by (intro that [of w1 rl cl "fold (erase_job be) cl w1"]) (simp_all add: erase_jobs)
qed

end

section \<open>Runs\<close>

text \<open>What a report says of the dispatch it answers.\<close>

definition faithful :: "payload_Dispatch \<Rightarrow> WireType \<times> bytes \<Rightarrow> bool" where
  "faithful d fr \<longleftrightarrow> (\<exists>rep. decode_report (snd fr) = Inr rep \<and> pt_flow rep = fs_id (pd_flow d) \<and>
     pt_attempt rep = pd_attempt d \<and> pt_fgen rep = pd_fgen d \<and> pt_boot rep = pd_boot d \<and>
     (fst fr = Completion \<and> pt_completed rep \<and> pt_bytes rep = fs_byte_count (pd_flow d) \<or>
      fst fr = Progress \<and> \<not> pt_completed rep \<and> pt_bytes rep < fs_byte_count (pd_flow d)))"

definition completions :: "FlowId \<Rightarrow> frames \<Rightarrow> nat" where
  "completions f out = length (filter (\<lambda>(t, bs). t = Completion \<and>
     (case decode_report bs of Inl _ \<Rightarrow> False | Inr rep \<Rightarrow> pt_flow rep = f)) out)"

definition dispatches :: "FlowId \<Rightarrow> DecodedFrame list \<Rightarrow> nat" where
  "dispatches f ms = length (filter (\<lambda>m. df_type m = FlowDispatch \<and>
     (case decode_dispatch (df_payload m) of Inl _ \<Rightarrow> False | Inr d \<Rightarrow> fs_id (pd_flow d) = f)) ms)"

definition held :: "'s worker \<Rightarrow> FlowId \<Rightarrow> nat" where
  "held w f = (if map_of (bw_jobs w) f = None then 0 else 1)"

lemma completions_Nil [simp]: "completions f [] = 0"
  by (simp add: completions_def)

lemma completions_append [simp]: "completions f (a @ b) = completions f a + completions f b"
  by (simp add: completions_def)

lemma dispatches_append [simp]: "dispatches f (a @ b) = dispatches f a + dispatches f b"
  by (simp add: dispatches_def)

lemma held_message: "worker_message be m w = Inr w' \<Longrightarrow> held w' f \<le> held w f + dispatches f [m]"
  by (auto simp: worker_message_def rbind_eq_Inr_iff held_def dispatches_def worker_dispatch_def split: if_splits)

lemma held_messages: "worker_messages be ms w = Inr w' \<Longrightarrow> held w' f \<le> held w f + dispatches f ms"
proof (induction ms arbitrary: w)
  case (Cons m ms)
  then obtain w1 where "worker_message be m w = Inr w1" "worker_messages be ms w1 = Inr w'"
    by (auto simp: rbind_eq_Inr_iff)
  then show ?case using Cons.IH [of w1] held_message [of be m w w1 f] dispatches_append [of f "[m]" ms] by simp
qed simp

lemma completions_progress: "completions f (map (report_frame Progress b w) fids) = 0"
  by (simp add: completions_def report_frame_def filter_empty_conv)

lemma completions_completion:
  assumes "distinct cl" "set cl \<subseteq> dom (map_of (bw_jobs w))"
  shows "completions f (map (report_frame Completion b w) cl) = (if f \<in> set cl then 1 else 0)"
  using assms
proof (induction cl)
  case (Cons c cl)
  then obtain j where j: "map_of (bw_jobs w) c = Some j" by auto
  have "completions f (map (report_frame Completion b w) (c # cl)) =
      (if f = c then 1 else 0) + completions f (map (report_frame Completion b w) cl)"
    using report_frame_read [OF j, of Completion b] report_frame_type [of Completion b w c]
    by (cases "report_frame Completion b w c") (simp add: completions_def report_of_def)
  then show ?case using Cons by auto
qed (simp add: completions_def)

context backend
begin

lemma pace_reports:
  assumes "worker_pace R be dt w = Some (Inr (out, w'))" "ok (bw_backend w)" "tracks view w"
    and jobs: "\<forall>g j. map_of (bw_jobs w) g = Some j \<longrightarrow> (\<exists>d. H d \<and> j = job_of d)"
  shows "ok (bw_backend w')" "tracks view w'" "map_of (bw_jobs w') f = Some j \<Longrightarrow> \<exists>d. H d \<and> j = job_of d"
    "fr \<in> set out \<Longrightarrow> \<exists>d. H d \<and> faithful d fr" "completions f out + held w' f \<le> held w f"
proof -
  obtain w2 w1 :: "'s worker" and rl cl where q:
    "Inr (out, w') = (Inr (map (report_frame Progress False w1) rl @ map (report_frame Completion True w1) cl, w2) :: (frames \<times> 's worker) result)"
    "ok (bw_backend w2)" "tracks view w2" "bw_jobs w1 = bw_jobs w" "bw_done w2 = bw_done w"
    "distinct cl" "set cl \<subseteq> dom (map_of (bw_jobs w))" "set rl \<subseteq> dom (map_of (bw_jobs w))" "set rl \<inter> set cl = {}"
    "\<And>f. map_of (bw_jobs w2) f = (if f \<in> set cl then None else map_of (bw_jobs w) f)"
    "\<And>f j. map_of (bw_jobs w) f = Some j \<Longrightarrow>
       sliced R be view ok dt w f (fs_byte_count (jb_spec j)) (umap_entry 0 f (bw_accum w1)) \<and>
       (f \<in> set cl \<longleftrightarrow> umap_entry 0 f (bw_accum w1) = fs_byte_count (jb_spec j))"
    by (rule worker_pace_tracks [OF assms(1-3)]) (rule that)
  then have p: "out = map (report_frame Progress False w1) rl @ map (report_frame Completion True w1) cl"
    "ok (bw_backend w')" "tracks view w'" "bw_jobs w1 = bw_jobs w" "distinct cl" "set cl \<subseteq> dom (map_of (bw_jobs w))"
    "set rl \<subseteq> dom (map_of (bw_jobs w))" "set rl \<inter> set cl = {}"
    "\<And>f. map_of (bw_jobs w') f = (if f \<in> set cl then None else map_of (bw_jobs w) f)"
    by simp_all
  show "ok (bw_backend w')" "tracks view w'" by fact+
  show "map_of (bw_jobs w') f = Some j \<Longrightarrow> \<exists>d. H d \<and> j = job_of d" using p(9) jobs by (auto split: if_splits)
  show "completions f out + held w' f \<le> held w f"
    using completions_completion [OF p(5), of w1 f True] p(4,6,9) by (auto simp: p(1) completions_progress held_def)
  show "\<exists>d. H d \<and> faithful d fr" if fr: "fr \<in> set out"
  proof -
    consider (report) f where "f \<in> set rl" "fr = report_frame Progress False w1 f"
      | (complete) f where "f \<in> set cl" "fr = report_frame Completion True w1 f" using fr p(1) by auto
    then show ?thesis
    proof cases
      case report
      then obtain j where j: "map_of (bw_jobs w) f = Some j" using p(7) by auto
      then obtain d where d: "H d" "j = job_of d" using jobs by blast
      have "umap_entry 0 f (bw_accum w1) < fs_byte_count (jb_spec j)"
        using p(8) q(11) [OF j] sliced_bounds(1) report(1) by (metis disjoint_iff order_le_less)
      then show ?thesis using report_frame_read [of w1 f j Progress False] report(2) j d p(4) tracksD(1) [OF assms(3) j]
        by (intro exI [of _ d]) (auto simp: faithful_def report_of_def job_of_def)
    next
      case complete
      then obtain j where j: "map_of (bw_jobs w) f = Some j" using p(6) by auto
      then obtain d where d: "H d" "j = job_of d" using jobs by blast
      then show ?thesis using report_frame_read [of w1 f j Completion True] complete j p(4) q(11) tracksD(1) [OF assms(3) j]
        by (intro exI [of _ d]) (auto simp: faithful_def report_of_def job_of_def)
    qed
  qed
qed

lemma turn_reports:
  assumes "worker_turn R be (ms, dt) w = Some (Inr (out, w'))" "ok (bw_backend w)" "tracks view w"
    and jobs: "\<forall>g j. map_of (bw_jobs w) g = Some j \<longrightarrow> (\<exists>d. H d \<and> j = job_of d)"
  shows "ok (bw_backend w')" "tracks view w'" "map_of (bw_jobs w') f = Some j \<Longrightarrow> \<exists>d. (H d \<or> dispatch_in ms d) \<and> j = job_of d"
    "fr \<in> set out \<Longrightarrow> \<exists>d. (H d \<or> dispatch_in ms d) \<and> faithful d fr"
    "completions f out + held w' f \<le> held w f + dispatches f ms"
proof -
  obtain w1 where w1: "worker_messages be ms w = Inr w1"
    and pace: "f1 \<le> dt \<and> worker_pace R be dt w1 = Some (Inr (out, w')) \<or> out = [] \<and> w' = w1"
    using assms(1) by (auto simp: worker_turn_def split: sum.splits if_splits)
  note ms = messages_tracks [OF w1 assms(2,3)]
  have src: "\<exists>d. (H d \<or> dispatch_in ms d) \<and> j = job_of d" if "map_of (bw_jobs w1) f = Some j" for f j
    using ms that jobs by blast
  have held: "held w1 f \<le> held w f + dispatches f ms" by (rule held_messages [OF w1])
  show "ok (bw_backend w')" "tracks view w'" "map_of (bw_jobs w') f = Some j \<Longrightarrow> \<exists>d. (H d \<or> dispatch_in ms d) \<and> j = job_of d"
    using pace ms src pace_reports(1-3) [where w = w1 and H = "\<lambda>d. H d \<or> dispatch_in ms d"] by blast+
  show "fr \<in> set out \<Longrightarrow> \<exists>d. (H d \<or> dispatch_in ms d) \<and> faithful d fr"
    using pace ms src pace_reports(4) [where w = w1 and H = "\<lambda>d. H d \<or> dispatch_in ms d" and fr = fr]
    by (metis empty_iff list.set(1))
  have "completions f out + held w' f \<le> held w1 f"
    using pace ms src pace_reports(5) [where w = w1 and H = "\<lambda>d. H d \<or> dispatch_in ms d" and f = f]
    by (metis add_0 completions_Nil order.refl)
  then show "completions f out + held w' f \<le> held w f + dispatches f ms" using held by simp
qed

lemma run_reports:
  assumes "worker_run R be turns w = Some (Inr (out, w'))" "ok (bw_backend w)" "tracks view w"
    and "\<forall>g j. map_of (bw_jobs w) g = Some j \<longrightarrow> (\<exists>d. H d \<and> j = job_of d)"
  shows "ok (bw_backend w') \<and> tracks view w' \<and>
    (\<forall>fr \<in> set out. \<exists>d. (H d \<or> dispatch_in (concat (map fst turns)) d) \<and> faithful d fr) \<and>
    completions f out + held w' f \<le> held w f + dispatches f (concat (map fst turns))"
  using assms
proof (induction turns arbitrary: w out H)
  case Nil
  then show ?case by (simp add: completions_def)
next
  case (Cons turn turns)
  show ?case
  proof (cases "bw_done w")
    case True
    then show ?thesis using Cons.prems by simp
  next
    case False
    obtain ms dt where turn: "turn = (ms, dt)" by (cases turn)
    obtain out1 w1 out2 where 1: "worker_turn R be (ms, dt) w = Some (Inr (out1, w1))"
      "worker_run R be turns w1 = Some (Inr (out2, w'))" "out = out1 @ out2"
      using Cons.prems(1) False turn by (auto split: option.splits sum.splits prod.splits)
    note one = turn_reports [OF 1(1) Cons.prems(2-4)]
      and count = turn_reports(5) [where f = f, OF 1(1) Cons.prems(2-4)]
    have two: "ok (bw_backend w') \<and> tracks view w' \<and> (\<forall>fr \<in> set out2. \<exists>d. ((H d \<or> dispatch_in ms d) \<or> dispatch_in (concat (map fst turns)) d) \<and> faithful d fr) \<and>
        completions f out2 + held w' f \<le> held w1 f + dispatches f (concat (map fst turns))"
      by (rule Cons.IH [OF 1(2)]) (use one in auto)
    have "dispatch_in (concat (map fst (turn # turns))) d \<longleftrightarrow> dispatch_in ms d \<or> dispatch_in (concat (map fst turns)) d" for d
      by (auto simp: dispatch_in_def turn)
    then show ?thesis using one(4) two count 1(3) turn by (auto; metis)
  qed
qed

end

text \<open>The bytes a turn may move: the granted rate times the elapsed time, as the worker computes it.\<close>

definition granted_bytes :: "(rat \<Rightarrow> rat) \<Rightarrow> 's worker \<Rightarrow> f64 \<Rightarrow> FlowId \<Rightarrow> rat" where
  "granted_bytes R w dt f = max 0 (fval (fdiv R (fmul R (umap_entry f0 f (bw_grants w)) dt) (flit R 1000)))"

definition counted :: "'s worker \<Rightarrow> FlowId \<Rightarrow> rat" where
  "counted w f = of_nat (unat (umap_entry 0 f (bw_accum w)))"

lemma u64_of_f64_bound: "u64_of_f64 x = Some b \<Longrightarrow> of_nat (unat b) \<le> max 0 (fval x)"
proof (cases x)
  case (Fin q)
  assume "u64_of_f64 x = Some b"
  then have b: "b = of_nat (nat \<lfloor>q\<rfloor>)" using Fin by (simp split: if_splits)
  have "unat b \<le> nat \<lfloor>q\<rfloor>" unfolding b by (simp add: unat_of_nat)
  then have "(of_nat (unat b) :: rat) \<le> of_nat (nat \<lfloor>q\<rfloor>)" by (simp only: of_nat_le_iff)
  also have "of_nat (nat \<lfloor>q\<rfloor>) \<le> max 0 q" using of_int_floor_le [of q] by (cases "0 \<le> q") simp_all
  finally show ?thesis using Fin by simp
qed simp_all

context backend
begin

lemma sliced_granted: "sliced R be view ok dt w f n a \<Longrightarrow> of_nat (unat a) \<le> counted w f + granted_bytes R w dt f"
proof -
  assume "sliced R be view ok dt w f n a"
  then obtain b where b: "pace_budget R (umap_entry f0 f (bw_grants w)) dt = Some b"
    "unat a \<le> unat (umap_entry 0 f (bw_accum w)) + unat b" using sliced_bounds(3) by blast
  have "(of_nat (unat a) :: rat) \<le> of_nat (unat (umap_entry 0 f (bw_accum w))) + of_nat (unat b)"
    using b(2) by (simp only: of_nat_le_iff flip: of_nat_add)
  then show "of_nat (unat a) \<le> counted w f + granted_bytes R w dt f"
    using u64_of_f64_bound b(1) unfolding pace_budget_def counted_def granted_bytes_def by fastforce
qed

lemma pace_within_grant:
  assumes "worker_pace R be dt w = Some (Inr (out, w'))" "ok (bw_backend w)" "tracks view w"
  shows "\<And>fr rep. fr \<in> set out \<Longrightarrow> decode_report (snd fr) = Inr rep \<Longrightarrow>
      of_nat (unat (pt_bytes rep)) \<le> counted w (pt_flow rep) + granted_bytes R w dt (pt_flow rep)"
    "\<And>f j. map_of (bw_jobs w') f = Some j \<Longrightarrow> counted w' f \<le> counted w f + granted_bytes R w dt f"
proof -
  obtain w2 w1 :: "'s worker" and rl cl where q:
    "Inr (out, w') = (Inr (map (report_frame Progress False w1) rl @ map (report_frame Completion True w1) cl, w2) :: (frames \<times> 's worker) result)"
    "ok (bw_backend w2)" "tracks view w2" "bw_jobs w1 = bw_jobs w" "bw_done w2 = bw_done w"
    "distinct cl" "set cl \<subseteq> dom (map_of (bw_jobs w))" "set rl \<subseteq> dom (map_of (bw_jobs w))" "set rl \<inter> set cl = {}"
    "\<And>f. map_of (bw_jobs w2) f = (if f \<in> set cl then None else map_of (bw_jobs w) f)"
    "\<And>f j. map_of (bw_jobs w) f = Some j \<Longrightarrow>
       sliced R be view ok dt w f (fs_byte_count (jb_spec j)) (umap_entry 0 f (bw_accum w1)) \<and>
       (f \<in> set cl \<longleftrightarrow> umap_entry 0 f (bw_accum w1) = fs_byte_count (jb_spec j))"
    "\<And>f. f \<notin> set cl \<Longrightarrow> umap_entry 0 f (bw_accum w2) = umap_entry 0 f (bw_accum w1) \<and>
       umap_entry f0 f (bw_grants w2) = umap_entry f0 f (bw_grants w)"
    by (rule worker_pace_tracks [OF assms(1-3)]) (rule that)
  have le: "of_nat (unat (umap_entry 0 f (bw_accum w1))) \<le> counted w f + granted_bytes R w dt f"
    if "map_of (bw_jobs w) f = Some j" for f j using q(11) [OF that] sliced_granted by blast
  show "of_nat (unat (pt_bytes rep)) \<le> counted w (pt_flow rep) + granted_bytes R w dt (pt_flow rep)"
    if fr: "fr \<in> set out" "decode_report (snd fr) = Inr rep" for fr rep
  proof -
    obtain t b f where f: "fr = report_frame t b w1 f" "f \<in> dom (map_of (bw_jobs w))" using fr(1) q(1,7,8) by (auto; blast)
    then obtain j where j: "map_of (bw_jobs w) f = Some j" by auto
    then have "rep = report_of w1 b f j" using report_frame_read [of w1 f j t b] q(4) f(1) fr(2) by simp
    then show ?thesis using le [OF j] by (simp add: report_of_def)
  qed
  show "counted w' f \<le> counted w f + granted_bytes R w dt f" if "map_of (bw_jobs w') f = Some j" for f j
    using that q(1) q(10) [of f] q(12) [of f] le [of f j] by (simp add: counted_def split: if_splits)
qed

end

end
