(* ===== verification/Worker_Transfer.thy ===== *)
theory Worker_Transfer
  imports Worker_Reports Coordinator_Pass
begin

text \<open>
  The transfer from end to end: a worker that receives a dispatch and paces it long enough sends the
  completion, and the coordinator that receives it completes the flow.
\<close>

declare map_of_eq_Some_iff [simp del]

section \<open>Paced turns return\<close>

lemma pace_job_defined:
  assumes "pace_budget R (umap_entry f0 fid (bw_grants w)) dt \<noteq> None"
  shows "\<exists>moved fin w'. pace_job R be dt fid w = Some (moved, fin, w') \<and>
    (\<forall>f. umap_entry f0 f (bw_grants w') = umap_entry f0 f (bw_grants w))"
  using assms by (auto simp: pace_job_def Let_def split: option.split prod.split)

lemma pace_loop_defined:
  "(\<And>f. f \<in> set fids \<Longrightarrow> pace_budget R (umap_entry f0 f (bw_grants w)) dt \<noteq> None) \<Longrightarrow>
     \<exists>r. pace_loop R be dt fids w = Some r"
proof (induction fids arbitrary: w)
  case (Cons fid fids)
  then obtain moved fin w1 where 1: "pace_job R be dt fid w = Some (moved, fin, w1)"
    "\<And>f. umap_entry f0 f (bw_grants w1) = umap_entry f0 f (bw_grants w)"
    using pace_job_defined [of R fid w dt be] by auto
  have "\<exists>r. pace_loop R be dt fids w1 = Some r" using Cons 1(2) by auto
  then show ?case using 1(1) by auto
qed simp

text \<open>Every job of the worker has a budget at every of the given intervals.\<close>

definition budgets_defined :: "(rat \<Rightarrow> rat) \<Rightarrow> 's worker \<Rightarrow> f64 list \<Rightarrow> bool" where
  "budgets_defined R w dts \<longleftrightarrow>
     (\<forall>f \<in> set (keys (bw_jobs w)). \<forall>dt \<in> set dts. pace_budget R (umap_entry f0 f (bw_grants w)) dt \<noteq> None)"

lemma worker_pace_defined: "budgets_defined R w dts \<Longrightarrow> dt \<in> set dts \<Longrightarrow> \<exists>r. worker_pace R be dt w = Some r"
proof -
  assume "budgets_defined R w dts" "dt \<in> set dts"
  then have "\<And>f. f \<in> set (keys (bw_jobs w)) \<Longrightarrow> pace_budget R (umap_entry f0 f (bw_grants w)) dt \<noteq> None"
    unfolding budgets_defined_def by blast
  then obtain x where "pace_loop R be dt (keys (bw_jobs w)) w = Some x" using pace_loop_defined by blast
  then show ?thesis by (cases x) (simp add: worker_pace_def)
qed

context backend
begin

lemma pace_returns:
  assumes "budgets_defined R w (dt # dts)" "ok (bw_backend w)" "tracks view w"
  obtains out w' where "worker_pace R be dt w = Some (Inr (out, w'))" "ok (bw_backend w')" "tracks view w'"
    "bw_done w' = bw_done w" "budgets_defined R w' dts"
proof -
  obtain r where r: "worker_pace R be dt w = Some r" using worker_pace_defined [OF assms(1)] by auto
  obtain w2 w1 :: "'s worker" and rl cl where q:
    "r = Inr (map (report_frame Progress False w1) rl @ map (report_frame Completion True w1) cl, w2)"
    "ok (bw_backend w2)" "tracks view w2" "bw_done w2 = bw_done w"
    "\<And>f. map_of (bw_jobs w2) f = (if f \<in> set cl then None else map_of (bw_jobs w) f)"
    "\<And>f. f \<notin> set cl \<Longrightarrow> umap_entry 0 f (bw_accum w2) = umap_entry 0 f (bw_accum w1) \<and>
       umap_entry f0 f (bw_grants w2) = umap_entry f0 f (bw_grants w)"
    by (rule worker_pace_tracks [OF r assms(2,3)]) (rule that)
  have "pace_budget R (umap_entry f0 f (bw_grants w2)) d \<noteq> None" if f: "f \<in> set (keys (bw_jobs w2))" "d \<in> set dts" for f d
  proof -
    have "map_of (bw_jobs w2) f \<noteq> None" using f(1) by (simp add: map_of_eq_None_iff)
    then have "f \<notin> set cl" "map_of (bw_jobs w) f \<noteq> None" using q(5) [of f] by (auto split: if_splits)
    then show ?thesis using q(6) [of f] assms(1) f(2) by (auto simp: budgets_defined_def map_of_eq_None_iff)
  qed
  then show thesis using that r q(1-4) by (auto simp: budgets_defined_def)
qed

lemma run_returns:
  assumes "budgets_defined R w dts" "ok (bw_backend w)" "tracks view w" "\<forall>dt \<in> set dts. f1 \<le> dt"
  shows "\<exists>out w'. worker_run R be (map (Pair []) dts) w = Some (Inr (out, w'))"
  using assms
proof (induction dts arbitrary: w)
  case (Cons dt dts)
  obtain out1 w1 where 1: "worker_pace R be dt w = Some (Inr (out1, w1))" "ok (bw_backend w1)" "tracks view w1"
    "budgets_defined R w1 dts" using pace_returns [OF Cons.prems(1-3)] by metis
  then obtain out2 w2 where "worker_run R be (map (Pair []) dts) w1 = Some (Inr (out2, w2))"
    using Cons.IH [of w1] Cons.prems(4) by auto
  then show ?case using 1(1) Cons.prems(4) by (auto simp: worker_turn_def)
qed simp

end

context prompt_backend
begin

lemma sliced_prompt:
  assumes "sliced R be view ok dt w f n a" "pace_budget R (umap_entry f0 f (bw_grants w)) dt = Some b"
  shows "unat a = min (unat n) (unat (umap_entry 0 f (bw_accum w)) + unat b)"
proof -
  let ?d = "umap_entry 0 f (bw_accum w)"
  obtain s where s: "ok s" "view s f = Some (n, ?d)" "a = ?d + fst (be_step be f b dt s)"
    using assms by (auto simp: sliced_def)
  obtain m s' where m: "be_step be f b dt s = (m, s')" by fastforce
  have "m = min b (n - ?d)" using prompt [OF s(1,2), of b dt] m by simp
  moreover have "?d \<le> n" using within [OF s(1,2)] .
  moreover have "unat (?d + m) = unat ?d + unat m" using step_moved(5) [OF s(1) m s(2)] by simp
  ultimately show ?thesis using s(3) m by (auto simp: min_def word_le_nat_alt unat_sub)
qed

text \<open>A job that gets enough budget over some turns is completed by one of them.\<close>

lemma run_finishes:
  assumes "budgets_defined R w dts" "ok (bw_backend w)" "tracks view w" "\<forall>dt \<in> set dts. f1 \<le> dt" "\<not> bw_done w"
    and j: "map_of (bw_jobs w) f = Some j" and "dts \<noteq> []"
    and "unat (fs_byte_count (jb_spec j)) \<le> unat (umap_entry 0 f (bw_accum w)) +
      (\<Sum>dt \<leftarrow> dts. unat (the (pace_budget R (umap_entry f0 f (bw_grants w)) dt)))"
  shows "\<exists>out w' bs. worker_run R be (map (Pair []) dts) w = Some (Inr (out, w')) \<and> (Completion, bs) \<in> set out \<and>
    decode_report bs = Inr \<lparr>pt_flow = f, pt_attempt = jb_attempt j, pt_fgen = jb_fgen j, pt_boot = jb_boot j,
      pt_bytes = fs_byte_count (jb_spec j), pt_completed = True\<rparr>"
  using assms
proof (induction dts arbitrary: w)
  case (Cons dt dts)
  obtain r where r: "worker_pace R be dt w = Some r" using worker_pace_defined [OF Cons.prems(1)] by auto
  obtain w2 w1 :: "'a worker" and rl cl where q:
    "r = Inr (map (report_frame Progress False w1) rl @ map (report_frame Completion True w1) cl, w2)"
    "ok (bw_backend w2)" "tracks view w2" "bw_jobs w1 = bw_jobs w" "bw_done w2 = bw_done w"
    "\<And>f. map_of (bw_jobs w2) f = (if f \<in> set cl then None else map_of (bw_jobs w) f)"
    "\<And>f j. map_of (bw_jobs w) f = Some j \<Longrightarrow>
       sliced R be view ok dt w f (fs_byte_count (jb_spec j)) (umap_entry 0 f (bw_accum w1)) \<and>
       (f \<in> set cl \<longleftrightarrow> umap_entry 0 f (bw_accum w1) = fs_byte_count (jb_spec j))"
    "\<And>f. f \<notin> set cl \<Longrightarrow> umap_entry 0 f (bw_accum w2) = umap_entry 0 f (bw_accum w1) \<and>
       umap_entry f0 f (bw_grants w2) = umap_entry f0 f (bw_grants w)"
    by (rule worker_pace_tracks [OF r Cons.prems(2,3)]) (rule that)
  have w2: "budgets_defined R w2 dts" using pace_returns [OF Cons.prems(1-3)] r q(1) by (metis option.inject sum.inject(2) prod.inject)
  have long: "\<forall>dt \<in> set dts. f1 \<le> dt" "f1 \<le> dt" using Cons.prems(4) by simp_all
  obtain out2 w3 where run: "worker_run R be (map (Pair []) dts) w2 = Some (Inr (out2, w3))"
    using run_returns [OF w2 q(2,3) long(1)] by blast
  then have whole: "worker_run R be (map (Pair []) (dt # dts)) w =
      Some (Inr ((map (report_frame Progress False w1) rl @ map (report_frame Completion True w1) cl) @ out2, w3))"
    using r q(1) Cons.prems(5) long(2) by (simp add: worker_turn_def)
  show ?case
  proof (cases "f \<in> set cl")
    case True
    let ?fr = "report_frame Completion True w1 f"
    have "decode_report (snd ?fr) = Inr (report_of w1 True f j)" using report_frame_read q(4) Cons.prems(6) by metis
    moreover have "(Completion, snd ?fr) \<in> report_frame Completion True w1 ` set cl" using True by (force simp: report_frame_def)
    ultimately show ?thesis using whole q(7) [OF Cons.prems(6)] True
      by (intro exI conjI) (auto simp: report_of_def)
  next
    case False
    obtain b where b: "pace_budget R (umap_entry f0 f (bw_grants w)) dt = Some b"
      using Cons.prems(1,6) by (fastforce simp: budgets_defined_def dest: map_of_SomeD)
    have "unat (umap_entry 0 f (bw_accum w1)) = min (unat (fs_byte_count (jb_spec j))) (unat (umap_entry 0 f (bw_accum w)) + unat b)"
      using sliced_prompt [OF _ b] q(7) [OF Cons.prems(6)] by blast
    moreover have "umap_entry 0 f (bw_accum w1) \<noteq> fs_byte_count (jb_spec j)" using q(7) [OF Cons.prems(6)] False by simp
    ultimately have acc: "unat (umap_entry 0 f (bw_accum w2)) = unat (umap_entry 0 f (bw_accum w)) + unat b"
      "unat (umap_entry 0 f (bw_accum w)) + unat b < unat (fs_byte_count (jb_spec j))"
      using q(8) [OF False] by (auto simp: min_def word_unat_eq_iff split: if_splits)
    have g: "umap_entry f0 f (bw_grants w2) = umap_entry f0 f (bw_grants w)" using q(8) [OF False] by simp
    have "dts \<noteq> []" using acc Cons.prems(8) b by auto
    then obtain out w' bs where "worker_run R be (map (Pair []) dts) w2 = Some (Inr (out, w'))" "(Completion, bs) \<in> set out"
      "decode_report bs = Inr \<lparr>pt_flow = f, pt_attempt = jb_attempt j, pt_fgen = jb_fgen j, pt_boot = jb_boot j,
      pt_bytes = fs_byte_count (jb_spec j), pt_completed = True\<rparr>"
      using Cons.IH [OF w2 q(2,3) long(1)] q(5) q(6) [of f] Cons.prems(5,6,8) False acc g b by auto
    then show ?thesis using whole run by auto
  qed
qed simp

end

section \<open>Both ends of a transfer\<close>

text \<open>A fresh synthetic worker that takes a dispatch and then paces it.\<close>

lemma worker_completes:
  assumes "decode_dispatch bs = Inr d" "\<forall>t \<in> set (dt # dts). f1 \<le> t \<and> pace_budget R (cap_value (pd_grant d)) t \<noteq> None"
    and "unat (fs_byte_count (pd_flow d)) \<le> (\<Sum>t \<leftarrow> dt # dts. unat (the (pace_budget R (cap_value (pd_grant d)) t)))"
  shows "\<exists>out w body. worker_run R synthetic_backend (([\<lparr>df_type = FlowDispatch, df_payload = bs\<rparr>], dt) # map (Pair []) dts)
      (worker_start (make_synthetic_backend inventory)) = Some (Inr (out, w)) \<and> (Completion, body) \<in> set out \<and>
    decode_report body = Inr \<lparr>pt_flow = fs_id (pd_flow d), pt_attempt = pd_attempt d, pt_fgen = pd_fgen d, pt_boot = pd_boot d,
      pt_bytes = fs_byte_count (pd_flow d), pt_completed = True\<rparr>"
proof -
  let ?fresh = "worker_start (make_synthetic_backend inventory)"
  let ?w = "worker_dispatch synthetic_backend d ?fresh" and ?f = "fs_id (pd_flow d)"
  have w0: "synthetic_valid (bw_backend ?fresh)"
    by (simp add: worker_start_def make_synthetic_backend_def synthetic_valid_def)
  note w = synth.dispatch_tracks [OF w0 tracks_start, of d]
  have fields: "bw_jobs ?w = [(?f, job_of d)]" "umap_entry f0 ?f (bw_grants ?w) = cap_value (pd_grant d)"
    "umap_entry 0 ?f (bw_accum ?w) = 0" "\<not> bw_done ?w"
    by (simp_all add: worker_dispatch_def worker_start_def umap_entry_def)
  have "\<exists>out w' body. worker_run R synthetic_backend (map (Pair []) (dt # dts)) ?w = Some (Inr (out, w')) \<and> (Completion, body) \<in> set out \<and>
    decode_report body = Inr \<lparr>pt_flow = ?f, pt_attempt = jb_attempt (job_of d), pt_fgen = jb_fgen (job_of d), pt_boot = jb_boot (job_of d),
      pt_bytes = fs_byte_count (jb_spec (job_of d)), pt_completed = True\<rparr>"
    by (rule synth.run_finishes [OF _ w]) (use assms(2,3) fields in \<open>auto simp: budgets_defined_def job_of_def\<close>)
  moreover have "worker_run R synthetic_backend (([\<lparr>df_type = FlowDispatch, df_payload = bs\<rparr>], dt) # map (Pair []) dts) ?fresh =
      worker_run R synthetic_backend (map (Pair []) (dt # dts)) ?w"
    using assms(1) fields(4) by (simp add: worker_turn_def worker_message_def worker_start_def)
  ultimately show ?thesis by (simp add: job_of_def)
qed

text \<open>The coordinator that receives a completion under the current authority.\<close>

lemma completion_handled:
  assumes "decode_report body = Inr rep" "map_of (g_flows (sv_gov sv)) (pt_flow rep) = Some f"
    and "report_ok (sv_gov sv) f (pt_attempt rep) (pt_fgen rep) (pt_boot rep)"
  shows "\<exists>ack sv'. handle_frame R os readable conn \<lparr>df_type = Completion, df_payload = body\<rparr> sv = (Inr [(Ack, ack)], sv') \<and>
    decode_ack ack = Inr \<lparr>pk_ok = True, pk_reason = []\<rparr> \<and>
    map_of (g_flows (sv_gov sv')) (pt_flow rep) = Some (completed_flow (sv_gov sv) (pt_bytes rep) f)"
proof -
  obtain ack where ack: "encode_ack \<lparr>pk_ok = True, pk_reason = []\<rparr> = Inr ack" "decode_ack ack = Inr \<lparr>pk_ok = True, pk_reason = []\<rparr>"
    using ack.received [of "\<lparr>pk_ok = True, pk_reason = []\<rparr>" "[]"] by (auto simp: short_def)
  note acc = report_completion_accepted [OF assms(2,3), of R "pt_bytes rep"]
  have "handle_frame R os readable conn \<lparr>df_type = Completion, df_payload = body\<rparr> sv =
      (Inr [(Ack, ack)], sv\<lparr>sv_gov := snd (report_completion R (pt_flow rep) (pt_attempt rep) (pt_fgen rep) (pt_boot rep) (pt_bytes rep) (sv_gov sv))\<rparr>)"
    using assms(1) ack(1) acc
    by (simp add: handle_frame_def nack_def handle_request_def on_gov_def handle_completion_def reply_def)
  moreover have "map_of (g_flows (snd (report_completion R (pt_flow rep) (pt_attempt rep) (pt_fgen rep) (pt_boot rep) (pt_bytes rep) (sv_gov sv))))
      (pt_flow rep) = Some (completed_flow (sv_gov sv) (pt_bytes rep) f)"
    by (simp add: acc frame_simps)
  ultimately show ?thesis using ack(2) by auto
qed

text \<open>
  Property C4. A transfer completes from end to end. The coordinator dispatches a running flow to its
  worker; a worker with the synthetic backend that receives the message and paces the flow for turns
  whose budgets add up to the bytes of the flow sends a completion; and the coordinator that receives
  this completion, while the attempt, the generation and the boot of the dispatch are still the
  authority over the flow, acknowledges it and the flow is completed with all its bytes.
\<close>

theorem transfer_completes:
  assumes "map_of (g_flows (sv_gov sv)) fid = Some f" "to_flow_snap f = Inr s" "fs_id (fr_spec f) = fid"
    and "target (sv_gov sv) workers s = Some (conn, rid)" "message_for dispatched s conn rid (conn, FlowDispatch, bs)"
    and "dispatch_wire (dispatch_of s rid)"
    and "\<forall>t \<in> set (dt # dts). f1 \<le> t \<and> pace_budget R (cap_value (fn_granted s)) t \<noteq> None"
    and "unat (fs_byte_count (fr_spec f)) \<le> (\<Sum>t \<leftarrow> dt # dts. unat (the (pace_budget R (cap_value (fn_granted s)) t)))"
    and "map_of (g_flows (sv_gov sv2)) fid = Some f2"
    and "report_ok (sv_gov sv2) f2 (fs_attempt (fr_spec f)) (fs_generation (fr_spec f)) (fr_assigned_boot f)"
  shows "\<exists>out w body ack sv3 f3.
    worker_run R synthetic_backend (([\<lparr>df_type = FlowDispatch, df_payload = bs\<rparr>], dt) # map (Pair []) dts)
      (worker_start (make_synthetic_backend inventory)) = Some (Inr (out, w)) \<and> (Completion, body) \<in> set out \<and>
    handle_frame R os readable conn2 \<lparr>df_type = Completion, df_payload = body\<rparr> sv2 = (Inr [(Ack, ack)], sv3) \<and>
    decode_ack ack = Inr \<lparr>pk_ok = True, pk_reason = []\<rparr> \<and> map_of (g_flows (sv_gov sv3)) fid = Some f3 \<and>
    fr_state f3 = Completed \<and> fs_byte_count (fr_spec f) \<le> fr_bytes_done f3"
proof -
  have "encode_dispatch (dispatch_of s rid) = Inr bs" using assms(5) by (auto simp: message_for_def dispatch_of_def split: if_splits)
  then have d: "decode_dispatch bs = Inr (dispatch_of s rid)" using dispatch_msg.received [OF assms(6), of "[]"] by auto
  note s = snap_fields [OF assms(2)]
  obtain out w body where run: "worker_run R synthetic_backend (([\<lparr>df_type = FlowDispatch, df_payload = bs\<rparr>], dt) # map (Pair []) dts)
      (worker_start (make_synthetic_backend inventory)) = Some (Inr (out, w))" "(Completion, body) \<in> set out"
    and rep: "decode_report body = Inr \<lparr>pt_flow = fid, pt_attempt = fs_attempt (fr_spec f), pt_fgen = fs_generation (fr_spec f),
      pt_boot = fr_assigned_boot f, pt_bytes = fs_byte_count (fr_spec f), pt_completed = True\<rparr>"
    using worker_completes [OF d, of dt dts R inventory] assms(3,7,8) s by (auto simp: dispatch_of_def)
  obtain ack sv3 where "handle_frame R os readable conn2 \<lparr>df_type = Completion, df_payload = body\<rparr> sv2 = (Inr [(Ack, ack)], sv3)"
    "decode_ack ack = Inr \<lparr>pk_ok = True, pk_reason = []\<rparr>"
    "map_of (g_flows (sv_gov sv3)) fid = Some (completed_flow (sv_gov sv2) (fs_byte_count (fr_spec f)) f2)"
    using completion_handled [OF rep, of sv2 f2 R os readable conn2] assms(9,10) by auto
  then show ?thesis using run by (auto simp: completed_flow_def)
qed

text \<open>The dispatch of the sample flow: a mebibyte at 250 bytes per second, so 4194304 milliseconds are enough.\<close>

definition demo_dispatch :: bytes where
  "demo_dispatch = projr (encode_dispatch (dispatch_of demo_fsnap demo_rv))"

lemma demo_snap_wire: "dispatch_wire (dispatch_of demo_fsnap demo_rv)" "fn_granted demo_fsnap = Capacity (Fin 250)"
proof -
  show g: "fn_granted demo_fsnap = Capacity (Fin 250)" by (simp add: demo_fsnap_def demo_saved_def demo_snap_def)
  show "dispatch_wire (dispatch_of demo_fsnap demo_rv)"
    using demo_spec_wire snap_fields [OF demo_flow_snap] g
    by (simp add: dispatch_wire_def dispatch_of_def demo_flow_def FlowRT_of_def cap_storable_def valid_cap_def is_valid_rate_iff
        storable_literals)
qed

lemma demo_dispatch_read:
  "encode_dispatch (dispatch_of demo_fsnap demo_rv) = Inr demo_dispatch" "decode_dispatch demo_dispatch = Inr (dispatch_of demo_fsnap demo_rv)"
  using dispatch_msg.received [OF demo_snap_wire(1), of "[]"] by (auto simp: demo_dispatch_def)

lemma demo_budget: "pace_budget (\<lambda>x. x) (Fin 250) (Fin 4194304) = Some 1048576" "f1 \<le> Fin 4194304"
  by (simp_all add: pace_budget_def flit_def fl_def dbl_max_def)

lemma demo_bytes: "fr_spec demo_flow = demo_spec" "fs_byte_count demo_spec = 1048576" "fs_id demo_spec = demo_fid"
  by (simp_all add: demo_flow_def FlowRT_of_def demo_spec_def fixture_flow_def demo_fid_def)

lemma demo_authority: "report_ok demo_gov demo_flow (fs_attempt (fr_spec demo_flow)) (fs_generation (fr_spec demo_flow)) (fr_assigned_boot demo_flow)"
  by (simp add: report_ok_def demo_defs)

definition demo_coordinator :: server where
  "demo_coordinator = \<lparr>sv_gov = demo_gov, sv_workers = [(demo_wid, 1)], sv_dispatched = [], sv_disk = Map.empty\<rparr>"

theorem transfer_completes_witness:
  "\<exists>out w body ack sv f.
     worker_run (\<lambda>x. x) synthetic_backend [([\<lparr>df_type = FlowDispatch, df_payload = demo_dispatch\<rparr>], Fin 4194304)]
       (worker_start (make_synthetic_backend [])) = Some (Inr (out, w)) \<and> (Completion, body) \<in> set out \<and>
     handle_frame (\<lambda>x. x) demo_answers False 1 \<lparr>df_type = Completion, df_payload = body\<rparr> demo_coordinator = (Inr [(Ack, ack)], sv) \<and>
     map_of (g_flows (sv_gov sv)) demo_fid = Some f \<and> fr_state f = Completed"
proof -
  let ?sv = demo_coordinator
  have t: "target (sv_gov ?sv) [(demo_wid, 1)] demo_fsnap = Some (1, demo_rv)"
    by (simp add: target_def snap_fields [OF demo_flow_snap] reservation_query_def demo_defs demo_coordinator_def)
  have look: "map_of (g_flows (sv_gov ?sv)) demo_fid = Some demo_flow" by (simp add: demo_flow_lookup demo_coordinator_def)
  have m: "message_for [] demo_fsnap 1 demo_rv (1, FlowDispatch, demo_dispatch)"
    using demo_dispatch_read(1) by (simp add: message_for_def dispatch_of_def)
  have id: "fs_id (fr_spec demo_flow) = demo_fid" by (simp add: demo_bytes)
  have long: "\<forall>t \<in> set [Fin 4194304]. f1 \<le> t \<and> pace_budget (\<lambda>x. x) (cap_value (fn_granted demo_fsnap)) t \<noteq> None"
    by (simp add: demo_snap_wire(2) demo_budget)
  have enough: "unat (fs_byte_count (fr_spec demo_flow)) \<le>
      (\<Sum>t \<leftarrow> [Fin 4194304]. unat (the (pace_budget (\<lambda>x. x) (cap_value (fn_granted demo_fsnap)) t)))"
    by (simp add: demo_snap_wire(2) demo_budget demo_bytes)
  have auth: "report_ok (sv_gov ?sv) demo_flow (fs_attempt (fr_spec demo_flow)) (fs_generation (fr_spec demo_flow)) (fr_assigned_boot demo_flow)"
    using demo_authority by (simp add: demo_coordinator_def)
  from transfer_completes [OF look demo_flow_snap id t m demo_snap_wire(1) long enough look auth, of "[]" demo_answers False 1]
  show ?thesis unfolding list.map by blast
qed

text \<open>
  Property C22. Reports are faithful, for every backend that meets its contract and whatever messages a
  worker receives. Each frame it sends is a report on a dispatch it received: the flow, the attempt, the
  generation and the boot are those of the dispatch; a completion reports exactly the bytes of the flow
  and a progress report fewer. And a flow is reported complete at most as often as it was dispatched.
\<close>

theorem worker_reports_faithful:
  assumes "backend be view ok" "ok s" "worker_run R be turns (worker_start s) = Some (Inr (out, w))"
  shows "(\<forall>fr \<in> set out. \<exists>d. dispatch_in (concat (map fst turns)) d \<and> faithful d fr) \<and>
    completions f out \<le> dispatches f (concat (map fst turns))"
proof -
  have "bw_backend (worker_start s) = s" "held (worker_start s) f = 0" "bw_jobs (worker_start s) = []"
    by (simp_all add: worker_start_def held_def)
  then show ?thesis
    using backend.run_reports [OF assms(1,3) _ tracks_start, of "\<lambda>_. False" f] assms(2) by simp
qed

lemma demo_run:
  obtains out w body where "worker_run (\<lambda>x. x) synthetic_backend
      [([\<lparr>df_type = FlowDispatch, df_payload = demo_dispatch\<rparr>], Fin 4194304)] (worker_start (make_synthetic_backend [])) = Some (Inr (out, w))"
    "(Completion, body) \<in> set out"
  using worker_completes [OF demo_dispatch_read(2), of "Fin 4194304" "[]" "\<lambda>x. x" "[]"]
  by (auto simp: dispatch_of_def demo_snap_wire(2) demo_budget snap_fields [OF demo_flow_snap] demo_bytes)

lemma fresh_synthetic_valid: "synthetic_valid (make_synthetic_backend inventory)"
  by (simp add: make_synthetic_backend_def synthetic_valid_def)

theorem worker_reports_faithful_witness:
  "\<exists>fr d. dispatch_in [\<lparr>df_type = FlowDispatch, df_payload = demo_dispatch\<rparr>] d \<and> faithful d fr \<and> fst fr = Completion"
proof -
  obtain out w body where run: "worker_run (\<lambda>x. x) synthetic_backend
      [([\<lparr>df_type = FlowDispatch, df_payload = demo_dispatch\<rparr>], Fin 4194304)] (worker_start (make_synthetic_backend [])) = Some (Inr (out, w))"
    "(Completion, body) \<in> set out" by (rule demo_run)
  show ?thesis using worker_reports_faithful [OF synth.backend_axioms fresh_synthetic_valid run(1)] run(2) by force
qed

text \<open>
  Property C23. The granted rate is respected. In a paced turn of a worker, whatever it received before and
  for every backend that meets its contract, no report counts more than the bytes counted before and the
  granted rate times the elapsed time, and neither does the count of a job that goes on.
\<close>

theorem worker_within_grant:
  assumes "backend be view ok" "ok s" "worker_run R be turns (worker_start s) = Some (Inr (sent, w0))"
    and "worker_messages be ms w0 = Inr w" "worker_pace R be dt w = Some (Inr (out, w'))"
  shows "(\<forall>fr \<in> set out. \<forall>rep. decode_report (snd fr) = Inr rep \<longrightarrow>
      of_nat (unat (pt_bytes rep)) \<le> counted w (pt_flow rep) + granted_bytes R w dt (pt_flow rep)) \<and>
    (\<forall>f j. map_of (bw_jobs w') f = Some j \<longrightarrow> counted w' f \<le> counted w f + granted_bytes R w dt f)"
proof -
  have "bw_backend (worker_start s) = s" "bw_jobs (worker_start s) = []" by (simp_all add: worker_start_def)
  then have "ok (bw_backend w0) \<and> tracks view w0"
    using backend.run_reports [OF assms(1,3) _ tracks_start, of "\<lambda>_. False"] assms(2) by simp
  then have w: "ok (bw_backend w)" "tracks view w" using backend.messages_tracks [OF assms(1,4)] by blast+
  show ?thesis using backend.pace_within_grant [OF assms(1,5) w] by blast
qed

theorem worker_within_grant_witness:
  "\<exists>w out w'. worker_messages synthetic_backend [\<lparr>df_type = FlowDispatch, df_payload = demo_dispatch\<rparr>]
      (worker_start (make_synthetic_backend [])) = Inr w \<and>
    worker_pace (\<lambda>x. x) synthetic_backend (Fin 4194304) w = Some (Inr (out, w')) \<and>
    (\<forall>f j. map_of (bw_jobs w') f = Some j \<longrightarrow> counted w' f \<le> counted w f + granted_bytes (\<lambda>x. x) w (Fin 4194304) f)"
proof -
  let ?start = "worker_start (make_synthetic_backend [])"
  obtain out w' where run: "worker_run (\<lambda>x. x) synthetic_backend
      [([\<lparr>df_type = FlowDispatch, df_payload = demo_dispatch\<rparr>], Fin 4194304)] ?start = Some (Inr (out, w'))" by (rule demo_run)
  obtain w where w: "worker_messages synthetic_backend [\<lparr>df_type = FlowDispatch, df_payload = demo_dispatch\<rparr>] ?start = Inr w"
    using demo_dispatch_read(2) by (simp add: worker_message_def)
  then have "worker_pace (\<lambda>x. x) synthetic_backend (Fin 4194304) w = Some (Inr (out, w'))"
    using run by (auto simp: worker_turn_def demo_budget worker_start_def split: option.splits sum.splits prod.splits)
  then show ?thesis
    using worker_within_grant [OF synth.backend_axioms fresh_synthetic_valid worker_run.simps(1) w] w by blast
qed

end
