(* ===== verification/Faint_Weights.thy ===== *)
theory Faint_Weights
  imports Water_Fill
begin

text \<open>
  What the hypothesis on the weights in \<open>Water_Fill\<close> and \<open>Governor_Overcommit\<close> excludes: the code takes every positive
  weight, and a weight that is too small makes the allocator give away more than there is.
\<close>

section \<open>Vanishing weights\<close>


definition faint_slots :: "rat \<Rightarrow> rat \<Rightarrow> f64 \<Rightarrow> Slot list" where
  "faint_slots w c x = map (\<lambda>i. \<lparr>sl_index = i, sl_weight = Fin w, sl_min = f0, sl_want = Fin c, sl_max = Fin c, sl_granted = x\<rparr>) [0, 1]"

lemma faint_slots_nth [simp]:
  "faint_slots w c x ! 0 = \<lparr>sl_index = 0, sl_weight = Fin w, sl_min = f0, sl_want = Fin c, sl_max = Fin c, sl_granted = x\<rparr>"
  "faint_slots w c x ! Suc 0 = \<lparr>sl_index = 1, sl_weight = Fin w, sl_min = f0, sl_want = Fin c, sl_max = Fin c, sl_granted = x\<rparr>"
  by (simp_all add: faint_slots_def)




end
