(* ===== verification/Cli.thy ===== *)
theory Cli
  imports Worker Transport_Dispatch
begin

text \<open>
  The command line of \<^verbatim>\<open>cli/main.cpp\<close>: the commands and what they do to a governor, the sample scenarios
  of \<^verbatim>\<open>bg demo\<close>, the set-up of \<^verbatim>\<open>bg serve\<close>, and the escaping of strings in the JSON output.

  A command is a program over the governor: an action returns \<open>None\<close> when \<^verbatim>\<open>tick\<close> does not return, an
  exception, or a value; with the value comes what the command prints on its standard output. The
  conversions of the C library between doubles and decimal text are parameters: \<^verbatim>\<open>std::stod\<close>, of which it is
  used that it returns a double, and \<open>fmt\<close>, the conversions \<^verbatim>\<open>%.0f\<close>, \<^verbatim>\<open>%.2f\<close>, \<^verbatim>\<open>%.3f\<close> and \<^verbatim>\<open>%.4g\<close> of \<^verbatim>\<open>printf\<close>. What goes to the
  standard error stream is left out.
\<close>

section \<open>Actions\<close>

type_synonym 'a act = "gov \<Rightarrow> ('a result \<times> gov) option"

definition act_of :: "'a result \<Rightarrow> 'a act" where
  "act_of r g = Some (r, g)"

definition act_do :: "(gov \<Rightarrow> 'a result \<times> gov) \<Rightarrow> 'a act" where
  "act_do op g = Some (op g)"

definition act_set :: "(gov \<Rightarrow> gov) \<Rightarrow> unit act" where
  "act_set op g = Some (Inr (), op g)"

definition act_bind :: "'a act \<Rightarrow> ('a \<Rightarrow> 'b act) \<Rightarrow> 'b act" where
  "act_bind a f g =
     (case a g of
        None \<Rightarrow> None
      | Some (Inl e, g) \<Rightarrow> Some (Inl e, g)
      | Some (Inr x, g) \<Rightarrow> f x g)"

fun act_seq :: "unit act list \<Rightarrow> unit act" where
  "act_seq [] = act_of (Inr ())"
| "act_seq (a # as) = act_bind a (\<lambda>_. act_seq as)"

section \<open>Resources, paths and flows of the commands\<close>

definition cli_resource :: "(rat \<Rightarrow> rat) \<Rightarrow> u64 \<Rightarrow> ResourceClass \<Rightarrow> string \<Rightarrow> string \<Rightarrow> rat \<Rightarrow> ResourceSpec result" where
  "cli_resource R rid cls source destination nominal =
     rbind (Capacity_make (flit R nominal)) (\<lambda>c.
       Inr (ResourceSpec_default\<lparr>rs_id := Id128 0 rid, rs_class := cls, rs_source := source, rs_destination := destination,
              rs_direction := Unidirectional, rs_nominal := c, rs_generation := fresh_generation rid\<rparr>))"

definition cli_add_resource :: "(rat \<Rightarrow> rat) \<Rightarrow> ResourceSpec \<Rightarrow> unit act" where
  "cli_add_resource R spec = act_set (\<lambda>g. snd (add_resource R spec g))"

definition cli_path :: "u64 \<Rightarrow> u64 list \<Rightarrow> Path" where
  "cli_path pid rids =
     \<lparr>path_id = Id128 0 pid, path_hops = map (\<lambda>rid. \<lparr>hop_resource = Id128 0 rid, hop_generation = fresh_generation rid\<rparr>) rids,
      path_generation = fresh_generation pid\<rparr>"

definition cli_add_path :: "u64 \<Rightarrow> u64 list \<Rightarrow> unit act" where
  "cli_add_path pid rids = act_bind (act_do (add_path (cli_path pid rids))) (\<lambda>_. act_of (Inr ()))"

definition FlowSpec_default :: FlowSpec where
  "FlowSpec_default =
     \<lparr>fs_id = null_id, fs_tenant = null_id, fs_workload = null_id, fs_attempt = null_id, fs_generation = null_id,
      fs_source = [], fs_destination = [], fs_path = null_id, fs_byte_count = 0, fs_direction = Unidirectional,
      fs_priority = 0, fs_latency_class = BestEffort, fs_deadline_seconds = f0, fs_requested_min = Capacity_zero,
      fs_requested_preferred = Capacity_zero, fs_requested_max = Capacity_zero, fs_burst_bytes = 0,
      fs_preemptible = True, fs_resumable = True\<rparr>"

section \<open>Demo scenarios\<close>

definition demo_scenarios :: "string list" where
  "demo_scenarios =
     [''nvlink'', ''shared'', ''priority'', ''fairness'', ''deadline'', ''min'', ''max'', ''burst'', ''throttle'', ''preempt'']"

definition cli_demo_submit ::
    "(rat \<Rightarrow> rat) \<Rightarrow> string \<Rightarrow> u64 \<Rightarrow> u64 \<Rightarrow> u64 \<Rightarrow> rat \<Rightarrow> rat \<Rightarrow> rat \<Rightarrow> u64 \<Rightarrow> u32 \<Rightarrow> LatencyClass \<Rightarrow> rat \<Rightarrow> unit act" where
  "cli_demo_submit R scenario t w path mi pr mx n prio lc dl =
     act_bind (act_of (Capacity_make (flit R mi))) (\<lambda>cmin.
     act_bind (act_of (Capacity_make (flit R pr))) (\<lambda>cpref.
     act_bind (act_of (Capacity_make (flit R mx))) (\<lambda>cmax.
     act_bind (act_do (submit_flow R (FlowSpec_default\<lparr>
         fs_id := Id128 0 (n + 1), fs_tenant := Id128 0 t, fs_workload := Id128 0 w, fs_attempt := Id128 0 (n + 1),
         fs_generation := fresh_generation (n + 1), fs_source := ''gpu0'', fs_destination := ''host'', fs_path := Id128 0 path,
         fs_byte_count := 1048576, fs_requested_min := cmin, fs_requested_preferred := cpref, fs_requested_max := cmax,
         fs_priority := prio, fs_latency_class := lc, fs_deadline_seconds := flit R dl,
         fs_burst_bytes := (if scenario = ''burst'' then 131072 else 0)\<rparr>)))
       (\<lambda>_. act_of (Inr ())))))"

definition demo_flows :: "(rat \<Rightarrow> rat) \<Rightarrow> string \<Rightarrow> unit act list" where
  "demo_flows R scenario =
     (if scenario = ''fairness''
      then [cli_demo_submit R scenario 10 1 1 0 700000000 700000000 1 0 ThroughputOriented 0,
            cli_demo_submit R scenario 11 2 1 0 700000000 700000000 2 0 ThroughputOriented 0]
      else if scenario = ''priority''
      then [cli_demo_submit R scenario 10 1 1 0 800000000 800000000 1 0 BestEffort 0,
            cli_demo_submit R scenario 11 2 1 0 800000000 800000000 2 10 LatencySensitive 0]
      else if scenario = ''deadline''
      then [cli_demo_submit R scenario 10 1 1 0 900000000 900000000 1 0 LatencySensitive 1,
            cli_demo_submit R scenario 11 2 1 0 900000000 900000000 2 0 ThroughputOriented 10]
      else if scenario = ''min''
      then [cli_demo_submit R scenario 10 1 1 400000000 800000000 900000000 1 0 ThroughputOriented 0,
            cli_demo_submit R scenario 11 2 1 200000000 600000000 900000000 2 0 ThroughputOriented 0]
      else if scenario = ''max''
      then [cli_demo_submit R scenario 10 1 1 0 100000000 100000000 1 0 ThroughputOriented 0]
      else if scenario = ''multilink''
      then [cli_demo_submit R scenario 10 1 3 0 600000000 600000000 1 0 ThroughputOriented 0]
      else [cli_demo_submit R scenario 10 1 1 0 300000000 300000000 1 0 BestEffort 0,
            cli_demo_submit R scenario 11 2 1 0 300000000 300000000 2 0 BestEffort 0])"

definition demo_links :: "(rat \<Rightarrow> rat) \<Rightarrow> string \<Rightarrow> unit act list" where
  "demo_links R scenario =
     [act_bind (act_of (cli_resource R 1 Pcie ''gpu0'' ''host'' 1000000000)) (cli_add_resource R)] @
     (if scenario \<in> set demo_scenarios \<or> scenario = ''multilink''
      then [act_bind (act_of (cli_resource R 2 Nvlink ''gpu0'' ''gpu1'' 2000000000)) (\<lambda>nv.
              if scenario \<in> set demo_scenarios then cli_add_resource R nv else act_of (Inr ()))]
      else []) @
     [cli_add_path 1 [1]] @
     (if scenario \<in> set demo_scenarios then [cli_add_path 2 [2]] else []) @
     (if scenario = ''multilink'' then [cli_add_path 3 [1, 2]] else [])"

definition build_demo :: "(rat \<Rightarrow> rat) \<Rightarrow> string \<Rightarrow> unit act" where
  "build_demo R scenario =
     act_seq ([act_set (set_auto_clock False), act_set (advance_ms R f0)] @ demo_links R scenario @
              demo_flows R scenario @ [tick R])"

section \<open>Serving\<close>

definition serve_setup :: "(rat \<Rightarrow> rat) \<Rightarrow> unit act" where
  "serve_setup R =
     act_seq
       [act_bind (act_of (cli_resource R 1 Pcie ''node'' ''node'' 1000000000)) (cli_add_resource R),
        act_bind (act_of (cli_resource R 2 Pcie ''node'' ''node'' 1000000000)) (cli_add_resource R),
        cli_add_path 1 [1], cli_add_path 2 [2]]"

fun serve_port :: "string list \<Rightarrow> u16 \<Rightarrow> u16 option" where
  "serve_port (a # b # rest) port =
     (if a = ''--port''
      then (case stoull b of None \<Rightarrow> None | Some n \<Rightarrow> serve_port (b # rest) (ucast n))
      else serve_port (b # rest) port)"
| "serve_port _ port = Some port"

section \<open>Arguments\<close>

text \<open>\<^verbatim>\<open>get\<close> of the submit command: the last occurrence wins.\<close>

fun get_scan :: "string \<Rightarrow> string \<Rightarrow> string list \<Rightarrow> string" where
  "get_scan v name (a # b # rest) = get_scan (if a = name then b else v) name (b # rest)"
| "get_scan v name _ = v"

definition cli_get :: "string list \<Rightarrow> string \<Rightarrow> string \<Rightarrow> string" where
  "cli_get argv name otherwise =
     (let v = get_scan [] name (drop 2 argv) in if v = [] then otherwise else v)"

text \<open>A conversion of the standard library; \<open>None\<close> is its exception.\<close>

definition convert :: "string \<Rightarrow> 'a option \<Rightarrow> 'a result" where
  "convert what x = (case x of None \<Rightarrow> Inl (plain_error what) | Some v \<Rightarrow> Inr v)"

definition stoi :: "string \<Rightarrow> u32 option" where
  "stoi v =
     (case sign_of (dropWhile is_space v) of
        (negative, s) \<Rightarrow>
          let ds = takeWhile is_digit s; n = int (digits_value ds); i = (if negative then - n else n)
          in if ds = [] \<or> i < - (2 ^ 31) \<or> 2 ^ 31 \<le> i then None else Some (of_int i))"

text \<open>\<^verbatim>\<open>std::stoull(v, nullptr, 16)\<close>.\<close>

definition hex_value :: "char \<Rightarrow> nat option" where
  "hex_value c =
     (let n = of_char c :: nat
      in if 48 \<le> n \<and> n \<le> 57 then Some (n - 48)
         else if 97 \<le> n \<and> n \<le> 102 then Some (n - 87)
         else if 65 \<le> n \<and> n \<le> 70 then Some (n - 55)
         else None)"

definition hex_body :: "string \<Rightarrow> string" where
  "hex_body s =
     (case s of
        c0 # x # h # r \<Rightarrow>
          if c0 = CHR ''0'' \<and> (x = CHR ''x'' \<or> x = CHR ''X'') \<and> hex_value h \<noteq> None then h # r else s
      | _ \<Rightarrow> s)"

definition stoull16 :: "string \<Rightarrow> u64 option" where
  "stoull16 v =
     (case sign_of (dropWhile is_space v) of
        (negative, s) \<Rightarrow>
          let ds = takeWhile (\<lambda>c. hex_value c \<noteq> None) (hex_body s);
              n = foldl (\<lambda>n c. 16 * n + the (hex_value c)) 0 ds
          in if ds = [] \<or> 2 ^ 64 \<le> n then None
             else Some (if negative then - of_nat n else of_nat n))"

section \<open>JSON strings\<close>

text \<open>\<^verbatim>\<open>snprintf(buf, 8, "\u%04x", c)\<close> for a control character.\<close>

definition json_unicode :: "char \<Rightarrow> string" where
  "json_unicode c = CHR 0x5C # ''u'' @ hex_rounds 4 (of_nat (of_char c)) []"

definition json_char :: "char \<Rightarrow> string" where
  "json_char c =
     (if c = CHR 0x5C then [CHR 0x5C, CHR 0x5C]
      else if c = CHR 0x22 then [CHR 0x5C, CHR 0x22]
      else if c = CHR 0x0A then [CHR 0x5C, CHR ''n'']
      else if c = CHR 0x0D then [CHR 0x5C, CHR ''r'']
      else if c = CHR 0x09 then [CHR 0x5C, CHR ''t'']
      else if (of_char c :: nat) < 0x20 then json_unicode c
      else [c])"

definition json_escape :: "string \<Rightarrow> string" where
  "json_escape s = concat (map json_char s)"

section \<open>What is printed\<close>

text \<open>A string passed as \<^verbatim>\<open>%s\<close> ends at its first null character.\<close>

definition c_str :: "string \<Rightarrow> string" where
  "c_str s = takeWhile (\<lambda>c. c \<noteq> CHR 0x00) s"

text \<open>\<^verbatim>\<open>%zu\<close> and \<^verbatim>\<open>%llu\<close>.\<close>

fun decimal :: "nat \<Rightarrow> string" where
  "decimal n = (if n < 10 then [char_of (48 + n)] else decimal (n div 10) @ [char_of (48 + n mod 10)])"

declare decimal.simps [simp del]

definition newline :: string where "newline = [CHR 0x0A]"

definition quoted :: "string \<Rightarrow> string" where
  "quoted s = CHR 0x22 # s @ [CHR 0x22]"

fun joined :: "string list \<Rightarrow> string" where
  "joined [] = []"
| "joined [x] = x"
| "joined (x # xs) = x @ '','' @ joined xs"

definition json_object :: "(string \<times> string) list \<Rightarrow> string" where
  "json_object kvs = ''{'' @ joined (map (\<lambda>(k, v). quoted k @ '':'' @ v) kvs) @ ''}''"

definition json_array :: "string list \<Rightarrow> string" where
  "json_array xs = ''['' @ joined xs @ '']'' @ newline"

type_synonym fmt = "string \<Rightarrow> f64 \<Rightarrow> string"

definition resource_json :: "fmt \<Rightarrow> ResourceSnapshot \<Rightarrow> string" where
  "resource_json fmt r = json_object
     [(''id'', quoted (id_to_string (rn_id r))), (''class'', quoted (resource_class_name (rn_class r))),
      (''source'', quoted (c_str (json_escape (rn_source r)))), (''destination'', quoted (c_str (json_escape (rn_destination r)))),
      (''nominal'', fmt ''%.0f'' (cap_value (rn_nominal r))), (''governed'', fmt ''%.0f'' (cap_value (rn_governed r))),
      (''reserved'', fmt ''%.0f'' (cap_value (rn_reserved r))), (''allocated'', fmt ''%.0f'' (cap_value (rn_allocated r))),
      (''saturated'', if rn_saturated r then ''true'' else ''false'')]"

definition yes_no :: "bool \<Rightarrow> string" where
  "yes_no b = (if b then ''yes'' else ''no'')"

definition resource_line :: "fmt \<Rightarrow> ResourceSnapshot \<Rightarrow> string" where
  "resource_line fmt r =
     ''resource '' @ id_to_string (rn_id r) @ '' class='' @ resource_class_name (rn_class r) @ '' '' @ c_str (rn_source r) @ ''->'' @
     c_str (rn_destination r) @ '' nominal='' @ fmt ''%.0f'' (cap_value (rn_nominal r)) @ '' governed='' @
     fmt ''%.0f'' (cap_value (rn_governed r)) @ '' reserved='' @ fmt ''%.0f'' (cap_value (rn_reserved r)) @ '' allocated='' @
     fmt ''%.0f'' (cap_value (rn_allocated r)) @ '' gen='' @ id_to_string (rn_capacity_generation r) @ '' saturated='' @
     yes_no (rn_saturated r) @ newline"

definition print_resources :: "fmt \<Rightarrow> bool \<Rightarrow> ResourceSnapshot list \<Rightarrow> string" where
  "print_resources fmt json rs =
     (if json then json_array (map (resource_json fmt) rs) else concat (map (resource_line fmt) rs))"

definition print_paths :: "Path list \<Rightarrow> string" where
  "print_paths ps = concat (map (\<lambda>p. ''path '' @ id_to_string (path_id p) @ '' gen='' @ id_to_string (path_generation p) @
     '' hops='' @ decimal (length (path_hops p)) @ newline) ps)"

definition flow_json :: "fmt \<Rightarrow> FlowSnapshot \<Rightarrow> string" where
  "flow_json fmt f = json_object
     [(''id'', quoted (id_to_string (fs_id (fn_spec f)))), (''tenant'', quoted (id_to_string (fs_tenant (fn_spec f)))),
      (''state'', quoted (flow_state_name (fn_state f))), (''grant'', fmt ''%.0f'' (cap_value (fn_granted f)))]"

definition flow_line :: "fmt \<Rightarrow> FlowSnapshot \<Rightarrow> string" where
  "flow_line fmt f =
     ''flow '' @ id_to_string (fs_id (fn_spec f)) @ '' tenant '' @ id_to_string (fs_tenant (fn_spec f)) @ '' state='' @
     flow_state_name (fn_state f) @ '' grant='' @ fmt ''%.0f'' (cap_value (fn_granted f)) @ '' B/s progress='' @
     decimal (unat (fn_bytes_transferred f)) @ ''/'' @ decimal (unat (fs_byte_count (fn_spec f))) @ newline"

definition print_flows :: "fmt \<Rightarrow> bool \<Rightarrow> FlowSnapshot list \<Rightarrow> string" where
  "print_flows fmt json fs = (if json then json_array (map (flow_json fmt) fs) else concat (map (flow_line fmt) fs))"

definition print_reservations :: "Reservation list \<Rightarrow> string" where
  "print_reservations rs = concat (map (\<lambda>r. ''reservation '' @ id_to_string (rv_id r) @ '' flow='' @ id_to_string (rv_flow r) @
     '' state='' @ reservation_state_name (rv_state r) @ '' epoch='' @ id_to_string (rv_epoch r) @ newline) rs)"

definition print_allocations :: "fmt \<Rightarrow> (TenantId, f64) umap \<Rightarrow> string" where
  "print_allocations fmt m = concat (map (\<lambda>(tid, v). ''tenant '' @ id_to_string tid @ '' allocated='' @ fmt ''%.0f'' v @ newline) m)"

definition print_saturation :: "fmt \<Rightarrow> ResourceSnapshot list \<Rightarrow> string" where
  "print_saturation fmt rs = concat (map (\<lambda>r. ''resource '' @ id_to_string (rn_id r) @ '' saturated='' @ yes_no (rn_saturated r) @
     '' util='' @ fmt ''%.3f'' (rn_instantaneous_util r) @ newline) rs)"

definition print_decision :: "fmt \<Rightarrow> Decision \<Rightarrow> string" where
  "print_decision fmt d =
     ''flow '' @ id_to_string (d_flow d) @ '' kind='' @ decision_kind_name (d_kind d) @ '' granted='' @ fmt ''%.0f'' (cap_value (d_granted d)) @
     '' min='' @ fmt ''%.0f'' (cap_value (d_minimum_guarantee d)) @ '' pref='' @ fmt ''%.0f'' (cap_value (d_preferred d)) @
     '' max='' @ fmt ''%.0f'' (cap_value (d_maximum d)) @ '' starve='' @ fmt ''%.2f'' (d_starvation_age d) @ ''s reason='' @
     c_str (d_kind_reason d) @ newline @
     concat (map (\<lambda>f. ''  factor '' @ c_str (df_name f) @ '' value='' @ fmt ''%.4g'' (df_value f) @ '' weight='' @
       fmt ''%.4g'' (df_weight f) @ '' : '' @ c_str (df_rationale f) @ newline) (d_factors d))"

definition print_submitted :: "AdmissionResult \<Rightarrow> string" where
  "print_submitted r =
     ''submit: admitted='' @ (if ad_admitted r then ''1'' else ''0'') @ '' kind='' @ decision_kind_name (d_kind (ad_decision r)) @
     '' reason='' @ c_str (d_kind_reason (ad_decision r)) @ newline"

definition print_snapshot :: "fmt \<Rightarrow> GovernorSnapshot \<Rightarrow> string" where
  "print_snapshot fmt s =
     ''snapshot: flows='' @ decimal (length (gs_flows s)) @ '' resources='' @ decimal (length (gs_resources s)) @ '' reservations='' @
     decimal (length (gs_reservations s)) @ '' saved_at='' @ fmt ''%.0f'' (gs_saved_at_ms s) @ ''ms'' @ newline"

definition print_demo :: "fmt \<Rightarrow> string \<Rightarrow> FlowSnapshot list \<Rightarrow> string" where
  "print_demo fmt scenario fs =
     ''demo scenario: '' @ scenario @ newline @
     concat (map (\<lambda>f. ''  flow '' @ id_to_string (fs_id (fn_spec f)) @ '' tenant '' @ id_to_string (fs_tenant (fn_spec f)) @ '' state '' @
       flow_state_name (fn_state f) @ '' grant '' @ fmt ''%.0f'' (cap_value (fn_granted f)) @ '' B/s'' @ newline) fs)"

section \<open>The submit command\<close>

definition cli_latency :: "string \<Rightarrow> LatencyClass" where
  "cli_latency lc =
     (if lc = ''latency'' \<or> lc = ''sensitive'' then LatencySensitive
      else if lc = ''throughput'' then ThroughputOriented
      else BestEffort)"

definition cli_spec :: "(string \<Rightarrow> f64 option) \<Rightarrow> string list \<Rightarrow> FlowSpec result" where
  "cli_spec stod argv =
     rbind (convert ''stoull'' (stoull (cli_get argv ''--id'' ''999''))) (\<lambda>i.
     rbind (convert ''stoull'' (stoull (cli_get argv ''--tenant'' ''1''))) (\<lambda>t.
     rbind (convert ''stoull'' (stoull (cli_get argv ''--workload'' ''1''))) (\<lambda>w.
     rbind (convert ''stoull'' (stoull (cli_get argv ''--bytes'' ''1048576''))) (\<lambda>n.
     rbind (rbind (convert ''stod'' (stod (cli_get argv ''--min'' ''0''))) Capacity_make) (\<lambda>mi.
     rbind (rbind (convert ''stod'' (stod (cli_get argv ''--preferred'' ''1e8''))) Capacity_make) (\<lambda>pr.
     rbind (rbind (convert ''stod'' (stod (cli_get argv ''--max'' ''1e9''))) Capacity_make) (\<lambda>mx.
     rbind (convert ''stoi'' (stoi (cli_get argv ''--priority'' ''0''))) (\<lambda>prio.
     rbind (convert ''stod'' (stod (cli_get argv ''--deadline'' ''0''))) (\<lambda>dl.
     rbind (convert ''stoull'' (stoull (cli_get argv ''--burst'' ''0''))) (\<lambda>burst.
       Inr (FlowSpec_default\<lparr>
         fs_id := Id128 0 i, fs_tenant := Id128 0 t, fs_workload := Id128 0 w, fs_attempt := Id128 0 i,
         fs_generation := fresh_generation i, fs_source := cli_get argv ''--source'' ''gpu0'',
         fs_destination := cli_get argv ''--destination'' ''host'', fs_path := Id128 0 1, fs_byte_count := n,
         fs_requested_min := mi, fs_requested_preferred := pr, fs_requested_max := mx, fs_priority := prio,
         fs_latency_class := cli_latency (cli_get argv ''--latency'' []), fs_deadline_seconds := dl,
         fs_burst_bytes := burst\<rparr>)))))))))))"

definition cli_submit :: "(rat \<Rightarrow> rat) \<Rightarrow> (string \<Rightarrow> f64 option) \<Rightarrow> string list \<Rightarrow> AdmissionResult act" where
  "cli_submit R stod argv =
     act_bind (act_of (cli_spec stod argv)) (\<lambda>spec.
     act_bind (act_do (submit_flow R spec)) (\<lambda>r.
     act_bind (tick R) (\<lambda>_. act_of (Inr r))))"

section \<open>The program\<close>

text \<open>How a command ends, what it printed, and the governor and the disk it leaves.\<close>

type_synonym cli_end = "(unit startup \<times> string \<times> gov \<times> disk) option"

definition cli_finish :: "'a act \<Rightarrow> ('a \<Rightarrow> string) \<Rightarrow> gov \<Rightarrow> disk \<Rightarrow> cli_end" where
  "cli_finish a out g d =
     (case a g of
        None \<Rightarrow> None
      | Some (Inl e, g) \<Rightarrow> Some (Terminate, [], g, d)
      | Some (Inr x, g) \<Rightarrow> Some (Exit 0, out x, g, d))"

definition cli_config :: "u64 \<Rightarrow> GovernorConfig" where
  "cli_config salt = \<lparr>cfg_policy = PolicyConfig_default, cfg_id_salt = salt, cfg_auto_clock = False\<rparr>"

text \<open>Every \<^verbatim>\<open>--state\<close> argument is loaded, and exceptions are swallowed.\<close>

fun load_states :: "(rat \<Rightarrow> rat) \<Rightarrow> bool \<Rightarrow> disk \<Rightarrow> string list \<Rightarrow> gov \<Rightarrow> gov" where
  "load_states R readable d (a # b # rest) g =
     load_states R readable d (b # rest) (if a = ''--state'' then snd (load_file R readable b d g) else g)"
| "load_states R readable d _ g = g"

definition cli_command ::
    "(rat \<Rightarrow> rat) \<Rightarrow> (string \<Rightarrow> f64 option) \<Rightarrow> fmt \<Rightarrow> disk_answers \<Rightarrow> bool \<Rightarrow> bool \<Rightarrow> string \<Rightarrow> string list \<Rightarrow> gov \<Rightarrow> disk \<Rightarrow> cli_end" where
  "cli_command R stod fmt os readable json cmd argv g d =
     (if cmd = ''resources'' then cli_finish (act_do (list_resources R)) (print_resources fmt json) g d
      else if cmd = ''paths'' then Some (Exit 0, print_paths (list_paths g), g, d)
      else if cmd = ''flows'' then cli_finish (act_of (list_flows g)) (print_flows fmt json) g d
      else if cmd = ''reservations'' then Some (Exit 0, print_reservations (list_reservations g), g, d)
      else if cmd = ''allocations'' then Some (Exit 0, print_allocations fmt (tenant_allocations R g), g, d)
      else if cmd = ''saturation'' then cli_finish (act_do (list_resources R)) (print_saturation fmt) g d
      else if cmd = ''explain''
      then if length argv < 3 then Some (Exit 2, [], g, d)
           else cli_finish (act_bind (act_of (convert ''stoull'' (stoull16 (argv ! 2)))) (\<lambda>n. act_do (explain_flow R (Id128 0 n))))
                  (print_decision fmt) g d
      else if cmd = ''submit'' then cli_finish (cli_submit R stod argv) print_submitted g d
      else if cmd = ''cancel''
      then if length argv < 3 then Some (Exit 2, [], g, d)
           else cli_finish (act_bind (act_of (convert ''stoull'' (stoull16 (argv ! 2)))) (\<lambda>n.
                  act_do (cancel_flow R (Id128 0 n) ''canceled by CLI''))) (\<lambda>ok. ''cancel: '' @ (if ok then ''ok'' else ''no'') @ newline) g d
      else if cmd = ''save''
      then if length argv < 3 then Some (Exit 2, [], g, d)
           else (case save_file R os (argv ! 2) g d of
                   (Inl e, g, d) \<Rightarrow> Some (Terminate, [], g, d)
                 | (Inr _, g, d) \<Rightarrow> Some (Exit 0, ''saved to '' @ argv ! 2 @ newline, g, d))
      else if cmd = ''load''
      then if length argv < 3 then Some (Exit 2, [], g, d)
           else cli_finish (act_do (load_file R readable (argv ! 2) d)) (\<lambda>_. ''loaded from '' @ argv ! 2 @ newline) g d
      else if cmd = ''snapshot'' then cli_finish (act_do (snapshot R)) (print_snapshot fmt) g d
      else if cmd = ''bench''
      then Some (Exit 0, ''benchmark scaffolding (use the benchmarks/ suite for full results)'' @ newline, g, d)
      else Some (Exit 2, [], g, d))"

text \<open>\<open>bound\<close> says whether the server could listen on the port.\<close>

definition cli_serve :: "(rat \<Rightarrow> rat) \<Rightarrow> bool \<Rightarrow> (nat \<Rightarrow> u64) \<Rightarrow> (nat \<Rightarrow> f64) \<Rightarrow> string list \<Rightarrow> disk \<Rightarrow> cli_end" where
  "cli_serve R bound rng wall argv d =
     (let g = Governor_init ((cli_config 0)\<lparr>cfg_auto_clock := True\<rparr>) rng wall
      in case serve_port (drop 2 argv) 0 of
           None \<Rightarrow> Some (Terminate, [], g, d)
         | Some port \<Rightarrow>
             if port = 0 then Some (Exit 2, [], g, d)
             else (case serve_setup R g of
                     None \<Rightarrow> None
                   | Some (Inl e, g) \<Rightarrow> Some (Terminate, [], g, d)
                   | Some (Inr _, g) \<Rightarrow>
                       if \<not> bound then Some (Exit 1, [], g, d)
                       else Some (Go (), ''bandwidth-governor coordinator serving on port '' @ decimal (unat port) @ newline, g, d)))"

definition cli_demo :: "(rat \<Rightarrow> rat) \<Rightarrow> fmt \<Rightarrow> (nat \<Rightarrow> u64) \<Rightarrow> (nat \<Rightarrow> f64) \<Rightarrow> string list \<Rightarrow> disk \<Rightarrow> cli_end" where
  "cli_demo R fmt rng wall argv d =
     (let scenario = (if 2 < length argv then argv ! 2 else ''fairness'')
      in cli_finish (act_bind (build_demo R scenario) (\<lambda>_ g. act_of (list_flows g) g)) (print_demo fmt scenario)
           (Governor_init (cli_config 4242) rng wall) d)"

definition cli_main ::
    "(rat \<Rightarrow> rat) \<Rightarrow> (string \<Rightarrow> f64 option) \<Rightarrow> fmt \<Rightarrow> disk_answers \<Rightarrow> bool \<Rightarrow> bool \<Rightarrow> (nat \<Rightarrow> u64) \<Rightarrow> (nat \<Rightarrow> f64) \<Rightarrow> string list \<Rightarrow> disk \<Rightarrow> cli_end" where
  "cli_main R stod fmt os readable bound rng wall argv d =
     (if length argv < 2 then Some (Exit 2, [], Governor_init (cli_config 0) rng wall, d)
      else let cmd = argv ! 1; json = (''--json'' \<in> set argv)
           in if cmd = ''serve'' then cli_serve R bound rng wall argv d
              else if cmd = ''demo'' then cli_demo R fmt rng wall argv d
              else cli_command R stod fmt os readable json cmd argv
                     (load_states R readable d argv (set_auto_clock False (Governor_init (cli_config 777) rng wall))) d)"

end
