(* ===== verification/Cli_Properties.thy ===== *)
theory Cli_Properties
  imports Cli
begin

text \<open>
  What the commands do: every command takes a governor through moves of its public operations, which are steps
  with validated arguments unless a state file is loaded, and the JSON output can be read back.
\<close>

section \<open>Commands take steps of the governor\<close>

definition moves :: "(rat \<Rightarrow> rat) \<Rightarrow> 'a act \<Rightarrow> bool" where
  "moves R a \<longleftrightarrow> (\<forall>g r g'. a g = Some (r, g') \<longrightarrow> gov_reaches R g g')"

named_theorems moves_intros \<open>actions that only take steps of the governor\<close>

lemma moves_of [moves_intros]: "moves R (act_of r)"
  by (simp add: moves_def act_of_def)

lemma moves_set: "(\<And>g. gov_step R g (op g)) \<Longrightarrow> moves R (act_set op)"
  by (auto simp: moves_def act_set_def intro: reaches_step)

lemma moves_do: "(\<And>g. gov_reaches R g (snd (op g))) \<Longrightarrow> moves R (act_do op)"
  by (auto simp: moves_def act_do_def) (metis snd_conv)

lemma moves_bind: "moves R a \<Longrightarrow> (\<And>x. moves R (f x)) \<Longrightarrow> moves R (act_bind a f)"
  unfolding moves_def act_bind_def by (auto split: option.splits prod.splits sum.splits) (meson gov_reaches_trans)

lemma moves_bind_of: "(\<And>x. r = Inr x \<Longrightarrow> moves R (f x)) \<Longrightarrow> moves R (act_bind (act_of r) f)"
  by (cases r) (auto simp: moves_def act_bind_def act_of_def)

lemma moves_seq: "list_all (moves R) as \<Longrightarrow> moves R (act_seq as)"
  by (induction as) (simp_all add: moves_of moves_bind)

lemma moves_tick [moves_intros]: "moves R (tick R)"
  by (auto simp: moves_def intro: reaches_step gov_step.tick)

lemma moves_add_path [moves_intros]: "moves R (cli_add_path pid rids)"
  unfolding cli_add_path_def by (intro moves_bind moves_do moves_of reaches_step gov_step.add_path)

lemma moves_clock [moves_intros]: "moves R (act_set (set_auto_clock b))" "moves R (act_set (advance_ms R dt))"
  by (rule moves_set, rule gov_step.intros)+

context rounding
begin

lemma literal_ok: "Capacity_make (flit R q) = Inr c \<Longrightarrow> rate_ok R (cap_value c)"
  by (auto simp: Capacity_make_Inr rate_ok_def flit_def)

lemma moves_resource: "moves R (act_bind (act_of (cli_resource R rid cls a b q)) (cli_add_resource R))"
  by (rule moves_bind_of, unfold cli_add_resource_def, rule moves_set, rule gov_step.add_resource)
    (auto simp: cli_resource_def rbind_eq_Inr_iff literal_ok)

lemma moves_maybe: "moves R (act_bind (act_of (cli_resource R rid cls a b q)) (\<lambda>nv. if yes then cli_add_resource R nv else act_of (Inr ())))"
  using moves_resource [of rid cls a b q] by (cases yes) (auto intro: moves_bind moves_of)

lemma moves_demo_submit: "moves R (cli_demo_submit R scenario t w path mi pr mx n prio lc dl)"
  unfolding cli_demo_submit_def
  by (intro moves_bind_of moves_bind [OF moves_do] moves_of reaches_step gov_step.submit_flow) (simp add: request_ok_def literal_ok)

lemma moves_build_demo: "moves R (build_demo R scenario)"
proof -
  have "list_all (moves R) (demo_flows R scenario)" by (simp add: demo_flows_def moves_demo_submit)
  moreover have "list_all (moves R) (demo_links R scenario)"
    by (simp add: demo_links_def moves_resource moves_maybe moves_add_path)
  ultimately show ?thesis unfolding build_demo_def by (intro moves_seq) (simp add: moves_clock moves_tick)
qed

lemma moves_serve_setup: "moves R (serve_setup R)"
  unfolding serve_setup_def by (rule moves_seq) (simp add: moves_resource moves_add_path)

lemma moves_submit:
  assumes "\<forall>s x. stod s = Some x \<longrightarrow> is_double R x"
  shows "moves R (cli_submit R stod argv)"
proof -
  have "request_ok R spec" if "cli_spec stod argv = Inr spec" for spec
    using that assms by (auto simp: cli_spec_def convert_def rbind_eq_Inr_iff Capacity_make_Inr request_ok_def rate_ok_def split: option.splits)
  then show ?thesis unfolding cli_submit_def
    by (intro moves_bind_of moves_bind [OF moves_do] moves_bind [OF moves_tick] moves_of reaches_step gov_step.submit_flow)
qed

end

lemma explain_flow_reaches: "gov_reaches R g (snd (explain_flow R' fid g))"
  by (auto simp: explain_flow_def Let_def intro: reaches_step gov_step.read_clock split: option.split sum.split)

lemma snapshot_reaches: "gov_reaches R g (snd (snapshot R' g))"
  by (auto simp: snapshot_def build_snapshot_def Let_def intro: reaches_step gov_step.read_clock split: prod.splits)

lemma load_states_moves: "gov_moves R g (load_states R readable d argv g)"
proof (induction R readable d argv g rule: load_states.induct)
  case (1 R readable d a b rest g)
  then show ?case using load_file_moves [of R g readable b d] by (auto intro: rtranclp_trans)
qed simp_all

lemma load_states_none: "readable \<longrightarrow> ''--state'' \<notin> set argv \<Longrightarrow> load_states R readable d argv g = g"
proof (induction R readable d argv g rule: load_states.induct)
  case (1 R readable d a b rest g)
  have "(if a = ''--state'' then snd (load_file R readable b d g) else g) = g"
    using 1(2) load_file_unreadable [of R b d g] by (cases readable) auto
  then show ?case using 1 by simp
qed simp_all

lemma finish_reaches: "moves R a \<Longrightarrow> cli_finish a out g d = Some (r, s, g', d') \<Longrightarrow> gov_reaches R g g'"
  by (auto simp: cli_finish_def moves_def split: option.splits prod.splits sum.splits)

lemma moves_with: "moves R (act_bind (act_of r) (\<lambda>x. act_do (op x)))" if "\<And>x g. gov_reaches R g (snd (op x g))"
  by (intro moves_bind_of moves_do that)

lemma command_reaches:
  assumes "rounding R" "\<forall>s x. stod s = Some x \<longrightarrow> is_double R x"
    and "cli_command R stod fmt os False json cmd argv g d = Some (r, out, g', d')"
  shows "gov_reaches R g g'"
proof -
  have "moves R (act_do (list_resources R))" "moves R (act_do (snapshot R))" "moves R (cli_submit R stod argv)"
    "moves R (act_do (load_file R False path d))" for path
    using list_resources_reaches snapshot_reaches rounding.moves_submit [OF assms(1,2)]
    by (auto intro: moves_do simp: load_file_unreadable)
  moreover have "moves R (act_bind (act_of q) (\<lambda>n. act_do (explain_flow R (Id128 0 n))))"
    "moves R (act_bind (act_of q) (\<lambda>n. act_do (cancel_flow R (Id128 0 n) reason)))" for q reason
    by (intro moves_with explain_flow_reaches reaches_step gov_step.cancel_flow)+
  ultimately show ?thesis
    using assms(3) save_file_reaches moves_of
    by (fastforce simp: cli_command_def dest: finish_reaches split: if_splits prod.splits sum.splits)
qed

lemma command_readable: "cmd = ''load'' \<longrightarrow> length argv < 3 \<Longrightarrow>
    cli_command R stod fmt os readable json cmd argv g d = cli_command R stod fmt os False json cmd argv g d"
  by (simp add: cli_command_def)

lemma command_moves:
  assumes "rounding R" "\<forall>s x. stod s = Some x \<longrightarrow> is_double R x"
    and "cli_command R stod fmt os readable json cmd argv g d = Some (r, out, g', d')"
  shows "gov_moves R g g'"
proof (cases "cmd = ''load'' \<and> \<not> length argv < 3")
  case True
  then show ?thesis
    using assms(3) load_file_moves [of R g readable "argv ! 2" d]
    by (auto simp: cli_command_def cli_finish_def act_do_def split: prod.splits sum.splits)
next
  case False
  then have "cli_command R stod fmt os False json cmd argv g d = Some (r, out, g', d')"
    using assms(3) command_readable [of cmd argv R stod fmt os readable json g d] by simp
  then show ?thesis using command_reaches [OF assms(1,2)] reaches_moves by blast
qed

section \<open>JSON strings\<close>

text \<open>A reader of JSON strings, after RFC 8259, behind the opening quotation mark; an escape gives one byte.\<close>

definition json_then :: "char \<Rightarrow> (string \<times> string) option \<Rightarrow> (string \<times> string) option" where
  "json_then c = map_option (\<lambda>(s, rest). (c # s, rest))"

definition json_short :: "char \<Rightarrow> char option" where
  "json_short e =
     (if e = CHR 0x22 \<or> e = CHR 0x5C \<or> e = CHR ''/'' then Some e
      else if e = CHR ''b'' then Some (CHR 0x08) else if e = CHR ''f'' then Some (CHR 0x0C)
      else if e = CHR ''n'' then Some (CHR 0x0A) else if e = CHR ''r'' then Some (CHR 0x0D)
      else if e = CHR ''t'' then Some (CHR 0x09) else None)"

definition json_code :: "char \<Rightarrow> char \<Rightarrow> char \<Rightarrow> char \<Rightarrow> char option" where
  "json_code a b c d =
     (case (hex_value a, hex_value b, hex_value c, hex_value d) of
        (Some a, Some b, Some c, Some d) \<Rightarrow>
          let n = ((16 * a + b) * 16 + c) * 16 + d in if n < 128 then Some (char_of n) else None
      | _ \<Rightarrow> None)"

fun json_read :: "string \<Rightarrow> (string \<times> string) option" where
  "json_read [] = None"
| "json_read (c # s) =
     (if c = CHR 0x22 then Some ([], s)
      else if (of_char c :: nat) < 0x20 then None
      else if c \<noteq> CHR 0x5C then json_then c (json_read s)
      else case s of
             [] \<Rightarrow> None
           | e # r \<Rightarrow>
               if e = CHR ''u''
               then (case r of
                       x1 # x2 # x3 # x4 # r \<Rightarrow>
                         (case json_code x1 x2 x3 x4 of None \<Rightarrow> None | Some c \<Rightarrow> json_then c (json_read r))
                     | _ \<Rightarrow> None)
               else (case json_short e of None \<Rightarrow> None | Some c \<Rightarrow> json_then c (json_read r)))"

lemma hex_table: "k < 16 \<Longrightarrow> hex_value (''0123456789abcdef'' ! k) = Some k \<and> 0x20 \<le> (of_char (''0123456789abcdef'' ! k) :: nat)"
proof -
  assume "k < 16"
  then have "k \<in> {0, 1, 2, 3, 4, 5, 6, 7, 8, 9, 10, 11, 12, 13, 14, 15}" unfolding insert_iff empty_iff by presburger
  then show ?thesis by (elim insertE emptyE) (simp_all add: hex_value_def)
qed

lemma hex_digit_value:
  "hex_value (hex_digit v) = Some (unat v mod 16)" "0x20 \<le> (of_char (hex_digit v) :: nat)"
proof -
  have "v AND 0xF = take_bit 4 v" by (simp add: take_bit_eq_mask mask_eq_exp_minus_1)
  then have "unat (v AND 0xF) = unat v mod 16" by (simp add: take_bit_eq_mod unat_mod_distrib)
  then show "hex_value (hex_digit v) = Some (unat v mod 16)" "0x20 \<le> (of_char (hex_digit v) :: nat)"
    using hex_table [of "unat v mod 16"] by (simp_all add: hex_digit_def)
qed

lemma json_control:
  assumes "(of_char c :: nat) < 0x20"
  shows "\<exists>x1 x2 x3 x4. json_unicode c = [CHR 0x5C, CHR ''u'', x1, x2, x3, x4] \<and> json_code x1 x2 x3 x4 = Some c \<and>
     (\<forall>x \<in> {x1, x2, x3, x4}. 0x20 \<le> (of_char x :: nat))"
proof -
  define n where "n = (of_char c :: nat)"
  define w :: u64 where "w = of_nat n"
  have n: "n < 32" using assms by (simp add: n_def)
  have w: "unat w = n" using n by (simp add: w_def unat_of_nat)
  then have d: "unat (drop_bit k w) = n div 2 ^ k" for k by (simp only: unat_drop_bit_eq flip: drop_bit_eq_div)
  have u: "json_unicode c = [CHR 0x5C, CHR ''u'', hex_digit (drop_bit 12 w), hex_digit (drop_bit 8 w), hex_digit (drop_bit 4 w), hex_digit w]"
    by (simp add: json_unicode_def hex_rounds_eq upt_rec n_def w_def)
  have "n div 4096 = 0" "n div 256 = 0" "(16 * (n div 16 mod 16) + n mod 16) = n" using n by auto
  moreover have "char_of n = c" by (simp add: n_def)
  ultimately have "json_code (hex_digit (drop_bit 12 w)) (hex_digit (drop_bit 8 w)) (hex_digit (drop_bit 4 w)) (hex_digit w) = Some c"
    using n by (simp add: json_code_def hex_digit_value d w algebra_simps)
  then show ?thesis using u hex_digit_value(2) by blast
qed

lemma json_char_read: "json_read (json_char c @ s) = json_then c (json_read s)"
proof (cases "(of_char c :: nat) < 0x20 \<and> c \<notin> {CHR 0x0A, CHR 0x0D, CHR 0x09}")
  case True
  then obtain x1 x2 x3 x4 where "json_unicode c = [CHR 0x5C, CHR ''u'', x1, x2, x3, x4]" "json_code x1 x2 x3 x4 = Some c"
    using json_control by blast
  moreover have "json_char c = json_unicode c" using True by (auto simp: json_char_def)
  ultimately show ?thesis by simp
next
  case False
  then show ?thesis by (auto simp: json_char_def json_short_def)
qed

section \<open>The multilink scenario\<close>

text \<open>A flow over a path that crosses an unknown resource is not admitted.\<close>

lemma scan_missing_hop:
  "\<exists>hop \<in> set hops. map_of res (hop_resource hop) = None \<Longrightarrow> \<not> fst (scan_hops R res mi hops st)"
proof (induction hops arbitrary: st)
  case (Cons hop hops)
  then show ?case by (cases st; cases "map_of res (hop_resource hop)") (auto simp: Let_def)
qed simp

lemma map_of_None_keys: "map_of m k = None \<longleftrightarrow> k \<notin> set (keys m)"
  by (simp add: map_of_eq_None_iff)

lemma missing_resource_not_admitted:
  assumes "map_of (g_paths g) (fs_path spec) = Some p" "hop \<in> set (path_hops p)" "map_of (g_resources g) (hop_resource hop) = None"
  shows "submit_flow R spec g = (Inr r, g') \<Longrightarrow> \<not> ad_admitted r"
proof -
  let ?g = "recompute_allocated R (recompute_reserved R (recompute_governed R g))"
  have "keys (g_resources ?g) = keys (g_resources g)" by (simp add: frame_simps recompute_governed_keys)
  then have "map_of (g_resources ?g) (hop_resource hop) = None" using assms(3) by (metis map_of_None_keys)
  then have "\<not> fst (scan_hops R (g_resources ?g) mi (path_hops p) st)" for mi st using assms(2) by (intro scan_missing_hop) blast
  then show "submit_flow R spec g = (Inr r, g') \<Longrightarrow> \<not> ad_admitted r"
    using assms(1) by (auto simp: submit_flow_def Let_def rejected_def park_flow_def split: option.splits if_splits prod.splits) (metis fst_conv)+
qed

text \<open>
  The scenario builds the second link but does not add it, so its path crosses an unknown resource and
  its only flow is never admitted.
\<close>

lemma multilink_lacks_a_link:
  assumes "act_seq (demo_links R ''multilink'') (Governor_init cfg rng wall) = Some (Inr (), g)"
  shows "map_of (g_resources g) (Id128 0 2) = None" "map_of (g_paths g) (Id128 0 3) = Some (cli_path 3 [1, 2])"
proof -
  let ?g = "Governor_init cfg rng wall"
  obtain spec where spec: "cli_resource R 1 Pcie ''gpu0'' ''host'' 1000000000 = Inr spec"
    using assms by (cases "cli_resource R 1 Pcie ''gpu0'' ''host'' 1000000000") (auto simp: demo_links_def act_bind_def act_of_def)
  obtain nv where nv: "cli_resource R 2 Nvlink ''gpu0'' ''gpu1'' 2000000000 = Inr nv"
    using assms spec by (cases "cli_resource R 2 Nvlink ''gpu0'' ''gpu1'' 2000000000")
      (auto simp: demo_links_def act_bind_def act_of_def cli_add_resource_def act_set_def)
  have id: "rs_id spec = Id128 0 1" using spec by (auto simp: cli_resource_def rbind_eq_Inr_iff)
  have init: "g_resources ?g = []" "g_paths ?g = []" by (simp_all add: Governor_init_def split: prod.split)
  let ?h = "snd (add_resource R spec ?g)"
  have "keys (g_resources ?h) = [Id128 0 1]"
    by (simp add: add_resource_def Let_def init id recompute_governed_keys frame_simps split: prod.split)
  then have h: "map_of (g_resources ?h) (Id128 0 2) = None" by (simp only: map_of_None_keys) simp
  have path: "add_path (cli_path pid rids) k = (Inr (Id128 0 pid), k\<lparr>g_paths := AList.update (Id128 0 pid) (cli_path pid rids) (g_paths k)\<rparr>)"
    if "pid \<noteq> 0" "rids = [1] \<or> rids = [1, 2]" for pid rids k
    using that by (auto simp: add_path_def cli_path_def validate_path_def is_null_def fresh_generation_def)
  have "act_seq (demo_links R ''multilink'') ?g = Some (Inr (), ?h\<lparr>g_paths := AList.update (Id128 0 3) (cli_path 3 [1, 2])
      (AList.update (Id128 0 1) (cli_path 1 [1]) (g_paths ?h))\<rparr>)"
    by (simp add: demo_links_def demo_scenarios_def act_bind_def act_of_def act_do_def act_set_def cli_add_path_def cli_add_resource_def
        spec nv path)
  then have g: "g = ?h\<lparr>g_paths := AList.update (Id128 0 3) (cli_path 3 [1, 2]) (AList.update (Id128 0 1) (cli_path 1 [1]) (g_paths ?h))\<rparr>"
    using assms by simp
  show "map_of (g_resources g) (Id128 0 2) = None" "map_of (g_paths g) (Id128 0 3) = Some (cli_path 3 [1, 2])"
    using h by (simp_all add: g)
qed

section \<open>Properties\<close>

text \<open>
  Property C29. Every command is made of moves of the governor: whatever the arguments and the files, the governor that a
  command leaves behind comes from a fresh one by calls of its public operations, among them the loads that \<^verbatim>\<open>--state\<close>
  and \<^verbatim>\<open>bg load\<close> ask for. A command that loads no state, because no file can be opened or because the arguments ask
  for none, calls them with validated arguments only, so the governor is reachable and all that holds of reachable
  governors holds for \<^verbatim>\<open>bg demo\<close> with every scenario, \<^verbatim>\<open>bg submit\<close>, \<^verbatim>\<open>bg cancel\<close> and the others, and for the governor
  that \<^verbatim>\<open>bg serve\<close> hands to the server. (Of \<^verbatim>\<open>std::stod\<close> it is assumed that it returns a double.)
\<close>

theorem commands_refine_governor:
  assumes "rounding R" "\<forall>s x. stod s = Some x \<longrightarrow> is_double R x"
    and "cli_main R stod fmt os readable bound rng wall argv d = Some (r, out, g, d')"
  shows "(\<exists>cfg. gov_moves R (Governor_init cfg rng wall) g) \<and>
    (\<not> readable \<or> ''--state'' \<notin> set argv \<and> argv ! 1 \<noteq> ''load'' \<longrightarrow> reachable R g)"
proof -
  let ?init = "\<lambda>cfg. Governor_init cfg rng wall"
  have shown: "moves R (act_bind (build_demo R scenario) (\<lambda>_ g. act_of (list_flows g) g))" for scenario
    using rounding.moves_build_demo [OF assms(1)] by (rule moves_bind) (simp add: moves_def act_of_def)
  let ?g0 = "set_auto_clock False (?init (cli_config 777))"
  have clock: "gov_reaches R (?init (cli_config 777)) ?g0" by (intro reaches_step gov_step.set_auto_clock)
  consider (short) "length argv < 2" | (serve) "cli_serve R bound rng wall argv d = Some (r, out, g, d')"
    | (demo) "cli_demo R fmt rng wall argv d = Some (r, out, g, d')"
    | (other) "2 \<le> length argv" "argv ! 1 \<noteq> ''serve''" "argv ! 1 \<noteq> ''demo''"
    using assms(3) by (auto simp: cli_main_def Let_def split: if_splits)
  then have "(\<exists>cfg. gov_reaches R (?init cfg) g) \<or> gov_moves R (?init (cli_config 777)) g \<and>
      (\<not> readable \<or> ''--state'' \<notin> set argv \<and> argv ! 1 \<noteq> ''load'' \<longrightarrow> gov_reaches R (?init (cli_config 777)) g)"
  proof cases
    case short
    then show ?thesis using assms(3) by (auto simp: cli_main_def intro: reaches_refl)
  next
    case serve
    then show ?thesis using rounding.moves_serve_setup [OF assms(1)]
      by (auto simp: cli_serve_def moves_def Let_def intro: reaches_refl split: option.splits if_splits prod.splits sum.splits)
  next
    case demo
    then show ?thesis using finish_reaches [OF shown] unfolding cli_demo_def Let_def by blast
  next
    case other
    let ?l = "load_states R readable d argv ?g0"
    have c: "cli_command R stod fmt os readable (''--json'' \<in> set argv) (argv ! 1) argv ?l d = Some (r, out, g, d')"
      using assms(3) other by (simp add: cli_main_def Let_def)
    have "gov_moves R (?init (cli_config 777)) g"
      using reaches_moves [OF clock] load_states_moves [of R ?g0 readable d argv] command_moves [OF assms(1,2) c] by (meson rtranclp_trans)
    moreover have "gov_reaches R (?init (cli_config 777)) g" if n: "\<not> readable \<or> ''--state'' \<notin> set argv \<and> argv ! 1 \<noteq> ''load''"
    proof -
      have "?l = ?g0" using n by (intro load_states_none) blast
      moreover have "cli_command R stod fmt os False (''--json'' \<in> set argv) (argv ! 1) argv ?l d = Some (r, out, g, d')"
        using c n command_readable [of "argv ! 1" argv R stod fmt os readable] by (cases readable) auto
      ultimately have "gov_reaches R ?g0 g" using command_reaches [OF assms(1,2)] by simp
      then show ?thesis by (rule gov_reaches_trans [OF clock])
    qed
    ultimately show ?thesis by blast
  qed
  then show ?thesis unfolding reachable_def using reaches_moves by blast
qed

definition demo_stod :: "string \<Rightarrow> f64 option" where
  "demo_stod s = map_of [(''0'', f0), (''1e8'', Fin 100000000), (''1e9'', Fin 1000000000)] s"

theorem commands_refine_governor_witness:
  "\<exists>r out g d. cli_main (\<lambda>x. x) demo_stod (\<lambda>_ _. []) demo_answers True True (\<lambda>_. 0) (\<lambda>_. f0) [''bg'', ''serve'', ''--port'', ''70''] Map.empty = Some (r, out, g, d) \<and>
     reachable (\<lambda>x. x) g \<and> map_of (g_paths g) (Id128 0 2) = Some (cli_path 2 [2])"
proof -
  have port: "serve_port [''--port'', ''70''] 0 = Some 70" by (simp add: stoull_def sign_of_def is_space_def is_digit_def digits_value_def)
  have path: "add_path (cli_path pid [pid]) k = (Inr (Id128 0 pid), k\<lparr>g_paths := AList.update (Id128 0 pid) (cli_path pid [pid]) (g_paths k)\<rparr>)"
    if "pid \<noteq> 0" for pid k using that by (simp add: add_path_def cli_path_def validate_path_def is_null_def fresh_generation_def)
  obtain spec where spec: "\<And>rid. cli_resource (\<lambda>x. x) rid Pcie ''node'' ''node'' 1000000000 = Inr (spec rid)"
    using dbl_max_large by (simp add: cli_resource_def Capacity_make_def is_valid_rate_iff flit_def fl_def kMaxRate_def)
  obtain r out g d where run: "cli_main (\<lambda>x. x) demo_stod (\<lambda>_ _. []) demo_answers True True (\<lambda>_. 0) (\<lambda>_. f0) [''bg'', ''serve'', ''--port'', ''70''] Map.empty = Some (r, out, g, d)"
    "map_of (g_paths g) (Id128 0 2) = Some (cli_path 2 [2])"
    using port by (simp add: cli_main_def cli_serve_def serve_setup_def act_bind_def act_of_def act_do_def act_set_def cli_add_path_def
        cli_add_resource_def spec path Let_def)
  have "\<forall>s x. demo_stod s = Some x \<longrightarrow> is_double (\<lambda>x. x) x"
    by (auto simp: demo_stod_def is_double_def dbl_max_def split: if_splits)
  then show ?thesis using commands_refine_governor [OF exact.rounding_axioms _ run(1)] run by auto
qed

text \<open>
  Property C38. The JSON output is well formed: a string escaped by \<^verbatim>\<open>json_escape\<close> and closed by a quotation mark
  is read back as the string by a reader of JSON strings, whatever follows it, and it contains no control
  character.
\<close>

theorem json_escape_reads_back:
  "json_read (json_escape s @ CHR 0x22 # rest) = Some (s, rest) \<and> list_all (\<lambda>c. 0x20 \<le> (of_char c :: nat)) (json_escape s)"
proof (induction s)
  case (Cons c s)
  have "json_escape (c # s) = json_char c @ json_escape s" by (simp add: json_escape_def)
  moreover have "list_all (\<lambda>c. 0x20 \<le> (of_char c :: nat)) (json_char c)"
  proof (cases "json_char c = json_unicode c \<and> (of_char c :: nat) < 0x20")
    case True
    then show ?thesis using json_control [of c] by fastforce
  next
    case False
    then show ?thesis by (auto simp: json_char_def)
  qed
  ultimately show ?case using Cons json_char_read [of c] by (simp add: json_then_def)
qed (simp add: json_escape_def)

end
