(* ===== verification/Sockets.thy ===== *)
theory Sockets
  imports Prelude "HOL-Library.Multiset" "HOL-Library.Word"
begin

text \<open>
  The socket objects of \<^verbatim>\<open>src/transport.cpp\<close>, and who owns their descriptors.

  A \<^verbatim>\<open>TcpSocket\<close> is its handle: a descriptor, or \<open>None\<close> for the invalid one. The operating system is the list
  of the open descriptors of the process and its answers, which are arguments.
\<close>

section \<open>Sockets\<close>

type_synonym handle = "nat option"

definition sock_valid :: "handle \<Rightarrow> bool" where
  "sock_valid h \<longleftrightarrow> h \<noteq> None"

definition sock_close :: "handle \<Rightarrow> nat list \<Rightarrow> handle \<times> nat list" where
  "sock_close h fds = (case h of None \<Rightarrow> (None, fds) | Some fd \<Rightarrow> (None, remove1 fd fds))"

text \<open>\<^verbatim>\<open>move_from\<close>: the new handle of the target and of the source.\<close>

definition sock_move_from :: "handle \<Rightarrow> handle \<times> handle" where
  "sock_move_from other = (other, None)"

text \<open>Move assignment between two objects.\<close>

definition sock_assign :: "handle \<Rightarrow> handle \<Rightarrow> nat list \<Rightarrow> (handle \<times> handle) \<times> nat list" where
  "sock_assign h other fds = (case sock_close h fds of (_, fds) \<Rightarrow> (sock_move_from other, fds))"

text \<open>
  \<^verbatim>\<open>connect_to\<close>: per resolved address what \<^verbatim>\<open>socket\<close> returned and whether \<^verbatim>\<open>connect\<close> succeeded.
\<close>

fun connect_loop :: "(nat option \<times> bool) list \<Rightarrow> handle \<Rightarrow> nat list \<Rightarrow> bool \<times> handle \<times> nat list" where
  "connect_loop [] h fds = (False, h, fds)"
| "connect_loop ((None, _) # as) h fds = connect_loop as h fds"
| "connect_loop ((Some s, good) # as) h fds =
     (if good then (True, Some s, s # fds) else connect_loop as h (remove1 s (s # fds)))"

definition connect_to :: "(nat option \<times> bool) list option \<Rightarrow> handle \<Rightarrow> nat list \<Rightarrow> bool \<times> handle \<times> nat list" where
  "connect_to resolved h fds = (case resolved of None \<Rightarrow> (False, h, fds) | Some as \<Rightarrow> connect_loop as h fds)"

definition bind_listen :: "nat option \<Rightarrow> bool \<Rightarrow> bool \<Rightarrow> handle \<Rightarrow> nat list \<Rightarrow> bool \<times> handle \<times> nat list" where
  "bind_listen sock bound listening h fds =
     (case sock of
        None \<Rightarrow> (False, h, fds)
      | Some s \<Rightarrow> if \<not> bound \<or> \<not> listening then (False, h, remove1 s (s # fds)) else (True, Some s, s # fds))"

definition accept_one :: "nat option \<Rightarrow> handle \<Rightarrow> nat list \<Rightarrow> bool \<times> handle \<times> nat list" where
  "accept_one accepted out fds =
     (case accepted of
        None \<Rightarrow> (False, out, fds)
      | Some c \<Rightarrow> (True, Some c, snd (sock_close out (c # fds))))"

definition set_no_delay :: "bool \<Rightarrow> handle \<Rightarrow> bool" where
  "set_no_delay ok h \<longleftrightarrow> sock_valid h \<and> ok"

text \<open>\<open>name\<close> is what \<^verbatim>\<open>getsockname\<close> reports, if it succeeds.\<close>

definition local_port :: "16 word option \<Rightarrow> handle \<Rightarrow> 16 word" where
  "local_port name h = (if \<not> sock_valid h then 0 else case name of None \<Rightarrow> 0 | Some p \<Rightarrow> p)"

text \<open>
  \<^verbatim>\<open>shutdown_send\<close> and \<^verbatim>\<open>shutdown_both\<close> on the two directions of a connection, with the answer of \<^verbatim>\<open>shutdown\<close>. The
  descriptor stays open.
\<close>

record duplex =
  can_send :: bool
  can_recv :: bool

definition shutdown_send :: "bool \<Rightarrow> duplex \<Rightarrow> bool \<times> duplex" where
  "shutdown_send ok c = (ok, if ok then c\<lparr>can_send := False\<rparr> else c)"

definition shutdown_both :: "bool \<Rightarrow> duplex \<Rightarrow> bool \<times> duplex" where
  "shutdown_both ok c = (ok, if ok then c\<lparr>can_send := False, can_recv := False\<rparr> else c)"

text \<open>
  \<^verbatim>\<open>net_init\<close> on the flag \<^verbatim>\<open>g_net_inited\<close>: whether it returns (or throws) and the flag after it. \<open>windows\<close> is the
  platform and \<open>started\<close> whether \<^verbatim>\<open>WSAStartup\<close> succeeds.
\<close>

definition net_init :: "bool \<Rightarrow> bool \<Rightarrow> bool \<Rightarrow> bool \<times> bool" where
  "net_init windows started inited = (if windows then (inited \<or> started, True) else (True, True))"

section \<open>Every descriptor has one owner\<close>

text \<open>\<open>owned hs fds\<close>: the open descriptors are those of the objects, each of one object.\<close>

definition owned :: "handle list \<Rightarrow> nat list \<Rightarrow> bool" where
  "owned hs fds \<longleftrightarrow> distinct fds \<and> mset fds = mset (List.map_filter id hs)"

lemma owned_Cons [simp]:
  "owned (None # hs) fds \<longleftrightarrow> owned hs fds"
  by (simp add: owned_def map_filter_def)

lemma owned_open:
  "owned (None # hs) fds \<Longrightarrow> s \<notin> set fds \<Longrightarrow> owned (Some s # hs) (s # fds)"
  by (simp add: owned_def map_filter_def)

lemma owned_close:
  assumes "owned (Some fd # hs) fds"
  shows "owned (None # hs) (remove1 fd fds)" "fd \<in> set fds"
proof -
  have m: "mset fds = add_mset fd (mset (List.map_filter id hs))" using assms by (simp add: owned_def map_filter_def)
  then show "fd \<in> set fds" by (metis union_single_eq_member set_mset_mset)
  show "owned (None # hs) (remove1 fd fds)" using assms m by (simp add: owned_def map_filter_def)
qed

lemma close_owned: "owned (h # hs) fds \<Longrightarrow> sock_close h fds = (h', fds') \<Longrightarrow> owned (h' # hs) fds' \<and> h' = None"
  by (cases h) (auto simp: sock_close_def owned_close simp del: owned_Cons)

lemma assign_owned:
  assumes "owned (h # other # hs) fds" "sock_assign h other fds = ((h', other'), fds')"
  shows "owned (h' # other' # hs) fds' \<and> other' = None"
proof -
  obtain fds1 where c: "sock_close h fds = (None, fds1)" using close_owned [OF assms(1)] by (cases "sock_close h fds") auto
  then have "owned (None # other # hs) fds1" using close_owned [OF assms(1)] by blast
  then show ?thesis using assms(2) c
    by (cases other) (auto simp: sock_assign_def sock_move_from_def owned_def map_filter_def)
qed

lemma connect_loop_owned:
  assumes "connect_loop as None fds = (r, h, fds')" "owned hs fds" "\<forall>s b. (Some s, b) \<in> set as \<longrightarrow> s \<notin> set fds"
  shows "owned (h # hs) fds' \<and> (r \<longleftrightarrow> sock_valid h)"
  using assms
proof (induction as "None :: handle" fds rule: connect_loop.induct)
  case (3 s good as fds)
  then show ?case using owned_open [of hs fds s] by (cases good) (auto simp: sock_valid_def)
qed (auto simp: sock_valid_def)

text \<open>
  A socket that is not connected keeps one owner per descriptor through every operation, whatever the
  operating system answers, as long as it hands out descriptors that are not in use.
\<close>

lemma operations_owned:
  "owned hs fds \<Longrightarrow> \<forall>s b. (Some s, b) \<in> set as \<longrightarrow> s \<notin> set fds \<Longrightarrow> connect_to (Some as) None fds = (r, h, fds') \<Longrightarrow>
     owned (h # hs) fds' \<and> (r \<longleftrightarrow> sock_valid h)"
  "owned hs fds \<Longrightarrow> \<forall>s. sock = Some s \<longrightarrow> s \<notin> set fds \<Longrightarrow> bind_listen sock b l None fds = (r, h, fds') \<Longrightarrow>
     owned (h # hs) fds' \<and> (r \<longleftrightarrow> sock_valid h)"
  "owned (out # hs) fds \<Longrightarrow> \<forall>c. acc = Some c \<longrightarrow> c \<notin> set fds \<Longrightarrow> accept_one acc out fds = (r, h, fds') \<Longrightarrow> owned (h # hs) fds'"
proof -
  show "owned hs fds \<Longrightarrow> \<forall>s b. (Some s, b) \<in> set as \<longrightarrow> s \<notin> set fds \<Longrightarrow> connect_to (Some as) None fds = (r, h, fds') \<Longrightarrow>
     owned (h # hs) fds' \<and> (r \<longleftrightarrow> sock_valid h)"
    by (rule connect_loop_owned [of as fds]) (simp_all add: connect_to_def)
  show "owned hs fds \<Longrightarrow> \<forall>s. sock = Some s \<longrightarrow> s \<notin> set fds \<Longrightarrow> bind_listen sock b l None fds = (r, h, fds') \<Longrightarrow>
     owned (h # hs) fds' \<and> (r \<longleftrightarrow> sock_valid h)"
    by (auto simp: bind_listen_def sock_valid_def owned_open split: option.splits if_splits)
  show "owned (out # hs) fds \<Longrightarrow> \<forall>c. acc = Some c \<longrightarrow> c \<notin> set fds \<Longrightarrow> accept_one acc out fds = (r, h, fds') \<Longrightarrow> owned (h # hs) fds'"
    by (cases out) (auto simp: accept_one_def sock_close_def owned_def map_filter_def split: option.splits)
qed

text \<open>\<^verbatim>\<open>connect_to\<close> on a connected socket overwrites the handle: the descriptor it had stays open without an owner.\<close>

lemma reconnect_leaks:
  assumes "owned (Some fd # hs) fds" "s \<notin> set fds" "connect_to (Some [(Some s, True)]) (Some fd) fds = (r, h, fds')"
  shows "fd \<in> set fds'" "h = Some s" "\<not> owned (h # hs) fds'"
proof -
  have r: "h = Some s" "fds' = s # fds" using assms(3) by (simp_all add: connect_to_def)
  then show "h = Some s" "fd \<in> set fds'" using owned_close(2) [OF assms(1)] by simp_all
  show "\<not> owned (h # hs) fds'" using assms(1) by (auto simp: r owned_def map_filter_def)
qed

section \<open>Initialisation\<close>

text \<open>
  The flag is set before Winsock is started: when starting it fails the first call throws, and every later call
  returns as if it had been started.
\<close>

lemma net_init_once: "net_init True False False = (False, True)" "fst (net_init w s (snd (net_init w' s' b)))"
  by (simp_all add: net_init_def)

end
