(* ===== verification/Server_Lifecycle.thy ===== *)
theory Server_Lifecycle
  imports Core_Types "HOL-Library.AList"
begin

text \<open>
  The threads of \<^verbatim>\<open>CoordinatorServer\<close> in \<^verbatim>\<open>src/transport.cpp\<close>: \<^verbatim>\<open>start\<close>, \<^verbatim>\<open>stop\<close>, \<^verbatim>\<open>join\<close>, \<^verbatim>\<open>accept_loop\<close>, and
  what the loops of the scheduler and of the connections do with \<^verbatim>\<open>running_\<close>. The messages themselves are
  the business of the theories on the transport; here a message only matters because a connection thread
  that got one looks at \<^verbatim>\<open>running_\<close> again.

  \<^verbatim>\<open>stop\<close> and \<^verbatim>\<open>join\<close> are the program counter of the calling thread; the other threads move by the steps of
  \<open>own_step\<close> when no peer does anything, and of \<open>peer_step\<close> when one does. The parameter \<open>wakes\<close> says
  whether closing the listening socket makes an \<^verbatim>\<open>accept\<close> that waits on it return, on which systems differ.
  Sends are taken not to wait.
\<close>

section \<open>State\<close>

datatype thread = NoThread | ThreadLive | ThreadDone

record conn_thread =
  cn_thread :: thread
  cn_shut :: bool

datatype pc = SetFlag | CloseListener | JoinAccept | JoinScheduler | ShutWorkers | JoinConns nat | Returned

record lifecycle =
  lc_running :: bool
  lc_listening :: bool
  lc_accept :: thread
  lc_scheduler :: thread
  lc_conns :: "conn_thread list"
  lc_workers :: "(WorkerId, nat) umap"
  lc_port :: "16 word"
  lc_pc :: pc

section \<open>Operations\<close>

text \<open>Assigning to a thread that was not joined ends the process: \<open>None\<close>.\<close>

definition server_start :: "lifecycle \<Rightarrow> lifecycle option" where
  "server_start lc =
     (if lc_accept lc \<noteq> NoThread \<or> lc_scheduler lc \<noteq> NoThread then None
      else Some (lc\<lparr>lc_running := True, lc_accept := ThreadLive, lc_scheduler := ThreadLive\<rparr>))"

text \<open>The arguments are the results of \<^verbatim>\<open>bind_listen\<close> and, after it, of \<^verbatim>\<open>local_port\<close>.\<close>

definition server_listen :: "bool \<Rightarrow> 16 word \<Rightarrow> lifecycle \<Rightarrow> bool \<times> lifecycle" where
  "server_listen ok port lc = (ok, if ok then lc\<lparr>lc_listening := True, lc_port := port\<rparr> else lc)"

definition live_at :: "lifecycle \<Rightarrow> nat \<Rightarrow> bool" where
  "live_at lc c \<longleftrightarrow> c < length (lc_conns lc) \<and> cn_thread (lc_conns lc ! c) = ThreadLive"

definition shut_workers :: "(WorkerId, nat) umap \<Rightarrow> conn_thread list \<Rightarrow> conn_thread list" where
  "shut_workers ws cs = map (\<lambda>(k, c). if k \<in> set (map snd ws) then c\<lparr>cn_shut := True\<rparr> else c) (List.enumerate 0 cs)"

text \<open>\<^verbatim>\<open>t.join()\<close>, for the \<open>k\<close>-th connection thread, and the clearing of the list after the last one.\<close>

definition join_conn :: "nat \<Rightarrow> lifecycle \<Rightarrow> lifecycle option" where
  "join_conn k lc =
     (if k < length (lc_conns lc) then
        if live_at lc k then None
        else Some (lc\<lparr>lc_conns := (lc_conns lc)[k := (lc_conns lc ! k)\<lparr>cn_thread := NoThread\<rparr>], lc_pc := JoinConns (k + 1)\<rparr>)
      else Some (lc\<lparr>lc_conns := [], lc_pc := Returned\<rparr>))"

text \<open>One action of \<^verbatim>\<open>stop\<close>; \<open>None\<close> when it waits or has returned.\<close>

definition stop_step :: "lifecycle \<Rightarrow> lifecycle option" where
  "stop_step lc =
     (case lc_pc lc of
        SetFlag \<Rightarrow> Some (if lc_running lc then lc\<lparr>lc_running := False, lc_pc := CloseListener\<rparr> else lc\<lparr>lc_pc := Returned\<rparr>)
      | CloseListener \<Rightarrow> Some (lc\<lparr>lc_listening := False, lc_pc := JoinAccept\<rparr>)
      | JoinAccept \<Rightarrow> if lc_accept lc = ThreadLive then None else Some (lc\<lparr>lc_accept := NoThread, lc_pc := JoinScheduler\<rparr>)
      | JoinScheduler \<Rightarrow> if lc_scheduler lc = ThreadLive then None else Some (lc\<lparr>lc_scheduler := NoThread, lc_pc := ShutWorkers\<rparr>)
      | ShutWorkers \<Rightarrow> Some (lc\<lparr>lc_conns := shut_workers (lc_workers lc) (lc_conns lc), lc_pc := JoinConns 0\<rparr>)
      | JoinConns k \<Rightarrow> join_conn k lc
      | Returned \<Rightarrow> None)"

text \<open>One action of \<^verbatim>\<open>join\<close>, which begins at \<open>JoinAccept\<close>.\<close>

definition join_step :: "lifecycle \<Rightarrow> lifecycle option" where
  "join_step lc =
     (case lc_pc lc of
        JoinAccept \<Rightarrow> if lc_accept lc = ThreadLive then None else Some (lc\<lparr>lc_accept := NoThread, lc_pc := JoinScheduler\<rparr>)
      | JoinScheduler \<Rightarrow> if lc_scheduler lc = ThreadLive then None else Some (lc\<lparr>lc_scheduler := NoThread, lc_pc := JoinConns 0\<rparr>)
      | JoinConns k \<Rightarrow> join_conn k lc
      | _ \<Rightarrow> None)"

text \<open>\<^verbatim>\<open>accept_loop\<close>: a connection was accepted; its thread is started and the loop looks at \<^verbatim>\<open>running_\<close>.\<close>

definition accept_conn :: "lifecycle \<Rightarrow> lifecycle" where
  "accept_conn lc = lc\<lparr>lc_conns := lc_conns lc @ [\<lparr>cn_thread = ThreadLive, cn_shut = False\<rparr>],
                       lc_accept := if lc_running lc then ThreadLive else ThreadDone\<rparr>"

text \<open>The end of \<^verbatim>\<open>handle_connection\<close>: the entries of this connection are erased and the thread ends.\<close>

definition conn_exit :: "nat \<Rightarrow> lifecycle \<Rightarrow> lifecycle" where
  "conn_exit c lc = lc\<lparr>lc_workers := filter (\<lambda>(w, c'). c' \<noteq> c) (lc_workers lc),
                       lc_conns := (lc_conns lc)[c := (lc_conns lc ! c)\<lparr>cn_thread := ThreadDone\<rparr>]\<rparr>"

text \<open>A message, which may register a worker on this connection.\<close>

definition conn_frame :: "nat \<Rightarrow> WorkerId option \<Rightarrow> lifecycle \<Rightarrow> lifecycle" where
  "conn_frame c reg lc =
     (let lc = (case reg of None \<Rightarrow> lc
                | Some w \<Rightarrow> lc\<lparr>lc_workers := AList.update w c (AList.delete w (lc_workers lc))\<rparr>)
      in if lc_running lc then lc else conn_exit c lc)"

text \<open>
  The steps of the threads of the server while the peers are silent; \<open>caller\<close> is \<^verbatim>\<open>stop\<close> or \<^verbatim>\<open>join\<close>. A thread that has
  not ended is blocked in \<^verbatim>\<open>recv\<close> or \<^verbatim>\<open>accept\<close>. (One that is at the head of its loop when \<^verbatim>\<open>running_\<close> is cleared leaves
  by itself; \<^verbatim>\<open>stop\<close> then waits for less than it does here.)
\<close>

inductive own_step :: "(lifecycle \<Rightarrow> lifecycle option) \<Rightarrow> bool \<Rightarrow> lifecycle \<Rightarrow> lifecycle \<Rightarrow> bool" for caller wakes where
  call: "caller lc = Some lc' \<Longrightarrow> own_step caller wakes lc lc'"
| accept_quit: "lc_accept lc = ThreadLive \<Longrightarrow> \<not> lc_running lc \<Longrightarrow> \<not> lc_listening lc \<Longrightarrow> wakes \<Longrightarrow>
    own_step caller wakes lc (lc\<lparr>lc_accept := ThreadDone\<rparr>)"
| scheduler_quit: "lc_scheduler lc = ThreadLive \<Longrightarrow> \<not> lc_running lc \<Longrightarrow> own_step caller wakes lc (lc\<lparr>lc_scheduler := ThreadDone\<rparr>)"
| conn_quit: "live_at lc c \<Longrightarrow> cn_shut (lc_conns lc ! c) \<Longrightarrow> own_step caller wakes lc (conn_exit c lc)"

inductive peer_step :: "lifecycle \<Rightarrow> lifecycle \<Rightarrow> bool" where
  connects: "lc_accept lc = ThreadLive \<Longrightarrow> peer_step lc (accept_conn lc)"
| sends: "live_at lc c \<Longrightarrow> peer_step lc (conn_frame c reg lc)"
| hangs_up: "live_at lc c \<Longrightarrow> peer_step lc (conn_exit c lc)"

inductive_cases own_stepE: "own_step caller wakes lc lc'"
inductive_cases peer_stepE: "peer_step lc lc'"

lemmas lifecycle_defs = stop_step_def join_step_def join_conn_def accept_conn_def conn_exit_def conn_frame_def

section \<open>Lists of connections\<close>

lemma shut_workers_nth:
  "c < length cs \<Longrightarrow> shut_workers ws cs ! c = (if c \<in> snd ` set ws then (cs ! c)\<lparr>cn_shut := True\<rparr> else cs ! c)"
  by (simp add: shut_workers_def nth_enumerate_eq)

lemma shut_workers_length [simp]: "length (shut_workers ws cs) = length cs"
  by (simp add: shut_workers_def)

lemma shut_workers_threads: "map cn_thread (shut_workers ws cs) = map cn_thread cs"
  by (rule nth_equalityI) (simp_all add: shut_workers_nth)

definition live_count :: "conn_thread list \<Rightarrow> nat" where
  "live_count cs = count_list (map cn_thread cs) ThreadLive"

lemma live_count_simps [simp]:
  "live_count [] = 0" "live_count (c # cs) = (if cn_thread c = ThreadLive then 1 else 0) + live_count cs"
  "live_count (shut_workers ws cs) = live_count cs"
  by (simp_all add: live_count_def shut_workers_threads)

lemma live_count_le: "live_count cs \<le> length cs"
  by (induction cs) simp_all

lemma live_count_update:
  "c < length cs \<Longrightarrow> live_count (cs[c := x]) + (if cn_thread (cs ! c) = ThreadLive then 1 else 0) =
     live_count cs + (if cn_thread x = ThreadLive then 1 else 0)"
proof (induction cs arbitrary: c)
  case (Cons a cs)
  show ?case
  proof (cases c)
    case (Suc k)
    then show ?thesis using Cons.IH [of k] Cons.prems by (simp split: if_splits)
  qed simp
qed simp

lemma workers_update:
  "(w', c') \<in> set (AList.update w c (AList.delete w m)) \<Longrightarrow> (w', c') = (w, c) \<or> (w', c') \<in> set m"
  for m :: "(WorkerId, nat) umap"
proof (induction m)
  case (Cons a m)
  then show ?case by (cases a) (auto simp: AList.delete_eq split: if_splits)
qed simp

section \<open>What the callers leave behind\<close>

text \<open>
  A worker is mapped to a connection whose thread lives, and the caller has joined what lies behind its
  program counter. \<^verbatim>\<open>stop\<close> is called on a running server.
\<close>

definition lc_inv :: "lifecycle \<Rightarrow> bool" where
  "lc_inv lc \<longleftrightarrow>
     (\<forall>(w, c)\<in>set (lc_workers lc). live_at lc c) \<and>
     (case lc_pc lc of
        SetFlag \<Rightarrow> lc_running lc
      | JoinScheduler \<Rightarrow> lc_accept lc = NoThread
      | ShutWorkers \<Rightarrow> lc_accept lc = NoThread \<and> lc_scheduler lc = NoThread
      | JoinConns k \<Rightarrow> lc_accept lc = NoThread \<and> lc_scheduler lc = NoThread \<and> k \<le> length (lc_conns lc) \<and>
          (\<forall>j<k. cn_thread (lc_conns lc ! j) = NoThread)
      | Returned \<Rightarrow> lc_accept lc = NoThread \<and> lc_scheduler lc = NoThread \<and> lc_conns lc = []
      | _ \<Rightarrow> True)"

locale joiner =
  fixes caller :: "lifecycle \<Rightarrow> lifecycle option"
  assumes caller_keeps: "lc_inv lc \<Longrightarrow> caller lc = Some lc' \<Longrightarrow> lc_inv lc'"
begin

lemma own_step_keeps:
  assumes "own_step caller wakes lc lc'" "lc_inv lc"
  shows "lc_inv lc'"
  using assms
proof (cases rule: own_step.cases)
  case call
  then show ?thesis using caller_keeps assms(2) by blast
next
  case (conn_quit c)
  then show ?thesis using assms(2)
    by (auto simp: lc_inv_def conn_exit_def live_at_def nth_list_update split: pc.splits)
qed (auto simp: lc_inv_def live_at_def split: pc.splits)

lemma peer_step_keeps:
  assumes "peer_step lc lc'" "lc_inv lc"
  shows "lc_inv lc'"
  using assms
proof (cases rule: peer_step.cases)
  case connects
  then show ?thesis using assms(2)
    by (auto simp: lc_inv_def accept_conn_def live_at_def nth_append split: pc.splits)
next
  case (sends c reg)
  then show ?thesis using assms(2)
    by (auto simp: lc_inv_def conn_frame_def conn_exit_def live_at_def nth_list_update Let_def
        dest!: workers_update split: pc.splits option.splits)
next
  case (hangs_up c)
  then show ?thesis using assms(2)
    by (auto simp: lc_inv_def conn_exit_def live_at_def nth_list_update split: pc.splits)
qed

text \<open>Whatever the peers do: when the caller returns no thread is left and no worker is mapped.\<close>

lemma nothing_left:
  assumes "lc_inv lc" "(\<lambda>a b. own_step caller wakes a b \<or> peer_step a b)\<^sup>*\<^sup>* lc lc'" "lc_pc lc' = Returned"
  shows "lc_accept lc' = NoThread \<and> lc_scheduler lc' = NoThread \<and> lc_conns lc' = [] \<and> lc_workers lc' = []"
proof -
  have "lc_inv lc'" using assms(2,1)
    by (induction rule: rtranclp_induct) (auto dest: own_step_keeps peer_step_keeps)
  then show ?thesis using assms(3) by (cases "lc_workers lc'") (auto simp: lc_inv_def live_at_def)
qed

end


interpretation stop_caller: joiner stop_step
  by unfold_locales
    (auto simp: lc_inv_def stop_step_def join_conn_def live_at_def shut_workers_nth nth_list_update less_Suc_eq
      split: pc.splits if_splits)

interpretation join_caller: joiner join_step
  by unfold_locales
    (auto simp: lc_inv_def join_step_def join_conn_def live_at_def nth_list_update less_Suc_eq split: pc.splits if_splits)

section \<open>When stop returns\<close>

text \<open>The actions a state has left: of the caller and of the threads that still live.\<close>

definition weight :: "lifecycle \<Rightarrow> nat" where
  "weight lc =
     (case lc_pc lc of
        SetFlag \<Rightarrow> length (lc_conns lc) + 6 | CloseListener \<Rightarrow> length (lc_conns lc) + 5
      | JoinAccept \<Rightarrow> length (lc_conns lc) + 4 | JoinScheduler \<Rightarrow> length (lc_conns lc) + 3
      | ShutWorkers \<Rightarrow> length (lc_conns lc) + 2 | JoinConns k \<Rightarrow> length (lc_conns lc) - k + 1 | Returned \<Rightarrow> 0) +
     (if lc_accept lc = ThreadLive then 1 else 0) + (if lc_scheduler lc = ThreadLive then 1 else 0) + live_count (lc_conns lc)"

lemma stop_step_weight: "stop_step lc = Some lc' \<Longrightarrow> weight lc' < weight lc"
proof (cases "lc_pc lc")
  case (JoinConns k)
  assume s: "stop_step lc = Some lc'"
  show ?thesis
  proof (cases "k < length (lc_conns lc)")
    case True
    then have "lc' = lc\<lparr>lc_conns := (lc_conns lc)[k := (lc_conns lc ! k)\<lparr>cn_thread := NoThread\<rparr>], lc_pc := JoinConns (k + 1)\<rparr>"
      and n: "cn_thread (lc_conns lc ! k) \<noteq> ThreadLive"
      using s JoinConns by (auto simp: stop_step_def join_conn_def live_at_def split: if_splits)
    then show ?thesis using live_count_update [OF True, of "(lc_conns lc ! k)\<lparr>cn_thread := NoThread\<rparr>"] True JoinConns
      by (simp add: weight_def split: if_splits)
  next
    case False
    then show ?thesis using s JoinConns by (auto simp: stop_step_def join_conn_def weight_def)
  qed
qed (auto simp: stop_step_def weight_def split: if_splits)

lemma own_step_weight:
  assumes "own_step stop_step wakes lc lc'"
  shows "weight lc' < weight lc"
  using assms
proof (cases rule: own_step.cases)
  case call
  then show ?thesis by (rule stop_step_weight)
next
  case (conn_quit c)
  then show ?thesis using live_count_update [of c "lc_conns lc" "(lc_conns lc ! c)\<lparr>cn_thread := ThreadDone\<rparr>"]
    by (auto simp: weight_def conn_exit_def live_at_def split: pc.splits)
qed (auto simp: weight_def split: pc.splits)

lemma own_steps_weight: "(own_step stop_step wakes ^^ n) lc lc' \<Longrightarrow> n + weight lc' \<le> weight lc"
proof (induction n arbitrary: lc')
  case (Suc n)
  then obtain l where "(own_step stop_step wakes ^^ n) lc l" "own_step stop_step wakes l lc'" by auto
  then show ?case using Suc.IH [of l] own_step_weight [of wakes l lc'] by simp
qed simp

text \<open>A run goes on until no thread can move.\<close>

definition quiet :: "bool \<Rightarrow> lifecycle \<Rightarrow> bool" where
  "quiet wakes lc \<longleftrightarrow> (\<nexists>lc'. own_step stop_step wakes lc lc')"

lemma run_ends: "\<exists>n lc'. (own_step stop_step wakes ^^ n) lc lc' \<and> quiet wakes lc'"
proof (induction "weight lc" arbitrary: lc rule: less_induct)
  case less
  show ?case
  proof (cases "quiet wakes lc")
    case True
    then have "(own_step stop_step wakes ^^ 0) lc lc \<and> quiet wakes lc" by simp
    then show ?thesis by blast
  next
    case False
    then obtain l where l: "own_step stop_step wakes lc l" by (auto simp: quiet_def)
    then obtain n lc' where "(own_step stop_step wakes ^^ n) l lc'" "quiet wakes lc'"
      using less own_step_weight by blast
    then have "(own_step stop_step wakes ^^ Suc n) lc lc'" using l by (metis relpowp_Suc_I2)
    then show ?thesis using \<open>quiet wakes lc'\<close> by blast
  qed
qed

text \<open>A running server at the call of \<^verbatim>\<open>stop\<close>, with any number of connections.\<close>

definition stopping :: "lifecycle \<Rightarrow> bool" where
  "stopping lc \<longleftrightarrow> lc_pc lc = SetFlag \<and> lc_running lc \<and> lc_accept lc = ThreadLive \<and> lc_scheduler lc = ThreadLive \<and>
     (\<forall>(w, c)\<in>set (lc_workers lc). live_at lc c) \<and> (\<forall>c\<in>set (lc_conns lc). \<not> cn_shut c)"

definition is_worker :: "lifecycle \<Rightarrow> nat \<Rightarrow> bool" where
  "is_worker lc c \<longleftrightarrow> c \<in> set (map snd (lc_workers lc))"

text \<open>What the server has done of a call of \<^verbatim>\<open>stop\<close> in \<open>lc0\<close> while the peers were silent.\<close>

definition progress :: "bool \<Rightarrow> lifecycle \<Rightarrow> lifecycle \<Rightarrow> bool" where
  "progress wakes lc0 lc \<longleftrightarrow>
     (lc_running lc \<longleftrightarrow> lc_pc lc = SetFlag) \<and>
     (lc_pc lc \<noteq> SetFlag \<and> lc_pc lc \<noteq> CloseListener \<longrightarrow> \<not> lc_listening lc) \<and>
     (lc_accept lc \<noteq> ThreadLive \<longrightarrow> wakes) \<and>
     (lc_pc lc = JoinScheduler \<or> lc_pc lc = ShutWorkers \<longrightarrow> lc_accept lc \<noteq> ThreadLive) \<and>
     (case lc_pc lc of
        JoinConns k \<Rightarrow> wakes \<and> length (lc_conns lc) = length (lc_conns lc0) \<and> k \<le> length (lc_conns lc) \<and>
          (\<forall>c<length (lc_conns lc). (is_worker lc0 c \<longrightarrow> cn_shut (lc_conns lc ! c)) \<and>
             (cn_shut (lc_conns lc ! c) \<longrightarrow> is_worker lc0 c) \<and>
             (live_at lc c \<longrightarrow> live_at lc0 c) \<and> (live_at lc0 c \<and> \<not> live_at lc c \<longrightarrow> is_worker lc0 c)) \<and>
          (\<forall>c<k. live_at lc0 c \<longrightarrow> is_worker lc0 c)
      | Returned \<Rightarrow> wakes \<and> (\<forall>c. live_at lc0 c \<longrightarrow> is_worker lc0 c)
      | _ \<Rightarrow> lc_conns lc = lc_conns lc0 \<and> lc_workers lc = lc_workers lc0)"

lemma progress_start: "stopping lc \<Longrightarrow> progress wakes lc lc"
  by (simp add: stopping_def progress_def)

lemma progress_call:
  assumes "stopping lc0" "progress wakes lc0 lc" "stop_step lc = Some lc'"
  shows "progress wakes lc0 lc'"
proof (cases "lc_pc lc")
  case ShutWorkers
  have ns: "c < length (lc_conns lc0) \<Longrightarrow> \<not> cn_shut (lc_conns lc0 ! c)" for c
    using assms(1) by (simp add: stopping_def)
  have "lc' = lc\<lparr>lc_conns := shut_workers (lc_workers lc0) (lc_conns lc0), lc_pc := JoinConns 0\<rparr>"
    using assms(2,3) ShutWorkers by (simp add: stop_step_def progress_def)
  then show ?thesis using assms(2) ShutWorkers
    by (auto simp: progress_def is_worker_def shut_workers_nth live_at_def ns)
next
  case (JoinConns k)
  note p = assms(2) [unfolded progress_def JoinConns pc.case]
  show ?thesis
  proof (cases "k < length (lc_conns lc)")
    case True
    then have l: "lc' = lc\<lparr>lc_conns := (lc_conns lc)[k := (lc_conns lc ! k)\<lparr>cn_thread := NoThread\<rparr>], lc_pc := JoinConns (k + 1)\<rparr>"
      and n: "\<not> live_at lc k"
      using assms(3) JoinConns by (auto simp: stop_step_def join_conn_def split: if_splits)
    have "live_at lc' c \<longleftrightarrow> live_at lc c" for c using n True by (auto simp: l live_at_def nth_list_update)
    moreover have "cn_shut (lc_conns lc' ! c) \<longleftrightarrow> cn_shut (lc_conns lc ! c)" for c
      using True by (cases "c = k") (simp_all add: l)
    ultimately show ?thesis using p n True by (simp add: progress_def l less_Suc_eq)
  next
    case False
    then have "lc' = lc\<lparr>lc_conns := [], lc_pc := Returned\<rparr>" "k = length (lc_conns lc0)"
      using assms(3) JoinConns p by (simp_all add: stop_step_def join_conn_def)
    then show ?thesis using p by (simp add: progress_def live_at_def)
  qed
qed (use assms in \<open>auto simp: stop_step_def progress_def split: if_splits\<close>)

lemma progress_step:
  assumes "stopping lc0" "progress wakes lc0 lc" "own_step stop_step wakes lc lc'"
  shows "progress wakes lc0 lc'"
  using assms(3)
proof (cases rule: own_step.cases)
  case call
  then show ?thesis by (rule progress_call [OF assms(1,2)])
next
  case (conn_quit c)
  have "c < length (lc_conns lc) \<Longrightarrow> lc_conns lc = lc_conns lc0 \<Longrightarrow> \<not> cn_shut (lc_conns lc ! c)"
    using assms(1) by (simp add: stopping_def)
  then show ?thesis using conn_quit assms(2)
    by (auto simp: progress_def conn_exit_def live_at_def nth_list_update split: pc.splits if_splits)
qed (use assms(2) in \<open>auto simp: progress_def live_at_def split: pc.splits\<close>)

lemma progress_steps:
  assumes "stopping lc0" "(own_step stop_step wakes ^^ n) lc0 lc"
  shows "progress wakes lc0 lc"
  using assms(2)
proof (induction n arbitrary: lc)
  case 0
  then show ?case using progress_start [OF assms(1)] by simp
next
  case (Suc n)
  then obtain l where "(own_step stop_step wakes ^^ n) lc0 l" "own_step stop_step wakes l lc" by auto
  then show ?case using Suc.IH progress_step [OF assms(1)] by blast
qed

lemma quiet_call: "quiet wakes lc \<Longrightarrow> stop_step lc = None"
  by (cases "stop_step lc") (auto simp: quiet_def intro: own_step.call)

text \<open>Where a run can end: in \<^verbatim>\<open>accept\<close>, at a connection whose thread waits in \<^verbatim>\<open>recv\<close>, or after the return.\<close>

lemma quiet_cases:
  assumes "progress wakes lc0 lc" "quiet wakes lc"
  shows "(lc_pc lc = JoinAccept \<and> \<not> wakes) \<or> (\<exists>k. lc_pc lc = JoinConns k \<and> live_at lc0 k \<and> \<not> is_worker lc0 k) \<or> lc_pc lc = Returned"
proof -
  have n: "stop_step lc = None" by (rule quiet_call [OF assms(2)])
  show ?thesis
  proof (cases "lc_pc lc")
    case JoinAccept
    then have "lc_accept lc = ThreadLive" "\<not> lc_running lc" "\<not> lc_listening lc"
      using n assms(1) by (auto simp: stop_step_def progress_def split: if_splits)
    then have "wakes \<Longrightarrow> own_step stop_step wakes lc (lc\<lparr>lc_accept := ThreadDone\<rparr>)" by (rule own_step.accept_quit)
    then have "\<not> wakes" using assms(2) unfolding quiet_def by blast
    then show ?thesis using JoinAccept by simp
  next
    case JoinScheduler
    then have "lc_scheduler lc = ThreadLive" "\<not> lc_running lc"
      using n assms(1) by (auto simp: stop_step_def progress_def split: if_splits)
    then show ?thesis using assms(2) own_step.scheduler_quit unfolding quiet_def by blast
  next
    case (JoinConns k)
    then have l: "live_at lc k" using n by (auto simp: stop_step_def join_conn_def split: if_splits)
    then have "\<not> cn_shut (lc_conns lc ! k)" using assms(2) own_step.conn_quit unfolding quiet_def by blast
    moreover have "k < length (lc_conns lc)" using l by (simp add: live_at_def)
    ultimately have "live_at lc0 k" "\<not> is_worker lc0 k"
      using assms(1) [unfolded progress_def JoinConns pc.case] l by blast+
    then show ?thesis using JoinConns by blast
  qed (use n in \<open>auto simp: stop_step_def split: if_splits\<close>)
qed

section \<open>The property\<close>

text \<open>
  Property C26. A call of \<^verbatim>\<open>CoordinatorServer::stop\<close> on a running server whose peers stay silent comes to an end
  after at most two actions per connection and eight more: no thread of the server can move any more. At
  that point the call has returned exactly when closing the listening socket wakes the waiting \<^verbatim>\<open>accept\<close> and
  every connection whose thread lives belongs to a registered worker. A client that is connected without
  being a worker keeps \<^verbatim>\<open>stop\<close> waiting for ever.\<close>

theorem stop_returns:
  assumes "stopping lc" "(own_step stop_step wakes ^^ n) lc lc'"
  shows "n \<le> 2 * length (lc_conns lc) + 8 \<and>
    (quiet wakes lc' \<longrightarrow> (lc_pc lc' = Returned \<longleftrightarrow> wakes \<and> (\<forall>c<length (lc_conns lc). live_at lc c \<longrightarrow> is_worker lc c)))"
proof (intro conjI impI)
  show "n \<le> 2 * length (lc_conns lc) + 8"
    using own_steps_weight [OF assms(2)] live_count_le [of "lc_conns lc"] assms(1) by (simp add: weight_def stopping_def)
  have p: "progress wakes lc lc'" by (rule progress_steps [OF assms])
  assume q: "quiet wakes lc'"
  show "lc_pc lc' = Returned \<longleftrightarrow> wakes \<and> (\<forall>c<length (lc_conns lc). live_at lc c \<longrightarrow> is_worker lc c)"
  proof (cases "lc_pc lc' = Returned")
    case True
    then have "wakes \<and> (\<forall>c. live_at lc c \<longrightarrow> is_worker lc c)" using p by (simp add: progress_def)
    then show ?thesis using True by simp
  next
    case False
    then consider "\<not> wakes" | k where "live_at lc k" "\<not> is_worker lc k" using quiet_cases [OF p q] by blast
    then show ?thesis using False by cases (auto simp: live_at_def)
  qed
qed

definition demo_lifecycle :: "(WorkerId, nat) umap \<Rightarrow> lifecycle" where
  "demo_lifecycle ws = \<lparr>lc_running = True, lc_listening = True, lc_accept = ThreadLive, lc_scheduler = ThreadLive,
     lc_conns = [\<lparr>cn_thread = ThreadLive, cn_shut = False\<rparr>, \<lparr>cn_thread = ThreadLive, cn_shut = False\<rparr>],
     lc_workers = ws, lc_port = 0, lc_pc = SetFlag\<rparr>"

theorem stop_returns_witness:
  "(\<exists>n lc'. (own_step stop_step True ^^ n) (demo_lifecycle [(Id128 0 7, 0), (Id128 0 9, 1)]) lc' \<and> n \<le> 12 \<and> lc_pc lc' = Returned) \<and>
   (\<exists>n lc'. (own_step stop_step True ^^ n) (demo_lifecycle [(Id128 0 7, 0)]) lc' \<and> quiet True lc' \<and> lc_pc lc' \<noteq> Returned)"
proof
  let ?a = "demo_lifecycle [(Id128 0 7, 0), (Id128 0 9, 1)]" and ?b = "demo_lifecycle [(Id128 0 7, 0)]"
  have s: "stopping ?a" "stopping ?b" by (simp_all add: stopping_def demo_lifecycle_def live_at_def)
  obtain n lc' where r: "(own_step stop_step True ^^ n) ?a lc'" "quiet True lc'" using run_ends by blast
  have "\<forall>c<length (lc_conns ?a). live_at ?a c \<longrightarrow> is_worker ?a c"
    by (auto simp: demo_lifecycle_def is_worker_def less_Suc_eq)
  then have "n \<le> 12" "lc_pc lc' = Returned"
    using stop_returns [OF s(1) r(1)] r(2) by (simp_all add: demo_lifecycle_def)
  then show "\<exists>n lc'. (own_step stop_step True ^^ n) ?a lc' \<and> n \<le> 12 \<and> lc_pc lc' = Returned" using r(1) by blast
  obtain n lc' where r: "(own_step stop_step True ^^ n) ?b lc'" "quiet True lc'" using run_ends by blast
  have "\<not> (\<forall>c<length (lc_conns ?b). live_at ?b c \<longrightarrow> is_worker ?b c)"
    by (auto simp: demo_lifecycle_def is_worker_def live_at_def intro!: exI [of _ 1])
  then have "lc_pc lc' \<noteq> Returned" using stop_returns [OF s(2) r(1)] r(2) by blast
  then show "\<exists>n lc'. (own_step stop_step True ^^ n) ?b lc' \<and> quiet True lc' \<and> lc_pc lc' \<noteq> Returned" using r by blast
qed

end
