(* ===== verification/Worker_Process.thy ===== *)
theory Worker_Process
  imports Worker_Transfer Transport_Streams "HOL-Library.Sublist"
begin

text \<open>
  The worker process of \<^verbatim>\<open>workers/bgworker.cpp\<close> with its two threads. The receiving thread puts the frames of the
  socket into the inbox; the main thread empties the inbox at the beginning of every turn. Both hold the
  mutex for what they share, which is only the inbox, so a turn is one step. A run of the threads, in
  whatever order they move, is a run of the loop of theory \<open>Worker\<close> over the frames of the stream in their order.
\<close>

declare map_of_eq_Some_iff [simp del]

section \<open>The start of the process\<close>

datatype 'r started = OnSynthetic synthetic | OnCuda "'r cuda_state"

definition worker_backend :: "'r cuda_runtime \<Rightarrow> 'r \<Rightarrow> worker_config \<Rightarrow> ResourceSpec \<Rightarrow> 'r started startup" where
  "worker_backend api r cfg res =
     (if wc_backend cfg = ''cuda''
      then (case start_cuda api res r of Exit c \<Rightarrow> Exit c | Terminate \<Rightarrow> Terminate | Go s \<Rightarrow> Go (OnCuda s))
      else Go (OnSynthetic (make_synthetic_backend [res])))"

text \<open>
  \<^verbatim>\<open>main\<close> up to the loop: \<open>connects\<close> says whether \<^verbatim>\<open>connect_to\<close> reached the coordinator. With the backend come
  the bytes that were sent and what is left of the stream.
\<close>

definition worker_main ::
    "(rat \<Rightarrow> rat) \<Rightarrow> 'r cuda_runtime \<Rightarrow> 'r \<Rightarrow> (string \<Rightarrow> u16 \<Rightarrow> bool) \<Rightarrow> string list \<Rightarrow> int list \<Rightarrow> bytes list \<Rightarrow>
      'r started startup \<times> bytes \<times> bytes list" where
  "worker_main R api r connects argv answers cs =
     (case worker_args argv of
        Exit c \<Rightarrow> (Exit c, [], cs)
      | Terminate \<Rightarrow> (Terminate, [], cs)
      | Go cfg \<Rightarrow>
          if \<not> connects (wc_host cfg) (wc_port cfg) then (Exit 1, [], cs)
          else (case worker_handshake R cfg answers cs of
                  (Exit c, out, cs) \<Rightarrow> (Exit c, out, cs)
                | (Terminate, out, cs) \<Rightarrow> (Terminate, out, cs)
                | (Go res, out, cs) \<Rightarrow> (worker_backend api r cfg res, out, cs)))"

section \<open>The threads\<close>

datatype status = Looping | Left | Crashed

record 's wproc =
  wp_stream :: "bytes list"
  wp_receiving :: bool
  wp_inbox :: "DecodedFrame list"
  wp_worker :: "'s worker"
  wp_sent :: frames
  wp_status :: status

definition process_start :: "'s \<Rightarrow> bytes list \<Rightarrow> 's wproc" where
  "process_start s cs =
     \<lparr>wp_stream = cs, wp_receiving = True, wp_inbox = [], wp_worker = worker_start s, wp_sent = [], wp_status = Looping\<rparr>"

text \<open>The receiving thread: one round of its loop.\<close>

definition receive_round :: "'s wproc \<Rightarrow> 's wproc" where
  "receive_round p =
     (case recv_frame (wp_stream p) of
        (Inr (Some f), cs) \<Rightarrow> p\<lparr>wp_stream := cs, wp_inbox := wp_inbox p @ [f]\<rparr>
      | (_, cs) \<Rightarrow> p\<lparr>wp_stream := cs, wp_receiving := False\<rparr>)"

text \<open>
  The steps. The receiving thread looks at \<^verbatim>\<open>done\<close> before it waits, so it may still receive a frame after
  \<^verbatim>\<open>done\<close> was set. A turn whose behaviour is undefined has no step.
\<close>

inductive proc_step :: "(rat \<Rightarrow> rat) \<Rightarrow> 's Backend \<Rightarrow> 's wproc \<Rightarrow> 's wproc \<Rightarrow> bool" for R be where
  receive: "wp_status p = Looping \<Longrightarrow> wp_receiving p \<Longrightarrow> proc_step R be p (receive_round p)"
| receiver_done: "wp_status p = Looping \<Longrightarrow> bw_done (wp_worker p) \<Longrightarrow> proc_step R be p (p\<lparr>wp_receiving := False\<rparr>)"
| turn: "wp_status p = Looping \<Longrightarrow> \<not> bw_done (wp_worker p) \<Longrightarrow>
    worker_turn R be (wp_inbox p, delta_ms) (wp_worker p) = Some (Inr (out, w)) \<Longrightarrow>
    proc_step R be p (p\<lparr>wp_inbox := [], wp_worker := w, wp_sent := wp_sent p @ out\<rparr>)"
| crash: "wp_status p = Looping \<Longrightarrow> \<not> bw_done (wp_worker p) \<Longrightarrow>
    worker_turn R be (wp_inbox p, delta_ms) (wp_worker p) = Some (Inl e) \<Longrightarrow> proc_step R be p (p\<lparr>wp_status := Crashed\<rparr>)"
| leave: "wp_status p = Looping \<Longrightarrow> bw_done (wp_worker p) \<Longrightarrow>
    proc_step R be p (p\<lparr>wp_worker := worker_exit be (wp_worker p), wp_status := Left\<rparr>)"

inductive_cases proc_stepE: "proc_step R be p p'"

section \<open>A run of the threads is a run of the loop\<close>

lemma worker_run_snoc:
  "worker_run R be turns w = Some (Inr (out, w')) \<Longrightarrow> \<not> bw_done w' \<Longrightarrow> worker_turn R be t w' = Some (Inr (out', w'')) \<Longrightarrow>
     worker_run R be (turns @ [t]) w = Some (Inr (out @ out', w''))"
proof (induction turns arbitrary: w out)
  case (Cons a turns)
  then have "\<not> bw_done w" by auto
  then show ?case using Cons by (auto split: option.splits sum.splits prod.splits)
qed auto

text \<open>The state of the process against a run of the loop.\<close>

definition simulates :: "(rat \<Rightarrow> rat) \<Rightarrow> 's Backend \<Rightarrow> 's \<Rightarrow> bytes list \<Rightarrow> 's wproc \<Rightarrow> bool" where
  "simulates R be s cs p \<longleftrightarrow>
     (\<exists>turns w cs'. worker_run R be turns (worker_start s) = Some (Inr (wp_sent p, w)) \<and>
        wp_worker p = (if wp_status p = Left then worker_exit be w else w) \<and>
        receives cs (concat (map fst turns) @ wp_inbox p) cs' \<and> (wp_receiving p \<longrightarrow> cs' = wp_stream p))"

lemma simulates_start: "simulates R be s cs (process_start s cs)"
  unfolding simulates_def process_start_def
  by (rule exI [of _ "[]"], rule exI [of _ "worker_start s"], rule exI [of _ cs]) (simp add: receives.none)

lemma simulates_step:
  assumes "proc_step R be p p'" "simulates R be s cs p"
  shows "simulates R be s cs p'"
proof -
  obtain turns w cs' where run: "worker_run R be turns (worker_start s) = Some (Inr (wp_sent p, w))"
    "wp_worker p = (if wp_status p = Left then worker_exit be w else w)"
    "receives cs (concat (map fst turns) @ wp_inbox p) cs'" "wp_receiving p \<longrightarrow> cs' = wp_stream p"
    using assms(2) by (auto simp: simulates_def)
  show ?thesis using assms(1)
  proof (cases rule: proc_step.cases)
    case receive
    obtain r c where r: "recv_frame (wp_stream p) = (r, c)" by fastforce
    show ?thesis
    proof (cases "\<exists>f. r = Inr (Some f)")
      case True
      then obtain f where f: "recv_frame (wp_stream p) = (Inr (Some f), c)" using r by blast
      then have "receives cs (concat (map fst turns) @ wp_inbox p @ [f]) c" using receives_snoc [OF run(3)] run(4) receive by simp
      then show ?thesis using run(1,2) receive(1) f by (auto simp: simulates_def receive_round_def)
    next
      case False
      then have "receive_round p = p\<lparr>wp_stream := c, wp_receiving := False\<rparr>"
        using r by (auto simp: receive_round_def split: sum.splits option.splits)
      then show ?thesis using run receive(1) by (auto simp: simulates_def)
    qed
  next
    case (turn delta_ms out w')
    then have "worker_run R be (turns @ [(wp_inbox p, delta_ms)]) (worker_start s) = Some (Inr (wp_sent p @ out, w'))"
      using worker_run_snoc [OF run(1)] run(2) by simp
    moreover have "receives cs (concat (map fst (turns @ [(wp_inbox p, delta_ms)])) @ []) cs'" using run(3) by simp
    ultimately show ?thesis using turn(1,2) run(4) unfolding simulates_def
      by (intro exI [of _ "turns @ [(wp_inbox p, delta_ms)]"] exI [of _ w'] exI [of _ cs']) simp
  qed (use run in \<open>auto simp: simulates_def\<close>)
qed

lemma simulates_steps: "(proc_step R be)\<^sup>*\<^sup>* (process_start s cs) p \<Longrightarrow> simulates R be s cs p"
  by (induction rule: rtranclp_induct) (auto intro: simulates_start simulates_step)

lemma recv_frame_empty:
  assumes "concat cs = []"
  shows "recv_frame cs \<noteq> (Inr (Some f), cs')"
proof -
  have "fst (recv_exact 16 cs) = None"
    using recv_exact_Some [of 16 cs] assms by (cases "recv_exact 16 cs"; cases "fst (recv_exact 16 cs)") auto
  then show ?thesis by (cases "recv_exact 16 cs") (simp add: recv_frame_def)
qed

lemma received_prefix:
  assumes "receives cs xs c" "receives cs ys c'" "concat c' = []"
  shows "prefix xs ys"
proof (cases "length xs \<le> length ys")
  case True
  then show ?thesis using receives_deterministic [OF assms(1,2)] by (auto simp: prefix_def)
next
  case False
  then obtain zs where zs: "xs = ys @ zs" "receives c' zs c" using receives_deterministic [OF assms(2,1)] by auto
  then have "zs \<noteq> []" using False by auto
  then show ?thesis using zs(2) recv_frame_empty [OF assms(3)] by (cases zs) (auto elim: receives_ConsE)
qed

section \<open>A lost connection\<close>

text \<open>\<^verbatim>\<open>done\<close> is set by two kinds of messages and by nothing else.\<close>

definition ends_worker :: "DecodedFrame \<Rightarrow> bool" where
  "ends_worker m \<longleftrightarrow> df_type m = FlowCancel \<or> df_type m = Shutdown"

lemma worker_message_done: "worker_message be m w = Inr w' \<Longrightarrow> bw_done w' \<longleftrightarrow> bw_done w \<or> ends_worker m"
  by (auto simp: worker_message_def ends_worker_def worker_dispatch_def rbind_eq_Inr_iff split: if_splits)

lemma worker_messages_done: "worker_messages be ms w = Inr w' \<Longrightarrow> bw_done w' \<longleftrightarrow> bw_done w \<or> list_ex ends_worker ms"
  by (induction ms arbitrary: w) (auto simp: rbind_eq_Inr_iff dest: worker_message_done)

lemma pace_loop_done: "pace_loop R be dt fids w = Some (a, b, w') \<Longrightarrow> bw_done w' = bw_done w"
  by (induction fids arbitrary: w a b)
    (fastforce simp: pace_job_def Let_def split: option.splits prod.splits)+

lemma erase_jobs_done: "bw_done (fold (erase_job be) fids w) = bw_done w"
  by (induction fids arbitrary: w) (simp_all add: erase_job_def)

lemma worker_turn_done:
  assumes "worker_turn R be (ms, dt) w = Some (Inr (out, w'))"
  shows "bw_done w' \<longleftrightarrow> bw_done w \<or> list_ex ends_worker ms"
  using assms
  by (auto simp: worker_turn_def worker_pace_def Let_def rbind_eq_Inr_iff erase_jobs_done
      dest!: worker_messages_done pace_loop_done split: sum.splits if_splits option.splits prod.splits)

text \<open>
  A worker that lost its connection does not notice it: unless a message that ends it was received
  before, it never leaves its loop again.
\<close>

lemma lost_connection_never_ends:
  assumes "(proc_step R be)\<^sup>*\<^sup>* p p'" "\<not> wp_receiving p" "wp_status p = Looping" "\<not> bw_done (wp_worker p)"
    and "\<not> list_ex ends_worker (wp_inbox p)"
  shows "wp_status p' \<noteq> Left"
proof -
  have "\<not> wp_receiving p' \<and> wp_status p' \<noteq> Left \<and> \<not> bw_done (wp_worker p') \<and> \<not> list_ex ends_worker (wp_inbox p')"
    using assms(1)
  proof (induction rule: rtranclp_induct)
    case base
    then show ?case using assms by simp
  next
    case (step q q')
    from step.hyps(2) step.IH show ?case by (cases rule: proc_step.cases) (auto dest: worker_turn_done)
  qed
  then show ?thesis by simp
qed

section \<open>Properties\<close>

text \<open>
  Property C19. The worker process refines the sequential loop, and takes the messages of the coordinator
  in order. When the stream of its socket carries a sequence of messages, cut into segments in any way, then
  whatever its two threads have done, in any order, is a run of the loop: the messages of its turns
  followed by the inbox are the first of the messages sent, none lost, doubled or overtaken, the frames it
  sent are those of that run, and so is its state (with the remaining jobs cancelled once it has left).
\<close>

theorem worker_process_refines_loop:
  assumes "sent_ok msgs outs" "segments cs" "concat cs = concat outs"
    and "(proc_step R be)\<^sup>*\<^sup>* (process_start s cs) p"
  shows "\<exists>turns w. worker_run R be turns (worker_start s) = Some (Inr (wp_sent p, w)) \<and>
    prefix (concat (map fst turns) @ wp_inbox p) (frames_of msgs) \<and>
    wp_worker p = (if wp_status p = Left then worker_exit be w else w)"
proof -
  obtain c where c: "receives cs (frames_of msgs) c" "concat c = []"
    using sent_frames_received [OF assms(1,2), of "[]"] assms(3) by auto
  obtain turns w cs' where "worker_run R be turns (worker_start s) = Some (Inr (wp_sent p, w))"
    "wp_worker p = (if wp_status p = Left then worker_exit be w else w)"
    "receives cs (concat (map fst turns) @ wp_inbox p) cs'"
    using simulates_steps [OF assms(4)] by (auto simp: simulates_def)
  then show ?thesis using received_prefix [OF _ c] by blast
qed

text \<open>A worker that is told to shut down: it receives the message, takes it in its next turn and leaves.\<close>

lemma shutdown_run:
  defines "p0 \<equiv> process_start (make_synthetic_backend []) [encode_frame Shutdown []]"
  obtains p where "(proc_step R synthetic_backend)\<^sup>*\<^sup>* p0 p" "wp_status p = Left"
proof -
  let ?m = "\<lparr>df_type = Shutdown, df_payload = []\<rparr>"
  have len: "length (encode_frame Shutdown []) = 20" by (simp add: encode_frame_def Let_def)
  then have seg: "segments [encode_frame Shutdown []]" by (auto simp: segments_def)
  have "encode_frame Shutdown [] = encode_frame (WireType_raw (WireType_code Shutdown)) []" by (simp add: encode_frame_def)
  then have cs: "concat [encode_frame Shutdown []] = encode_frame (WireType_raw (WireType_code Shutdown)) [] @ []" by simp
  have "WireType_cast (WireType_code Shutdown) = Shutdown" by (rule WireType_fits) (simp add: wire_types_def)
  then obtain c where "recv_frame [encode_frame Shutdown []] = (Inr (Some ?m), c)" using recv_frame_encoded [OF seg cs] by auto
  then have 1: "receive_round p0 = p0\<lparr>wp_stream := c, wp_inbox := [?m]\<rparr>" by (simp add: receive_round_def p0_def process_start_def)
  have p0: "wp_status p0 = Looping" "wp_receiving p0" "wp_worker p0 = worker_start (make_synthetic_backend [])"
    by (simp_all add: p0_def process_start_def)
  let ?p1 = "receive_round p0" and ?w = "(worker_start (make_synthetic_backend []))\<lparr>bw_done := True\<rparr>"
  let ?p2 = "?p1\<lparr>wp_inbox := [], wp_worker := ?w, wp_sent := wp_sent ?p1 @ []\<rparr>"
  have "proc_step R synthetic_backend p0 ?p1" by (rule proc_step.receive) (simp_all add: p0)
  moreover have "proc_step R synthetic_backend ?p1 ?p2"
    by (rule proc_step.turn [of _ _ _ f0])
      (simp_all add: 1 p0 worker_start_def worker_turn_def worker_message_def)
  moreover have "proc_step R synthetic_backend ?p2 (?p2\<lparr>wp_worker := worker_exit synthetic_backend ?w, wp_status := Left\<rparr>)"
    using proc_step.leave [of ?p2] by (simp add: 1 p0)
  ultimately show thesis
    by (intro that [of "?p2\<lparr>wp_worker := worker_exit synthetic_backend ?w, wp_status := Left\<rparr>"])
      (auto intro: rtranclp_trans)
qed

theorem worker_process_refines_loop_witness:
  "\<exists>p turns w. (proc_step (\<lambda>x. x) synthetic_backend)\<^sup>*\<^sup>*
      (process_start (make_synthetic_backend []) [encode_frame Shutdown []]) p \<and> wp_status p = Left \<and>
    worker_run (\<lambda>x. x) synthetic_backend turns (worker_start (make_synthetic_backend [])) = Some (Inr (wp_sent p, w)) \<and>
    prefix (concat (map fst turns)) [\<lparr>df_type = Shutdown, df_payload = []\<rparr>]"
proof -
  obtain p where p: "(proc_step (\<lambda>x. x) synthetic_backend)\<^sup>*\<^sup>* (process_start (make_synthetic_backend []) [encode_frame Shutdown []]) p"
    "wp_status p = Left" by (rule shutdown_run)
  have len: "length (encode_frame Shutdown []) = 20" by (simp add: encode_frame_def Let_def)
  then have "send_frame Shutdown [] [20] = (True, encode_frame Shutdown [])"
    unfolding send_frame_def by (intro send_all_sends) simp_all
  then have "sent_ok [(Shutdown, [])] [encode_frame Shutdown []]" by (auto simp: sent_ok_def wire_types_def)
  moreover have "segments [encode_frame Shutdown []]" using len by (auto simp: segments_def)
  ultimately show ?thesis
    using worker_process_refines_loop [OF _ _ _ p(1), of "[(Shutdown, [])]" "[encode_frame Shutdown []]"] p
    by (fastforce dest: append_prefixD)
qed

end
