(* ===== verification/Worker_Registration.thy ===== *)
theory Worker_Registration
  imports Worker Transport_Streams Coordinator_Pass Governor_Stranded
begin

text \<open>
  The registration of a worker from end to end: what \<^verbatim>\<open>workers/bgworker.cpp\<close> sends is received by the
  coordinator, registered by the governor and acknowledged, while the other threads of the coordinator run. The
  connection is published before the acknowledgement is written, so that the scheduler can write to it first; the worker
  starts exactly when it does not.
\<close>

section \<open>Sizes\<close>

lemmas sink_defs = sink_u32_def sink_f64_def sink_u64_def sink_bool_def sink_u8_def sink_id_def sink_str_def sink_bytes_def
  short_def kMaxString_def

lemma register_body:
  assumes "worker_resource R cfg = Inr res" "short (wc_backend cfg)" "cap_storable (rs_nominal res)"
  obtains body where "encode_register (worker_registration cfg res) = Inr body"
    "decode_register body = Inr (worker_registration cfg res)" "length body \<le> 2 ^ 21"
proof -
  have res: "rs_class res = Pcie" "rs_source res = ''worker''" "rs_destination res = ''host''" "rs_direction res = Unidirectional"
    using assms(1) by (auto simp: worker_resource_def rbind_eq_Inr_iff)
  have "register_wire (worker_registration cfg res)"
    using assms(2,3) by (simp add: register_wire_def worker_registration_def few_def res_wire_def res fits_def short_def ResourceClass_cast_def Directionality_cast_def)
  then obtain body where b: "encode_register (worker_registration cfg res) = Inr body"
    "decode_register body = Inr (worker_registration cfg res)"
    using register.received [of "worker_registration cfg res" "[]"] by auto
  then have "length body = 111 + length (wc_backend cfg)"
    using assms(2) by (auto simp: encode_register_def worker_registration_def w_list_def w_res_def sink_defs res)
  then show thesis using that [OF b] assms(2) by (simp add: short_def)
qed

lemma ack_body:
  obtains ack where
    "encode_register_ack \<lparr>pa_ok = True, pa_coordinator = c, pa_epoch = e, pa_generation = g, pa_reason = []\<rparr> = Inr ack"
    "decode_register_ack ack = Inr \<lparr>pa_ok = True, pa_coordinator = c, pa_epoch = e, pa_generation = g, pa_reason = []\<rparr>"
    "length ack = 53"
proof -
  let ?a = "\<lparr>pa_ok = True, pa_coordinator = c, pa_epoch = e, pa_generation = g, pa_reason = []\<rparr>"
  obtain ack where a: "encode_register_ack ?a = Inr ack" "decode_register_ack ack = Inr ?a"
    using register_ack.received [of ?a "[]"] by (auto simp: short_def)
  then have "length ack = 53" by (auto simp: encode_register_ack_def sink_defs)
  then show thesis using that a by blast
qed

text \<open>A frame of a known type arrives as it was sent.\<close>

lemma frame_arrives:
  assumes "t \<in> set wire_types" "length payload \<le> 2 ^ 28" "segments cs" "concat cs = encode_frame t payload @ rest"
  shows "\<exists>cs'. recv_frame cs = (Inr (Some \<lparr>df_type = t, df_payload = payload\<rparr>), cs') \<and> segments cs' \<and> concat cs' = rest"
proof -
  have "encode_frame t payload = encode_frame (WireType_raw (WireType_code t)) payload" by (simp add: encode_frame_def)
  then have "concat cs = encode_frame (WireType_raw (WireType_code t)) payload @ rest" using assms(4) by simp
  from recv_frame_encoded [OF assms(3) this assms(2)] show ?thesis using WireType_fits [OF assms(1)] by auto
qed

lemma encode_frame_length: "length (encode_frame t payload) = 20 + length payload"
  by (simp add: encode_frame_def Let_def)

lemma dispatch_size: "encode_dispatch d = Inr bs \<Longrightarrow> length bs \<le> 2 ^ 22"
  by (auto simp: encode_dispatch_def w_spec_def sink_defs sink_capacity_def sink_i64_def rbind_eq_Inr_iff split: if_splits)

lemma grant_size: "encode_grant g = Inr bs \<Longrightarrow> length bs \<le> 2 ^ 22"
  by (auto simp: encode_grant_def sink_defs sink_capacity_def rbind_eq_Inr_iff)

section \<open>What is written to a connection\<close>

text \<open>A frame of the scheduler.\<close>

definition pushed :: "WireType \<times> bytes \<Rightarrow> bool" where
  "pushed x \<longleftrightarrow> fst x \<in> {FlowDispatch, FlowGrant} \<and> length (snd x) \<le> 2 ^ 22"

lemma send_flow_pushes: "send_flow f rid conn disp = Inr (out, disp') \<Longrightarrow> x \<in> set out \<Longrightarrow> pushed (snd x)"
  using dispatch_size grant_size by (auto simp: send_flow_def pushed_def rbind_eq_Inr_iff split: if_splits)

lemma others_push:
  assumes "coord_step R c e c'" "\<forall>out. e \<noteq> Write conn out"
  shows "list_all pushed (on_conn conn e)"
  using assms(1)
proof (cases rule: coord_step.cases)
  case (send flows f rid k rest out disp)
  then show ?thesis using send_flow_pushes [OF send(4)] by (auto simp: on_conn_def list_all_iff)
qed (use assms(2) in \<open>auto simp: on_conn_def\<close>)

definition asks :: "nat \<Rightarrow> trace \<Rightarrow> bool" where
  "asks conn tr \<longleftrightarrow> (\<exists>x \<in> set tr. \<exists>fr readable. snd x = Handle conn fr readable)"

lemma asks_Cons [simp]: "asks conn (x # tr) \<longleftrightarrow> (\<exists>fr readable. snd x = Handle conn fr readable) \<or> asks conn tr"
  by (auto simp: asks_def)

lemma finished_run: "coord_run R c tr c' \<Longrightarrow> co_conns c conn = Finished \<Longrightarrow> co_conns c' conn = Finished"
proof (induction rule: coord_run.induct)
  case (go c e c1 tr c2)
  have "co_conns c1 conn = Finished" using go(1) by (cases rule: coord_step.cases) (use go.prems in auto)
  then show ?case using go.IH by blast
qed simp

lemma receiving_run:
  assumes "coord_run R c tr c'" "co_conns c conn = Receiving" "co_conns c' conn = Receiving" "\<not> asks conn tr"
  shows "list_all pushed (written conn tr)"
  using assms
proof (induction rule: coord_run.induct)
  case (go c e c1 tr c2)
  have alive: "co_conns c1 conn \<noteq> Finished" using finished_run [OF go(2)] go.prems(2) by auto
  have "co_conns c1 conn = Receiving \<and> (\<forall>out. e \<noteq> Write conn out)"
    using go(1) by (cases rule: coord_step.cases) (use alive go.prems(1,3) in \<open>auto split: if_splits\<close>)
  then show ?case using others_push [OF go(1)] go by simp
qed simp

fun answers_with :: "conn_phase \<Rightarrow> frames \<Rightarrow> bool" where
  "answers_with (Replying out') out \<longleftrightarrow> out = out'"
| "answers_with Acknowledging out \<longleftrightarrow> (\<exists>g. nack (registration_ack g) = Inr out)"
| "answers_with (Registering w) out \<longleftrightarrow> (\<exists>g. nack (registration_ack g) = Inr out)"
| "answers_with _ out \<longleftrightarrow> False"

text \<open>Until a connection thread receives again it writes its answer, once; around the answer come frames of the scheduler only.\<close>

lemma reply_run:
  assumes "coord_run R c tr c'" "co_conns c conn \<noteq> Receiving" "co_conns c' conn = Receiving" "\<not> asks conn tr"
  shows "\<exists>before out after. written conn tr = before @ out @ after \<and> list_all pushed before \<and> list_all pushed after \<and>
    answers_with (co_conns c conn) out"
  using assms
proof (induction rule: coord_run.induct)
  case (go c e c1 tr c2)
  show ?case
  proof (cases "\<exists>out. e = Write conn out")
    case True
    then obtain out where w: "e = Write conn out" "co_conns c conn = Replying out" "co_conns c1 conn = Receiving"
      using go(1) by (auto elim: coord_step.cases)
    then have "list_all pushed (written conn tr)" using receiving_run [OF go(2)] go.prems by simp
    then show ?thesis using w by (intro exI [of _ "[]"] exI [of _ out] exI [of _ "written conn tr"]) (simp add: on_conn_def)
  next
    case False
    then have p: "list_all pushed (on_conn conn e)" using others_push [OF go(1)] by blast
    have stay: "co_conns c1 conn \<noteq> Receiving" "answers_with (co_conns c1 conn) out \<Longrightarrow> answers_with (co_conns c conn) out" for out
      using go(1) by (cases rule: coord_step.cases; use False go.prems(1,3) in \<open>auto split: if_splits\<close>)+
    obtain before out after where "written conn tr = before @ out @ after" "list_all pushed before" "list_all pushed after"
      "answers_with (co_conns c1 conn) out" using go.IH stay(1) go.prems(2,3) by auto
    then show ?thesis using p stay(2) by (intro exI [of _ "on_conn conn e @ before"] exI [of _ out] exI [of _ after]) simp
  qed
qed simp

section \<open>The property\<close>

definition registration_of :: "worker_config \<Rightarrow> ResourceSpec \<Rightarrow> WorkerRegistration" where
  "registration_of cfg res =
     \<lparr>wr_worker = wc_worker cfg, wr_boot = wc_boot cfg, wr_inventory = [res], wr_protocol_version = 1, wr_backend = wc_backend cfg\<rparr>"

lemma admit_worker_accepts:
  assumes "decode_register body = Inr (worker_registration cfg res)"
    and "register_worker R (registration_of cfg res) g = (Inr (wc_worker cfg), g')"
  shows "admit_worker R body g = (Inr (wc_worker cfg), g')"
  using assms by (simp add: admit_worker_def worker_registration_def registration_of_def)

lemma registration_ack_frames:
  obtains ack a where "registration_ack g = Inr [(RegisterAck, ack)]" "decode_register_ack ack = Inr a" "pa_ok a" "length ack = 53"
proof -
  obtain ack where "encode_register_ack \<lparr>pa_ok = True, pa_coordinator = g_coordinator g, pa_epoch = g_epoch g,
      pa_generation = g_capacity_generation g, pa_reason = []\<rparr> = Inr ack"
    "decode_register_ack ack = Inr \<lparr>pa_ok = True, pa_coordinator = g_coordinator g, pa_epoch = g_epoch g,
      pa_generation = g_capacity_generation g, pa_reason = []\<rparr>" "length ack = 53" by (rule ack_body)
  then show thesis using that by (simp add: registration_ack_def reply_def)
qed

lemma ack_answer:
  assumes "nack (registration_ack g) = Inr out"
  obtains ack a where "out = [(RegisterAck, ack)]" "decode_register_ack ack = Inr a" "pa_ok a" "length ack = 53"
proof -
  obtain ack a where "registration_ack g = Inr [(RegisterAck, ack)]" "decode_register_ack ack = Inr a" "pa_ok a" "length ack = 53"
    by (rule registration_ack_frames)
  then show thesis using that [of ack a] assms by (simp add: nack_def)
qed

text \<open>Without an interruption the connection is published and the acknowledgement written.\<close>

lemma acknowledged:
  assumes "co_conns c conn = Registering w"
  shows "\<exists>tr c' ack. coord_run R c tr c' \<and> co_conns c' conn = Receiving \<and> \<not> asks conn tr \<and> written conn tr = [(RegisterAck, ack)] \<and>
    map_of (sv_workers (co_server c')) w = Some conn"
proof -
  let ?c1 = "at_conn conn Acknowledging (c\<lparr>co_server := publish_worker conn w (co_server c)\<rparr>)"
  obtain ack a where a: "registration_ack (co_gov ?c1) = Inr [(RegisterAck, ack)]" by (rule registration_ack_frames)
  let ?c2 = "at_conn conn (Replying [(RegisterAck, ack)]) ?c1" let ?c3 = "at_conn conn Receiving ?c2"
  have "coord_step R c (Publish conn w) ?c1" by (rule coord_step.publish [OF assms])
  moreover have "coord_step R ?c1 (Acknowledge conn) ?c2" by (rule coord_step.acknowledge) (use a in \<open>simp_all add: nack_def\<close>)
  moreover have "coord_step R ?c2 (Write conn [(RegisterAck, ack)]) ?c3" by (rule coord_step.answer) simp
  ultimately have "coord_run R c [(c, Publish conn w), (?c1, Acknowledge conn), (?c2, Write conn [(RegisterAck, ack)])] ?c3"
    by (simp add: coord_run_Cons)
  moreover have "map_of (sv_workers (co_server ?c3)) w = Some conn" by (simp add: publish_worker_def update_conv')
  ultimately show ?thesis
    by (intro exI [of _ "[(c, Publish conn w), (?c1, Acknowledge conn), (?c2, Write conn [(RegisterAck, ack)])]"] exI [of _ ?c3]
        exI [of _ ack]) (simp add: on_conn_def asks_def)
qed

text \<open>The scheduler may come between: it finds the published connection and writes to it before the acknowledgement.\<close>

lemma overtaken:
  assumes "co_conns c conn = Registering w" "co_sched c = Visiting flows (s # rest)" "assigned s = Some (w, rid)"
    and "reservation_query rid (co_gov c) \<noteq> None" "send_flow s rid conn (sv_dispatched (co_server c)) = Inr ([(conn, t, bs)], disp)"
  shows "\<exists>tr c' ack. coord_run R c tr c' \<and> co_conns c' conn = Receiving \<and> \<not> asks conn tr \<and> written conn tr = [(t, bs), (RegisterAck, ack)]"
proof -
  let ?c1 = "at_conn conn Acknowledging (c\<lparr>co_server := publish_worker conn w (co_server c)\<rparr>)"
  let ?c2 = "?c1\<lparr>co_sched := Checked flows s w rid rest\<rparr>" let ?c3 = "?c2\<lparr>co_sched := Bound flows s rid conn rest\<rparr>"
  let ?c4 = "?c3\<lparr>co_server := (co_server ?c3)\<lparr>sv_dispatched := disp\<rparr>, co_sched := Visiting flows rest\<rparr>"
  obtain ack a where a: "registration_ack (co_gov ?c4) = Inr [(RegisterAck, ack)]" by (rule registration_ack_frames)
  let ?c5 = "at_conn conn (Replying [(RegisterAck, ack)]) ?c4" let ?c6 = "at_conn conn Receiving ?c5"
  let ?tr = "[(c, Publish conn w), (?c1, Check s), (?c2, Bind s conn), (?c3, Send s [(conn, t, bs)]), (?c4, Acknowledge conn),
    (?c5, Write conn [(RegisterAck, ack)])]"
  have "coord_step R c (Publish conn w) ?c1" by (rule coord_step.publish [OF assms(1)])
  moreover have "coord_step R ?c1 (Check s) ?c2" by (rule coord_step.check) (use assms(2-4) in \<open>simp_all add: publish_worker_def\<close>)
  moreover have "coord_step R ?c2 (Bind s conn) ?c3" using coord_step.bind [of ?c2 flows s w rid rest conn R] by (simp add: publish_worker_def update_conv')
  moreover have "coord_step R ?c3 (Send s [(conn, t, bs)]) ?c4" by (rule coord_step.send) (use assms(5) in \<open>simp_all add: publish_worker_def\<close>)
  moreover have "coord_step R ?c4 (Acknowledge conn) ?c5" by (rule coord_step.acknowledge) (use a in \<open>simp_all add: nack_def at_conn_def\<close>)
  moreover have "coord_step R ?c5 (Write conn [(RegisterAck, ack)]) ?c6" by (rule coord_step.answer) simp
  ultimately have "coord_run R c ?tr ?c6" by (simp only: coord_run_Cons coord_run_Nil) blast
  then show ?thesis by (intro exI [of _ ?tr] exI [of _ ?c6] exI [of _ ack]) (simp add: on_conn_def asks_def)
qed

text \<open>The worker decides by the first frame it receives.\<close>

lemma handshake_first:
  assumes "worker_resource R cfg = Inr res" "encode_register (worker_registration cfg res) = Inr body" "length body \<le> 2 ^ 21"
    and "list_all (\<lambda>a. 0 < a) answers" "2 ^ 22 \<le> sum_list answers"
    and "t \<in> set wire_types" "length p \<le> 2 ^ 28" "segments cs" "concat cs = encode_frame t p @ rest"
  shows "\<exists>cs'. worker_handshake R cfg answers cs =
      (case worker_acknowledged (Inr (Some \<lparr>df_type = t, df_payload = p\<rparr>)) of Go _ \<Rightarrow> Go res | Exit c \<Rightarrow> Exit c | Terminate \<Rightarrow> Terminate,
       encode_frame Register body, cs') \<and> concat cs' = rest"
proof -
  have "send_frame Register body answers = (True, encode_frame Register body)"
    unfolding send_frame_def using assms(3-5) by (intro send_all_sends) (simp_all add: encode_frame_length)
  then show ?thesis using frame_arrives [OF assms(6-9)] assms(1,2) by (auto simp: worker_handshake_def)
qed

lemma registration_outcome:
  assumes "worker_resource R cfg = Inr res" "encode_register (worker_registration cfg res) = Inr body" "length body \<le> 2 ^ 21"
    and "list_all (\<lambda>a. 0 < a) answers" "2 ^ 22 \<le> sum_list answers"
    and "co_conns c conn = Registering w" "coord_run R c tr c'" "co_conns c' conn = Receiving" "\<not> asks conn tr"
  shows "\<exists>before ack after. written conn tr = before @ (RegisterAck, ack) # after \<and>
      list_all (\<lambda>(t, p). t \<in> {FlowDispatch, FlowGrant}) (before @ after) \<and>
      (\<forall>cs rest. segments cs \<longrightarrow> concat cs = concat (map (\<lambda>(t, p). encode_frame t p) (written conn tr)) @ rest \<longrightarrow>
         (\<exists>cs'. if before = []
            then worker_handshake R cfg answers cs = (Go res, encode_frame Register body, cs') \<and>
              concat cs' = concat (map (\<lambda>(t, p). encode_frame t p) after) @ rest
            else worker_handshake R cfg answers cs = (Exit 1, encode_frame Register body, cs')))"
proof -
  obtain before out after where w: "written conn tr = before @ out @ after" "list_all pushed before" "list_all pushed after"
    "answers_with (co_conns c conn) out" using reply_run [OF assms(7) _ assms(8,9)] assms(6) by auto
  then obtain g' where "nack (registration_ack g') = Inr out" using assms(6) by auto
  then obtain ack a where ack: "out = [(RegisterAck, ack)]" "decode_register_ack ack = Inr a" "pa_ok a" "length ack = 53"
    by (rule ack_answer)
  have types: "RegisterAck \<in> set wire_types" "FlowDispatch \<in> set wire_types" "FlowGrant \<in> set wire_types"
    by (simp_all add: wire_types_def)
  note shake = handshake_first [OF assms(1-5)]
  have "\<exists>cs'. if before = []
      then worker_handshake R cfg answers cs = (Go res, encode_frame Register body, cs') \<and>
        concat cs' = concat (map (\<lambda>(t, p). encode_frame t p) after) @ rest
      else worker_handshake R cfg answers cs = (Exit 1, encode_frame Register body, cs')"
    if cs: "segments cs" "concat cs = concat (map (\<lambda>(t, p). encode_frame t p) (written conn tr)) @ rest" for cs rest
  proof (cases before)
    case Nil
    then show ?thesis
      using shake [OF types(1), of ack cs "concat (map (\<lambda>(t, p). encode_frame t p) after) @ rest"] cs ack
      by (auto simp: w(1) worker_acknowledged_def)
  next
    case (Cons x xs)
    obtain t p where x: "x = (t, p)" by fastforce
    have "t \<in> set wire_types" "length p \<le> 2 ^ 28" "t \<noteq> RegisterAck" using w(2) types by (auto simp: Cons x pushed_def)
    then show ?thesis
      using shake [of t p cs "concat (map (\<lambda>(t, p). encode_frame t p) (xs @ out @ after)) @ rest"] cs Cons
      by (auto simp: w(1) x worker_acknowledged_def)
  qed
  then show ?thesis using w(1-3) ack(1)
    by (intro exI [of _ before] exI [of _ ack] exI [of _ after]) (auto simp: pushed_def list_all_iff)
qed

text \<open>
  Property C20. Registration from end to end, while the other threads of the coordinator run. A worker whose nominal rate is
  a valid rate sends one frame; however the network cuts it, the coordinator receives a registration, and in every state
  the governor can reach, also when the worker replaces a former process, the governor registers the worker as alive under
  its boot with its resource. Undisturbed, the connection is then published and one acknowledgement written.
  In every run, by the time the connection is read again exactly one acknowledgement was written to it, with frames of
  the scheduler only before and after it. The worker starts exactly when none came before, with the bytes behind
  the acknowledgement still on its stream; if the scheduler found the published connection first, the worker takes its
  frame for the answer and exits with status 1.
\<close>

theorem registration_completes:
  assumes "rounding R" "reachable R (co_gov c)" "gen_draws (g_gen (co_gov c)) \<le> 2 ^ 64"
    and "gen_draws (g_gen (snd (register_worker R (registration_of cfg res) (co_gov c)))) \<le> 2 ^ 64"
    and "worker_resource R cfg = Inr res" "short (wc_backend cfg)" "cap_storable (rs_nominal res)"
    and "list_all (\<lambda>a. 0 < a) answers" "2 ^ 22 \<le> sum_list answers" "co_conns c conn = Receiving"
  shows "\<exists>body c1 k.
    (\<forall>ss rest. segments ss \<longrightarrow> concat ss = encode_frame Register body @ rest \<longrightarrow>
       (\<exists>ss'. recv_frame ss = (Inr (Some \<lparr>df_type = Register, df_payload = body\<rparr>), ss') \<and> concat ss' = rest)) \<and>
    coord_step R c (Handle conn \<lparr>df_type = Register, df_payload = body\<rparr> readable) c1 \<and>
    co_conns c1 conn = Registering (wc_worker cfg) \<and> co_gov c1 = snd (register_worker R (registration_of cfg res) (co_gov c)) \<and> map_of (g_workers (co_gov c1)) (wc_worker cfg) = Some k \<and>
    wk_alive k \<and> wk_boot k = wc_boot cfg \<and> wk_back_resources k = [rs_id res] \<and>
    (\<exists>tr c2 ack. coord_run R c1 tr c2 \<and> co_conns c2 conn = Receiving \<and> \<not> asks conn tr \<and> written conn tr = [(RegisterAck, ack)] \<and>
       map_of (sv_workers (co_server c2)) (wc_worker cfg) = Some conn) \<and>
    (\<forall>tr c2. coord_run R c1 tr c2 \<longrightarrow> co_conns c2 conn = Receiving \<longrightarrow> \<not> asks conn tr \<longrightarrow>
       (\<exists>before ack after. written conn tr = before @ (RegisterAck, ack) # after \<and>
          list_all (\<lambda>(t, p). t \<in> {FlowDispatch, FlowGrant}) (before @ after) \<and>
          (\<forall>cs rest. segments cs \<longrightarrow> concat cs = concat (map (\<lambda>(t, p). encode_frame t p) (written conn tr)) @ rest \<longrightarrow>
             (\<exists>cs'. if before = []
                then worker_handshake R cfg answers cs = (Go res, encode_frame Register body, cs') \<and>
                  concat cs' = concat (map (\<lambda>(t, p). encode_frame t p) after) @ rest
                else worker_handshake R cfg answers cs = (Exit 1, encode_frame Register body, cs')))))"
proof -
  obtain body where body: "encode_register (worker_registration cfg res) = Inr body"
    "decode_register body = Inr (worker_registration cfg res)" "length body \<le> 2 ^ 21"
    using register_body [OF assms(5-7)] .
  have "inv_core R (co_gov c)" using reachable_inv [OF assms(1-3)] by (simp add: gov_inv_def)
  then have reg: "fst (register_worker R (registration_of cfg res) (co_gov c)) = Inr (wc_worker cfg)"
    using register_worker_returns assms(4) by (fastforce simp: registration_of_def)
  then obtain g where g: "register_worker R (registration_of cfg res) (co_gov c) = (Inr (wc_worker cfg), g)" by (metis prod.collapse)
  let ?fr = "\<lparr>df_type = Register, df_payload = body\<rparr>"
  let ?c1 = "at_conn conn (Registering (wc_worker cfg)) (c\<lparr>co_server := (co_server c)\<lparr>sv_gov := g\<rparr>\<rparr>)"
  have step: "coord_step R c (Handle conn ?fr readable) ?c1"
    using admit_worker_accepts [OF body(2) g] by (intro coord_step.register assms(10)) simp_all
  obtain k where k: "map_of (g_workers (co_gov ?c1)) (wc_worker cfg) = Some k" "wk_alive k" "wk_boot k = wc_boot cfg"
    "wk_back_resources k = [rs_id res]"
    using register_worker_effect(1) [OF g] by (auto simp: registration_of_def)
  have type: "Register \<in> set wire_types" by (simp add: wire_types_def)
  have "\<forall>ss rest. segments ss \<longrightarrow> concat ss = encode_frame Register body @ rest \<longrightarrow>
       (\<exists>ss'. recv_frame ss = (Inr (Some ?fr), ss') \<and> concat ss' = rest)"
    using frame_arrives [OF type, of body] body(3) by fastforce
  moreover have c1: "co_conns ?c1 conn = Registering (wc_worker cfg)" by simp
  moreover have "co_gov ?c1 = snd (register_worker R (registration_of cfg res) (co_gov c))" by (simp add: g)
  moreover note registration_outcome [OF assms(5) body(1,3) assms(8,9) c1] acknowledged [OF c1, of R]
  ultimately show ?thesis using step k by blast
qed

definition race_config :: worker_config where
  "race_config = \<lparr>wc_host = ''localhost'', wc_port = 7070, wc_worker = demo_wid, wc_boot = Id128 0 52, wc_backend = ''synthetic'',
     wc_nominal = 1000\<rparr>"

lemma race_resource:
  obtains res where "worker_resource (\<lambda>x. x) race_config = Inr res" "rs_nominal res = Capacity (Fin 1000)" "\<not> is_null (rs_generation res)"
proof -
  have "f64_of_u64 (\<lambda>x. x) 1000 = Fin 1000" using dbl_max_large by (simp add: f64_of_u64_def fl_def)
  then show thesis using that
    by (simp add: worker_resource_def race_config_def demo_wid_def Capacity_make_def is_valid_rate_iff kMaxRate_def fresh_generation_def is_null_def)
qed

text \<open>The coordinator after a tick: the scheduler has listed the flow that runs on the worker, which then comes back with a new boot.\<close>

lemma race_start:
  obtains g f s where "reachable (\<lambda>x. x) g" "gen_draws (g_gen g) \<le> 5" "g_flows g = [(demo_fid, f)]" "fr_reservation f = Some life_resv"
    "list_flows g = Inr [s]" "assigned s = Some (demo_wid, life_resv)"
    "\<exists>bs disp. send_flow s life_resv 2 [] = Inr ([(2, FlowDispatch, bs)], disp)"
proof -
  obtain g f where g: "reachable (\<lambda>x. x) g" "gen_draws (g_gen g) \<le> 5" "g_flows g = [(demo_fid, f)]" "fr_state f = Running"
    "fr_assigned_worker f = Some demo_wid" "fr_spec f = demo_spec" "fr_reservation f = Some life_resv" using work_tick by blast
  have "inv_core (\<lambda>x. x) g" using reachable_inv [OF exact.rounding_axioms g(1)] g(2) by (simp add: gov_inv_def)
  then have "flow_ok (\<lambda>x. x) demo_fid f" using inv_coreD(1) [of "\<lambda>x. x" g demo_fid f] g(3) by simp
  then obtain s where s: "to_flow_snap f = Inr s" using to_flow_snap_total by blast
  note fields = snap_fields [OF s] g(4-7)
  obtain bs where "encode_dispatch (dispatch_of s life_resv) = Inr bs"
    using encode_dispatch_total [of "dispatch_of s life_resv"] demo_endpoints fields by (auto simp: dispatch_of_def)
  then show thesis using that [OF g(1-3,7), of s] g(3) s fields by (simp add: list_flows_def assigned_def send_flow_def)
qed

theorem registration_completes_witness:
  "\<exists>c body c1 tr ack tr' bs ack'. coord_step (\<lambda>x. x) c (Handle 2 \<lparr>df_type = Register, df_payload = body\<rparr> False) c1 \<and>
     (\<exists>c2. coord_run (\<lambda>x. x) c1 tr c2) \<and> written 2 tr = [(RegisterAck, ack)] \<and>
     (\<exists>res cs. worker_handshake (\<lambda>x. x) race_config [4194304] [encode_frame RegisterAck ack] = (Go res, encode_frame Register body, cs)) \<and>
     (\<exists>c2. coord_run (\<lambda>x. x) c1 tr' c2) \<and> written 2 tr' = [(FlowDispatch, bs), (RegisterAck, ack')] \<and>
     (\<exists>cs. worker_handshake (\<lambda>x. x) race_config [4194304] [encode_frame FlowDispatch bs, encode_frame RegisterAck ack'] =
        (Exit 1, encode_frame Register body, cs))"
proof -
  obtain g f s where g: "reachable (\<lambda>x. x) g" "gen_draws (g_gen g) \<le> 5" "g_flows g = [(demo_fid, f)]" "fr_reservation f = Some life_resv"
    "list_flows g = Inr [s]" "assigned s = Some (demo_wid, life_resv)"
    "\<exists>bs disp. send_flow s life_resv 2 [] = Inr ([(2, FlowDispatch, bs)], disp)" by (rule race_start)
  obtain res where res: "worker_resource (\<lambda>x. x) race_config = Inr res" "rs_nominal res = Capacity (Fin 1000)" "\<not> is_null (rs_generation res)"
    by (rule race_resource)
  define c where "c = \<lparr>co_server = work_server\<lparr>sv_gov := g\<rparr>, co_sched = Visiting [s] [s], co_conns = \<lambda>_. Receiving\<rparr>"
  have fits: "short (wc_backend race_config)" "cap_storable (rs_nominal res)"
    by (simp_all add: short_def race_config_def res(2) cap_storable_def valid_cap_def is_valid_rate_iff storable_literals)
  let ?reg = "registration_of race_config res"
  have d: "gen_draws (g_gen (snd (register_worker (\<lambda>x. x) ?reg g))) \<le> 2 ^ 64" "gen_draws (g_gen g) \<le> 2 ^ 64"
    using register_worker_draws [of ?reg res "\<lambda>x. x" g] res(3) g(2,3) by (simp_all add: registration_of_def)
  have "co_gov c = g" "co_conns c 2 = Receiving" by (simp_all add: c_def)
  note whole = registration_completes [OF exact.rounding_axioms, of c race_config res "[4194304]" 2 False, unfolded this,
      OF g(1) d(2,1) res(1) fits]
  obtain body c1 k tr c2 ack where r: "coord_step (\<lambda>x. x) c (Handle 2 \<lparr>df_type = Register, df_payload = body\<rparr> False) c1"
    "co_conns c1 2 = Registering demo_wid" "coord_run (\<lambda>x. x) c1 tr c2" "co_conns c2 2 = Receiving" "\<not> asks 2 tr"
    "written 2 tr = [(RegisterAck, ack)]" and gov: "co_gov c1 = snd (register_worker (\<lambda>x. x) ?reg g)"
    and all: "\<forall>tr c2. coord_run (\<lambda>x. x) c1 tr c2 \<longrightarrow> co_conns c2 2 = Receiving \<longrightarrow> \<not> asks 2 tr \<longrightarrow>
       (\<exists>before ack after. written 2 tr = before @ (RegisterAck, ack) # after \<and>
          list_all (\<lambda>(t, p). t \<in> {FlowDispatch, FlowGrant}) (before @ after) \<and>
          (\<forall>cs rest. segments cs \<longrightarrow> concat cs = concat (map (\<lambda>(t, p). encode_frame t p) (written 2 tr)) @ rest \<longrightarrow>
             (\<exists>cs'. if before = []
                then worker_handshake (\<lambda>x. x) race_config [4194304] cs = (Go res, encode_frame Register body, cs') \<and>
                  concat cs' = concat (map (\<lambda>(t, p). encode_frame t p) after) @ rest
                else worker_handshake (\<lambda>x. x) race_config [4194304] cs = (Exit 1, encode_frame Register body, cs'))))"
    using whole by (simp add: race_config_def) blast
  have same: "co_sched c1 = co_sched c" "sv_dispatched (co_server c1) = []"
    using other_threads [OF r(1)] by (simp_all add: c_def work_server_def)
  have reach: "gov_reaches (\<lambda>x. x) g (co_gov c1)"
    using coord_step_moves(2) [OF exact.rounding_axioms r(1)] by (simp add: replaces_state_def c_def)
  have "gen_draws (g_gen (co_gov c1)) \<le> 2 ^ 64"
    using d(1) by (simp add: gov)
  then have "reservation_query life_resv (co_gov c1) \<noteq> None"
    using reservation_stays [OF exact.rounding_axioms g(1) reach, of demo_fid f life_resv] g(3,4) by simp
  moreover obtain bs disp where "send_flow s life_resv 2 [] = Inr ([(2, FlowDispatch, bs)], disp)" using g(7) by blast
  ultimately obtain tr' c3 ack' where o: "coord_run (\<lambda>x. x) c1 tr' c3" "co_conns c3 2 = Receiving" "\<not> asks 2 tr'"
    "written 2 tr' = [(FlowDispatch, bs), (RegisterAck, ack')]"
    using overtaken [OF r(2), of "[s]" s "[]" life_resv FlowDispatch bs disp "\<lambda>x. x"] same g(6) by (auto simp: c_def)
  have seg: "segments [encode_frame RegisterAck a]" "segments [encode_frame FlowDispatch b, encode_frame RegisterAck a]" for a b
    using encode_frame_length [of RegisterAck a] encode_frame_length [of FlowDispatch b] by (auto simp: segments_def)
  have "\<exists>cs. worker_handshake (\<lambda>x. x) race_config [4194304] [encode_frame RegisterAck ack] = (Go res, encode_frame Register body, cs)"
    using all [rule_format, OF r(3-5)] seg(1) [of ack] by (auto simp: r(6) Cons_eq_append_conv dest!: spec [of _ "[encode_frame RegisterAck ack]"])
  moreover have "\<exists>cs. worker_handshake (\<lambda>x. x) race_config [4194304] [encode_frame FlowDispatch bs, encode_frame RegisterAck ack'] =
      (Exit 1, encode_frame Register body, cs)"
    using all [rule_format, OF o(1-3)] seg(2) [of bs ack'] by (auto simp: o(4) Cons_eq_append_conv dest!: spec [of _ "[encode_frame FlowDispatch bs, encode_frame RegisterAck ack']"])
  ultimately show ?thesis using r(1,3,6) o(1,4) by blast
qed

end
