(* ===== verification/Governor_Staleness.thy ===== *)
theory Governor_Staleness
  imports Coordinator Governor_Overcommit
begin

text \<open>
  The freshness of capacities. \<^verbatim>\<open>recompute_governed\<close> discounts the capacity of a resource by the time since its
  last measurement, or since it was added. Of the messages of the wire protocol only a registration, and a state
  that is loaded, renew that time, so behind the server the capacity of a resource runs out.
\<close>

section \<open>Steps without a measurement\<close>

definition stamp_at :: "(ResourceId, ResRT) umap \<Rightarrow> ResourceId \<Rightarrow> (f64 \<times> f64) option" where
  "stamp_at res rid = map_option (\<lambda>r. (rr_last_ms r, rr_measured r)) (map_of res rid)"

definition unmeasured :: "gov \<Rightarrow> gov \<Rightarrow> bool" where
  "unmeasured g g' \<longleftrightarrow> g_config g' = g_config g \<and> g_auto_clock g' = g_auto_clock g \<and> g_wall g' = g_wall g \<and>
     g_wall_pos g \<le> g_wall_pos g' \<and> stamp_at (g_resources g') = stamp_at (g_resources g)"

lemma unmeasured_refl [simp]: "unmeasured g g"
  by (simp add: unmeasured_def)

lemma unmeasured_trans: "unmeasured a b \<Longrightarrow> unmeasured b c \<Longrightarrow> unmeasured a c"
  by (auto simp: unmeasured_def)

lemma now_next_unmeasured [simp]: "unmeasured g h \<Longrightarrow> unmeasured g (now_next h)"
  by (simp add: unmeasured_def now_next_def)

lemma unmeasured_fields [simp]:
  "unmeasured g (h\<lparr>g_flows := fs\<rparr>) \<longleftrightarrow> unmeasured g h" "unmeasured g (h\<lparr>g_reservations := rs\<rparr>) \<longleftrightarrow> unmeasured g h"
  "unmeasured g (h\<lparr>g_gen := x\<rparr>) \<longleftrightarrow> unmeasured g h" "unmeasured g (h\<lparr>g_tenants := ts\<rparr>) \<longleftrightarrow> unmeasured g h"
  "unmeasured g (h\<lparr>g_workloads := ws\<rparr>) \<longleftrightarrow> unmeasured g h"
  by (simp_all add: unmeasured_def)

lemma stamp_at_step [simp]:
  "stamp_at (add_reserved R res al) = stamp_at res" "stamp_at (add_allocated R x res hop) = stamp_at res"
  by (auto simp: stamp_at_def add_reserved_def add_allocated_def fun_eq_iff split: option.split)

lemma stamp_at_foldl: "(\<And>res x. stamp_at (h res x) = stamp_at res) \<Longrightarrow> stamp_at (foldl h res xs) = stamp_at res"
  by (induction xs arbitrary: res) simp_all

lemma stamp_at_one [simp]:
  "stamp_at (reserve_one R fs res rsv) = stamp_at res" "stamp_at (allocate_one R ps res f) = stamp_at res"
  by (auto simp: reserve_one_def allocate_one_def stamp_at_foldl split: option.split)

lemma stamp_at_map_vals:
  "(\<And>r. (rr_last_ms (h r), rr_measured (h r)) = (rr_last_ms r, rr_measured r)) \<Longrightarrow> stamp_at (map_vals h res) = stamp_at res"
  by (auto simp: stamp_at_def fun_eq_iff option.map_comp comp_def)

lemma recompute_unmeasured [simp]:
  "unmeasured g (recompute_reserved R h) \<longleftrightarrow> unmeasured g h" "unmeasured g (recompute_allocated R h) \<longleftrightarrow> unmeasured g h"
  "unmeasured g (recompute_saturation R h) \<longleftrightarrow> unmeasured g h"
  by (simp_all add: unmeasured_def recompute_reserved_def recompute_allocated_def recompute_saturation_def stamp_at_foldl stamp_at_map_vals)

text \<open>The governed capacity of a resource comes from a reading of the clock at or behind the present position.\<close>

definition later :: "gov \<Rightarrow> gov \<Rightarrow> bool" where
  "later g h \<longleftrightarrow> same_core g h \<and> g_wall_pos g \<le> g_wall_pos h"

lemma later_refl [simp]: "later g g"
  by (simp add: later_def)

lemma later_trans: "later a b \<Longrightarrow> later b c \<Longrightarrow> later a c"
  by (auto simp: later_def intro: same_core_trans)

lemma governed_loop_later: "governed_loop R rs g = (rs', g') \<Longrightarrow> later g g'"
proof (induction rs arbitrary: g rs' g')
  case (Cons kr rs)
  obtain k r where kr: "kr = (k, r)" by (cases kr)
  obtain st g1 where 1: "staleness_of R g r = (st, g1)" by fastforce
  obtain rs2 g2 where 2: "governed_loop R rs g1 = (rs2, g2)" by fastforce
  have "later g g1" using staleness_of_core [OF 1] 1 by (auto simp: later_def staleness_of_def now_next_def split: if_splits)
  then show ?case using Cons.prems Cons.IH [OF 2] later_trans by (auto simp: kr 1 2)
qed simp

lemma governed_loop_lookup:
  assumes "governed_loop R rs g = (rs', g')" "map_of rs rid = Some r"
  shows "\<exists>h. later g h \<and> map_of rs' rid = Some (governed_resource R h (fst (staleness_of R h r)) r)"
  using assms
proof (induction rs arbitrary: g rs' g')
  case (Cons kr rs)
  obtain k q where kr: "kr = (k, q)" by (cases kr)
  obtain st g1 where 1: "staleness_of R g q = (st, g1)" by fastforce
  obtain rs2 g2 where 2: "governed_loop R rs g1 = (rs2, g2)" by fastforce
  have rs': "rs' = (k, governed_resource R g st q) # rs2" using Cons.prems(1) by (simp add: kr 1 2)
  show ?case
  proof (cases "rid = k")
    case True
    then show ?thesis using Cons.prems(2) 1 by (intro exI [of _ g]) (simp add: kr rs')
  next
    case False
    have "later g g1" using staleness_of_core [OF 1] 1 by (auto simp: later_def staleness_of_def now_next_def split: if_splits)
    moreover obtain h where "later g1 h" "map_of rs2 rid = Some (governed_resource R h (fst (staleness_of R h r)) r)"
      using Cons.IH [OF 2] Cons.prems(2) False by (auto simp: kr)
    ultimately show ?thesis using False later_trans by (auto simp: rs')
  qed
qed simp

lemma recompute_governed_lookup:
  assumes "map_of (g_resources g) rid = Some r"
  shows "\<exists>h. later g h \<and> map_of (g_resources (recompute_governed R g)) rid = Some (governed_resource R h (fst (staleness_of R h r)) r)"
proof -
  obtain rs g' where l: "governed_loop R (g_resources g) g = (rs, g')" by fastforce
  then show ?thesis using governed_loop_lookup [OF l assms] by (simp add: recompute_governed_def)
qed

lemma stamp_at_None: "stamp_at res rid = None \<longleftrightarrow> rid \<notin> set (keys res)"
  by (simp add: stamp_at_def map_of_eq_None_iff)

lemma recompute_governed_unmeasured: "unmeasured g (recompute_governed R g)"
proof -
  have "stamp_at (g_resources (recompute_governed R g)) rid = stamp_at (g_resources g) rid" for rid
  proof (cases "map_of (g_resources g) rid")
    case None
    then have "stamp_at (g_resources g) rid = None" by (simp add: stamp_at_def)
    then show ?thesis by (metis stamp_at_None recompute_governed_keys)
  next
    case (Some r)
    then show ?thesis using recompute_governed_lookup [OF Some, of R] by (auto simp: stamp_at_def governed_resource_def)
  qed
  moreover have "later g (recompute_governed R g)"
    using governed_loop_later recompute_governed_core [of g R]
    by (auto simp: later_def recompute_governed_def split: prod.splits)
  ultimately show ?thesis by (auto simp: unmeasured_def later_def same_core_frame)
qed

lemma governed_unmeasured [simp]: "unmeasured g h \<Longrightarrow> unmeasured g (recompute_governed R h)"
  using recompute_governed_unmeasured unmeasured_trans by blast

section \<open>The operations of the server\<close>

lemma release_unmeasured [simp]: "unmeasured g (release_of f h) \<longleftrightarrow> unmeasured g h"
  by (auto simp: release_of_def release_reservation_internal_def reservation_move_def split: option.split)

lemma submit_unmeasured: "unmeasured g (snd (submit_flow R spec g))"
  by (auto simp: submit_flow_def Let_def park_flow_def reserve_flow_def count_submitted_def
      split: option.splits sum.splits prod.splits if_splits)

lemma report_unmeasured:
  "unmeasured g (snd (report_progress fid a fgen boot n g))" "unmeasured g (snd (report_completion R fid a fgen boot n g))"
  by (auto simp: report_progress_def report_completion_def settle_accounting_def Let_def split: option.splits sum.splits)

lemma admit_unmeasured: "unmeasured g h \<Longrightarrow> unmeasured g (snd (admit_queued R fid f h))"
  by (auto simp: admit_queued_def Let_def split: option.splits prod.splits sum.splits)

lemma admit_loop_unmeasured: "unmeasured g h \<Longrightarrow> unmeasured g (snd (admit_loop R fids h))"
proof (induction fids arbitrary: h)
  case (Cons fid fids)
  have "unmeasured g (snd (admit_queued R fid f h))" for f by (rule admit_unmeasured [OF Cons.prems])
  then show ?case using Cons by (auto split: option.splits prod.splits sum.splits) (metis snd_conv)+
qed simp

lemma tick_unmeasured: "tick R g = Some (r, g') \<Longrightarrow> unmeasured g g'"
proof -
  assume t: "tick R g = Some (r, g')"
  let ?h = "advance_tenant_starvation R (now g) (now_next g)"
  obtain q a where a: "admit_loop R (queued_ids ?h) ?h = (q, a)" by fastforce
  have "unmeasured g ?h" by (simp add: advance_tenant_starvation_def)
  then have "unmeasured g a" using admit_loop_unmeasured a by (metis snd_conv)
  then show ?thesis using t a by (auto simp: tick_def Let_def split: sum.splits option.splits prod.splits)
qed

lemma list_resources_unmeasured: "unmeasured g (snd (list_resources R g))"
proof -
  have "unmeasured g h \<Longrightarrow> unmeasured g (snd (list_resources_loop R rs h))" for rs h
  proof (induction rs arbitrary: h)
    case (Cons r rs)
    then have "unmeasured g (snd (staleness_of R h r))" by (simp add: staleness_of_def)
    then show ?case using Cons.IH by (auto simp: Let_def split: prod.splits sum.splits) (metis snd_conv)+
  qed simp
  then show ?thesis by (auto simp: list_resources_def split: prod.splits sum.splits) (metis snd_conv unmeasured_refl)+
qed

lemma save_unmeasured: "unmeasured g (snd (save R g))" "save_file R os path g d = (r, g', d') \<Longrightarrow> unmeasured g g'"
proof -
  show s: "unmeasured g (snd (save R g))" by (simp add: save_def build_snapshot_def Let_def)
  show "save_file R os path g d = (r, g', d') \<Longrightarrow> unmeasured g g'"
    using s by (auto simp: save_file_def split: prod.splits sum.splits)
qed

text \<open>A run in which a worker asks to be registered.\<close>

definition registers :: "trace \<Rightarrow> bool" where
  "registers tr \<longleftrightarrow> (\<exists>x \<in> set tr. \<exists>conn fr readable. snd x = Handle conn fr readable \<and> df_type fr = Register)"

lemma on_gov_unmeasured: "(\<And>g. unmeasured g (snd (h g))) \<Longrightarrow> unmeasured (sv_gov sv) (sv_gov (snd (on_gov h sv)))"
  by (auto simp: on_gov_def split: prod.splits) (metis snd_conv)

lemma handle_unmeasured:
  assumes "df_type fr \<noteq> Register" "df_type fr = Load \<longrightarrow> \<not> readable"
  shows "unmeasured (sv_gov sv) (sv_gov (snd (handle_request R os readable conn fr sv)))"
proof -
  have "unmeasured g (snd (handle_submit R body g))" "unmeasured g (snd (handle_progress body g))"
    "unmeasured g (snd (handle_completion R body g))" for g body
    using submit_unmeasured report_unmeasured
    by (auto simp: handle_submit_def handle_progress_def handle_completion_def split: sum.splits prod.splits) (metis snd_conv)+
  moreover have "unmeasured g (snd (handle_query_resources R g))" "unmeasured g (snd (handle_snapshot R g))" for g
    using list_resources_unmeasured [of g R] save_unmeasured(1) [of g R]
    by (auto simp: handle_query_resources_def handle_snapshot_def split: prod.splits)
  moreover have "unmeasured (sv_gov sv) (sv_gov (snd (handle_save R os sv)))"
    using save_unmeasured(2) by (auto simp: handle_save_def split: prod.splits)
  moreover have "df_type fr = Load \<Longrightarrow> unmeasured (sv_gov sv) (sv_gov (snd (handle_load R readable sv)))"
    using assms(2) by (simp add: handle_load_def load_file_def)
  ultimately show ?thesis using assms(1)
    by (auto simp: handle_request_def Let_def on_gov_unmeasured split: WireType.splits)
qed

lemma served_unmeasured:
  assumes "coord_run R c tr c'" "\<not> registers tr" "\<not> loads tr"
  shows "unmeasured (co_gov c) (co_gov c')"
  using assms
proof (induction rule: coord_run.induct)
  case (go c e c1 tr c2)
  have "unmeasured (co_gov c) (co_gov c1)"
    using go(1)
  proof (cases rule: coord_step.cases)
    case (request conn fr os readable out sv)
    then have "df_type fr = Load \<longrightarrow> \<not> readable" using go.prems by (auto simp: replaces_state_def)
    then show ?thesis
      using request handle_unmeasured [of fr readable "co_server c" R os conn] handle_frame_server [of R os readable conn fr "co_server c"] by simp
  next
    case (tick r g)
    then show ?thesis using tick_unmeasured by simp
  qed (use go.prems in \<open>simp_all add: registers_def publish_worker_def disconnect_def\<close>)
  moreover have "unmeasured (co_gov c1) (co_gov c2)" using go by (simp add: registers_def)
  ultimately show ?case by (rule unmeasured_trans)
qed simp

section \<open>Expired capacity\<close>

text \<open>Every reading of the clock from now on is later than the last measurement of the resource by the window.\<close>

definition expired :: "gov \<Rightarrow> ResRT \<Rightarrow> bool" where
  "expired g r \<longleftrightarrow> g_auto_clock g \<and>
     (\<exists>l w m. rr_last_ms r = Fin l \<and> l \<noteq> 0 \<and> rr_measured r = Fin m \<and> policy_window g = Fin w \<and> 0 < w \<and>
        (\<forall>k \<ge> g_wall_pos g. \<exists>t. g_wall g k = Fin t \<and> l + w \<le> t))"

lemma expired_governed:
  assumes "expired g r" "later g h" "is_valid_rate (cap_value (rs_nominal (rr_spec r)))"
  shows "rr_governed (governed_resource (\<lambda>x. x) h (fst (staleness_of (\<lambda>x. x) h r)) r) = f0"
proof -
  have same: "g_auto_clock h = g_auto_clock g" "g_wall h = g_wall g" "policy_window h = policy_window g"
    using assms(2) same_core_frame [of g h] by (simp_all add: later_def policy_window_def)
  obtain l w m where r: "rr_last_ms r = Fin l" "l \<noteq> 0" "rr_measured r = Fin m" "policy_window g = Fin w" "0 < w"
    "g_auto_clock g" "\<forall>k \<ge> g_wall_pos g. \<exists>t. g_wall g k = Fin t \<and> l + w \<le> t"
    using assms(1) by (auto simp: expired_def)
  moreover have "g_wall_pos g \<le> g_wall_pos h" using assms(2) by (simp add: later_def)
  ultimately obtain t where t: "g_wall h (g_wall_pos h) = Fin t" "l + w \<le> t" using same(2) by auto
  have st: "fst (staleness_of (\<lambda>x. x) h r) = fl (\<lambda>x. x) (t - l)"
    using r(1,2,6) t(1) same by (simp add: staleness_of_def feq_def now_def fsub_def)
  have "w \<le> t - l" using t(2) by simp
  then have "fl (\<lambda>x. x) (t - l) = PInf \<or> (\<exists>s. fl (\<lambda>x. x) (t - l) = Fin s \<and> w \<le> s)"
    using r(5) dbl_max_pos by (cases "dbl_max < t - l") (auto simp: fl_def Let_def)
  then have "freshness_of (\<lambda>x. x) (fl (\<lambda>x. x) (t - l)) (Fin w) = f0"
  proof
    assume "fl (\<lambda>x. x) (t - l) = PInf"
    then show ?thesis using r(5) by (simp add: freshness_of_def Let_def)
  next
    assume "\<exists>s. fl (\<lambda>x. x) (t - l) = Fin s \<and> w \<le> s"
    then obtain s where s: "fl (\<lambda>x. x) (t - l) = Fin s" "w \<le> s" by blast
    define q where "q = s / w"
    have "1 \<le> q" using s(2) r(5) by (simp add: q_def)
    moreover have "fdiv (\<lambda>x. x) (Fin s) (Fin w) = fl (\<lambda>x. x) q" using r(5) by (simp add: q_def)
    ultimately have "fdiv (\<lambda>x. x) (Fin s) (Fin w) = PInf \<or> (\<exists>q. fdiv (\<lambda>x. x) (Fin s) (Fin w) = Fin q \<and> 1 \<le> q)"
      using dbl_max_pos by (auto simp: fl_def Let_def simp del: fdiv.simps)
    then show ?thesis using s(1) r(5) by (auto simp: freshness_of_def Let_def simp del: fdiv.simps)
  qed
  moreover obtain n where "cap_value (rs_nominal (rr_spec r)) = Fin n" using assms(3) by (auto simp: is_valid_rate_iff)
  ultimately show ?thesis
    using st r(3,4) same(3) dbl_max_pos
    by (simp add: governed_resource_def governed_of_def policy_window_def Let_def fl_def kMaxRate_def)
qed

lemma expired_tick_base:
  assumes "expired g r" "map_of (g_resources g) rid = Some r" "is_valid_rate (cap_value (rs_nominal (rr_spec r)))"
  shows "governed_at (g_resources (tick_base (\<lambda>x. x) g)) rid = Some f0"
proof -
  let ?q = "snd (tick_queue (\<lambda>x. x) g)"
  have q: "g_resources ?q = g_resources g" by (simp add: tick_queue_def Let_def frame_simps advance_tenant_starvation_def)
  have "unmeasured g ?q"
    unfolding tick_queue_def Let_def by (rule admit_loop_unmeasured) (simp add: advance_tenant_starvation_def)
  then have "expired ?q r" using assms(1) by (auto simp: expired_def unmeasured_def policy_window_def)
  moreover obtain h where "later ?q h" "map_of (g_resources (recompute_governed (\<lambda>x. x) ?q)) rid =
      Some (governed_resource (\<lambda>x. x) h (fst (staleness_of (\<lambda>x. x) h r)) r)"
    using recompute_governed_lookup [of ?q rid r "\<lambda>x. x"] assms(2) q by auto
  ultimately have "governed_at (g_resources (recompute_governed (\<lambda>x. x) ?q)) rid = Some f0"
    using expired_governed [OF _ _ assms(3)] by (simp add: governed_at_def)
  moreover have "governed_at (g_resources (recompute_reserved R h)) = governed_at (g_resources h)" for R h
    by (simp add: recompute_reserved_def governed_at_foldl governed_at_map_vals)
  ultimately show ?thesis by (simp add: tick_base_def)
qed

text \<open>
  Property C21. Behind the server capacity runs out. Requests, reports, queries, the scheduler and lost connections never
  renew the time of the last measurement of a resource, in whatever order the threads run; only a registration does,
  and a state that is loaded. So in a run without these, once the window of the policy (two seconds by
  default) has passed since a resource was added or its worker registered, the next tick of the coordinator
  governs it at zero, and the flows that cross it together get no more than the tolerance of the water-fill, a
  billionth of a byte per second: in exact arithmetic and under a policy whose weights are not vanishing
  (\<open>sane_policy\<close>).
\<close>

theorem served_capacity_expires:
  assumes "reachable (\<lambda>x. x) (co_gov c)" "coord_run (\<lambda>x. x) c tr c'" "\<not> registers tr" "\<not> loads tr"
    and "map_of (g_resources (co_gov c)) rid = Some r" "expired (co_gov c') r"
    and "sane_policy (cfg_policy (g_config (co_gov c)))" "length (g_flows (co_gov c')) < 2 ^ 64"
    and "gen_draws (g_gen (co_gov c')) + length (g_flows (co_gov c')) \<le> 2 ^ 64"
  shows "\<exists>g r'. tick (\<lambda>x. x) (co_gov c') = Some (Inr (), g) \<and> map_of (g_resources g) rid = Some r' \<and>
    rr_governed r' = f0 \<and> granted_on g rid \<le> eps"
proof -
  let ?g = "co_gov c'" let ?b = "tick_base (\<lambda>x. x) ?g"
  have un: "unmeasured (co_gov c) ?g" by (rule served_unmeasured [OF assms(2-4)])
  then obtain r1 where r1: "map_of (g_resources ?g) rid = Some r1" "rr_last_ms r1 = rr_last_ms r" "rr_measured r1 = rr_measured r"
    using assms(5) by (auto simp: unmeasured_def stamp_at_def fun_eq_iff dest!: spec [of _ rid])
  have ex: "expired ?g r1" using assms(6) r1(2,3) by (simp add: expired_def)
  have "reachable (\<lambda>x. x) ?g" by (rule coord_run_reachable [OF exact.rounding_axioms assms(2,4,1)])
  then have inv: "inv_core (\<lambda>x. x) ?g" "all_res (nominal_ok (\<lambda>x. x)) (g_resources ?g)"
    using reachable_inv [OF exact.rounding_axioms] assms(9) by (auto simp: gov_inv_def)
  have sane: "sane_policy (cfg_policy (g_config ?g))" using un assms(7) by (simp add: unmeasured_def)
  have d: "gen_draws (g_gen ?b) \<le> 2 ^ 64" using tick_base_draws [of "\<lambda>x. x" ?g] assms(9) by simp
  obtain gm where gm: "grant_loop (\<lambda>x. x) (g_resources ?b) (contention_of (\<lambda>x. x) ?b (now ?g)) [] = Some gm"
    "tick (\<lambda>x. x) ?g = Some (Inr (), tick_settle (\<lambda>x. x) ?b (now ?g) gm)"
    using tick_returns_aux [OF inv sane assms(8) d] by blast
  have "is_valid_rate (cap_value (rs_nominal (rr_spec r1)))"
    using all_res_lookup [OF inv(2) r1(1)] by (simp add: nominal_ok_def rate_ok_def)
  then have "governed_at (g_resources (tick_settle (\<lambda>x. x) ?b (now ?g) gm)) rid = Some f0"
    using expired_tick_base [OF ex r1(1)] unfolding tick_settle_def governed_at_usage by simp
  then obtain r' where r': "map_of (g_resources (tick_settle (\<lambda>x. x) ?b (now ?g) gm)) rid = Some r'" "rr_governed r' = f0"
    by (auto simp: governed_at_def)
  then show ?thesis using gm(2) settle_granted_le [OF inv sane assms(8) d gm(1) r'(1)] by auto
qed

text \<open>A coordinator five seconds after its only resource was added.\<close>

definition aged_gov :: gov where
  "aged_gov = snd (add_resource (\<lambda>x. x) demo_rspec (Governor_init
     \<lparr>cfg_policy = PolicyConfig_default, cfg_id_salt = 1, cfg_auto_clock = True\<rparr> (\<lambda>n. of_nat n)
     (\<lambda>k. if k = 0 then Fin 1 else Fin 5001)))"

lemma aged_gov_eq:
  "map_option (\<lambda>r. (rr_last_ms r, rr_measured r)) (map_of (g_resources aged_gov) demo_rid) = Some (Fin 1, f0)"
  "g_auto_clock aged_gov" "g_wall_pos aged_gov = 2" "g_wall aged_gov = (\<lambda>k. if k = 0 then Fin 1 else Fin 5001)"
  "cfg_policy (g_config aged_gov) = PolicyConfig_default" "g_flows aged_gov = []" "gen_draws (g_gen aged_gov) = 3"
  by (simp_all add: aged_gov_def add_resource_def eval_defs)

definition aged_coord :: coord where
  "aged_coord = \<lparr>co_server = \<lparr>sv_gov = aged_gov, sv_workers = [], sv_dispatched = [], sv_disk = Map.empty\<rparr>, co_sched = Sleeping,
     co_conns = \<lambda>_. Receiving\<rparr>"

theorem served_capacity_expires_witness:
  "\<exists>c g r. coord_run (\<lambda>x. x) aged_coord [(aged_coord, Listing []), (aged_coord\<lparr>co_sched := Visiting [] []\<rparr>, Hangup 7)] c \<and>
    tick (\<lambda>x. x) (co_gov c) = Some (Inr (), g) \<and> map_of (g_resources g) demo_rid = Some r \<and>
    rr_governed r = f0 \<and> granted_on g demo_rid \<le> eps"
proof -
  have "gov_reaches (\<lambda>x. x) (Governor_init \<lparr>cfg_policy = PolicyConfig_default, cfg_id_salt = 1, cfg_auto_clock = True\<rparr>
      (\<lambda>n. of_nat n) (\<lambda>k. if k = 0 then Fin 1 else Fin 5001)) aged_gov"
    unfolding aged_gov_def by (intro reaches_step gov_step.add_resource demo_request_ok(2))
  then have reach: "reachable (\<lambda>x. x) (co_gov aged_coord)" by (auto simp: reachable_def aged_coord_def)
  obtain r where r: "map_of (g_resources aged_gov) demo_rid = Some r" "rr_last_ms r = Fin 1" "rr_measured r = f0"
    using aged_gov_eq(1) by auto
  let ?c1 = "aged_coord\<lparr>co_sched := Visiting [] []\<rparr>"
  let ?c2 = "at_conn 7 Finished (?c1\<lparr>co_server := disconnect 7 (co_server ?c1)\<rparr>)"
  let ?tr = "[(aged_coord, Listing []), (?c1, Hangup 7)]"
  have "coord_step (\<lambda>x. x) aged_coord (Listing []) ?c1"
    by (rule coord_step.listing) (simp_all add: aged_coord_def list_flows_def aged_gov_eq)
  moreover have "coord_step (\<lambda>x. x) ?c1 (Hangup 7) ?c2" by (rule coord_step.hangup) (simp add: aged_coord_def)
  ultimately have run: "coord_run (\<lambda>x. x) aged_coord ?tr ?c2" by (auto simp: coord_run_Cons)
  have ok: "co_gov ?c2 = aged_gov" "co_gov aged_coord = aged_gov" "\<not> registers ?tr" "\<not> loads ?tr"
    by (simp_all add: disconnect_def aged_coord_def registers_def replaces_state_def)
  have "expired aged_gov r"
    using r by (auto simp: expired_def aged_gov_eq policy_window_def PolicyConfig_default_def flit_def fl_small)
  then have "\<exists>g r'. tick (\<lambda>x. x) (co_gov ?c2) = Some (Inr (), g) \<and> map_of (g_resources g) demo_rid = Some r' \<and>
      rr_governed r' = f0 \<and> granted_on g demo_rid \<le> eps"
    by (intro served_capacity_expires [OF reach run ok(3,4)])
      (use r(1) in \<open>simp_all only: ok, simp_all add: aged_gov_eq default_policy_sane\<close>)
  then show ?thesis using run by blast
qed

end
