(* ===== verification/Examples.thy ===== *)
theory Examples
  imports Cli_Properties Governor_Overcommit
begin

text \<open>
  The runnable scenarios of \<^verbatim>\<open>examples/examples.cpp\<close> and the program \<^verbatim>\<open>consumer/main.cpp\<close> that links the library. A
  scenario is an action over the governor of its \<^verbatim>\<open>World\<close> that returns what is printed; what a scenario had printed before
  an exception ended the process is not kept.
\<close>

section \<open>The world\<close>

definition world_config :: GovernorConfig where
  "world_config = \<lparr>cfg_policy = PolicyConfig_default, cfg_id_salt = 123, cfg_auto_clock = False\<rparr>"

definition world_add :: "(rat \<Rightarrow> rat) \<Rightarrow> u64 \<Rightarrow> ResourceClass \<Rightarrow> rat \<Rightarrow> unit act" where
  "world_add R rid cls nominal =
     act_bind (act_of (cli_resource R rid cls ''gpu0'' ''host'' nominal)) (cli_add_resource R)"

definition world_setup :: "(rat \<Rightarrow> rat) \<Rightarrow> unit act" where
  "world_setup R =
     act_seq [act_set (set_auto_clock False), act_set (advance_ms R f0),
              world_add R 1 Pcie 1000000000, world_add R 2 Nvlink 1000000000, cli_add_path 1 [1], cli_add_path 2 [2]]"

definition world_flow ::
    "(rat \<Rightarrow> rat) \<Rightarrow> u64 \<Rightarrow> u64 \<Rightarrow> rat \<Rightarrow> rat \<Rightarrow> u64 \<Rightarrow> u64 \<Rightarrow> u32 \<Rightarrow> LatencyClass \<Rightarrow> rat \<Rightarrow> u64 \<Rightarrow> FlowSpec result" where
  "world_flow R t w lo hi path n prio lc deadline burst =
     rbind (Capacity_make (flit R lo)) (\<lambda>cmin.
     rbind (Capacity_make (flit R hi)) (\<lambda>cpref.
     rbind (Capacity_make (flit R hi)) (\<lambda>cmax.
       Inr (FlowSpec_default\<lparr>
         fs_id := Id128 0 n, fs_tenant := Id128 0 t, fs_workload := Id128 0 w, fs_attempt := Id128 0 n,
         fs_generation := fresh_generation n, fs_source := ''gpu0'', fs_destination := ''host'', fs_path := Id128 0 path,
         fs_byte_count := 4194304, fs_requested_min := cmin, fs_requested_preferred := cpref, fs_requested_max := cmax,
         fs_priority := prio, fs_latency_class := lc, fs_deadline_seconds := flit R deadline, fs_burst_bytes := burst\<rparr>))))"

text \<open>\<^verbatim>\<open>w.g.submit_flow(w.flow(...))\<close> with the arguments the scenarios give; the result is not used.\<close>

definition world_submit ::
    "(rat \<Rightarrow> rat) \<Rightarrow> u64 \<Rightarrow> u64 \<Rightarrow> rat \<Rightarrow> rat \<Rightarrow> u64 \<Rightarrow> u64 \<Rightarrow> u32 \<Rightarrow> LatencyClass \<Rightarrow> rat \<Rightarrow> unit act" where
  "world_submit R t w lo hi path n prio lc deadline =
     act_bind (act_of (world_flow R t w lo hi path n prio lc deadline 0)) (\<lambda>spec.
     act_bind (act_do (submit_flow R spec)) (\<lambda>_. act_of (Inr ())))"

section \<open>What is printed\<close>

definition grid_resource :: "fmt \<Rightarrow> ResourceSnapshot \<Rightarrow> string" where
  "grid_resource fmt r =
     ''      '' @ resource_class_name (rn_class r) @ '' nominal='' @ fmt ''%.0f'' (cap_value (rn_nominal r)) @ '' governed='' @
     fmt ''%.0f'' (cap_value (rn_governed r)) @ '' reserved='' @ fmt ''%.0f'' (cap_value (rn_reserved r)) @ '' allocated='' @
     fmt ''%.0f'' (cap_value (rn_allocated r)) @ '' saturated='' @ yes_no (rn_saturated r) @ newline"

definition grid_flow :: "fmt \<Rightarrow> FlowSnapshot \<Rightarrow> string" where
  "grid_flow fmt f =
     ''      tenant='' @ id_to_string (fs_tenant (fn_spec f)) @ '' state='' @ flow_state_name (fn_state f) @ '' grant='' @
     fmt ''%.0f'' (cap_value (fn_granted f)) @ '' B/s'' @ newline"

definition act_list_flows :: "FlowSnapshot list act" where
  "act_list_flows g = act_of (list_flows g) g"

definition dump_grid :: "(rat \<Rightarrow> rat) \<Rightarrow> fmt \<Rightarrow> string act" where
  "dump_grid R fmt =
     act_bind (act_do (list_resources R)) (\<lambda>rs.
     act_bind act_list_flows (\<lambda>fs.
       act_of (Inr (''    resources:'' @ newline @ concat (map (grid_resource fmt) rs) @ ''    flows:'' @ newline @
         concat (map (grid_flow fmt) fs)))))"

section \<open>The scenarios\<close>

text \<open>Every scenario submits flows, lets a millisecond pass, ticks and shows the grid.\<close>

definition scenario_steps :: "(rat \<Rightarrow> rat) \<Rightarrow> unit act list \<Rightarrow> unit act" where
  "scenario_steps R flows = act_seq (flows @ [act_set (advance_ms R f1), tick R])"

definition scenario_shown :: "(rat \<Rightarrow> rat) \<Rightarrow> fmt \<Rightarrow> string \<Rightarrow> unit act list \<Rightarrow> string act" where
  "scenario_shown R fmt title flows =
     act_bind (scenario_steps R flows) (\<lambda>_.
     act_bind (dump_grid R fmt) (\<lambda>grid. act_of (Inr (title @ newline @ grid))))"

definition simple_flows :: "(rat \<Rightarrow> rat) \<Rightarrow> unit act list" where
  "simple_flows R = [world_submit R 1 1 0 500000000 1 1 0 BestEffort 0]"

definition fairness_flows :: "(rat \<Rightarrow> rat) \<Rightarrow> unit act list" where
  "fairness_flows R =
     [world_submit R 1 1 0 800000000 1 1 0 BestEffort 0, world_submit R 2 2 0 800000000 1 2 0 BestEffort 0]"

definition priority_flows :: "(rat \<Rightarrow> rat) \<Rightarrow> unit act list" where
  "priority_flows R =
     [world_submit R 1 1 0 900000000 1 1 0 BestEffort 0, world_submit R 2 2 0 900000000 1 2 10 LatencySensitive 0]"

definition deadline_flows :: "(rat \<Rightarrow> rat) \<Rightarrow> unit act list" where
  "deadline_flows R =
     [world_submit R 1 1 0 950000000 1 1 0 LatencySensitive (1 / 2),
      world_submit R 2 2 0 950000000 1 2 0 ThroughputOriented 50]"

definition mingar_flows :: "(rat \<Rightarrow> rat) \<Rightarrow> unit act list" where
  "mingar_flows R =
     [world_submit R 1 1 400000000 900000000 1 1 0 BestEffort 0, world_submit R 2 2 0 600000000 1 2 0 BestEffort 0]"

definition maxcap_flows :: "(rat \<Rightarrow> rat) \<Rightarrow> unit act list" where
  "maxcap_flows R = map (\<lambda>i. world_submit R 1 1 0 50000000 1 i 0 BestEffort 0) [1, 2, 3, 4, 5, 6, 7, 8, 9, 10, 11, 12]"

definition multilink_flows :: "(rat \<Rightarrow> rat) \<Rightarrow> unit act list" where
  "multilink_flows R =
     [cli_add_path 3 [1, 2], world_submit R 1 1 0 800000000 3 1 0 BestEffort 0,
      world_submit R 2 2 0 800000000 1 2 0 BestEffort 0]"

definition independent_flows :: "(rat \<Rightarrow> rat) \<Rightarrow> unit act list" where
  "independent_flows R =
     [world_submit R 1 1 0 800000000 1 1 0 BestEffort 0, world_submit R 2 2 0 800000000 2 2 0 BestEffort 0]"

definition throttle_flows :: "(rat \<Rightarrow> rat) \<Rightarrow> unit act list" where
  "throttle_flows R =
     [world_submit R 1 1 0 900000000 1 1 10 LatencySensitive 0, world_submit R 2 2 0 900000000 1 2 0 BestEffort 0]"

definition persistence_flows :: "(rat \<Rightarrow> rat) \<Rightarrow> unit act list" where
  "persistence_flows R = [world_submit R 1 1 0 300000000 1 1 0 BestEffort 0]"

text \<open>The analysis that \<^verbatim>\<open>multilink\<close> prints before the grid.\<close>

definition multilink_analysis :: "fmt \<Rightarrow> PathAnalysis option \<Rightarrow> string" where
  "multilink_analysis fmt a =
     (case a of
        None \<Rightarrow> []
      | Some a \<Rightarrow> ''    multi-link bottleneck feasible='' @ fmt ''%.0f'' (cap_value (pa_feasible a)) @ '' saturated='' @
          yes_no (pa_saturated a) @ newline)"

definition act_analyze :: "(rat \<Rightarrow> rat) \<Rightarrow> PathId \<Rightarrow> PathAnalysis option act" where
  "act_analyze R pid g = act_of (analyze_path R pid g) g"

definition multilink :: "(rat \<Rightarrow> rat) \<Rightarrow> fmt \<Rightarrow> string act" where
  "multilink R fmt =
     act_bind (scenario_steps R (multilink_flows R)) (\<lambda>_.
     act_bind (act_analyze R (Id128 0 3)) (\<lambda>a.
     act_bind (dump_grid R fmt) (\<lambda>grid.
       act_of (Inr (''[multilink] shared bottleneck multi-link path'' @ newline @ multilink_analysis fmt a @ grid)))))"

text \<open>\<open>g2\<close> is the second governor, as it is constructed; with the text come the governor and the disk.\<close>

definition persistence ::
    "(rat \<Rightarrow> rat) \<Rightarrow> disk_answers \<Rightarrow> bool \<Rightarrow> gov \<Rightarrow> disk \<Rightarrow> gov \<Rightarrow> (string result \<times> gov \<times> disk) option" where
  "persistence R os readable g2 d g =
     (case scenario_steps R (persistence_flows R) g of
        None \<Rightarrow> None
      | Some (Inl e, g) \<Rightarrow> Some (Inl e, g, d)
      | Some (Inr _, g) \<Rightarrow>
          (case save_file R os ''example_state.bin'' g d of
             (Inl e, g, d) \<Rightarrow> Some (Inl e, g, d)
           | (Inr _, g, d) \<Rightarrow>
               (case load_file R readable ''example_state.bin'' d g2 of
                  (Inl e, _) \<Rightarrow> Some (Inl e, g, d)
                | (Inr _, g2) \<Rightarrow>
                    Some (rbind (list_flows g2) (\<lambda>fs. Inr (''[persistence] save + recover'' @ newline @ ''    recovered flows='' @
                      decimal (length fs) @ newline)), g, d))))"

text \<open>The slices of \<^verbatim>\<open>cuda\<close>: \<open>n\<close> steps of a mebibyte; the sum of the bytes moved.\<close>

fun cuda_slices :: "'s Backend \<Rightarrow> FlowId \<Rightarrow> nat \<Rightarrow> u64 \<Rightarrow> 's \<Rightarrow> u64 \<times> 's" where
  "cuda_slices be fid 0 moved s = (moved, s)"
| "cuda_slices be fid (Suc n) moved s =
     (case be_step be fid 1048576 f1 s of (m, s) \<Rightarrow> cuda_slices be fid n (moved + m) s)"

text \<open>What the scenario does with a backend: the bytes moved, and the backend after \<^verbatim>\<open>cancel\<close>.\<close>

definition cuda_transfer :: "'s Backend \<Rightarrow> 's \<Rightarrow> u64 \<times> 's" where
  "cuda_transfer be s =
     (let spec = FlowSpec_default\<lparr>fs_id := Id128 0 1, fs_byte_count := 8388608\<rparr>;
          (moved, s) = cuda_slices be (fs_id spec) 8 0 (be_submit be spec s)
      in (moved, be_cancel be (fs_id spec) s))"

definition example_cuda :: "'r cuda_runtime \<Rightarrow> 'r \<Rightarrow> string result" where
  "example_cuda api r =
     (case cuda_backend_available api r of
        (False, r) \<Rightarrow> Inr (''[cuda] real host<->device transfer governance'' @ newline @
                           ''    (CUDA unavailable - synthetic only)'' @ newline)
      | (True, r) \<Rightarrow>
          rbind (make_cuda_backend api ResourceSpec_default r) (\<lambda>s.
            Inr (''[cuda] real host<->device transfer governance'' @ newline @ ''    moved '' @
              decimal (unat (fst (cuda_transfer (cuda_backend api) s))) @
              '' bytes in 8 bounded slices; payload integrity verified'' @ newline)))"

definition examples_table :: "(rat \<Rightarrow> rat) \<Rightarrow> fmt \<Rightarrow> (string \<times> string act) list" where
  "examples_table R fmt =
     [(''simple'', scenario_shown R fmt ''[simple] single-link arbitration'' (simple_flows R)),
      (''fairness'', scenario_shown R fmt ''[fairness] weighted tenant fairness'' (fairness_flows R)),
      (''priority'', scenario_shown R fmt ''[priority] priority vs fairness'' (priority_flows R)),
      (''deadline'', scenario_shown R fmt ''[deadline] deadline-sensitive flow'' (deadline_flows R)),
      (''minguarantee'', scenario_shown R fmt ''[minguarantee] minimum-guarantee reservation'' (mingar_flows R)),
      (''maxcap'', scenario_shown R fmt ''[maxcap] maximum-rate cap'' (maxcap_flows R)),
      (''multilink'', multilink R fmt),
      (''independent'', scenario_shown R fmt ''[independent] disjoint paths independence'' (independent_flows R)),
      (''throttle'', scenario_shown R fmt ''[throttle] throttling / backpressure'' (throttle_flows R))]"

definition known_scenarios :: string where
  "known_scenarios =
     ''known scenarios: simple fairness priority deadline minguarantee maxcap multilink independent throttle persistence cuda'' @ newline"

text \<open>
  \<^verbatim>\<open>main\<close>. \<open>rng\<close>, \<open>wall\<close> are the random numbers and the clock of the governor of the world, \<open>g2\<close> the second governor of the
  persistence scenario, \<open>api\<close> and \<open>r\<close> the CUDA runtime.
\<close>

definition examples_main ::
    "(rat \<Rightarrow> rat) \<Rightarrow> fmt \<Rightarrow> disk_answers \<Rightarrow> bool \<Rightarrow> 'r cuda_runtime \<Rightarrow> 'r \<Rightarrow> (nat \<Rightarrow> u64) \<Rightarrow> (nat \<Rightarrow> f64) \<Rightarrow> gov \<Rightarrow> string list \<Rightarrow>
      disk \<Rightarrow> cli_end" where
  "examples_main R fmt os readable api r rng wall g2 argv d =
     (let which = (if 1 < length argv then argv ! 1 else ''simple''); init = Governor_init world_config rng wall
      in case map_of (examples_table R fmt) which of
           Some scenario \<Rightarrow> cli_finish (act_bind (world_setup R) (\<lambda>_. scenario)) (\<lambda>out. out) init d
         | None \<Rightarrow>
             if which = ''persistence''
             then (case world_setup R init of
                     None \<Rightarrow> None
                   | Some (Inl e, g) \<Rightarrow> Some (Terminate, [], g, d)
                   | Some (Inr _, g) \<Rightarrow>
                       (case persistence R os readable g2 d g of
                          None \<Rightarrow> None
                        | Some (Inl e, g, d) \<Rightarrow> Some (Terminate, [], g, d)
                        | Some (Inr out, g, d) \<Rightarrow> Some (Exit 0, out, g, d)))
             else if which = ''cuda''
             then cli_finish (act_bind (world_setup R) (\<lambda>_. act_of (example_cuda api r))) (\<lambda>out. out) init d
             else Some (Exit 2, known_scenarios, init, d))"

section \<open>The consumer\<close>

definition consumer_spec :: "(rat \<Rightarrow> rat) \<Rightarrow> FlowSpec result" where
  "consumer_spec R =
     rbind (Capacity_make (flit R 0)) (\<lambda>cmin.
     rbind (Capacity_make (flit R 200000000)) (\<lambda>cpref.
     rbind (Capacity_make (flit R 200000000)) (\<lambda>cmax.
       Inr (FlowSpec_default\<lparr>
         fs_id := Id128 0 1, fs_tenant := Id128 0 1, fs_workload := Id128 0 1, fs_attempt := Id128 0 1,
         fs_generation := fresh_generation 1, fs_source := ''n'', fs_destination := ''n'', fs_path := Id128 0 1,
         fs_byte_count := 1048576, fs_requested_min := cmin, fs_requested_preferred := cpref, fs_requested_max := cmax\<rparr>))))"

definition consumer_report :: "fmt \<Rightarrow> FlowId \<Rightarrow> FlowSnapshot option \<Rightarrow> int \<times> string" where
  "consumer_report fmt fid fs =
     (case fs of
        None \<Rightarrow> (1, ''consumer: flow not running'' @ newline)
      | Some s \<Rightarrow>
          if fn_state s \<noteq> Running then (1, ''consumer: flow not running'' @ newline)
          else (0, ''consumer: flow '' @ id_to_string fid @ '' running at '' @ fmt ''%.0f'' (cap_value (fn_granted s)) @ '' B/s'' @ newline))"

definition act_flow :: "FlowId \<Rightarrow> FlowSnapshot option act" where
  "act_flow fid g = act_of (flow_query fid g) g"

text \<open>The exit code and what is printed.\<close>

definition consumer :: "(rat \<Rightarrow> rat) \<Rightarrow> fmt \<Rightarrow> (int \<times> string) act" where
  "consumer R fmt =
     act_bind (act_bind (act_of (cli_resource R 1 Pcie ''n'' ''n'' 1000000000)) (cli_add_resource R)) (\<lambda>_.
     act_bind (cli_add_path 1 [1]) (\<lambda>_.
     act_bind (act_of (consumer_spec R)) (\<lambda>spec.
     act_bind (act_do (submit_flow R spec)) (\<lambda>r.
       if \<not> ad_admitted r then act_of (Inr (1, ''consumer: admission failed'' @ newline))
       else act_bind (tick R) (\<lambda>_.
            act_bind (act_flow (fs_id spec)) (\<lambda>fs. act_of (Inr (consumer_report fmt (fs_id spec) fs))))))))"

definition consumer_main :: "(rat \<Rightarrow> rat) \<Rightarrow> fmt \<Rightarrow> (nat \<Rightarrow> u64) \<Rightarrow> (nat \<Rightarrow> f64) \<Rightarrow> disk \<Rightarrow> cli_end" where
  "consumer_main R fmt rng wall d =
     (case consumer R fmt (Governor_init \<lparr>cfg_policy = PolicyConfig_default, cfg_id_salt = 0, cfg_auto_clock = True\<rparr> rng wall) of
        None \<Rightarrow> None
      | Some (Inl e, g) \<Rightarrow> Some (Terminate, [], g, d)
      | Some (Inr (c, out), g) \<Rightarrow> Some (Exit c, out, g, d))"

section \<open>The transfer of the CUDA scenario\<close>

context backend
begin

lemma cuda_slices_moved: "cuda_slices be f n moved s = (case slices be f (replicate n (1048576, f1)) s of (m, s) \<Rightarrow> (moved + m, s))"
  by (induction n arbitrary: moved s) (auto simp: ac_simps split: prod.splits)

text \<open>The count that is printed is at most the size of the flow, and the flow is forgotten at the end.\<close>

lemma cuda_transfer_moved:
  assumes "ok s"
  shows "unat (fst (cuda_transfer be s)) \<le> 8388608" "ok (snd (cuda_transfer be s))" "view (snd (cuda_transfer be s)) (Id128 0 1) = None"
proof -
  let ?spec = "FlowSpec_default\<lparr>fs_id := Id128 0 1, fs_byte_count := 8388608\<rparr>"
  obtain m s' where run: "slices be (Id128 0 1) (replicate 8 (1048576, f1)) (be_submit be ?spec s) = (m, s')" by fastforce
  have "view (be_submit be ?spec s) (Id128 0 1) = Some (8388608, 0)" using submit(2) [OF assms, of ?spec] by simp
  from slices_moved [OF submit(1) [OF assms] this run] have r: "ok s'" "m \<le> 8388608" by simp_all
  have "cuda_transfer be s = (m, be_cancel be (Id128 0 1) s')" using run by (simp add: cuda_transfer_def cuda_slices_moved)
  then show "unat (fst (cuda_transfer be s)) \<le> 8388608" "ok (snd (cuda_transfer be s))" "view (snd (cuda_transfer be s)) (Id128 0 1) = None"
    using r cancel [OF r(1), of "Id128 0 1"] by (simp_all add: word_le_nat_alt)
qed

end

text \<open>So is the count of the shipped backend, on every runtime; it is printed as verified whatever it is.\<close>

lemma cuda_example_moved:
  assumes "make_cuda_backend api ResourceSpec_default r = Inr s"
  shows "unat (fst (cuda_transfer (cuda_backend api) s)) \<le> 8388608"
proof -
  have "cuda_valid s" using assms by (auto simp: make_cuda_backend_def cuda_valid_def split: prod.splits bool.splits)
  then show ?thesis by (rule cuda.cuda_transfer_moved(1))
qed

section \<open>The scenarios run\<close>

text \<open>What is granted on every resource is within its governed capacity, up to the tolerance of the water-fill.\<close>

definition within_capacity :: "gov \<Rightarrow> bool" where
  "within_capacity g \<longleftrightarrow>
     list_all (\<lambda>rid. case map_of (g_resources g) rid of
         None \<Rightarrow> True
       | Some r \<Rightarrow> granted_on g rid \<le> max 0 (fval (rr_governed r)) + eps) (keys (g_resources g))"

text \<open>A governor after at most \<open>n\<close> actions, and the actions that go on from one to the next without throwing.\<close>

definition calm :: "nat \<Rightarrow> gov \<Rightarrow> bool" where
  "calm n g \<longleftrightarrow>
     reachable (\<lambda>x. x) g \<and> sane_policy (cfg_policy (g_config g)) \<and> gen_draws (g_gen g) \<le> n + 3 \<and> length (g_flows g) \<le> n"

definition proceeds :: "unit act \<Rightarrow> bool" where
  "proceeds a \<longleftrightarrow> (\<forall>n g. calm n g \<longrightarrow> (\<exists>g'. a g = Some (Inr (), g') \<and> calm (Suc n) g'))"

lemma calm_init: "cfg_policy cfg = PolicyConfig_default \<Longrightarrow> calm 0 (Governor_init cfg rng wall)"
  unfolding calm_def reachable_def gov_reaches_def
  by (auto simp: Governor_init_def Let_def IdGen_next_def IdGen_next64_def IdGen_seed_def default_policy_sane)

lemma calm_inv: "calm n g \<Longrightarrow> n < 2 ^ 63 \<Longrightarrow> gov_inv (\<lambda>x. x) g"
  by (rule reachable_inv [OF exact.rounding_axioms]) (simp_all add: calm_def)

text \<open>What one action may add: an identity drawn and a flow.\<close>

definition one_more :: "gov \<Rightarrow> gov \<Rightarrow> bool" where
  "one_more g g' \<longleftrightarrow>
     g_config g' = g_config g \<and> gen_draws (g_gen g') \<le> Suc (gen_draws (g_gen g)) \<and> length (g_flows g') \<le> Suc (length (g_flows g))"

lemma proceedsI:
  assumes "moves (\<lambda>x. x) a" "\<And>g. \<exists>g'. a g = Some (Inr (), g') \<and> one_more g g'"
  shows "proceeds a"
  unfolding proceeds_def
proof (intro allI impI)
  fix n g assume calm: "calm n g"
  obtain g' where g': "a g = Some (Inr (), g')" "one_more g g'" using assms(2) by blast
  have "gov_reaches (\<lambda>x. x) g g'" using assms(1) g'(1) unfolding moves_def by blast
  then have "reachable (\<lambda>x. x) g'" using calm gov_reaches_trans unfolding calm_def reachable_def by blast
  then show "\<exists>g'. a g = Some (Inr (), g') \<and> calm (Suc n) g'" using calm g' unfolding calm_def one_more_def by auto
qed

lemma proceeds_seq:
  "list_all proceeds as \<Longrightarrow> calm n g \<Longrightarrow> \<exists>g'. act_seq as g = Some (Inr (), g') \<and> calm (n + length as) g'"
proof (induction as arbitrary: n g)
  case (Cons a as)
  have "proceeds a" "list_all proceeds as" using Cons.prems(1) by simp_all
  then obtain g1 where g1: "a g = Some (Inr (), g1)" "calm (Suc n) g1" using Cons.prems(2) unfolding proceeds_def by blast
  then obtain g2 where "act_seq as g1 = Some (Inr (), g2)" "calm (Suc n + length as) g2"
    using Cons.IH [OF \<open>list_all proceeds as\<close>] by blast
  then show ?case using g1 by (auto simp: act_bind_def)
qed (simp add: act_of_def)

lemma length_update_le: "length (AList.update k v m) \<le> Suc (length m)"
  by (induction m) auto

lemma one_more_add_resource: "one_more g (snd (add_resource R spec g))"
  by (auto simp: one_more_def add_resource_def Let_def frame_simps IdGen_next64_def)

lemma one_more_park:
  "g_config h = g_config g \<Longrightarrow> g_gen h = g_gen g \<Longrightarrow> g_flows h = g_flows g \<Longrightarrow> one_more g (snd (park_flow spec b h))"
  by (simp add: one_more_def park_flow_def Let_def frame_simps length_update_le)

lemma one_more_reserve:
  "g_config h = g_config g \<Longrightarrow> g_gen h = g_gen g \<Longrightarrow> g_flows h = g_flows g \<Longrightarrow> one_more g (snd (reserve_flow R spec hops l b h))"
  by (auto simp: one_more_def reserve_flow_def Let_def frame_simps IdGen_next_def length_update_le split: sum.splits)

lemma one_more_submit: "one_more g (snd (submit_flow R spec g))"
proof -
  have "one_more g g" by (simp add: one_more_def)
  moreover have "g_config (count_submitted spec (recompute_allocated R (recompute_reserved R (recompute_governed R g)))) = g_config g"
    "g_gen (count_submitted spec (recompute_allocated R (recompute_reserved R (recompute_governed R g)))) = g_gen g"
    "g_flows (count_submitted spec (recompute_allocated R (recompute_reserved R (recompute_governed R g)))) = g_flows g"
    by (simp_all add: count_submitted_def Let_def frame_simps)
  ultimately show ?thesis
    by (simp add: submit_flow_def Let_def split_beta one_more_park one_more_reserve split: option.split)
qed

lemma one_more_same: "g_config g' = g_config g \<Longrightarrow> g_gen g' = g_gen g \<Longrightarrow> g_flows g' = g_flows g \<Longrightarrow> one_more g g'"
  by (simp add: one_more_def)

lemma exact_literal: "0 \<le> q \<Longrightarrow> q \<le> 10 ^ 18 \<Longrightarrow> Capacity_make (flit (\<lambda>x. x) q) = Inr (Capacity (Fin q))"
proof -
  assume q: "0 \<le> q" "q \<le> 10 ^ 18"
  have "(10 :: rat) ^ 18 \<le> 10 ^ 300" by (rule power_increasing) simp_all
  then have "\<bar>q\<bar> \<le> dbl_max" using q dbl_max_large by linarith
  then show ?thesis using q by (simp add: flit_def exact.fl_finite Capacity_make_def)
qed

lemma proceeds_clock: "proceeds (act_set (set_auto_clock b))" "proceeds (act_set (advance_ms (\<lambda>x. x) dt))"
  by (rule proceedsI, rule moves_clock, simp add: act_set_def one_more_same set_auto_clock_def advance_ms_def)+

lemma proceeds_add_path: "validate_path (cli_path pid rids) = None \<Longrightarrow> proceeds (cli_add_path pid rids)"
  by (rule proceedsI [OF moves_add_path]) (simp add: cli_add_path_def act_bind_def act_do_def act_of_def add_path_def one_more_same)

lemma proceeds_world_add: "0 \<le> q \<Longrightarrow> q \<le> 10 ^ 18 \<Longrightarrow> proceeds (world_add (\<lambda>x. x) rid cls q)"
  unfolding world_add_def
  by (rule proceedsI [OF exact.moves_resource])
    (simp add: cli_resource_def exact_literal act_bind_def act_of_def cli_add_resource_def act_set_def one_more_add_resource)

lemma world_flow_ok: "world_flow (\<lambda>x. x) t w lo hi path n prio lc dl burst = Inr spec \<Longrightarrow> request_ok (\<lambda>x. x) spec"
  by (auto simp: world_flow_def rbind_eq_Inr_iff request_ok_def exact.literal_ok)

lemma moves_world_submit: "moves (\<lambda>x. x) (world_submit (\<lambda>x. x) t w lo hi path n prio lc dl)"
  unfolding world_submit_def
  by (intro moves_bind_of moves_bind [OF moves_do] moves_of reaches_step gov_step.submit_flow world_flow_ok)

lemma proceeds_world_submit:
  assumes "0 \<le> lo" "lo \<le> 10 ^ 18" "0 \<le> hi" "hi \<le> 10 ^ 18"
  shows "proceeds (world_submit (\<lambda>x. x) t w lo hi path n prio lc dl)"
proof (rule proceedsI [OF moves_world_submit])
  fix g
  obtain spec where spec: "world_flow (\<lambda>x. x) t w lo hi path n prio lc dl 0 = Inr spec"
    using assms by (simp add: world_flow_def exact_literal)
  obtain res where "fst (submit_flow (\<lambda>x. x) spec g) = Inr res"
    using good_step_submit_flow(2) [OF world_flow_ok [OF spec]] by blast
  then show "\<exists>g'. world_submit (\<lambda>x. x) t w lo hi path n prio lc dl g = Some (Inr (), g') \<and> one_more g g'"
    using one_more_submit [of g "\<lambda>x. x" spec] spec
    by (cases "submit_flow (\<lambda>x. x) spec g") (auto simp: world_submit_def act_bind_def act_do_def act_of_def)
qed

lemma world_setup_proceeds: "calm 0 g \<Longrightarrow> \<exists>g'. world_setup (\<lambda>x. x) g = Some (Inr (), g') \<and> calm 6 g'"
  unfolding world_setup_def
  using proceeds_seq [of "[act_set (set_auto_clock False), act_set (advance_ms (\<lambda>x. x) f0), world_add (\<lambda>x. x) 1 Pcie 1000000000,
      world_add (\<lambda>x. x) 2 Nvlink 1000000000, cli_add_path 1 [1], cli_add_path 2 [2]]" 0 g]
  by (simp add: proceeds_clock proceeds_world_add proceeds_add_path validate_path_def cli_path_def fresh_generation_def is_null_def
      eval_nat_numeral)

lemma act_seq_snoc: "act_seq (as @ [a]) g = (case act_seq as g of Some (Inr _, g) \<Rightarrow> act_seq [a] g | r \<Rightarrow> r)"
  by (induction as arbitrary: g) (auto simp: act_bind_def act_of_def split: option.splits sum.splits)

text \<open>A scenario whose actions proceed ends, and leaves what it granted within the capacities.\<close>

lemma scenario_ends:
  assumes "list_all proceeds flows" "length flows < 100"
  shows "\<exists>g. act_bind (world_setup (\<lambda>x. x)) (\<lambda>_. scenario_steps (\<lambda>x. x) flows) (Governor_init world_config rng wall) = Some (Inr (), g) \<and>
    reachable (\<lambda>x. x) g \<and> within_capacity g"
proof -
  obtain g1 where g1: "world_setup (\<lambda>x. x) (Governor_init world_config rng wall) = Some (Inr (), g1)" "calm 6 g1"
    using world_setup_proceeds [OF calm_init, of world_config rng wall] by (auto simp: world_config_def)
  let ?as = "flows @ [act_set (advance_ms (\<lambda>x. x) f1)]"
  obtain g2 where g2: "act_seq ?as g1 = Some (Inr (), g2)" "calm (6 + length ?as) g2"
    using proceeds_seq [OF _ g1(2), of ?as] assms(1) proceeds_clock(2) by auto
  have bound: "6 + length ?as < 2 ^ 63" using assms(2) by simp
  obtain g3 where g3: "tick (\<lambda>x. x) g2 = Some (Inr (), g3)"
    "\<And>rid r. map_of (g_resources g3) rid = Some r \<Longrightarrow> granted_on g3 rid \<le> max 0 (fval (rr_governed r)) + eps"
    using tick_fits [OF calm_inv [OF g2(2) bound]] g2(2) assms(2) by (auto simp: calm_def)
  have "act_seq (?as @ [tick (\<lambda>x. x)]) g1 = Some (Inr (), g3)"
    by (simp only: act_seq_snoc [of ?as] g2(1)) (simp add: g3(1) act_bind_def act_of_def)
  then have run: "act_bind (world_setup (\<lambda>x. x)) (\<lambda>_. scenario_steps (\<lambda>x. x) flows) (Governor_init world_config rng wall) = Some (Inr (), g3)"
    using g1(1) by (simp add: act_bind_def scenario_steps_def)
  have "reachable (\<lambda>x. x) g3"
    using g2(2) g3(1) gov_reaches_trans reaches_step [OF gov_step.tick] unfolding calm_def reachable_def by blast
  moreover have "within_capacity g3" using g3(2) by (auto simp: within_capacity_def list_all_iff split: option.split)
  ultimately show ?thesis using run by blast
qed

text \<open>
  Property C39. The shipped scenarios run. In exact arithmetic, whatever random numbers and wall clock the
  governor of the world is given, the world is built and every scenario submits its flows, advances the
  clock and ticks without an exception and without running on forever; the governor it then shows is a reachable one,
  and what is granted on every link, also on the oversubscribed ones, is within its governed capacity.
\<close>

theorem scenarios_within_capacity:
  "list_all (\<lambda>flows. \<exists>g.
       act_bind (world_setup (\<lambda>x. x)) (\<lambda>_. scenario_steps (\<lambda>x. x) (flows (\<lambda>x. x))) (Governor_init world_config rng wall) = Some (Inr (), g) \<and>
       reachable (\<lambda>x. x) g \<and> within_capacity g)
     [simple_flows, fairness_flows, priority_flows, deadline_flows, mingar_flows, maxcap_flows, multilink_flows,
      independent_flows, throttle_flows, persistence_flows]"
  unfolding list.pred_inject
  by (intro conjI TrueI scenario_ends)
    (simp_all add: simple_flows_def fairness_flows_def priority_flows_def deadline_flows_def mingar_flows_def maxcap_flows_def
      multilink_flows_def independent_flows_def throttle_flows_def persistence_flows_def proceeds_world_submit proceeds_add_path
      validate_path_def cli_path_def fresh_generation_def is_null_def)

end
