(* ===== verification/Spec2Isabelle.thy ===== *)
theory Spec2Isabelle
  imports Governor_Reports Governor_Snapshot Governor_Properties Governor_Fencing Persist_Corruption
    Wire_Frames State_Files Transport_Streams Transport_Server Transport_Dispatch Coordinator Coordinator_Pass Governor_Stranded
    Worker_Transfer Faint_Weights Cli_Properties Sockets Server_Lifecycle Worker_Process Worker_Registration Governor_Staleness Examples
begin

text \<open>
  Bandwidth Governor: a verification library.

  The program is a coordinator that shares the capacity of links, buses and copy engines among
  competing flows. Its core is the class \<^verbatim>\<open>Governor\<close> (\<^verbatim>\<open>src/governor.cpp\<close>), which owns resources, paths, flows,
  reservations and workers behind one mutex. Clients submit flows; \<^verbatim>\<open>tick\<close> admits them, divides every
  resource by a weighted water-fill (\<^verbatim>\<open>src/policy.cpp\<close>) and gives each flow a rate. The state is saved and
  restored through a checksummed format (\<^verbatim>\<open>src/persist.cpp\<close>). \<^verbatim>\<open>CoordinatorServer\<close> (\<^verbatim>\<open>src/transport.cpp\<close>) serves the
  governor over TCP in framed messages (\<^verbatim>\<open>src/wire.cpp\<close>); worker processes (\<^verbatim>\<open>workers/bgworker.cpp\<close>) register,
  receive work, move the bytes through a backend (\<^verbatim>\<open>src/backend.cpp\<close>, \<^verbatim>\<open>src/backend_cuda.cpp\<close>) at the granted
  rate and report. Reports carry an authority, the flow with its attempt, its generation and the boot of the worker,
  so that a former worker process cannot change anything. \<^verbatim>\<open>cli/main.cpp\<close> is the command line, \<^verbatim>\<open>examples/examples.cpp\<close> and
  \<^verbatim>\<open>consumer/main.cpp\<close> are programs over the library.

  \<^bold>\<open>Conventions.\<close> Exceptions are the values \<open>Inl e\<close> of a sum, \<open>Inr\<close> the results; an outer \<open>None\<close> is a computation that
  does not return or whose behaviour C++ leaves undefined. An operation on an object is a function of its
  record that returns the new record also when it throws. Unsigned integers are words of their width.
  An unordered map is an association list in its order of iteration, and the theorems hold for every order. Enumerations
  have a constructor for the numbers that name no enumerator, since the code casts numbers to them.

  \<^bold>\<open>Values.\<close>
  \<^item> \<open>Prelude\<close>: errors, results, containers and the generic lemmas.
  \<^item> \<open>F64\<close>: the type \<^verbatim>\<open>double\<close>. Every operation rounds by a function \<open>R\<close>, an argument. The locale \<open>rounding\<close> has
    the laws the proofs use; it is interpreted by exact arithmetic (\<open>exact\<close>) and by rounding to the
    nearest binary64 number (\<open>ieee\<close>). Theorems that hold for every \<open>R\<close> hold for the program as compiled; those in
    exact arithmetic say so (fairness, no overcommitment).
  \<^item> \<open>Core_Types\<close> (\<^verbatim>\<open>core.hpp\<close>, \<^verbatim>\<open>ids.hpp\<close>, \<^verbatim>\<open>core.cpp\<close>): \<open>Capacity\<close> with its invariant, identities and their generator.
  \<^item> \<open>Resource\<close>, \<open>Flow\<close>, \<open>Path_Model\<close>, \<open>Reservation\<close>, \<open>Explain\<close>: the records, their validation and the
    transition tables of the files of the same names.

  \<^bold>\<open>Allocation\<close> (\<^verbatim>\<open>policy.cpp\<close>).
  \<^item> \<open>Policy\<close>: the allocator, with its loop as \<^const>\<open>while_option\<close>; limits of every grant under any rounding.
  \<^item> \<open>Water_Fill\<close>: in exact arithmetic the loop ends, the grants fit, nothing wanted is left over, and the
    result is the weighted max-min fair division. This is for \<open>tame\<close> entries, whose weights are at least \<open>10 ^ -100\<close>: the code
    has no such bound, and \<open>Faint_Weights\<close> shows, under every rounding, that below it the allocator can hand out the capacity twice.

  \<^bold>\<open>Governor\<close> (\<^verbatim>\<open>governor.hpp\<close>, \<^verbatim>\<open>governor.cpp\<close>).
  \<^item> \<open>Governor_State\<close>: the record \<open>gov\<close> for \<^verbatim>\<open>Governor::Impl\<close> and its private helpers. \<open>Governor_Ops\<close>,
    \<open>Governor_Tick\<close>, \<open>Governor_Authority\<close>, \<open>Governor_Snapshot\<close>: its public operations, one definition each.
  \<^item> \<open>Governor_Frame\<close>, \<open>Governor_Invariant\<close>, \<open>Governor_Resources\<close>, \<open>Governor_Contention\<close>, \<open>Governor_Steps\<close>,
    \<open>Governor_Schedule\<close>, \<open>Governor_Usage\<close>: what the helpers leave alone, the invariant and the relation \<open>good_step\<close>, and
    that every operation respects them.
  \<^item> \<open>Governor_Reach\<close>: the step relation \<open>gov_step\<close> with a rule per public operation that changes the state, except \<^verbatim>\<open>restore\<close>,
    \<^verbatim>\<open>load\<close> and \<^verbatim>\<open>load_file\<close>, which replace the tables; the reachable states, those without a load in their past. The relation
    \<open>gov_move\<close> of \<open>Transport_Server\<close> has all of them. \<open>Governor_Properties\<close>: what holds of all reachable states: live
    reservations belong to live flows, no history is lost, a governor without work holds no capacity, which
    operations do not throw. They hold as long as fewer than \<open>2 ^ 64\<close> identities were drawn, the period of the
    generator. \<open>Governor_Refs\<close>: the path and the reservation a flow refers to exist.
  \<^item> \<open>Governor_Reports\<close>, \<open>Governor_Restart\<close>, \<open>Governor_Fencing\<close>, \<open>Governor_Stranded\<close>: reports, completion at most
    once along every run, restart of a worker with the new reservations of its flows, the first run of a reserved
    flow, and the flows a restart or a loss leaves behind. \<open>Governor_Overcommit\<close>: a tick returns and the
    grants on a resource stay within its governed capacity, under a \<open>sane_policy\<close>, which keeps the weights away from zero and
    which the code does not check. \<open>Governor_Staleness\<close>: behind the server only registrations and loads renew a
    measurement, so the capacity of a resource runs out. \<open>Governor_Demo\<close>, \<open>Governor_Life\<close>: concrete states.

  \<^bold>\<open>Persistence\<close> (\<^verbatim>\<open>persist.hpp\<close>, \<^verbatim>\<open>persist.cpp\<close>, \<^verbatim>\<open>Governor::save_file\<close>).
  \<^item> \<open>Bytes\<close>: sinks and sources, and the locale \<open>codec\<close> (a reader reads back what its writer wrote), interpreted for every
    primitive; \<open>Persist_Codecs\<close> interprets it for every record of the state format of \<open>Persist\<close>.
  \<^item> \<open>Crc\<close>: the table-driven checksum is the bitwise CRC32. \<open>Integrity\<close>, \<open>Persist_Roundtrip\<close>, \<open>Persist_Corruption\<close>: a snapshot
    is decoded to itself; cut, extended or damaged envelopes are refused and a refused load changes nothing.
  \<^item> \<open>State_Files\<close>: a crash of the process at any point of \<^verbatim>\<open>save_file\<close> leaves the old file or what was stored of the new one,
    which is all of it if the temporary file could be opened again.

  \<^bold>\<open>Network\<close> (\<^verbatim>\<open>wire.hpp\<close>, \<^verbatim>\<open>wire.cpp\<close>, \<^verbatim>\<open>transport.hpp\<close>, \<^verbatim>\<open>transport.cpp\<close>).
  \<^item> \<open>Wire\<close>, \<open>Wire_Codecs\<close>, \<open>Wire_Frames\<close>: frames and messages. The locale \<open>message\<close> extends \<open>codec\<close> by the decoder of a
    whole body and is interpreted for each of the twelve bodies.
  \<^item> \<open>Sockets\<close>: the class \<^verbatim>\<open>TcpSocket\<close> and the owner of each descriptor.
  \<^item> \<open>Transport\<close>: frames over a stream, the connection handler, a pass of the scheduler, as functions. \<open>Transport_Streams\<close>: the
    cutting into segments does not matter. \<open>Transport_Server\<close>: whatever arrives, a handler makes moves of the governor,
    and every request is answered once. \<open>Transport_Dispatch\<close>: that a pass does not throw and that a dispatch carries an
    authority that is accepted.
  \<^item> \<open>Coordinator\<close>: the connection threads and the scheduler as the labelled step relation \<open>coord_step\<close>, one step per
    locked region of \<^verbatim>\<open>handle_connection\<close> and \<^verbatim>\<open>scheduler_loop\<close>, with traces of events. Every interleaving refines the governor, and the
    functions of \<open>Transport\<close> are its uninterrupted runs. \<open>Coordinator_Pass\<close>: which messages a pass sends while the other
    threads run.
  \<^item> \<open>Server_Lifecycle\<close>: the threads of the server as the step relations \<open>own_step\<close> and \<open>peer_step\<close>; the locale \<open>joiner\<close>,
    interpreted by \<^verbatim>\<open>stop\<close> and by \<^verbatim>\<open>join\<close>, shows that neither leaves a thread behind, and the property says
    when \<^verbatim>\<open>stop\<close> returns.

  \<^bold>\<open>Workers and commands.\<close>
  \<^item> \<open>Backend\<close>: the locale \<open>backend\<close> states what the virtual functions promise and \<open>prompt_backend\<close> that a slice is
    moved whole. The synthetic backend satisfies both, the CUDA backend the first, for every runtime.
  \<^item> \<open>Worker\<close>, \<open>Worker_Reports\<close>, \<open>Worker_Transfer\<close>: the worker process as a client of these locales: its reports
    are true, it stays within its grant, and a transfer that is dispatched is completed at the coordinator.
  \<^item> \<open>Worker_Process\<close>: the process with its start and its two threads as the step relation \<open>proc_step\<close>; whatever the
    threads do is a run of the loop of \<open>Worker\<close> over the messages of the stream in their order.
  \<^item> \<open>Worker_Registration\<close>: the worker, the network, the threads of the server and the governor composed: registration
    succeeds unless the scheduler writes to the published connection before its acknowledgement, which happens.
  \<^item> \<open>Cli\<close>, \<open>Cli_Properties\<close>: the commands with what they print; each is a run of public operations, loads included.
  \<^item> \<open>Examples\<close>: the scenarios and the consumer with what they print; every scenario ends and stays within the capacities.

  \<^bold>\<open>Bounds and loops.\<close> No definition runs on fuel. The loops of the source are structural recursions over their lists,
  except the water-fill, whose termination is a theorem, and the loops of the threads, which are step relations or
  recursions over what is received. The pacing of a worker needs as many turns as \<open>transfer_completes\<close> states.

  \<^bold>\<open>Parameters.\<close> The readings of the clock, the outputs of the random generator, the answers of the operating system to socket
  and file calls, the CUDA runtime, and the conversions of the C library between doubles and decimal text are
  arguments of the definitions. What is assumed of them is in the statements.

  \<^bold>\<open>Not modelled.\<close> States after a load are outside \<open>reachable\<close>: \<^verbatim>\<open>restore\<close> takes the tables of the file as they are, and the
  properties of reachable states are not claimed for them. The crash of a system: \<^verbatim>\<open>save_file\<close> never syncs, so that bytes it
  wrote may be lost behind its rename; a crash here is one of the process. The file operations of a \<^verbatim>\<open>Save\<close> are one step of the
  coordinator, with arbitrary changes of the files by others around it, and so are the three reads of a registration's
  acknowledgement. In \<open>Server_Lifecycle\<close> a thread that has not ended is blocked in \<^verbatim>\<open>recv\<close> or \<^verbatim>\<open>accept\<close>; one at the head of its
  \<^verbatim>\<open>while (running_)\<close> would leave by itself, so that \<^verbatim>\<open>stop\<close> can return where the model has it wait. \<^verbatim>\<open>std::pow\<close> is taken as
  correctly rounded (\<open>fpow\<close>), which the standard does not promise. The interleaving inside a public operation of the governor
  (its mutex excludes it) and inside the write of a frame (the mutex of the connection); sends that wait for a slow peer; the time that passes while a thread
  sleeps, which appears as the milliseconds of a turn and the readings of the clock; what is written to the error stream, and
  what a program had printed before an exception ended it; the sign of zero; the enumerations \<^verbatim>\<open>AdmissionState\<close>, \<^verbatim>\<open>RetryState\<close>
  and \<^verbatim>\<open>AccountingState\<close>, which nothing uses; and the program \<^verbatim>\<open>benchmarks/bench.cpp\<close>, whose results are times of the machine.
\<close>

end
